(* ===== verification/Mb_Prelude.thy ===== *)
theory Mb_Prelude
  imports "HOL-Library.Word"
begin

text \<open>
  Shared vocabulary of the development: machine integers, byte strings and
  their little-endian encodings, the streams that savestates are written to
  and read from, address ranges (\<^verbatim>\<open>minibox_internal.h\<close>) and
  the generic list facts the components use.
\<close>

unbundle bit_operations_syntax

section \<open>Types and collections\<close>

type_synonym byte = "8 word"
type_synonym u16 = "16 word"
type_synonym u32 = "32 word"
type_synonym u64 = "64 word"
type_synonym bytes = "byte list"

named_theorems mb_codec \<open>encode and decode equations of the stream formats\<close>
named_theorems mb_inv \<open>preservation facts of the component invariants\<close>
named_theorems mb_len \<open>length facts of buffers and tables\<close>

section \<open>Lists\<close>

lemma setcompr_set: "{f x |x. x \<in> set xs \<and> P x} = set (map f (filter P xs))"
  by auto

text \<open>\<open>memcpy (dst + off, src, length src)\<close> on a buffer kept as a list.\<close>

definition put_at :: "'a list \<Rightarrow> nat \<Rightarrow> 'a list \<Rightarrow> 'a list" where
  "put_at dst off src = take off dst @ src @ drop (off + length src) dst"

lemma length_put_at [simp, mb_len]:
  "off + length src \<le> length dst \<Longrightarrow> length (put_at dst off src) = length dst"
  by (simp add: put_at_def)

lemma put_at_Nil [simp]: "put_at dst off [] = dst"
  by (simp add: put_at_def)

lemma take_put_at:
  "off \<le> length dst \<Longrightarrow> take (off + length src) (put_at dst off src) = take off dst @ src"
  by (simp add: put_at_def)

lemma nth_put_at:
  assumes "off + length src \<le> length dst" "i < length dst"
  shows "put_at dst off src ! i =
    (if off \<le> i \<and> i < off + length src then src ! (i - off) else dst ! i)"
  using assms by (auto simp: put_at_def nth_append)

lemma put_at_all: "length src = length dst \<Longrightarrow> put_at dst 0 src = src"
  by (simp add: put_at_def)

text \<open>Index of the first element that satisfies a predicate, the shape of
  every \<open>for (i = 0; i < n; i++) if (P (x[i])) return i;\<close>.\<close>

fun find_index :: "('a \<Rightarrow> bool) \<Rightarrow> 'a list \<Rightarrow> nat option" where
  "find_index P [] = None"
| "find_index P (x # xs) = (if P x then Some 0 else map_option Suc (find_index P xs))"

lemma find_index_None_iff: "find_index P xs = None \<longleftrightarrow> (\<forall>x\<in>set xs. \<not> P x)"
  by (induction xs) auto

lemma find_index_Some_iff:
  "find_index P xs = Some i \<longleftrightarrow> i < length xs \<and> P (xs ! i) \<and> (\<forall>j<i. \<not> P (xs ! j))"
proof (induction xs arbitrary: i)
  case (Cons x xs)
  show ?case
    by (cases i) (auto simp: Cons.IH All_less_Suc2)
qed simp

lemma find_index_SomeD:
  "find_index P xs = Some i \<Longrightarrow> i < length xs \<and> P (xs ! i)"
  by (simp add: find_index_Some_iff)

lemma find_index_append:
  "find_index P (xs @ ys) = (case find_index P xs of Some i \<Rightarrow> Some i
     | None \<Rightarrow> map_option (\<lambda>i. length xs + i) (find_index P ys))"
  by (induction xs) (auto split: option.splits simp: map_option_case)

section \<open>Little-endian encodings\<close>

primrec le_enc :: "nat \<Rightarrow> nat \<Rightarrow> bytes" where
  "le_enc 0 n = []"
| "le_enc (Suc k) n = of_nat (n mod 256) # le_enc k (n div 256)"

primrec le_dec :: "bytes \<Rightarrow> nat" where
  "le_dec [] = 0"
| "le_dec (b # bs) = unat b + 256 * le_dec bs"

lemma length_le_enc [simp, mb_len]: "length (le_enc k n) = k"
  by (induction k arbitrary: n) auto

lemma unat_byte_mod [simp]: "unat (of_nat (n mod 256) :: byte) = n mod 256"
  by (simp add: unat_of_nat)

lemma le_dec_enc [simp, mb_codec]: "le_dec (le_enc k n) = n mod 256 ^ k"
  by (induction k arbitrary: n) (simp_all add: mod_mult2_eq algebra_simps)

lemma le_dec_bound: "le_dec bs < 256 ^ length bs"
proof (induction bs)
  case (Cons b bs)
  have "unat b < 256" using unsigned_less [of b] by simp
  with Cons show ?case by simp
qed simp

lemma le_enc_dec [simp, mb_codec]: "le_enc (length bs) (le_dec bs) = bs"
proof (induction bs)
  case (Cons b bs)
  have "unat b < 256" using unsigned_less [of b] by simp
  with Cons show ?case by simp
qed simp

lemma unat_u64_less [simp]: "unat (w :: u64) < 18446744073709551616"
  using unsigned_less [of w] by simp

lemma unat_u32_less [simp]: "unat (w :: u32) < 4294967296"
  using unsigned_less [of w] by simp

definition u32_bytes :: "u32 \<Rightarrow> bytes" where "u32_bytes w = le_enc 4 (unat w)"
definition u64_bytes :: "u64 \<Rightarrow> bytes" where "u64_bytes w = le_enc 8 (unat w)"
definition bytes_u16 :: "bytes \<Rightarrow> u16" where "bytes_u16 bs = of_nat (le_dec bs)"
definition bytes_u32 :: "bytes \<Rightarrow> u32" where "bytes_u32 bs = of_nat (le_dec bs)"
definition bytes_u64 :: "bytes \<Rightarrow> u64" where "bytes_u64 bs = of_nat (le_dec bs)"

lemma length_u32_bytes [simp, mb_len]: "length (u32_bytes w) = 4"
  by (simp add: u32_bytes_def)

definition u16_bytes :: "u16 \<Rightarrow> bytes" where "u16_bytes w = le_enc 2 (unat w)"

lemma length_u16_bytes [simp, mb_len]: "length (u16_bytes w) = 2"
  by (simp add: u16_bytes_def)

lemma bytes_u16_bytes [simp, mb_codec]: "bytes_u16 (u16_bytes w) = w"
proof -
  have "unat w < 256 ^ 2" using unsigned_less [of w] by simp
  then show ?thesis by (simp add: bytes_u16_def u16_bytes_def)
qed

lemma length_u64_bytes [simp, mb_len]: "length (u64_bytes w) = 8"
  by (simp add: u64_bytes_def)

lemma bytes_u32_bytes [simp, mb_codec]: "bytes_u32 (u32_bytes w) = w"
proof -
  have "unat w < 256 ^ 4" using unsigned_less [of w] by simp
  then show ?thesis by (simp add: bytes_u32_def u32_bytes_def)
qed

lemma bytes_u64_bytes [simp, mb_codec]: "bytes_u64 (u64_bytes w) = w"
proof -
  have "unat w < 256 ^ 8" using unsigned_less [of w] by simp
  then show ?thesis by (simp add: bytes_u64_def u64_bytes_def)
qed

text \<open>The bytes of a string literal.\<close>

definition chars :: "string \<Rightarrow> bytes" where
  "chars s = map (\<lambda>c. of_nat (of_char c)) s"

lemma length_chars [simp, mb_len]: "length (chars s) = length s"
  by (simp add: chars_def)

section \<open>Error numbers\<close>

text \<open>The errors the code answers with, and the Linux numbers the guest is given
  for them (their entries in the table of \<open>mb_linux_errno\<close>; \<open>EOPNOTSUPP\<close> is
  \<open>ENOTSUP\<close> on Linux).\<close>

datatype errno =
    ENOENT | ESRCH | EIO | EBADF | EAGAIN | ENOMEM | EACCES | EFAULT | EBUSY
  | EEXIST | EINVAL | EFBIG | ENOSPC | ESPIPE | ENOSYS | ENOTSUP | EAFNOSUPPORT | ETIMEDOUT

definition linux_errno :: "errno \<Rightarrow> nat" where
  "linux_errno e = (case e of
      ENOENT \<Rightarrow> 2
    | ESRCH \<Rightarrow> 3
    | EIO \<Rightarrow> 5
    | EBADF \<Rightarrow> 9
    | EAGAIN \<Rightarrow> 11
    | ENOMEM \<Rightarrow> 12
    | EACCES \<Rightarrow> 13
    | EFAULT \<Rightarrow> 14
    | EBUSY \<Rightarrow> 16
    | EEXIST \<Rightarrow> 17
    | EINVAL \<Rightarrow> 22
    | EFBIG \<Rightarrow> 27
    | ENOSPC \<Rightarrow> 28
    | ESPIPE \<Rightarrow> 29
    | ENOSYS \<Rightarrow> 38
    | ENOTSUP \<Rightarrow> 95
    | EAFNOSUPPORT \<Rightarrow> 97
    | ETIMEDOUT \<Rightarrow> 110)"

type_synonym 'a res = "errno + 'a"

section \<open>Signed words\<close>

text \<open>A 64-bit value read as \<open>int64_t\<close>, and signed arithmetic that wraps.\<close>

definition wrap64 :: "int \<Rightarrow> int" where
  "wrap64 x = (x + 2 ^ 63) mod 2 ^ 64 - 2 ^ 63"

lemma wrap64_id: "- (2 ^ 63) \<le> x \<Longrightarrow> x < 2 ^ 63 \<Longrightarrow> wrap64 x = x"
  by (simp add: wrap64_def)

lemma wrap64_range: "- (2 ^ 63) \<le> wrap64 x" "wrap64 x < 2 ^ 63"
proof -
  have "0 \<le> (x + 2 ^ 63) mod 2 ^ 64" "(x + 2 ^ 63) mod 2 ^ 64 < (2::int) ^ 64"
    by (rule pos_mod_sign, simp) (rule pos_mod_bound, simp)
  then show "- (2 ^ 63) \<le> wrap64 x" "wrap64 x < 2 ^ 63"
    by (simp_all add: wrap64_def)
qed

section \<open>The C allocator\<close>

text \<open>\<open>realloc\<close> to \<open>n\<close> bytes: the old bytes as far as they fit, and in the rest
  whatever the heap holds there, which is a parameter \<open>junk\<close> of the model.\<close>

definition realloc :: "(nat \<Rightarrow> byte) \<Rightarrow> bytes \<Rightarrow> nat \<Rightarrow> bytes" where
  "realloc junk xs n = take n xs @ map junk [length xs..<n]"

lemma length_realloc [simp, mb_len]: "length (realloc junk xs n) = n"
  by (simp add: realloc_def)

lemma take_realloc [simp]: "k \<le> length xs \<Longrightarrow> k \<le> n \<Longrightarrow> take k (realloc junk xs n) = take k xs"
  by (simp add: realloc_def min_absorb1)

end
