(* ===== verification/Mb_Sha256.thy ===== *)
theory Mb_Sha256
  imports Mb_Prelude
begin

text \<open>
  The incremental SHA-256 of \<^verbatim>\<open>sha256.c\<close>: the context record, the block
  function, \<open>update\<close> and \<open>final\<close> with their loops, and the one-shot reference
  (pad the whole message, absorb it block by block) they are proved to agree
  with.
\<close>

section \<open>The code\<close>

definition ror :: "u32 \<Rightarrow> nat \<Rightarrow> u32" where
  "ror v s = drop_bit s v OR push_bit (32 - s) v"

text \<open>The round constants, in the rows of the table in \<^verbatim>\<open>sha256.c\<close>.\<close>

definition sha_K :: "u32 list" where
  "sha_K = concat [
    [0x428a2f98, 0x71374491, 0xb5c0fbcf, 0xe9b5dba5, 0x3956c25b, 0x59f111f1, 0x923f82a4, 0xab1c5ed5],
    [0xd807aa98, 0x12835b01, 0x243185be, 0x550c7dc3, 0x72be5d74, 0x80deb1fe, 0x9bdc06a7, 0xc19bf174],
    [0xe49b69c1, 0xefbe4786, 0x0fc19dc6, 0x240ca1cc, 0x2de92c6f, 0x4a7484aa, 0x5cb0a9dc, 0x76f988da],
    [0x983e5152, 0xa831c66d, 0xb00327c8, 0xbf597fc7, 0xc6e00bf3, 0xd5a79147, 0x06ca6351, 0x14292967],
    [0x27b70a85, 0x2e1b2138, 0x4d2c6dfc, 0x53380d13, 0x650a7354, 0x766a0abb, 0x81c2c92e, 0x92722c85],
    [0xa2bfe8a1, 0xa81a664b, 0xc24b8b70, 0xc76c51a3, 0xd192e819, 0xd6990624, 0xf40e3585, 0x106aa070],
    [0x19a4c116, 0x1e376c08, 0x2748774c, 0x34b0bcb5, 0x391c0cb3, 0x4ed8aa4a, 0x5b9cca4f, 0x682e6ff3],
    [0x748f82ee, 0x78a5636f, 0x84c87814, 0x8cc70208, 0x90befffa, 0xa4506ceb, 0xbef9a3f7, 0xc67178f2]]"

definition sha_word :: "bytes \<Rightarrow> nat \<Rightarrow> u32" where
  "sha_word p i =
     push_bit 24 (ucast (p ! (i * 4))) OR push_bit 16 (ucast (p ! (i * 4 + 1)))
     OR push_bit 8 (ucast (p ! (i * 4 + 2))) OR ucast (p ! (i * 4 + 3))"

text \<open>One iteration of the schedule loop appends \<open>w[i]\<close>, \<open>i\<close> being the number
  of words so far.\<close>

definition sha_sched_step :: "u32 list \<Rightarrow> u32 list" where
  "sha_sched_step w =
    (let i = length w;
         s0 = ror (w ! (i - 15)) 7 XOR ror (w ! (i - 15)) 18 XOR drop_bit 3 (w ! (i - 15));
         s1 = ror (w ! (i - 2)) 17 XOR ror (w ! (i - 2)) 19 XOR drop_bit 10 (w ! (i - 2))
     in w @ [w ! (i - 16) + s0 + w ! (i - 7) + s1])"

definition sha_sched :: "bytes \<Rightarrow> u32 list" where
  "sha_sched p = (sha_sched_step ^^ 48) (map (sha_word p) [0..<16])"

type_synonym sha_vars = "u32 \<times> u32 \<times> u32 \<times> u32 \<times> u32 \<times> u32 \<times> u32 \<times> u32"

fun sha_round :: "u32 \<times> u32 \<Rightarrow> sha_vars \<Rightarrow> sha_vars" where
  "sha_round (k, w) (a, b, cc, d, e, f, g, h) =
    (let S1 = ror e 6 XOR ror e 11 XOR ror e 25;
         ch = (e AND f) XOR (NOT e AND g);
         t1 = h + S1 + ch + k + w;
         S0 = ror a 2 XOR ror a 13 XOR ror a 22;
         maj = (a AND b) XOR (a AND cc) XOR (b AND cc);
         t2 = S0 + maj
     in (t1 + t2, a, b, cc, d + t1, e, f, g))"

definition sha_block :: "u32 list \<Rightarrow> bytes \<Rightarrow> u32 list" where
  "sha_block hs p =
    (case fold sha_round (zip sha_K (sha_sched p))
        (hs ! 0, hs ! 1, hs ! 2, hs ! 3, hs ! 4, hs ! 5, hs ! 6, hs ! 7) of
      (a, b, cc, d, e, f, g, h) \<Rightarrow>
        [hs ! 0 + a, hs ! 1 + b, hs ! 2 + cc, hs ! 3 + d,
         hs ! 4 + e, hs ! 5 + f, hs ! 6 + g, hs ! 7 + h])"

record mb_sha256 =
  sha_h :: "u32 list"
  sha_len :: u64
  sha_buf :: bytes
  sha_fill :: nat

definition sha_H0 :: "u32 list" where
  "sha_H0 = [0x6a09e667, 0xbb67ae85, 0x3c6ef372, 0xa54ff53a,
             0x510e527f, 0x9b05688c, 0x1f83d9ab, 0x5be0cd19]"

text \<open>\<open>mb_sha256_init\<close> leaves the 64-byte buffer as it finds it.\<close>

definition mb_sha256_init :: "bytes \<Rightarrow> mb_sha256" where
  "mb_sha256_init buf = \<lparr>sha_h = sha_H0, sha_len = 0, sha_buf = buf, sha_fill = 0\<rparr>"

text \<open>The body of the \<open>while (n)\<close> loop of \<open>update\<close>: fill the buffer as far as the
  data go and absorb it when it is full.\<close>

definition sha_feed :: "mb_sha256 \<Rightarrow> bytes \<Rightarrow> mb_sha256 \<times> bytes" where
  "sha_feed c p =
    (let n = min (64 - sha_fill c) (length p);
         c1 = c\<lparr>sha_buf := put_at (sha_buf c) (sha_fill c) (take n p),
                sha_fill := sha_fill c + n\<rparr>;
         c2 = (if sha_fill c1 = 64
               then c1\<lparr>sha_h := sha_block (sha_h c1) (sha_buf c1), sha_fill := 0\<rparr> else c1)
     in (c2, drop n p))"

partial_function (option) sha_update_loop :: "mb_sha256 \<Rightarrow> bytes \<Rightarrow> mb_sha256 option" where
  "sha_update_loop c p =
    (if p = [] then Some c else case sha_feed c p of (c', p') \<Rightarrow> sha_update_loop c' p')"

definition mb_sha256_update :: "mb_sha256 \<Rightarrow> bytes \<Rightarrow> mb_sha256 option" where
  "mb_sha256_update c p = sha_update_loop (c\<lparr>sha_len := sha_len c + of_nat (length p)\<rparr>) p"

partial_function (option) sha_pad_loop :: "mb_sha256 \<Rightarrow> mb_sha256 option" where
  "sha_pad_loop c =
    (if sha_fill c = 56 then Some c
     else Option.bind (mb_sha256_update c [0]) (\<lambda>c'. sha_pad_loop (c'\<lparr>sha_len := sha_len c' - 1\<rparr>)))"

definition sha_be64 :: "u64 \<Rightarrow> bytes" where
  "sha_be64 bits = map (\<lambda>i. ucast (drop_bit (56 - 8 * i) bits)) [0..<8]"

definition sha_out :: "u32 list \<Rightarrow> bytes" where
  "sha_out hs = concat (map (\<lambda>i. [ucast (drop_bit 24 (hs ! i)), ucast (drop_bit 16 (hs ! i)),
                                  ucast (drop_bit 8 (hs ! i)), ucast (hs ! i)]) [0..<8])"

definition mb_sha256_final :: "mb_sha256 \<Rightarrow> bytes option" where
  "mb_sha256_final c =
    (let bits = sha_len c * 8
     in Option.bind (mb_sha256_update c [0x80]) (\<lambda>c1.
        Option.bind (sha_pad_loop c1) (\<lambda>c2.
        map_option (\<lambda>c3. sha_out (sha_h c3))
          (mb_sha256_update (c2\<lparr>sha_len := sha_len c2 - 8\<rparr>) (sha_be64 bits)))))"

section \<open>The one-shot reference\<close>

text \<open>Absorb the whole blocks of a byte string; what is left over is shorter than
  a block.\<close>

function sha_absorb :: "u32 list \<Rightarrow> bytes \<Rightarrow> u32 list" where
  "sha_absorb hs m = (if length m < 64 then hs else sha_absorb (sha_block hs (take 64 m)) (drop 64 m))"
  by pat_completeness auto
termination by (relation "measure (\<lambda>(hs, m). length m)") auto

declare sha_absorb.simps [simp del]

definition sha_pad :: "bytes \<Rightarrow> bytes" where
  "sha_pad m = m @ [0x80] @ replicate ((119 - length m mod 64) mod 64) 0
                 @ sha_be64 (of_nat (length m) * 8)"

definition sha256 :: "bytes \<Rightarrow> bytes" where
  "sha256 m = sha_out (sha_absorb sha_H0 (sha_pad m))"


section \<open>Agreement with the reference\<close>

lemma sha_absorb_short: "length m < 64 \<Longrightarrow> sha_absorb hs m = hs"
  by (simp add: sha_absorb.simps)

lemma sha_absorb_append:
  "length a mod 64 = 0 \<Longrightarrow> sha_absorb hs (a @ b) = sha_absorb (sha_absorb hs a) b"
proof (induction hs a rule: sha_absorb.induct)
  case (1 hs a)
  show ?case
  proof (cases "length a < 64")
    case True
    with "1.prems" have "a = []" by simp
    then show ?thesis by (simp add: sha_absorb_short)
  next
    case False
    with "1.prems" have "length (drop 64 a) mod 64 = 0"
      by (simp add: le_mod_geq)
    with 1 False have "sha_absorb (sha_block hs (take 64 a)) (drop 64 a @ b)
        = sha_absorb (sha_absorb (sha_block hs (take 64 a)) (drop 64 a)) b"
      by blast
    with False show ?thesis
      by (simp add: sha_absorb.simps [of hs "a @ b"] sha_absorb.simps [of hs a])
  qed
qed

text \<open>What the context of a hash in progress stands for: the message so far.\<close>

definition sha_rel :: "mb_sha256 \<Rightarrow> bytes \<Rightarrow> bool" where
  "sha_rel c m \<longleftrightarrow> length (sha_buf c) = 64 \<and> sha_fill c = length m mod 64
     \<and> take (sha_fill c) (sha_buf c) = drop (64 * (length m div 64)) m
     \<and> sha_h c = sha_absorb sha_H0 m"

lemma sha_rel_init: "length buf = 64 \<Longrightarrow> sha_rel (mb_sha256_init buf) []"
  by (simp add: sha_rel_def mb_sha256_init_def sha_absorb_short)

lemma sha_rel_len [simp]: "sha_rel (c\<lparr>sha_len := n\<rparr>) m = sha_rel c m"
  by (simp add: sha_rel_def)

lemma sha_absorb_tail:
  "length q < 64 \<Longrightarrow> length a mod 64 = 0 \<Longrightarrow> sha_absorb hs (a @ q) = sha_absorb hs a"
  by (simp add: sha_absorb_append sha_absorb_short)

lemma sha_absorb_block:
  "length q = 64 \<Longrightarrow> length a mod 64 = 0 \<Longrightarrow>
   sha_absorb hs (a @ q) = sha_block (sha_absorb hs a) q"
  by (simp add: sha_absorb_append sha_absorb.simps [of _ q] sha_absorb_short)

lemma sha_feed_rel:
  assumes rel: "sha_rel c m" and p: "p \<noteq> []" and f: "sha_feed c p = (c', p')"
  shows "\<exists>q. p = q @ p' \<and> q \<noteq> [] \<and> sha_rel c' (m @ q) \<and> sha_len c' = sha_len c"
proof -
  let ?f = "sha_fill c" and ?a = "take (64 * (length m div 64)) m"
  let ?r = "drop (64 * (length m div 64)) m"
  define n where "n = min (64 - ?f) (length p)"
  let ?q = "take n p"
  have fl: "?f = length m mod 64" "?f < 64" and buf: "length (sha_buf c) = 64"
    and tk: "take ?f (sha_buf c) = ?r" and h: "sha_h c = sha_absorb sha_H0 m"
    using rel by (auto simp: sha_rel_def)
  have la: "length ?a mod 64 = 0" "length ?a = 64 * (length m div 64)"
    by (simp_all add: min_absorb2)
  have lr: "length ?r = ?f" using fl(1) by (simp add: minus_mult_div_eq_mod)
  have q: "length ?q = n" "?f + n \<le> 64" "?q \<noteq> []"
    using fl p by (auto simp: n_def)
  have hm: "sha_h c = sha_absorb sha_H0 ?a"
    using sha_absorb_tail [of ?r ?a] lr fl la h by simp
  have mq: "m @ ?q = ?a @ (?r @ ?q)" by simp
  have bufq: "take (?f + n) (put_at (sha_buf c) ?f ?q) = ?r @ ?q"
    using take_put_at [of ?f "sha_buf c" ?q] q(1) fl(2) buf tk by simp
  have lm: "length m = 64 * (length m div 64) + ?f" using fl(1) by simp
  show ?thesis
  proof (cases "?f + n = 64")
    case True
    have b64: "put_at (sha_buf c) ?f ?q = ?r @ ?q"
      using bufq True buf q by simp
    have "length (m @ ?q) = 64 * Suc (length m div 64)"
      using lm q(1) True by simp
    moreover have "sha_absorb sha_H0 (m @ ?q) = sha_block (sha_h c) (?r @ ?q)"
      unfolding mq using sha_absorb_block [of "?r @ ?q" ?a] lr q(1) True la hm by simp
    moreover have "c' = c\<lparr>sha_buf := ?r @ ?q, sha_h := sha_block (sha_h c) (?r @ ?q), sha_fill := 0\<rparr>"
      "p' = drop n p"
      using f True b64 by (auto simp: sha_feed_def Let_def n_def)
    ultimately show ?thesis
      using q lr True by (intro exI [of _ ?q]) (simp add: sha_rel_def)
  next
    case False
    have eq: "(length m + n) div 64 = length m div 64" "(length m + n) mod 64 = ?f + n"
    proof -
      have "length m + n = 64 * (length m div 64) + (?f + n)" using lm by linarith
      moreover have "?f + n < 64" using q(2) False by linarith
      ultimately show "(length m + n) div 64 = length m div 64" "(length m + n) mod 64 = ?f + n"
        by (metis div_mult_self4 div_less add.commute add_0 zero_neq_numeral,
            metis mod_mult_self4 mod_less)
    qed
    have "sha_absorb sha_H0 (m @ ?q) = sha_h c"
      unfolding mq using sha_absorb_tail [of "?r @ ?q" ?a] lr q False la hm by simp
    moreover have "c' = c\<lparr>sha_buf := put_at (sha_buf c) ?f ?q, sha_fill := ?f + n\<rparr>" "p' = drop n p"
      using f False by (auto simp: sha_feed_def Let_def n_def)
    moreover have "drop (64 * (length m div 64)) (m @ ?q) = ?r @ ?q" using lm by simp
    ultimately show ?thesis
      using q bufq buf eq by (intro exI [of _ ?q]) (simp add: sha_rel_def)
  qed
qed

lemma sha_update_loop_rel:
  "sha_rel c m \<Longrightarrow> \<exists>c'. sha_update_loop c p = Some c' \<and> sha_rel c' (m @ p) \<and> sha_len c' = sha_len c"
proof (induction "length p" arbitrary: c m p rule: less_induct)
  case less
  show ?case
  proof (cases "p = []")
    case True
    with less.prems show ?thesis by (simp add: sha_update_loop.simps)
  next
    case False
    obtain c1 p1 where f: "sha_feed c p = (c1, p1)" by fastforce
    from sha_feed_rel [OF less.prems False f] obtain q where
      q: "p = q @ p1" "q \<noteq> []" "sha_rel c1 (m @ q)" "sha_len c1 = sha_len c" by blast
    from less.hyps [of p1 c1 "m @ q"] q obtain c' where
      "sha_update_loop c1 p1 = Some c'" "sha_rel c' (m @ p)" "sha_len c' = sha_len c" by auto
    with False f show ?thesis by (subst sha_update_loop.simps) simp
  qed
qed

lemma mb_sha256_update_rel:
  assumes "sha_rel c m"
  shows "\<exists>c'. mb_sha256_update c p = Some c' \<and> sha_rel c' (m @ p)
              \<and> sha_len c' = sha_len c + of_nat (length p)"
  using sha_update_loop_rel [of "c\<lparr>sha_len := sha_len c + of_nat (length p)\<rparr>" m p] assms
  by (simp add: mb_sha256_update_def)

lemma sha_pad_count:
  "x < 64 \<Longrightarrow> (120 - x) mod 64 = (if x \<le> 56 then 56 - x else 120 - x)" for x :: nat
  by (simp add: le_mod_geq)

lemma sha_pad_count':
  "x < 64 \<Longrightarrow> (119 - x) mod 64 = (if x \<le> 55 then 55 - x else 119 - x)" for x :: nat
  by (simp add: le_mod_geq)

lemma sha_pad_count_Suc:
  "(120 - Suc n mod 64) mod 64 = (119 - n mod 64) mod 64" for n :: nat
  by (cases "Suc (n mod 64) = 64") (simp_all add: mod_Suc)

lemma sha_pad_count_step:
  "Suc k = (120 - n mod 64) mod 64 \<Longrightarrow> k = (120 - Suc n mod 64) mod 64" for n :: nat
  by (cases "Suc (n mod 64) = 64") (auto simp: sha_pad_count sha_pad_count' mod_Suc split: if_splits)

lemma sha_pad_loop_rel:
  assumes "sha_rel c m"
  shows "\<exists>c'. sha_pad_loop c = Some c' \<and> sha_rel c' (m @ replicate ((120 - length m mod 64) mod 64) 0)"
  using assms
proof (induction "(120 - length m mod 64) mod 64" arbitrary: c m)
  case 0
  then have "length m mod 64 = 56" by (simp add: sha_pad_count split: if_splits)
  with 0 have "sha_fill c = 56" by (simp add: sha_rel_def)
  with 0 show ?case by (simp add: sha_pad_loop.simps)
next
  case (Suc k)
  have ne: "sha_fill c \<noteq> 56" using Suc.hyps(2) Suc.prems by (auto simp: sha_rel_def)
  obtain c1 where c1: "mb_sha256_update c [0] = Some c1" "sha_rel c1 (m @ [0])"
    using mb_sha256_update_rel [OF Suc.prems, of "[0]"] by auto
  have k: "k = (120 - length (m @ [0::byte]) mod 64) mod 64"
    using sha_pad_count_step [OF Suc.hyps(2)] by simp
  obtain c' where "sha_pad_loop (c1\<lparr>sha_len := sha_len c1 - 1\<rparr>) = Some c'"
    "sha_rel c' ((m @ [0]) @ replicate k 0)"
    using Suc.hyps(1) [OF k, of "c1\<lparr>sha_len := sha_len c1 - 1\<rparr>"] c1(2) k by auto
  with c1 ne Suc.hyps(2) show ?case
    by (subst sha_pad_loop.simps) (auto simp flip: Suc.hyps(2))
qed

text \<open>The length counter of a context that has been fed \<open>m\<close>.\<close>

definition sha_ctx :: "mb_sha256 \<Rightarrow> bytes \<Rightarrow> bool" where
  "sha_ctx c m \<longleftrightarrow> sha_rel c m \<and> sha_len c = of_nat (length m)"

lemma sha_ctx_init: "length buf = 64 \<Longrightarrow> sha_ctx (mb_sha256_init buf) []"
  by (simp add: sha_ctx_def sha_rel_init) (simp add: mb_sha256_init_def)

lemma sha_ctx_update:
  assumes "sha_ctx c m"
  shows "\<exists>c'. mb_sha256_update c p = Some c' \<and> sha_ctx c' (m @ p)"
  using mb_sha256_update_rel [of c m p] assms by (auto simp: sha_ctx_def)

lemma sha_pad_length: "length (sha_pad m) mod 64 = 0"
proof -
  let ?x = "length m mod 64"
  have "length (sha_pad m) mod 64 = (?x + 9 + (119 - ?x) mod 64) mod 64"
    using mod_add_left_eq [of "length m" 64 "9 + (119 - ?x) mod 64"]
    by (simp add: sha_pad_def sha_be64_def add.assoc)
  also have "\<dots> = 0"
    by (cases "?x \<le> 55") (simp_all add: sha_pad_count')
  finally show ?thesis .
qed

lemma mb_sha256_final_ctx:
  assumes "sha_ctx c m"
  shows "mb_sha256_final c = Some (sha256 m)"
proof -
  have rel: "sha_rel c m" and len: "sha_len c = of_nat (length m)"
    using assms by (auto simp: sha_ctx_def)
  obtain c1 where c1: "mb_sha256_update c [0x80] = Some c1" "sha_rel c1 (m @ [0x80])"
    using mb_sha256_update_rel [OF rel, of "[0x80]"] by auto
  let ?m2 = "m @ [0x80] @ replicate ((119 - length m mod 64) mod 64) 0"
  have z: "(120 - length (m @ [0x80::byte]) mod 64) mod 64 = (119 - length m mod 64) mod 64"
    by (simp add: sha_pad_count_Suc)
  obtain c2 where c2: "sha_pad_loop c1 = Some c2" "sha_rel c2 ?m2"
    using sha_pad_loop_rel [OF c1(2)] unfolding z by auto
  obtain c3 where c3: "mb_sha256_update (c2\<lparr>sha_len := sha_len c2 - 8\<rparr>) (sha_be64 (sha_len c * 8)) = Some c3"
    "sha_rel c3 (?m2 @ sha_be64 (sha_len c * 8))"
    using mb_sha256_update_rel [of "c2\<lparr>sha_len := sha_len c2 - 8\<rparr>" ?m2] c2(2) by auto
  have "sha_h c3 = sha_absorb sha_H0 (sha_pad m)"
    using c3(2) len by (simp add: sha_rel_def sha_pad_def)
  with c1 c2 c3 show ?thesis by (simp add: mb_sha256_final_def Let_def sha256_def)
qed

text \<open>Any number of pieces.\<close>

lemma sha_ctx_updates:
  "sha_ctx c m \<Longrightarrow>
    \<exists>c'. fold (\<lambda>p oc. Option.bind oc (\<lambda>c. mb_sha256_update c p)) chunks (Some c) = Some c'
        \<and> sha_ctx c' (m @ concat chunks)"
proof (induction chunks arbitrary: c m)
  case (Cons p ps)
  obtain c1 where "mb_sha256_update c p = Some c1" "sha_ctx c1 (m @ p)"
    using sha_ctx_update [OF Cons.prems] by blast
  with Cons.IH [of c1 "m @ p"] show ?case by simp
qed simp

lemma length_sha256: "length (sha256 m) = 32"
  by (simp add: sha256_def sha_out_def length_concat o_def sum_list_triv)

section \<open>The property\<close>

text \<open>
  C19: however a message is cut into pieces, \<open>init\<close>, one \<open>update\<close> per piece and
  \<open>final\<close> all return, and give the SHA-256 digest of the whole message (padded
  and absorbed in one go), whatever the context's buffer held before.
\<close>

theorem sha256_incremental_correct:
  assumes "length buf = 64"
  shows "Option.bind
      (fold (\<lambda>p oc. Option.bind oc (\<lambda>c. mb_sha256_update c p)) chunks (Some (mb_sha256_init buf)))
      mb_sha256_final = Some (sha256 (concat chunks))"
proof -
  from sha_ctx_updates [OF sha_ctx_init [OF assms]] obtain c' where
    "fold (\<lambda>p oc. Option.bind oc (\<lambda>c. mb_sha256_update c p)) chunks (Some (mb_sha256_init buf)) = Some c'"
    "sha_ctx c' (concat chunks)" by auto
  then show ?thesis by (simp add: mb_sha256_final_ctx)
qed

theorem sha256_incremental_correct_witness:
  "length (replicate 64 (0 :: byte)) = 64 \<and>
   Option.bind
      (fold (\<lambda>p oc. Option.bind oc (\<lambda>c. mb_sha256_update c p)) [[0x61], [], [0x62, 0x63]]
        (Some (mb_sha256_init (replicate 64 0))))
      mb_sha256_final = Some (sha256 [0x61, 0x62, 0x63])"
  using sha256_incremental_correct [of "replicate 64 0" "[[0x61], [], [0x62, 0x63]]"] by simp

end
