(* ===== verification/Mb_Stream.thy ===== *)
theory Mb_Stream
  imports Mb_Prelude
begin

text \<open>
  The read and write callbacks that states and deltas go through, the loops
  that drive them (\<open>rd\<close>, \<open>r_all\<close>, \<open>read_all\<close>; \<open>wr\<close>, \<open>w_all\<close>), and the two memory
  streams of \<^verbatim>\<open>host.c\<close> that implement them: the growable \<open>hostbuf\<close> and the
  bounded \<open>memsink\<close>. The interfaces are locales; \<open>hostbuf\<close> and \<open>memsink\<close>
  interpret them.
\<close>

section \<open>Callbacks and the loops over them\<close>

text \<open>A read callback is asked for \<open>n\<close> bytes and gives some of them, or answers a
  number \<open>\<le> 0\<close> (\<open>None\<close>); a write callback takes a chunk or answers a negative
  number (\<open>None\<close>).\<close>

type_synonym 'r reader = "'r \<Rightarrow> nat \<Rightarrow> (bytes \<times> 'r) option"
type_synonym 'w writer = "'w \<Rightarrow> bytes \<Rightarrow> 'w option"

function rd_all :: "'r reader \<Rightarrow> 'r \<Rightarrow> nat \<Rightarrow> (bytes \<times> 'r) option" where
  "rd_all r ud n =
    (if n = 0 then Some ([], ud)
     else case r ud n of
       None \<Rightarrow> None
     | Some (c, ud') \<Rightarrow>
         if c = [] then None
         else map_option (\<lambda>(d, ud''). (c @ d, ud'')) (rd_all r ud' (n - length c)))"
  by pat_completeness auto
termination by (relation "measure (\<lambda>(r, ud, n). n)") auto

declare rd_all.simps [simp del]

text \<open>A save routine is a sequence of \<open>wr\<close> calls, each of which ends it on failure.\<close>

fun wr_all :: "'w writer \<Rightarrow> 'w \<Rightarrow> bytes list \<Rightarrow> 'w option" where
  "wr_all w ud [] = Some ud"
| "wr_all w ud (d # ds) = Option.bind (w ud d) (\<lambda>ud'. wr_all w ud' ds)"

text \<open>Reading from a callback that delivers the bytes of \<open>s\<close> and then ends.\<close>

definition take_bytes :: "nat \<Rightarrow> bytes \<Rightarrow> (bytes \<times> bytes) option" where
  "take_bytes n s = (if n \<le> length s then Some (take n s, drop n s) else None)"

lemma take_bytes_append [simp, mb_codec]:
  "length a = n \<Longrightarrow> take_bytes n (a @ s) = Some (a, s)"
  by (simp add: take_bytes_def)

lemma take_bytes_0 [simp, mb_codec]: "take_bytes 0 s = Some ([], s)"
  by (simp add: take_bytes_def)

lemma take_bytes_SomeD:
  "take_bytes n s = Some (a, s') \<Longrightarrow> s = a @ s' \<and> length a = n"
  by (auto simp: take_bytes_def split: if_splits)

definition take_u32 :: "bytes \<Rightarrow> (u32 \<times> bytes) option" where
  "take_u32 s = map_option (\<lambda>(a, s'). (bytes_u32 a, s')) (take_bytes 4 s)"

definition take_u64 :: "bytes \<Rightarrow> (u64 \<times> bytes) option" where
  "take_u64 s = map_option (\<lambda>(a, s'). (bytes_u64 a, s')) (take_bytes 8 s)"

definition take_u16 :: "bytes \<Rightarrow> (u16 \<times> bytes) option" where
  "take_u16 s = map_option (\<lambda>(a, s'). (bytes_u16 a, s')) (take_bytes 2 s)"

lemma take_u16_append [simp, mb_codec]: "take_u16 (u16_bytes w @ s) = Some (w, s)"
  by (simp add: take_u16_def)

text \<open>Reading a magic string: whether it is there, and the rest.\<close>

definition take_magic :: "bytes \<Rightarrow> bytes \<Rightarrow> bytes option" where
  "take_magic magic s =
    Option.bind (take_bytes (length magic) s) (\<lambda>(a, s'). if a = magic then Some s' else None)"

lemma take_magic_append [simp, mb_codec]: "take_magic magic (magic @ s) = Some s"
  by (simp add: take_magic_def)

lemma take_u32_append [simp, mb_codec]: "take_u32 (u32_bytes w @ s) = Some (w, s)"
  by (simp add: take_u32_def)

lemma take_u64_append [simp, mb_codec]: "take_u64 (u64_bytes w @ s) = Some (w, s)"
  by (simp add: take_u64_def)

section \<open>What a well-behaved callback promises\<close>

locale byte_source =
  fixes rd :: "'r reader"
    and left :: "'r \<Rightarrow> bytes"
    and ok :: "'r \<Rightarrow> bool"
  assumes source_step:
    "ok r \<Longrightarrow> 0 < n \<Longrightarrow> rd r n = Some (c, r') \<Longrightarrow>
      c \<noteq> [] \<and> length c \<le> n \<and> left r = c @ left r' \<and> ok r'"
    and source_more: "ok r \<Longrightarrow> 0 < n \<Longrightarrow> left r \<noteq> [] \<Longrightarrow> rd r n \<noteq> None"
    and source_end: "ok r \<Longrightarrow> left r = [] \<Longrightarrow> rd r n = None"
begin

lemma rd_all_enough:
  "ok r \<Longrightarrow> n \<le> length (left r) \<Longrightarrow>
   \<exists>r'. rd_all rd r n = Some (take n (left r), r') \<and> left r' = drop n (left r) \<and> ok r'"
proof (induction n arbitrary: r rule: less_induct)
  case (less n)
  show ?case
  proof (cases "n = 0")
    case True
    with less.prems show ?thesis by (simp add: rd_all.simps)
  next
    case False
    with less.prems have "rd r n \<noteq> None" by (intro source_more) auto
    then obtain c r1 where c: "rd r n = Some (c, r1)" by auto
    from source_step [OF less.prems(1) _ c] False
    have s: "c \<noteq> []" "length c \<le> n" "left r = c @ left r1" "ok r1" by auto
    obtain r2 where
      "rd_all rd r1 (n - length c) = Some (take (n - length c) (left r1), r2)"
      "left r2 = drop (n - length c) (left r1)" "ok r2"
      using less.IH [of "n - length c" r1] s False less.prems by (auto simp: le_diff_conv)
    with False c s show ?thesis by (simp add: rd_all.simps [of rd r n])
  qed
qed

lemma rd_all_short: "ok r \<Longrightarrow> length (left r) < n \<Longrightarrow> rd_all rd r n = None"
proof (induction n arbitrary: r rule: less_induct)
  case (less n)
  show ?case
  proof (cases "rd r n")
    case None
    with less.prems show ?thesis by (simp add: rd_all.simps)
  next
    case (Some p)
    obtain c r1 where c: "rd r n = Some (c, r1)" using Some by (cases p) auto
    from source_step [OF less.prems(1) _ c] less.prems(2)
    have s: "c \<noteq> []" "length c \<le> n" "left r = c @ left r1" "ok r1" by auto
    have "rd_all rd r1 (n - length c) = None"
      using less.IH [of "n - length c" r1] s less.prems by (auto simp: less_diff_conv)
    with c s less.prems(2) show ?thesis by (auto simp: rd_all.simps [of rd r n])
  qed
qed

text \<open>Through any such callback, \<open>rd\<close> reads what \<^const>\<open>take_bytes\<close> reads from the
  bytes the callback still holds.\<close>

lemma rd_all_take_bytes:
  assumes "ok r"
  shows "map_option (\<lambda>(d, r'). (d, left r')) (rd_all rd r n) = take_bytes n (left r)"
  using rd_all_enough [OF assms, of n] rd_all_short [OF assms, of n]
  by (auto simp: take_bytes_def not_le)

end

locale byte_sink =
  fixes wr :: "'w writer"
    and written :: "'w \<Rightarrow> bytes"
    and ok :: "'w \<Rightarrow> bool"
  assumes sink_step: "ok w \<Longrightarrow> wr w d = Some w' \<Longrightarrow> written w' = written w @ d \<and> ok w'"
begin

lemma wr_all_written:
  "ok w \<Longrightarrow> wr_all wr w ds = Some w' \<Longrightarrow> written w' = written w @ concat ds \<and> ok w'"
proof (induction ds arbitrary: w)
  case (Cons d ds)
  then obtain w1 where "wr w d = Some w1" "wr_all wr w1 ds = Some w'"
    by (auto simp: bind_eq_Some_conv)
  with sink_step [OF Cons.prems(1)] Cons.IH [of w1] show ?case by simp
qed simp

end

section \<open>The growable buffer of \<^verbatim>\<open>host.c\<close>\<close>

record hostbuf =
  hb_buf :: bytes
  hb_len :: nat
  hb_cap :: nat
  hb_pos :: nat

text \<open>\<open>alloc n\<close>: whether the allocator gives \<open>n\<close> bytes.\<close>

definition hostbuf_write :: "(nat \<Rightarrow> bool) \<Rightarrow> (nat \<Rightarrow> byte) \<Rightarrow> hostbuf writer" where
  "hostbuf_write alloc junk m d =
    (let n = length d;
         cap = (hb_len m + n) * 2 + 64;
         grown = (if hb_cap m < hb_len m + n
                  then (if alloc cap then Some (m\<lparr>hb_buf := realloc junk (hb_buf m) cap, hb_cap := cap\<rparr>)
                        else None)
                  else Some m)
     in map_option (\<lambda>m'. m'\<lparr>hb_buf := put_at (hb_buf m') (hb_len m') d, hb_len := hb_len m' + n\<rparr>) grown)"

definition hostbuf_read :: "hostbuf reader" where
  "hostbuf_read m n =
    (let n' = min n (hb_len m - hb_pos m)
     in if n' = 0 then None
        else Some (take n' (drop (hb_pos m) (hb_buf m)), m\<lparr>hb_pos := hb_pos m + n'\<rparr>))"

definition hostbuf_ok :: "hostbuf \<Rightarrow> bool" where
  "hostbuf_ok m \<longleftrightarrow> hb_pos m \<le> hb_len m \<and> hb_len m \<le> hb_cap m \<and> length (hb_buf m) = hb_cap m"

definition hostbuf_written :: "hostbuf \<Rightarrow> bytes" where
  "hostbuf_written m = take (hb_len m) (hb_buf m)"

definition hostbuf_left :: "hostbuf \<Rightarrow> bytes" where
  "hostbuf_left m = drop (hb_pos m) (hostbuf_written m)"

lemma take_split: "k \<le> m \<Longrightarrow> take m xs = take k xs @ take (m - k) (drop k xs)"
  using take_add [of k "m - k" xs] by simp

interpretation hb_src: byte_source hostbuf_read hostbuf_left hostbuf_ok
proof unfold_locales
  fix r n c r'
  assume "hostbuf_ok r" "0 < n" "hostbuf_read r n = Some (c, r')"
  then show "c \<noteq> [] \<and> length c \<le> n \<and> hostbuf_left r = c @ hostbuf_left r' \<and> hostbuf_ok r'"
    by (auto simp: hostbuf_read_def hostbuf_left_def hostbuf_written_def hostbuf_ok_def Let_def
        drop_take min_def le_diff_conv2 split: if_splits)
      (simp add: take_split [of n "hb_len r - hb_pos r"] add.commute)
qed (auto simp: hostbuf_read_def hostbuf_left_def hostbuf_written_def hostbuf_ok_def Let_def)

interpretation hb_sink: byte_sink "hostbuf_write alloc junk" hostbuf_written hostbuf_ok for alloc junk
proof unfold_locales
  fix w d w'
  assume "hostbuf_ok w" "hostbuf_write alloc junk w d = Some w'"
  then show "hostbuf_written w' = hostbuf_written w @ d \<and> hostbuf_ok w'"
    by (auto simp: hostbuf_write_def hostbuf_written_def hostbuf_ok_def Let_def put_at_def
        split: if_splits)
qed

section \<open>The bounded buffer of \<^verbatim>\<open>host.c\<close>\<close>

record mb_memsink =
  ms_p :: bytes
  ms_cap :: nat
  ms_n :: nat

definition memsink_write :: "mb_memsink writer" where
  "memsink_write s d =
    (if ms_cap s < ms_n s + length d then None
     else Some (s\<lparr>ms_p := put_at (ms_p s) (ms_n s) d, ms_n := ms_n s + length d\<rparr>))"

definition memsink_ok :: "mb_memsink \<Rightarrow> bool" where
  "memsink_ok s \<longleftrightarrow> ms_n s \<le> ms_cap s \<and> length (ms_p s) = ms_cap s"

definition memsink_written :: "mb_memsink \<Rightarrow> bytes" where
  "memsink_written s = take (ms_n s) (ms_p s)"

interpretation ms_sink: byte_sink memsink_write memsink_written memsink_ok
  by unfold_locales
    (auto simp: memsink_write_def memsink_written_def memsink_ok_def put_at_def split: if_splits)

end
