(* ===== verification/Mb_Fs.thy ===== *)
theory Mb_Fs
  imports Mb_Stream
begin

text \<open>
  The flat file system of \<^verbatim>\<open>fs.c\<close>: mounted files, open handles, reading,
  writing, seeking, truncating, the ring of the guest's last output, and the
  open-file table that states carry. The C library's \<open>FILE\<close> is a small record:
  the bytes on the disk, a shared position, and the faults the disk may have.
  Allocation is a parameter: \<open>alloc n\<close> says whether \<open>n\<close> bytes are given, \<open>junk\<close>
  what fresh heap bytes hold.
\<close>

section \<open>Host files\<close>

record host_FILE =
  hf_bytes :: bytes          \<comment> \<open>the file's contents\<close>
  hf_pos :: nat              \<comment> \<open>the stream's position\<close>
  hf_bad_at :: "nat option"  \<comment> \<open>first unreadable byte, if the disk has one\<close>
  hf_room :: nat             \<comment> \<open>the longest the disk lets the file grow\<close>
  hf_seekable :: bool
  hf_flush_ok :: bool        \<comment> \<open>buffered output reaches the disk\<close>

text \<open>Bytes written at a position, a gap before it reading as zeros.\<close>

definition zwrite :: "bytes \<Rightarrow> nat \<Rightarrow> bytes \<Rightarrow> bytes" where
  "zwrite xs at d = take at (xs @ replicate (at - length xs) 0) @ d @ drop (at + length d) xs"

definition seek64 :: "host_FILE \<Rightarrow> int \<Rightarrow> host_FILE option" where
  "seek64 f off = (if hf_seekable f \<and> 0 \<le> off then Some (f\<lparr>hf_pos := nat off\<rparr>) else None)"

definition seek64_end :: "host_FILE \<Rightarrow> host_FILE option" where
  "seek64_end f = (if hf_seekable f then Some (f\<lparr>hf_pos := length (hf_bytes f)\<rparr>) else None)"

definition tell64 :: "host_FILE \<Rightarrow> int" where
  "tell64 f = (if hf_seekable f then int (hf_pos f) else - 1)"

text \<open>\<open>fread\<close>: the bytes got, whether \<open>ferror\<close> is set after it, and the stream.\<close>

definition fread :: "host_FILE \<Rightarrow> nat \<Rightarrow> bytes \<times> bool \<times> host_FILE" where
  "fread f n =
    (let stop = (case hf_bad_at f of None \<Rightarrow> n | Some k \<Rightarrow> min n (k - hf_pos f));
         got = take stop (drop (hf_pos f) (hf_bytes f));
         err = (case hf_bad_at f of None \<Rightarrow> False
                | Some k \<Rightarrow> k < hf_pos f + n \<and> k < length (hf_bytes f))
     in (got, err, f\<lparr>hf_pos := hf_pos f + length got\<rparr>))"

text \<open>\<open>fwrite\<close>: whether all of it was taken.\<close>

definition fwrite :: "host_FILE \<Rightarrow> bytes \<Rightarrow> bool \<times> host_FILE" where
  "fwrite f d =
    (let fit = take (hf_room f - hf_pos f) d
     in (length fit = length d,
         f\<lparr>hf_bytes := zwrite (hf_bytes f) (hf_pos f) fit, hf_pos := hf_pos f + length fit\<rparr>))"

definition ftruncate :: "host_FILE \<Rightarrow> nat \<Rightarrow> host_FILE option" where
  "ftruncate f n =
    (if n \<le> hf_room f
     then Some (f\<lparr>hf_bytes := take n (hf_bytes f) @ replicate (n - length (hf_bytes f)) 0\<rparr>) else None)"

section \<open>Files and handles\<close>

datatype file_kind = F_EMPTY | F_SYSOUT | F_REGULAR | F_HOST | F_HOST_OUT

record mounted_file =
  mf_name :: bytes
  mf_kind :: file_kind
  mf_sysout :: bytes         \<comment> \<open>what went to the host's stdout or stderr\<close>
  mf_host :: host_FILE
  mf_data :: bytes           \<comment> \<open>the \<open>cap\<close> bytes of the allocation\<close>
  mf_len :: nat
  mf_cap :: nat
  mf_writable :: bool

record open_handle =
  oh_fd :: int
  oh_file :: nat
  oh_pos :: nat

record mb_fs =
  fs_files :: "mounted_file list"
  fs_hs :: "open_handle list"
  fs_tail :: bytes           \<comment> \<open>\<open>sysout_tail\<close>\<close>
  fs_total :: nat            \<comment> \<open>\<open>sysout_total\<close>\<close>
  fs_tail_at :: nat
  fs_wrapped :: bool
  fs_linux :: bool           \<comment> \<open>\<open>linux_answers\<close>\<close>

definition no_FILE :: host_FILE where
  "no_FILE = \<lparr>hf_bytes = [], hf_pos = 0, hf_bad_at = None, hf_room = 0,
              hf_seekable = False, hf_flush_ok = True\<rparr>"

definition blank_file :: mounted_file where
  "blank_file = \<lparr>mf_name = [], mf_kind = F_EMPTY, mf_sysout = [], mf_host = no_FILE,
                 mf_data = [], mf_len = 0, mf_cap = 0, mf_writable = False\<rparr>"

definition mb_fs_set_linux_answers :: "mb_fs \<Rightarrow> bool \<Rightarrow> mb_fs" where
  "mb_fs_set_linux_answers fs on = fs\<lparr>fs_linux := on\<rparr>"

definition not_open :: "mb_fs \<Rightarrow> errno \<Rightarrow> errno" where
  "not_open fs before = (if fs_linux fs then EBADF else before)"

definition host_file :: "mounted_file \<Rightarrow> bool" where
  "host_file f \<longleftrightarrow> mf_kind f = F_HOST \<or> mf_kind f = F_HOST_OUT"

definition has_bytes :: "mounted_file \<Rightarrow> bool" where
  "has_bytes f \<longleftrightarrow> mf_kind f = F_REGULAR \<or> host_file f"

text \<open>\<open>handle_by_fd\<close> answers the place of the handle in the table.\<close>

definition handle_by_fd :: "mb_fs \<Rightarrow> int \<Rightarrow> nat option" where
  "handle_by_fd fs fd = find_index (\<lambda>h. oh_fd h = fd) (fs_hs fs)"

definition file_is_open :: "mb_fs \<Rightarrow> nat \<Rightarrow> bool" where
  "file_is_open fs file \<longleftrightarrow> (\<exists>h\<in>set (fs_hs fs). oh_file h = file)"

function lowest_free :: "open_handle list \<Rightarrow> int \<Rightarrow> int" where
  "lowest_free hs fd =
    (if find_index (\<lambda>h. oh_fd h = fd) hs \<noteq> None then lowest_free hs (fd + 1) else fd)"
  by pat_completeness auto
termination
proof (relation "measure (\<lambda>(hs, fd). length (filter (\<lambda>h. fd \<le> oh_fd h) hs))", goal_cases)
  case (2 hs fd)
  then obtain h where "h \<in> set hs" "oh_fd h = fd"
    by (auto dest!: find_index_SomeD intro: nth_mem)
  then show ?case
  proof (induction hs)
    case (Cons a hs)
    have le: "length (filter (\<lambda>h. fd + 1 \<le> oh_fd h) hs) \<le> length (filter (\<lambda>h. fd \<le> oh_fd h) hs)"
      by (induction hs) auto
    show ?case
    proof (cases "a = h")
      case True
      with Cons.prems le show ?thesis by simp
    next
      case False
      with Cons show ?thesis by auto
    qed
  qed simp
qed simp

declare lowest_free.simps [simp del]

definition handle_add :: "mb_fs \<Rightarrow> nat \<Rightarrow> nat \<Rightarrow> mb_fs \<times> int" where
  "handle_add fs file pos =
    (let fd = lowest_free (fs_hs fs) 0
     in (fs\<lparr>fs_hs := fs_hs fs @ [\<lparr>oh_fd = fd, oh_file = file, oh_pos = pos\<rparr>]\<rparr>, fd))"

abbreviation TAIL_SIZE :: nat where "TAIL_SIZE \<equiv> 16 * 1024"

definition mb_fs_new :: "mb_fs" where
  "mb_fs_new =
    (let f0 = blank_file\<lparr>mf_name := chars ''/dev/stdin'', mf_kind := F_EMPTY\<rparr>;
         f1 = blank_file\<lparr>mf_name := chars ''/dev/stdout'', mf_kind := F_SYSOUT\<rparr>;
         f2 = blank_file\<lparr>mf_name := chars ''/dev/stderr'', mf_kind := F_SYSOUT\<rparr>;
         fs = \<lparr>fs_files = [f0, f1, f2], fs_hs = [], fs_tail = replicate TAIL_SIZE 0, fs_total = 0,
               fs_tail_at = 0, fs_wrapped = False, fs_linux = False\<rparr>;
         fs1 = fst (handle_add fs 0 0);
         fs2 = fst (handle_add fs1 1 0)
     in fst (handle_add fs2 2 0))"

definition by_name :: "mb_fs \<Rightarrow> bytes \<Rightarrow> nat option" where
  "by_name fs name = find_index (\<lambda>f. mf_name f = name) (fs_files fs)"

section \<open>Mounting\<close>

definition mb_fs_mount :: "mb_fs \<Rightarrow> bytes \<Rightarrow> bytes \<Rightarrow> bool \<Rightarrow> mb_fs \<times> unit res" where
  "mb_fs_mount fs name data writable =
    (if by_name fs name \<noteq> None then (fs, Inl EEXIST)
     else (fs\<lparr>fs_files := fs_files fs @ [blank_file\<lparr>mf_name := name, mf_kind := F_REGULAR,
              mf_writable := writable, mf_len := length data, mf_cap := length data,
              mf_data := data\<rparr>]\<rparr>, Inr ()))"

text \<open>\<open>fp\<close>: what \<open>open_read\<close> of the path gives.\<close>

definition mb_fs_mount_path :: "mb_fs \<Rightarrow> bytes \<Rightarrow> host_FILE option \<Rightarrow> mb_fs \<times> unit res" where
  "mb_fs_mount_path fs name fp =
    (if by_name fs name \<noteq> None then (fs, Inl EEXIST)
     else case fp of None \<Rightarrow> (fs, Inl ENOENT)
     | Some f0 \<Rightarrow>
       (case seek64_end f0 of None \<Rightarrow> (fs, Inl EIO)
        | Some f1 \<Rightarrow>
          (let end = tell64 f1
           in if end < 0 then (fs, Inl EIO)
              else (fs\<lparr>fs_files := fs_files fs @ [blank_file\<lparr>mf_name := name, mf_kind := F_HOST,
                       mf_writable := False, mf_host := f1, mf_len := nat end, mf_cap := nat end\<rparr>]\<rparr>,
                    Inr ()))))"

definition mb_fs_mount_path_writable :: "mb_fs \<Rightarrow> bytes \<Rightarrow> host_FILE option \<Rightarrow> mb_fs \<times> unit res" where
  "mb_fs_mount_path_writable fs name fp =
    (if by_name fs name \<noteq> None then (fs, Inl EEXIST)
     else case fp of None \<Rightarrow> (fs, Inl ENOENT)
     | Some f0 \<Rightarrow>
       (fs\<lparr>fs_files := fs_files fs @ [blank_file\<lparr>mf_name := name, mf_kind := F_HOST_OUT,
             mf_writable := True, mf_host := f0\<lparr>hf_bytes := [], hf_pos := 0\<rparr>\<rparr>]\<rparr>, Inr ()))"

text \<open>Removing the file at \<open>i\<close>: later files move down, and the handles with them.\<close>

definition drop_file :: "mb_fs \<Rightarrow> nat \<Rightarrow> mb_fs" where
  "drop_file fs i =
    fs\<lparr>fs_files := take i (fs_files fs) @ drop (Suc i) (fs_files fs),
       fs_hs := map (\<lambda>h. if i < oh_file h then h\<lparr>oh_file := oh_file h - 1\<rparr> else h) (fs_hs fs)\<rparr>"

definition mb_fs_unmount :: "mb_fs \<Rightarrow> bytes \<Rightarrow> mb_fs \<times> bytes res" where
  "mb_fs_unmount fs name =
    (case by_name fs name of
       None \<Rightarrow> (fs, Inl ENOENT)
     | Some i \<Rightarrow>
       (let f = fs_files fs ! i
        in if \<not> has_bytes f then (fs, Inl EINVAL)
           else if file_is_open fs i then (fs, Inl EBUSY)
           else if host_file f
           then (if \<not> hf_flush_ok (mf_host f) \<and> mf_kind f = F_HOST_OUT
                 then (drop_file fs i, Inl EIO) else (drop_file fs i, Inr []))
           else (drop_file fs i, Inr (take (mf_len f) (mf_data f)))))"

section \<open>Opening and closing\<close>

definition O_ACCMODE :: int where "O_ACCMODE = 0x200003"

definition mb_fs_open :: "mb_fs \<Rightarrow> bytes \<Rightarrow> int \<Rightarrow> mb_fs \<times> int res" where
  "mb_fs_open fs name flags =
    (case by_name fs name of
       None \<Rightarrow> (fs, Inl ENOENT)
     | Some idx \<Rightarrow>
       (let f = fs_files fs ! idx;
            can_read = (mf_kind f \<noteq> F_SYSOUT);
            can_write = (mf_kind f = F_SYSOUT \<or> has_bytes f \<and> mf_writable f);
            acc = and flags O_ACCMODE
        in if has_bytes f \<and> mf_writable f \<and> file_is_open fs idx then (fs, Inl EACCES)
           else if acc = 0 \<and> \<not> can_read then (fs, Inl EACCES)
           else if acc = 1 \<and> \<not> can_write then (fs, Inl EACCES)
           else if acc = 2 \<and> (\<not> can_read \<or> \<not> can_write) then (fs, Inl EACCES)
           else if acc \<notin> {0, 1, 2} then (fs, Inl EINVAL)
           else (case handle_add fs idx 0 of (fs', fd) \<Rightarrow> (fs', Inr fd))))"

definition mb_fs_dup :: "mb_fs \<Rightarrow> int \<Rightarrow> mb_fs \<times> int res" where
  "mb_fs_dup fs fd =
    (case handle_by_fd fs fd of
       None \<Rightarrow> (fs, Inl EBADF)
     | Some i \<Rightarrow>
       (let h = fs_hs fs ! i; f = fs_files fs ! oh_file h
        in if has_bytes f \<and> mf_writable f then (fs, Inl EACCES)
           else (case handle_add fs (oh_file h) (oh_pos h) of (fs', d) \<Rightarrow> (fs', Inr d))))"

definition mb_fs_close :: "mb_fs \<Rightarrow> int \<Rightarrow> mb_fs \<times> unit res" where
  "mb_fs_close fs fd =
    (case handle_by_fd fs fd of
       None \<Rightarrow> (fs, Inl EBADF)
     | Some i \<Rightarrow> (fs\<lparr>fs_hs := butlast ((fs_hs fs)[i := last (fs_hs fs)])\<rparr>, Inr ()))"

section \<open>Reading\<close>

definition set_handle :: "mb_fs \<Rightarrow> nat \<Rightarrow> nat \<Rightarrow> mb_fs" where
  "set_handle fs i pos = fs\<lparr>fs_hs := (fs_hs fs)[i := (fs_hs fs ! i)\<lparr>oh_pos := pos\<rparr>]\<rparr>"

definition set_file :: "mb_fs \<Rightarrow> nat \<Rightarrow> mounted_file \<Rightarrow> mb_fs" where
  "set_file fs k f = fs\<lparr>fs_files := (fs_files fs)[k := f]\<rparr>"

text \<open>What is left of the file after the handle's position; nothing when the
  position is past the end.\<close>

definition bytes_left :: "open_handle \<Rightarrow> mounted_file \<Rightarrow> nat" where
  "bytes_left h f = (if oh_pos h < mf_len f then mf_len f - oh_pos h else 0)"

definition mb_fs_read_avail :: "mb_fs \<Rightarrow> int \<Rightarrow> nat \<Rightarrow> nat" where
  "mb_fs_read_avail fs fd n =
    (case handle_by_fd fs fd of
       None \<Rightarrow> 0
     | Some i \<Rightarrow>
       (let h = fs_hs fs ! i; f = fs_files fs ! oh_file h
        in if \<not> has_bytes f then 0
           else min n (bytes_left h f)))"

abbreviation BOUNCE :: nat where "BOUNCE \<equiv> 64 * 1024"

text \<open>The bounce loop: the bytes copied to the guest, whether it ended on a read
  error, and the host stream.\<close>

function host_read :: "host_FILE \<Rightarrow> nat \<Rightarrow> bytes \<times> bool \<times> host_FILE" where
  "host_read f left =
    (if left = 0 then ([], False, f)
     else case fread f (min left BOUNCE) of (got, err, f') \<Rightarrow>
       if got = [] then ([], err, f')
       else case host_read f' (left - length got) of (d, e, f'') \<Rightarrow> (got @ d, e, f''))"
  by pat_completeness auto
termination by (relation "measure (\<lambda>(f, left). left)") auto

declare host_read.simps [simp del]

definition mb_fs_read :: "mb_fs \<Rightarrow> int \<Rightarrow> nat \<Rightarrow> mb_fs \<times> bytes res" where
  "mb_fs_read fs fd n =
    (case handle_by_fd fs fd of
       None \<Rightarrow> (fs, Inl (not_open fs ENOENT))
     | Some i \<Rightarrow>
       (let h = fs_hs fs ! i; f = fs_files fs ! oh_file h;
            tk = min n (bytes_left h f)
        in if mf_kind f = F_EMPTY then (fs, Inr [])
           else if mf_kind f = F_SYSOUT then (fs, Inl EBADF)
           else if host_file f then
             (if tk = 0 then (fs, Inr [])
              else case seek64 (mf_host f) (wrap64 (int (oh_pos h))) of
                None \<Rightarrow> (fs, Inl EIO)
              | Some f0 \<Rightarrow>
                (case host_read f0 tk of (d, err, f1) \<Rightarrow>
                  (let fs' = set_file fs (oh_file h) (f\<lparr>mf_host := f1\<rparr>)
                   in if err then (fs', if d \<noteq> [] then Inr d else Inl EIO)
                      else (set_handle fs' i (oh_pos h + length d), Inr d))))
           else (set_handle fs i (oh_pos h + tk), Inr (take tk (drop (oh_pos h) (mf_data f))))))"

section \<open>The ring of the guest's last output\<close>

definition sysout_remember :: "mb_fs \<Rightarrow> bytes \<Rightarrow> mb_fs" where
  "sysout_remember fs buf =
    (let n = length buf; fs = fs\<lparr>fs_total := fs_total fs + n\<rparr>
     in if TAIL_SIZE \<le> n
        then fs\<lparr>fs_tail := put_at (fs_tail fs) 0 (drop (n - TAIL_SIZE) buf), fs_tail_at := 0, fs_wrapped := True\<rparr>
        else
          let first = min (TAIL_SIZE - fs_tail_at fs) n;
              fs1 = fs\<lparr>fs_tail := put_at (fs_tail fs) (fs_tail_at fs) (take first buf)\<rparr>
          in if first < n
             then fs1\<lparr>fs_tail := put_at (fs_tail fs1) 0 (drop first buf), fs_tail_at := n - first, fs_wrapped := True\<rparr>
             else let at = fs_tail_at fs1 + first
                  in if at = TAIL_SIZE then fs1\<lparr>fs_tail_at := 0, fs_wrapped := True\<rparr>
                     else fs1\<lparr>fs_tail_at := at\<rparr>)"

definition mb_fs_sysout_total :: "mb_fs \<Rightarrow> nat" where
  "mb_fs_sysout_total fs = fs_total fs"

definition mb_fs_sysout_tail :: "mb_fs \<Rightarrow> nat \<Rightarrow> bytes" where
  "mb_fs_sysout_tail fs cap =
    (let have' = (if fs_wrapped fs then TAIL_SIZE else fs_tail_at fs);
         tk = (if have' < cap then have' else cap);
         oldest = (if fs_wrapped fs then fs_tail_at fs else 0);
         skip = have' - tk
     in map (\<lambda>i. fs_tail fs ! ((oldest + skip + i) mod TAIL_SIZE)) [0..<tk])"

definition mb_fs_sysout_since :: "mb_fs \<Rightarrow> nat \<Rightarrow> nat \<Rightarrow> bytes" where
  "mb_fs_sysout_since fs mark cap =
    (if fs_total fs \<le> mark then []
     else let since = fs_total fs - mark
          in mb_fs_sysout_tail fs (if since < cap then since else cap))"

section \<open>Writing\<close>

definition host_write :: "mounted_file \<Rightarrow> bytes \<Rightarrow> nat \<Rightarrow> mounted_file \<times> nat res" where
  "host_write f buf at =
    (case seek64 (mf_host f) (wrap64 (int at)) of
       None \<Rightarrow> (f, Inl EIO)
     | Some f0 \<Rightarrow>
       (case fwrite f0 buf of (all, f1) \<Rightarrow>
         (let f' = f\<lparr>mf_host := f1\<rparr>
          in if \<not> all then (f', Inl ENOSPC)
             else ((if mf_len f' < at + length buf then f'\<lparr>mf_len := at + length buf\<rparr> else f'),
                   Inr (length buf)))))"

text \<open>Storing \<open>buf\<close> at \<open>at\<close> in a file kept in memory, \<open>end\<close> being where it ends:
  grow, zero the gap, copy, move the length (the common tail of \<open>write\<close> and
  \<open>pwrite\<close>).\<close>

definition store_bytes ::
  "(nat \<Rightarrow> bool) \<Rightarrow> (nat \<Rightarrow> byte) \<Rightarrow> mounted_file \<Rightarrow> bytes \<Rightarrow> nat \<Rightarrow> nat \<Rightarrow> mounted_file option" where
  "store_bytes alloc junk f buf at end' =
    (let grown = (if mf_cap f < end'
                  then (if alloc end' then Some (f\<lparr>mf_data := realloc junk (mf_data f) end', mf_cap := end'\<rparr>)
                        else None)
                  else Some f)
     in map_option (\<lambda>f1.
          let f2 = (if mf_len f1 < at
                    then f1\<lparr>mf_data := put_at (mf_data f1) (mf_len f1) (replicate (at - mf_len f1) 0)\<rparr>
                    else f1);
              f3 = f2\<lparr>mf_data := put_at (mf_data f2) at buf\<rparr>
          in if mf_len f3 < end' then f3\<lparr>mf_len := end'\<rparr> else f3) grown)"

definition mb_fs_write ::
  "(nat \<Rightarrow> bool) \<Rightarrow> (nat \<Rightarrow> byte) \<Rightarrow> mb_fs \<Rightarrow> int \<Rightarrow> bytes \<Rightarrow> mb_fs \<times> nat res" where
  "mb_fs_write alloc junk fs fd buf =
    (case handle_by_fd fs fd of
       None \<Rightarrow> (fs, Inl (not_open fs ENOENT))
     | Some i \<Rightarrow>
       (let h = fs_hs fs ! i; k = oh_file h; f = fs_files fs ! k; n = length buf;
            newpos = (oh_pos h + n) mod 2 ^ 64
        in if mf_kind f = F_SYSOUT
           then (sysout_remember (set_file fs k (f\<lparr>mf_sysout := mf_sysout f @ buf\<rparr>)) buf, Inr n)
           else if mf_kind f = F_EMPTY \<or> \<not> mf_writable f then (fs, Inl EBADF)
           else if newpos < oh_pos h then (fs, Inl EFBIG)
           else if mf_kind f = F_HOST_OUT
           then (case host_write f buf (oh_pos h) of
                   (f', Inl e) \<Rightarrow> (set_file fs k f', Inl e)
                 | (f', Inr w) \<Rightarrow>
                     (let fs' = set_file fs k f'
                      in (if 0 < w then set_handle fs' i (oh_pos h + w) else fs', Inr w)))
           else (case store_bytes alloc junk f buf (oh_pos h) newpos of
                   None \<Rightarrow> (fs, Inl ENOSPC)
                 | Some f' \<Rightarrow> (set_handle (set_file fs k f') i newpos, Inr n))))"

definition mb_fs_pwrite ::
  "(nat \<Rightarrow> bool) \<Rightarrow> (nat \<Rightarrow> byte) \<Rightarrow> mb_fs \<Rightarrow> int \<Rightarrow> bytes \<Rightarrow> int \<Rightarrow> mb_fs \<times> nat res" where
  "mb_fs_pwrite alloc junk fs fd buf offset =
    (case handle_by_fd fs fd of
       None \<Rightarrow> (fs, Inl EBADF)
     | Some i \<Rightarrow>
       (let h = fs_hs fs ! i; k = oh_file h; f = fs_files fs ! k; n = length buf;
            at = nat offset; end' = (at + n) mod 2 ^ 64
        in if mf_kind f = F_SYSOUT then (fs, Inl ESPIPE)
           else if mf_kind f \<noteq> F_REGULAR \<and> mf_kind f \<noteq> F_HOST_OUT \<or> \<not> mf_writable f then (fs, Inl EBADF)
           else if offset < 0 then (fs, Inl EINVAL)
           else if n = 0 then (fs, Inr 0)
           else if end' < at then (fs, Inl EFBIG)
           else if mf_kind f = F_HOST_OUT
           then (case host_write f buf at of (f', r) \<Rightarrow> (set_file fs k f', r))
           else (case store_bytes alloc junk f buf at end' of
                   None \<Rightarrow> (fs, Inl ENOSPC)
                 | Some f' \<Rightarrow> (set_file fs k f', Inr n))))"

section \<open>Seeking, stat and truncating\<close>

definition mb_fs_seek :: "mb_fs \<Rightarrow> int \<Rightarrow> int \<Rightarrow> int \<Rightarrow> mb_fs \<times> int res" where
  "mb_fs_seek fs fd offset whence =
    (case handle_by_fd fs fd of
       None \<Rightarrow> (fs, Inl (not_open fs EINVAL))
     | Some i \<Rightarrow>
       (let h = fs_hs fs ! i; f = fs_files fs ! oh_file h;
            newpos = (if whence = 0 then Some offset
                      else if whence = 1 then Some (wrap64 (wrap64 (int (oh_pos h)) + offset))
                      else if whence = 2 then Some (wrap64 (wrap64 (int (mf_len f)) + offset))
                      else None)
        in if \<not> has_bytes f then (fs, Inl (if fs_linux fs then ESPIPE else EINVAL))
           else case newpos of
             None \<Rightarrow> (fs, Inl EINVAL)
           | Some p \<Rightarrow>
               if p < 0 \<or> \<not> fs_linux fs \<and> wrap64 (int (mf_len f)) < p then (fs, Inl EINVAL)
               else (set_handle fs i (nat p), Inr p)))"

record kstat =
  st_dev :: nat  st_ino :: nat  st_nlink :: nat
  st_mode :: nat  st_uid :: nat  st_gid :: nat
  st_rdev :: nat
  st_size :: int  st_blksize :: int  st_blocks :: int
  st_atime_sec :: int  st_atime_nsec :: int  st_mtime_sec :: int  st_mtime_nsec :: int
  st_ctime_sec :: int  st_ctime_nsec :: int

definition fill_stat :: "bool \<Rightarrow> bool \<Rightarrow> bool \<Rightarrow> int \<Rightarrow> kstat" where
  "fill_stat can_read can_write can_seek len =
    (let mode = (or (or (if can_read then 0x124 else 0) (if can_write then 0x92 else 0))
                    (if can_seek then 0x8000 else 0x1000) :: nat);
         size = (if can_seek then len else 0)
     in \<lparr>st_dev = 1, st_ino = 1, st_nlink = 0, st_mode = mode, st_uid = 0, st_gid = 0, st_rdev = 0,
         st_size = size, st_blksize = 4096, st_blocks = (size + 511) div 512,
         st_atime_sec = 1262304000000, st_atime_nsec = 500000000,
         st_mtime_sec = 1262304000000, st_mtime_nsec = 500000000,
         st_ctime_sec = 1262304000000, st_ctime_nsec = 500000000\<rparr>)"

definition stat_file :: "mounted_file \<Rightarrow> kstat" where
  "stat_file f =
    (if mf_kind f = F_SYSOUT then fill_stat False True False 0
     else if mf_kind f = F_EMPTY then fill_stat True False False 0
     else fill_stat True (mf_writable f) True (int (mf_len f)))"

definition mb_fs_stat_name :: "mb_fs \<Rightarrow> bytes \<Rightarrow> kstat res" where
  "mb_fs_stat_name fs name =
    (case by_name fs name of None \<Rightarrow> Inl ENOENT | Some i \<Rightarrow> Inr (stat_file (fs_files fs ! i)))"

definition mb_fs_exists :: "mb_fs \<Rightarrow> bytes \<Rightarrow> bool" where
  "mb_fs_exists fs name \<longleftrightarrow> by_name fs name \<noteq> None"

definition mb_fs_stat_fd :: "mb_fs \<Rightarrow> int \<Rightarrow> kstat res" where
  "mb_fs_stat_fd fs fd =
    (case handle_by_fd fs fd of None \<Rightarrow> Inl (not_open fs ENOENT)
     | Some i \<Rightarrow> Inr (stat_file (fs_files fs ! oh_file (fs_hs fs ! i))))"

definition mb_fs_sync_fd :: "mb_fs \<Rightarrow> int \<Rightarrow> unit res" where
  "mb_fs_sync_fd fs fd =
    (case handle_by_fd fs fd of None \<Rightarrow> Inl EBADF
     | Some i \<Rightarrow>
       (let f = fs_files fs ! oh_file (fs_hs fs ! i)
        in if mf_kind f = F_HOST_OUT \<and> \<not> hf_flush_ok (mf_host f) then Inl EIO else Inr ()))"

definition clamp_handles :: "mb_fs \<Rightarrow> nat \<Rightarrow> nat \<Rightarrow> mb_fs" where
  "clamp_handles fs k len =
    fs\<lparr>fs_hs := map (\<lambda>h. if oh_file h = k \<and> len < oh_pos h then h\<lparr>oh_pos := len\<rparr> else h) (fs_hs fs)\<rparr>"

definition mb_fs_truncate_name ::
  "(nat \<Rightarrow> bool) \<Rightarrow> (nat \<Rightarrow> byte) \<Rightarrow> mb_fs \<Rightarrow> bytes \<Rightarrow> int \<Rightarrow> mb_fs \<times> unit res" where
  "mb_fs_truncate_name alloc junk fs name sz =
    (case by_name fs name of
       None \<Rightarrow> (fs, Inl ENOENT)
     | Some k \<Rightarrow>
       (let f = fs_files fs ! k; n = nat sz
        in if mf_kind f = F_HOST_OUT \<and> 0 \<le> sz
           then (if \<not> hf_flush_ok (mf_host f) then (fs, Inl EIO)
                 else case ftruncate (mf_host f) n of
                   None \<Rightarrow> (fs, Inl EIO)
                 | Some hf \<Rightarrow>
                   (clamp_handles (set_file fs k (f\<lparr>mf_host := hf, mf_len := n, mf_cap := n\<rparr>)) k n, Inr ()))
           else if mf_kind f \<noteq> F_REGULAR \<or> \<not> mf_writable f \<or> sz < 0 then (fs, Inl EBADF)
           else if \<not> alloc (if sz \<noteq> 0 then n else 1) then (fs, Inl ENOMEM)
           else
             (let data = realloc junk (mf_data f) n;
                  data' = (if mf_len f < n then put_at data (mf_len f) (replicate (n - mf_len f) 0) else data)
              in (clamp_handles (set_file fs k (f\<lparr>mf_data := data', mf_len := n, mf_cap := n\<rparr>)) k n, Inr ()))))"

definition mb_fs_truncate_fd ::
  "(nat \<Rightarrow> bool) \<Rightarrow> (nat \<Rightarrow> byte) \<Rightarrow> mb_fs \<Rightarrow> int \<Rightarrow> int \<Rightarrow> mb_fs \<times> unit res" where
  "mb_fs_truncate_fd alloc junk fs fd sz =
    (case handle_by_fd fs fd of None \<Rightarrow> (fs, Inl (not_open fs ENOENT))
     | Some i \<Rightarrow> mb_fs_truncate_name alloc junk fs (mf_name (fs_files fs ! oh_file (fs_hs fs ! i))) sz)"

section \<open>The open-file table of states and deltas\<close>

definition i32_bytes :: "int \<Rightarrow> bytes" where
  "i32_bytes i = u32_bytes (word_of_int i)"

definition take_i32 :: "bytes \<Rightarrow> (int \<times> bytes) option" where
  "take_i32 s = map_option (\<lambda>(w, s'). (sint w, s')) (take_u32 s)"

text \<open>The inner loop of \<open>mb_fs_save_handles\<close>: the handle with the least descriptor
  above \<open>prev\<close>.\<close>

definition next_handle :: "open_handle list \<Rightarrow> int \<Rightarrow> open_handle option" where
  "next_handle hs prev =
    fold (\<lambda>h next. if prev < oh_fd h \<and> (case next of None \<Rightarrow> True | Some g \<Rightarrow> oh_fd h < oh_fd g)
                   then Some h else next) hs None"

definition handle_chunks :: "mb_fs \<Rightarrow> open_handle \<Rightarrow> bytes list" where
  "handle_chunks fs h =
    (let name = mf_name (fs_files fs ! oh_file h)
     in [i32_bytes (oh_fd h), u64_bytes (of_nat (oh_pos h)), u32_bytes (of_nat (length name)), name])"

fun save_handles_loop :: "mb_fs \<Rightarrow> nat \<Rightarrow> int \<Rightarrow> bytes list option" where
  "save_handles_loop fs 0 prev = Some []"
| "save_handles_loop fs (Suc k) prev =
    (case next_handle (fs_hs fs) prev of
       None \<Rightarrow> None
     | Some h \<Rightarrow> map_option (\<lambda>cs. handle_chunks fs h @ cs) (save_handles_loop fs k (oh_fd h)))"

text \<open>The chunks \<open>mb_fs_save_handles\<close> gives the write callback, in order.\<close>

definition mb_fs_save_handles :: "mb_fs \<Rightarrow> bytes list option" where
  "mb_fs_save_handles fs =
    (let n = length (fs_hs fs)
     in map_option (\<lambda>cs. u32_bytes (of_nat n) # cs)
          (save_handles_loop fs (unat (of_nat n :: u32)) (- 1)))"

definition c_string :: "bytes \<Rightarrow> bytes" where
  "c_string bs = takeWhile (\<lambda>b. b \<noteq> 0) bs"

text \<open>One entry of the record: descriptor, position, and the name's bytes.\<close>

definition take_handle :: "bytes \<Rightarrow> ((int \<times> nat \<times> nat) \<times> bytes) option" where
  "take_handle s =
    Option.bind (take_i32 s) (\<lambda>(fd, s1).
    Option.bind (take_u64 s1) (\<lambda>(pos, s2).
    Option.bind (take_u32 s2) (\<lambda>(len, s3). Some ((fd, unat pos, unat len), s3))))"

text \<open>Reading past the rest of a record that names a file not mounted here.\<close>

fun skip_handles :: "nat \<Rightarrow> bytes \<Rightarrow> bytes option" where
  "skip_handles 0 s = Some s"
| "skip_handles (Suc k) s =
    Option.bind (take_handle s) (\<lambda>((fd, pos, len), s1).
      if 4096 \<le> len then None
      else Option.bind (take_bytes len s1) (\<lambda>(nm, s2). skip_handles k s2))"

datatype table_load = Table "open_handle list" | Not_mounted

fun load_handles_loop ::
  "mb_fs \<Rightarrow> nat \<Rightarrow> int \<Rightarrow> open_handle list \<Rightarrow> bytes \<Rightarrow> (table_load \<times> bytes) option" where
  "load_handles_loop fs 0 prev hs s = Some (Table hs, s)"
| "load_handles_loop fs (Suc k) prev hs s =
    Option.bind (take_handle s) (\<lambda>((fd, pos, len), s1).
      if fd \<le> prev \<or> 4096 \<le> len then None
      else Option.bind (take_bytes len s1) (\<lambda>(nm, s2).
        case by_name fs (c_string nm) of
          None \<Rightarrow> map_option (\<lambda>s3. (Not_mounted, s3)) (skip_handles k s2)
        | Some i \<Rightarrow>
            (let f = fs_files fs ! i;
                 pos' = (if pos < mf_len f \<or> fs_linux fs then pos else mf_len f)
             in load_handles_loop fs k fd (hs @ [\<lparr>oh_fd = fd, oh_file = i, oh_pos = pos'\<rparr>]) s2)))"

text \<open>\<open>None\<close> is the answer \<open>-1\<close>; otherwise the file system after, whether the table
  was replaced (answer 0) or left (answer 1), and the rest of the stream.\<close>

definition mb_fs_load_handles ::
  "(nat \<Rightarrow> bool) \<Rightarrow> mb_fs \<Rightarrow> bytes \<Rightarrow> (mb_fs \<times> bool \<times> bytes) option" where
  "mb_fs_load_handles alloc fs s =
    Option.bind (take_u32 s) (\<lambda>(n, s1).
      if 65536 < unat n then None
      else if \<not> alloc (24 * max (unat n) 1) then None
      else case load_handles_loop fs (unat n) (- 1) [] s1 of
        None \<Rightarrow> None
      | Some (Not_mounted, s2) \<Rightarrow> Some (fs, False, s2)
      | Some (Table hs, s2) \<Rightarrow> Some (fs\<lparr>fs_hs := hs\<rparr>, True, s2))"

end
