(* ===== verification/Mb_Fs_Inv.thy ===== *)
theory Mb_Fs_Inv
  imports Mb_Fs "HOL-Library.Multiset"
begin

text \<open>
  The file system's well-formedness invariant, the descriptor table as a finite
  map in which a new entry takes the lowest free key, and the preservation
  lemmas of the primitive updates.
\<close>

section \<open>The invariant\<close>

definition file_wf :: "mounted_file \<Rightarrow> bool" where
  "file_wf f \<longleftrightarrow>
     (mf_kind f = F_REGULAR \<longrightarrow> mf_len f \<le> mf_cap f \<and> length (mf_data f) = mf_cap f)
   \<and> (\<not> has_bytes f \<longrightarrow> mf_len f = 0 \<and> \<not> mf_writable f)
   \<and> (mf_kind f = F_HOST \<longrightarrow> \<not> mf_writable f) \<and> mf_len f < 2 ^ 64"

definition single_open :: "mounted_file \<Rightarrow> bool" where
  "single_open f \<longleftrightarrow> has_bytes f \<and> mf_writable f"

definition handle_wf :: "mb_fs \<Rightarrow> open_handle \<Rightarrow> bool" where
  "handle_wf fs h \<longleftrightarrow> 0 \<le> oh_fd h \<and> oh_file h < length (fs_files fs) \<and> oh_pos h < 2 ^ 64
     \<and> (fs_linux fs \<or> oh_pos h \<le> mf_len (fs_files fs ! oh_file h))"

text \<open>The single-open files that are open, one entry per handle.\<close>

definition writers :: "mb_fs \<Rightarrow> nat list" where
  "writers fs = filter (\<lambda>k. single_open (fs_files fs ! k)) (map oh_file (fs_hs fs))"

definition ring_wf :: "mb_fs \<Rightarrow> bool" where
  "ring_wf fs \<longleftrightarrow> length (fs_tail fs) = TAIL_SIZE \<and> fs_tail_at fs < TAIL_SIZE"

definition fs_wf :: "mb_fs \<Rightarrow> bool" where
  "fs_wf fs \<longleftrightarrow>
     distinct (map mf_name (fs_files fs)) \<and> (\<forall>f\<in>set (fs_files fs). file_wf f)
   \<and> distinct (map oh_fd (fs_hs fs)) \<and> (\<forall>h\<in>set (fs_hs fs). handle_wf fs h)
   \<and> distinct (writers fs) \<and> ring_wf fs"

section \<open>The descriptor table\<close>

lemma lowest_free_spec:
  "fd \<le> lowest_free hs fd \<and> lowest_free hs fd \<notin> oh_fd ` set hs
   \<and> (\<forall>d. fd \<le> d \<and> d < lowest_free hs fd \<longrightarrow> d \<in> oh_fd ` set hs)"
proof (induction hs fd rule: lowest_free.induct)
  case (1 hs fd)
  show ?case
  proof (cases "find_index (\<lambda>h. oh_fd h = fd) hs = None")
    case True
    then show ?thesis
      by (subst (1 2 3) lowest_free.simps) (auto simp: find_index_None_iff)
  next
    case False
    then have mem: "fd \<in> oh_fd ` set hs" by (auto simp: find_index_None_iff)
    have eq: "lowest_free hs fd = lowest_free hs (fd + 1)"
      using False by (subst lowest_free.simps) simp
    have "d \<in> oh_fd ` set hs" if "fd \<le> d" "d < lowest_free hs (fd + 1)" for d
      using 1 [OF False] mem that by (cases "d = fd") auto
    with 1 [OF False] eq show ?thesis by auto
  qed
qed

definition fd_map :: "mb_fs \<Rightarrow> int \<rightharpoonup> nat \<times> nat" where
  "fd_map fs fd = map_option (\<lambda>i. (oh_file (fs_hs fs ! i), oh_pos (fs_hs fs ! i))) (handle_by_fd fs fd)"

abbreviation fd_entry :: "open_handle \<Rightarrow> int \<times> nat \<times> nat" where
  "fd_entry h \<equiv> (oh_fd h, oh_file h, oh_pos h)"

lemma fd_map_map_of: "fd_map fs = map_of (map fd_entry (fs_hs fs))"
proof
  fix fd
  have "map_option (\<lambda>i. (oh_file (hs ! i), oh_pos (hs ! i))) (find_index (\<lambda>h. oh_fd h = fd) hs)
        = map_of (map fd_entry hs) fd" for hs
    by (induction hs) (auto simp: option.map_comp o_def cong: option.map_cong)
  then show "fd_map fs fd = map_of (map fd_entry (fs_hs fs)) fd"
    by (simp add: fd_map_def handle_by_fd_def)
qed

lemma dom_fd_map: "dom (fd_map fs) = oh_fd ` set (fs_hs fs)"
  by (simp add: fd_map_map_of dom_map_of_conv_image_fst image_image)

lemma handle_by_fdD:
  "handle_by_fd fs fd = Some i \<Longrightarrow> i < length (fs_hs fs) \<and> oh_fd (fs_hs fs ! i) = fd"
  by (simp add: handle_by_fd_def find_index_Some_iff)

lemma handle_by_fd_None: "handle_by_fd fs fd = None \<longleftrightarrow> fd \<notin> dom (fd_map fs)"
  by (auto simp: fd_map_def dom_def)

lemma swap_out_mset:
  assumes "i < length xs"
  shows "mset xs = add_mset (xs ! i) (mset (butlast (xs[i := last xs])))"
proof -
  obtain ys y where xs: "xs = ys @ [y]" using assms by (cases xs rule: rev_cases) auto
  show ?thesis
  proof (cases "i = length ys")
    case True
    then show ?thesis by (simp add: xs)
  next
    case False
    then have i: "i < length ys" using assms xs by simp
    then have "mset (ys[i := y]) + {#ys ! i#} = mset ys + {#y#}"
      by (simp add: mset_update)
    with i show ?thesis by (simp add: xs nth_append list_update_append)
  qed
qed

lemma map_of_remove:
  assumes "distinct (map fst xs)" "mset xs = add_mset (k, v) (mset ys)"
  shows "map_of ys = (map_of xs)(k := None)"
proof -
  have "mset (map fst xs) = add_mset k (mset (map fst ys))"
    using assms(2) by (simp add: mset_map)
  moreover from this have "distinct (k # map fst ys)"
    using assms(1) by (metis mset.simps(2) mset_eq_imp_distinct_iff)
  ultimately have d: "distinct (map fst ys)" "k \<notin> fst ` set ys" by auto
  have s: "set xs = insert (k, v) (set ys)"
    using assms(2) by (metis set_mset_add_mset_insert set_mset_mset)
  show ?thesis
  proof (rule ext)
    fix x
    show "map_of ys x = ((map_of xs)(k := None)) x"
    proof (cases "x = k")
      case True
      with d(2) show ?thesis by (simp add: map_of_eq_None_iff)
    next
      case False
      then have "map_of ys x = Some w \<longleftrightarrow> map_of xs x = Some w" for w
        using assms(1) d(1) s by (auto simp: map_of_eq_Some_iff)
      then have "map_of ys x = map_of xs x" by (metis option.exhaust)
      with False show ?thesis by simp
    qed
  qed
qed

lemma map_of_snoc:
  "k \<notin> fst ` set xs \<Longrightarrow> map_of (xs @ [(k, v)]) = (map_of xs)(k \<mapsto> v)"
  by (induction xs) (auto simp: fun_eq_iff)

text \<open>What the rest of the file system relies on of a descriptor table: a finite
  map in which a new entry takes the lowest free key.\<close>

locale fd_table =
  fixes lookup :: "'t \<Rightarrow> int \<rightharpoonup> 'v"
    and add :: "'t \<Rightarrow> 'v \<Rightarrow> 't \<times> int"
    and remove :: "'t \<Rightarrow> int \<Rightarrow> 't"
    and ok :: "'t \<Rightarrow> bool"
  assumes add_lookup: "ok t \<Longrightarrow> add t v = (t', fd) \<Longrightarrow> lookup t' = (lookup t)(fd \<mapsto> v)"
    and add_fresh: "ok t \<Longrightarrow> add t v = (t', fd) \<Longrightarrow> 0 \<le> fd \<and> lookup t fd = None"
    and add_lowest: "ok t \<Longrightarrow> add t v = (t', fd) \<Longrightarrow> 0 \<le> d \<Longrightarrow> d < fd \<Longrightarrow> lookup t d \<noteq> None"
    and remove_lookup: "ok t \<Longrightarrow> lookup t fd \<noteq> None \<Longrightarrow> lookup (remove t fd) = (lookup t)(fd := None)"
    and add_ok: "ok t \<Longrightarrow> add t v = (t', fd) \<Longrightarrow> ok t'"
    and remove_ok: "ok t \<Longrightarrow> lookup t fd \<noteq> None \<Longrightarrow> ok (remove t fd)"
begin

lemma add_key_unique:
  assumes "ok t" "add t v = (t', fd)" "0 \<le> d" "lookup t d = None" "\<And>e. 0 \<le> e \<Longrightarrow> e < d \<Longrightarrow> lookup t e \<noteq> None"
  shows "fd = d"
  using add_fresh [OF assms(1,2)] add_lowest [OF assms(1,2), of d] assms(3-) by fastforce

lemma add_remove:
  assumes "ok t" "add t v = (t', fd)"
  shows "lookup (remove t' fd) = lookup t"
  using add_lookup [OF assms] remove_lookup [OF add_ok [OF assms], of fd] add_fresh [OF assms]
  by (simp add: fun_upd_idem)

text \<open>The same sequence of calls gives the same descriptors: the key given depends
  only on which keys are in use, not on how the table came to be.\<close>

lemma add_deterministic:
  assumes t: "ok t" "add t v = (t', fd)" and u: "ok u" "add u w = (u', fd')"
    and dom: "dom (lookup t) = dom (lookup u)"
  shows "fd = fd'"
proof (rule add_key_unique [OF t])
  show "0 \<le> fd'" using add_fresh [OF u] by simp
  show "lookup t fd' = None" using add_fresh [OF u] dom by auto
  show "lookup t e \<noteq> None" if "0 \<le> e" "e < fd'" for e
    using add_lowest [OF u that] dom by auto
qed

end

definition table_ok :: "mb_fs \<Rightarrow> bool" where
  "table_ok fs \<longleftrightarrow> distinct (map oh_fd (fs_hs fs)) \<and> (\<forall>h\<in>set (fs_hs fs). 0 \<le> oh_fd h)"

lemma close_mset:
  assumes "mb_fs_close fs fd = (fs', Inr ())"
  obtains i where "handle_by_fd fs fd = Some i"
    "mset (fs_hs fs) = add_mset (fs_hs fs ! i) (mset (fs_hs fs'))"
    "fs' = fs\<lparr>fs_hs := fs_hs fs'\<rparr>"
  using assms that swap_out_mset [of _ "fs_hs fs"]
  by (auto simp: mb_fs_close_def split: option.splits dest: handle_by_fdD)

interpretation fdt: fd_table fd_map "\<lambda>fs v. handle_add fs (fst v) (snd v)"
  "\<lambda>fs fd. fst (mb_fs_close fs fd)" table_ok
proof (unfold_locales, goal_cases)
  case (1 t v t' fd)
  then show ?case
    using lowest_free_spec [of 0 "fs_hs t"]
    by (auto simp: handle_add_def Let_def fd_map_map_of image_image
        map_of_snoc [of "lowest_free (fs_hs t) 0" "map fd_entry (fs_hs t)" v, simplified])
next
  case (2 t v t' fd)
  then show ?case
    using lowest_free_spec [of 0 "fs_hs t"] dom_fd_map [of t]
    by (auto simp: handle_add_def Let_def)
next
  case (3 t v t' fd d)
  then have "d \<in> dom (fd_map t)"
    using lowest_free_spec [of 0 "fs_hs t"] by (auto simp: handle_add_def Let_def dom_fd_map)
  then show ?case by auto
next
  case (4 t fd)
  then have "mb_fs_close t fd = (fst (mb_fs_close t fd), Inr ())"
    by (auto simp: mb_fs_close_def fd_map_def split: option.splits)
  then obtain i where i: "handle_by_fd t fd = Some i"
    "mset (fs_hs t) = add_mset (fs_hs t ! i) (mset (fs_hs (fst (mb_fs_close t fd))))"
    by (rule close_mset)
  have "mset (map fd_entry (fs_hs t)) = add_mset (fd_entry (fs_hs t ! i))
      (mset (map fd_entry (fs_hs (fst (mb_fs_close t fd)))))"
    using i(2) by (simp add: mset_map)
  moreover have "distinct (map fst (map fd_entry (fs_hs t)))"
    using 4 by (simp add: table_ok_def o_def)
  ultimately show ?case
    using handle_by_fdD [OF i(1)] by (simp add: fd_map_map_of map_of_remove)
next
  case (5 t v t' fd)
  then show ?case
    using lowest_free_spec [of 0 "fs_hs t"] by (auto simp: handle_add_def Let_def table_ok_def)
next
  case (6 t fd)
  then have "mb_fs_close t fd = (fst (mb_fs_close t fd), Inr ())"
    by (auto simp: mb_fs_close_def fd_map_def split: option.splits)
  then obtain i where i: "mset (fs_hs t) = add_mset (fs_hs t ! i) (mset (fs_hs (fst (mb_fs_close t fd))))"
    by (rule close_mset)
  then have "mset (map oh_fd (fs_hs t)) = mset (oh_fd (fs_hs t ! i) # map oh_fd (fs_hs (fst (mb_fs_close t fd))))"
    by (simp add: mset_map)
  then have "distinct (map oh_fd (fs_hs (fst (mb_fs_close t fd))))"
    using 6(1) mset_eq_imp_distinct_iff unfolding table_ok_def by (metis distinct.simps(2))
  moreover have "set (fs_hs (fst (mb_fs_close t fd))) \<subseteq> set (fs_hs t)"
    using i by (metis set_mset_add_mset_insert set_mset_mset subset_insertI)
  ultimately show ?case using 6(1) by (auto simp: table_ok_def)
qed

section \<open>Preservation of the invariant\<close>

lemma fs_wfD:
  assumes "fs_wf fs" "i < length (fs_hs fs)"
  shows "handle_wf fs (fs_hs fs ! i)" "file_wf (fs_files fs ! oh_file (fs_hs fs ! i))"
    "oh_file (fs_hs fs ! i) < length (fs_files fs)"
  using assms by (auto simp: fs_wf_def handle_wf_def)

lemma fs_wf_table_ok: "fs_wf fs \<Longrightarrow> table_ok fs"
  by (auto simp: fs_wf_def table_ok_def handle_wf_def)

lemma fs_wf_handle_add:
  assumes wf: "fs_wf fs" and k: "k < length (fs_files fs)"
    and pos: "fs_linux fs \<or> pos \<le> mf_len (fs_files fs ! k)" "pos < 2 ^ 64"
    and one: "\<not> (single_open (fs_files fs ! k) \<and> file_is_open fs k)"
  shows "fs_wf (fst (handle_add fs k pos))"
proof -
  let ?fs = "fst (handle_add fs k pos)"
  have fs: "?fs = fs\<lparr>fs_hs := fs_hs fs @ [\<lparr>oh_fd = lowest_free (fs_hs fs) 0, oh_file = k, oh_pos = pos\<rparr>]\<rparr>"
    by (simp add: handle_add_def Let_def)
  have "distinct (writers ?fs)"
    using wf one by (auto simp: fs writers_def fs_wf_def file_is_open_def)
  then show ?thesis
    using wf k pos lowest_free_spec [of 0 "fs_hs fs"]
    by (auto simp: fs fs_wf_def handle_wf_def ring_wf_def)
qed

lemma fs_wf_close:
  assumes wf: "fs_wf fs"
  shows "fs_wf (fst (mb_fs_close fs fd))"
proof (cases "handle_by_fd fs fd")
  case None
  with wf show ?thesis by (simp add: mb_fs_close_def)
next
  case (Some i)
  let ?hs = "butlast ((fs_hs fs)[i := last (fs_hs fs)])" and ?w = "\<lambda>k. single_open (fs_files fs ! k)"
  have fs: "fst (mb_fs_close fs fd) = fs\<lparr>fs_hs := ?hs\<rparr>" using Some by (simp add: mb_fs_close_def)
  have ms: "mset (fs_hs fs) = add_mset (fs_hs fs ! i) (mset ?hs)"
    using swap_out_mset handle_by_fdD [OF Some] by blast
  have ok: "table_ok (fs\<lparr>fs_hs := ?hs\<rparr>)"
    using fdt.remove_ok [of fs fd] fs_wf_table_ok [OF wf] Some unfolding fs by (auto simp: fd_map_def)
  have sub: "set ?hs \<subseteq> set (fs_hs fs)"
    using ms by (metis set_mset_add_mset_insert set_mset_mset subset_insertI)
  have "mset (map oh_file (fs_hs fs)) = mset (oh_file (fs_hs fs ! i) # map oh_file ?hs)"
    using ms by (simp add: mset_map)
  then have "mset (filter ?w (map oh_file (fs_hs fs))) = mset (filter ?w (oh_file (fs_hs fs ! i) # map oh_file ?hs))"
    by (simp only: mset_filter)
  then have "distinct (filter ?w (oh_file (fs_hs fs ! i) # map oh_file ?hs))"
    using wf mset_eq_imp_distinct_iff unfolding fs_wf_def writers_def by blast
  then have "distinct (filter ?w (map oh_file ?hs))" by (simp split: if_splits)
  then show ?thesis
    using wf ok sub unfolding fs by (auto simp: fs_wf_def table_ok_def handle_wf_def ring_wf_def writers_def)
qed

lemma map_oh_file_set [simp]:
  "i < length hs \<Longrightarrow> map oh_file (hs[i := (hs ! i)\<lparr>oh_pos := p\<rparr>]) = map oh_file hs"
  "i < length hs \<Longrightarrow> map oh_fd (hs[i := (hs ! i)\<lparr>oh_pos := p\<rparr>]) = map oh_fd hs"
  by (simp_all add: map_update list_update_same_conv)

lemma fs_wf_set_handle:
  assumes wf: "fs_wf fs" and i: "i < length (fs_hs fs)"
    and p: "fs_linux fs \<or> p \<le> mf_len (fs_files fs ! oh_file (fs_hs fs ! i))" "p < 2 ^ 64"
  shows "fs_wf (set_handle fs i p)"
proof -
  have "handle_wf (set_handle fs i p) h" if "h \<in> set (fs_hs (set_handle fs i p))" for h
  proof -
    have "h = (fs_hs fs ! i)\<lparr>oh_pos := p\<rparr> \<or> h \<in> set (fs_hs fs)"
      using that set_update_subset_insert [of "fs_hs fs" i] by (auto simp: set_handle_def)
    with wf p fs_wfD(1) [OF wf i] show ?thesis
      by (auto simp: handle_wf_def set_handle_def fs_wf_def)
  qed
  with wf i show ?thesis
    by (simp add: fs_wf_def set_handle_def writers_def ring_wf_def)
qed

lemma fs_wf_set_file:
  assumes wf: "fs_wf fs" and k: "k < length (fs_files fs)"
    and f: "file_wf f" "mf_name f = mf_name (fs_files fs ! k)"
      "single_open f = single_open (fs_files fs ! k)" "mf_len (fs_files fs ! k) \<le> mf_len f"
  shows "fs_wf (set_file fs k f)"
proof -
  have names: "map mf_name ((fs_files fs)[k := f]) = map mf_name (fs_files fs)"
    using f(2) k by (simp add: map_update list_update_same_conv)
  have so: "single_open ((fs_files fs)[k := f] ! j) = single_open (fs_files fs ! j)" for j
    using f(3) k by (cases "j = k") auto
  have "handle_wf (set_file fs k f) h" if "h \<in> set (fs_hs fs)" for h
    using that wf f(4) k unfolding fs_wf_def handle_wf_def set_file_def
    by (cases "oh_file h = k") force+
  moreover have "\<forall>g\<in>set ((fs_files fs)[k := f]). file_wf g"
    using wf f(1) set_update_subset_insert [of "fs_files fs" k f] by (auto simp: fs_wf_def)
  ultimately show ?thesis
    using wf names so by (simp add: fs_wf_def set_file_def writers_def ring_wf_def)
qed

lemma by_nameD:
  "by_name fs name = Some k \<Longrightarrow> k < length (fs_files fs) \<and> mf_name (fs_files fs ! k) = name"
  by (simp add: by_name_def find_index_Some_iff)

lemma fs_wf_append_file:
  assumes wf: "fs_wf fs" and f: "file_wf f" and new: "by_name fs (mf_name f) = None"
  shows "fs_wf (fs\<lparr>fs_files := fs_files fs @ [f]\<rparr>)"
proof -
  have old: "(fs_files fs @ [f]) ! oh_file h = fs_files fs ! oh_file h" if "h \<in> set (fs_hs fs)" for h
    using that wf by (auto simp: fs_wf_def handle_wf_def nth_append)
  have "writers (fs\<lparr>fs_files := fs_files fs @ [f]\<rparr>) = writers fs"
    using old by (auto simp: writers_def filter_map o_def cong: filter_cong)
  with wf f new old show ?thesis
    by (auto simp: fs_wf_def handle_wf_def ring_wf_def by_name_def find_index_None_iff)
qed

definition shift_file :: "nat \<Rightarrow> nat \<Rightarrow> nat" where
  "shift_file i k = (if i < k then k - 1 else k)"

lemma nth_shift_file:
  "k \<noteq> i \<Longrightarrow> k < length xs \<Longrightarrow> (take i xs @ drop (Suc i) xs) ! shift_file i k = xs ! k"
  by (auto simp: shift_file_def nth_append min_def)

lemma oh_file_drop:
  "oh_file (if i < oh_file h then h\<lparr>oh_file := oh_file h - 1\<rparr> else h) = shift_file i (oh_file h)"
  "oh_fd (if i < oh_file h then h\<lparr>oh_file := oh_file h - 1\<rparr> else h) = oh_fd h"
  "oh_pos (if i < oh_file h then h\<lparr>oh_file := oh_file h - 1\<rparr> else h) = oh_pos h"
  by (simp_all add: shift_file_def)

lemma distinct_drop_one: "distinct xs \<Longrightarrow> distinct (take i xs @ drop (Suc i) xs)"
  using set_take_disj_set_drop_if_distinct [of xs i "Suc i"] by (simp add: distinct_append)

lemma drop_file_hs:
  "map oh_file (fs_hs (drop_file fs i)) = map (shift_file i) (map oh_file (fs_hs fs))"
  "map oh_fd (fs_hs (drop_file fs i)) = map oh_fd (fs_hs fs)"
  by (auto simp: drop_file_def shift_file_def)

lemma drop_file_handle_wf:
  assumes wf: "\<forall>h\<in>set (fs_hs fs). handle_wf fs h" and i: "i < length (fs_files fs)"
    and shut: "\<not> file_is_open fs i" and h: "h \<in> set (fs_hs (drop_file fs i))"
  shows "handle_wf (drop_file fs i) h"
proof -
  obtain h0 where h0: "h0 \<in> set (fs_hs fs)"
    and h: "h = (if i < oh_file h0 then h0\<lparr>oh_file := oh_file h0 - 1\<rparr> else h0)"
    using h by (auto simp: drop_file_def)
  have eq: "oh_file h = shift_file i (oh_file h0)" "oh_fd h = oh_fd h0" "oh_pos h = oh_pos h0"
    using h by (simp_all add: shift_file_def)
  have w0: "handle_wf fs h0" and ne: "oh_file h0 \<noteq> i" using wf shut h0 by (auto simp: file_is_open_def)
  then have lt: "oh_file h0 < length (fs_files fs)" by (simp add: handle_wf_def)
  have fl: "fs_files (drop_file fs i) = take i (fs_files fs) @ drop (Suc i) (fs_files fs)"
    by (simp add: drop_file_def)
  have "shift_file i (oh_file h0) < length (fs_files (drop_file fs i))"
    using lt ne i unfolding fl shift_file_def by (cases "i < oh_file h0"; simp; linarith)
  moreover have "fs_files (drop_file fs i) ! shift_file i (oh_file h0) = fs_files fs ! oh_file h0"
    unfolding fl by (rule nth_shift_file [OF ne lt])
  moreover have "fs_linux (drop_file fs i) = fs_linux fs" by (simp add: drop_file_def)
  ultimately show ?thesis using w0 eq by (simp add: handle_wf_def)
qed

lemma drop_file_writers:
  assumes wf: "\<forall>h\<in>set (fs_hs fs). handle_wf fs h" and shut: "\<not> file_is_open fs i"
    and d: "distinct (writers fs)"
  shows "distinct (writers (drop_file fs i))"
proof -
  let ?fl = "take i (fs_files fs) @ drop (Suc i) (fs_files fs)"
  let ?ks = "map oh_file (fs_hs fs)"
  have ks: "k \<noteq> i" "k < length (fs_files fs)" if "k \<in> set ?ks" for k
    using that wf shut by (auto simp: handle_wf_def file_is_open_def)
  have fl: "fs_files (drop_file fs i) = ?fl" by (simp add: drop_file_def)
  have "writers (drop_file fs i) = filter (\<lambda>k. single_open (?fl ! k)) (map (shift_file i) ?ks)"
    by (simp only: writers_def drop_file_hs fl)
  also have "\<dots> = map (shift_file i) (filter ((\<lambda>k. single_open (?fl ! k)) \<circ> shift_file i) ?ks)"
    by (rule filter_map)
  also have "filter ((\<lambda>k. single_open (?fl ! k)) \<circ> shift_file i) ?ks = writers fs"
    unfolding writers_def by (rule filter_cong) (simp_all add: nth_shift_file ks)
  finally have w: "writers (drop_file fs i) = map (shift_file i) (writers fs)" .
  have "inj_on (shift_file i) (set (writers fs))"
  proof (rule inj_onI)
    fix x y assume "x \<in> set (writers fs)" "y \<in> set (writers fs)" and e: "shift_file i x = shift_file i y"
    then have "x \<noteq> i" "y \<noteq> i" using ks(1) by (auto simp: writers_def)
    with e show "x = y" by (simp add: shift_file_def split: if_splits)
  qed
  with d w show ?thesis by (simp add: distinct_map)
qed

lemma fs_wf_drop_file:
  assumes wf: "fs_wf fs" and i: "i < length (fs_files fs)" and shut: "\<not> file_is_open fs i"
  shows "fs_wf (drop_file fs i)"
proof -
  have fl: "fs_files (drop_file fs i) = take i (fs_files fs) @ drop (Suc i) (fs_files fs)"
    by (simp add: drop_file_def)
  have "distinct (map mf_name (fs_files (drop_file fs i)))"
    using wf distinct_drop_one [of "map mf_name (fs_files fs)" i] by (simp add: fl fs_wf_def take_map drop_map)
  moreover have "\<forall>f\<in>set (fs_files (drop_file fs i)). file_wf f"
    using wf by (auto simp: fl fs_wf_def dest: in_set_takeD in_set_dropD)
  moreover have "ring_wf (drop_file fs i)"
    using wf by (simp add: fs_wf_def ring_wf_def drop_file_def)
  moreover have hs: "\<forall>h\<in>set (fs_hs fs). handle_wf fs h" "distinct (writers fs)" "distinct (map oh_fd (fs_hs fs))"
    using wf by (simp_all add: fs_wf_def)
  moreover have "\<forall>h\<in>set (fs_hs (drop_file fs i)). handle_wf (drop_file fs i) h"
    using drop_file_handle_wf [OF hs(1) i shut] by blast
  ultimately show ?thesis
    using drop_file_writers [OF hs(1) shut hs(2)] drop_file_hs(2) [of fs i]
    unfolding fs_wf_def by simp
qed

lemma fs_wf_clamp:
  assumes wf: "fs_wf fs" and k: "k < length (fs_files fs)"
    and f: "file_wf f" "mf_name f = mf_name (fs_files fs ! k)" "single_open f = single_open (fs_files fs ! k)"
  shows "fs_wf (clamp_handles (set_file fs k f) k (mf_len f))"
proof -
  let ?fs = "clamp_handles (set_file fs k f) k (mf_len f)"
  have names: "map mf_name ((fs_files fs)[k := f]) = map mf_name (fs_files fs)"
    using f(2) k by (simp add: map_update list_update_same_conv)
  have so: "single_open ((fs_files fs)[k := f] ! j) = single_open (fs_files fs ! j)" for j
    using f(3) k by (cases "j = k") auto
  have hs: "map oh_file (fs_hs ?fs) = map oh_file (fs_hs fs)" "map oh_fd (fs_hs ?fs) = map oh_fd (fs_hs fs)"
    by (auto simp: clamp_handles_def set_file_def)
  have "handle_wf ?fs h" if "h \<in> set (fs_hs ?fs)" for h
  proof -
    obtain h0 where h0: "h0 \<in> set (fs_hs fs)"
      and h: "h = (if oh_file h0 = k \<and> mf_len f < oh_pos h0 then h0\<lparr>oh_pos := mf_len f\<rparr> else h0)"
      using \<open>h \<in> _\<close> by (auto simp: clamp_handles_def set_file_def)
    have "handle_wf fs h0" using wf h0 by (simp add: fs_wf_def)
    moreover have "fs_files ?fs = (fs_files fs)[k := f]" "fs_linux ?fs = fs_linux fs"
      by (simp_all add: clamp_handles_def set_file_def)
    ultimately show ?thesis
      using k f(1) unfolding handle_wf_def file_wf_def by (cases "oh_file h0 = k") (simp_all add: h)
  qed
  moreover have "\<forall>g\<in>set ((fs_files fs)[k := f]). file_wf g"
    using wf f(1) set_update_subset_insert [of "fs_files fs" k f] by (auto simp: fs_wf_def)
  ultimately show ?thesis
    using wf names so hs by (simp add: fs_wf_def writers_def ring_wf_def)
      (simp add: clamp_handles_def set_file_def)
qed

lemma sysout_remember_same [simp]:
  "fs_files (sysout_remember fs buf) = fs_files fs" "fs_hs (sysout_remember fs buf) = fs_hs fs"
  "fs_linux (sysout_remember fs buf) = fs_linux fs"
  "fs_total (sysout_remember fs buf) = fs_total fs + length buf"
  by (simp_all add: sysout_remember_def Let_def)

lemma ring_wf_remember: "ring_wf fs \<Longrightarrow> ring_wf (sysout_remember fs buf)"
  unfolding ring_wf_def sysout_remember_def Let_def
  by (simp add: put_at_def min_def split: if_split; linarith)

lemma fs_wf_remember: "fs_wf fs \<Longrightarrow> fs_wf (sysout_remember fs buf)"
  by (auto simp: fs_wf_def handle_wf_def writers_def ring_wf_remember)

end
