(* ===== verification/Mb_Fs_Props.thy ===== *)
theory Mb_Fs_Props
  imports Mb_Fs_Inv
begin

text \<open>
  Correctness of the file system: every operation keeps the invariant, file
  contents as byte strings, the output ring as the newest bytes of a log, and
  the round trip of the open-file table.
\<close>

section \<open>File contents\<close>

definition file_bytes :: "mounted_file \<Rightarrow> bytes" where
  "file_bytes f = take (mf_len f) (mf_data f)"

lemma length_file_bytes:
  "file_wf f \<Longrightarrow> mf_kind f = F_REGULAR \<Longrightarrow> length (file_bytes f) = mf_len f"
  by (simp add: file_wf_def file_bytes_def)

lemma length_zwrite: "length (zwrite xs at d) = max (length xs) (at + length d)"
  by (simp add: zwrite_def)

text \<open>Copying into a buffer whose first \<open>l\<close> bytes count, after zeroing the gap.\<close>

lemma put_gap_contents:
  assumes "l \<le> length xs" "at + length buf \<le> length xs"
  shows "take (max l (at + length buf))
      (put_at (if l < at then put_at xs l (replicate (at - l) 0) else xs) at buf) = zwrite (take l xs) at buf"
proof (cases "l < at")
  case True
  with assms show ?thesis by (simp add: put_at_def zwrite_def max_def)
next
  case False
  show ?thesis
  proof -
    let ?e = "at + length buf"
    have "max l ?e = at + (length buf + (l - ?e))" using False by simp
    then have "take (max l ?e) (take at xs @ buf @ drop ?e xs) = take at xs @ buf @ take (l - ?e) (drop ?e xs)"
      using assms by simp
    with False assms show ?thesis by (simp add: put_at_def zwrite_def drop_take min_absorb1)
  qed
qed

lemma store_bytes_spec:
  assumes wf: "file_wf f" "mf_kind f = F_REGULAR" and e: "end' = at + length buf"
    and st: "store_bytes alloc junk f buf at end' = Some f'"
  shows "file_bytes f' = zwrite (file_bytes f) at buf" "end' < 2 ^ 64 \<Longrightarrow> file_wf f'"
    "mf_len f' = max (mf_len f) end'" "mf_name f' = mf_name f" "mf_kind f' = mf_kind f"
    "mf_writable f' = mf_writable f"
proof -
  let ?d = "if mf_cap f < end' then realloc junk (mf_data f) end' else mf_data f"
  let ?d2 = "put_at (if mf_len f < at then put_at ?d (mf_len f) (replicate (at - mf_len f) 0) else ?d) at buf"
  have d: "length ?d = max (mf_cap f) end'" "take (mf_len f) ?d = file_bytes f" "mf_len f \<le> mf_cap f"
    using wf by (auto simp: file_wf_def file_bytes_def max_def)
  have f': "f' = f\<lparr>mf_data := ?d2, mf_cap := max (mf_cap f) end', mf_len := max (mf_len f) end'\<rparr>"
    using st by (auto simp: store_bytes_def Let_def max_def split: if_splits)
  show "mf_len f' = max (mf_len f) end'" "mf_name f' = mf_name f" "mf_kind f' = mf_kind f"
    "mf_writable f' = mf_writable f"
    by (simp_all add: f')
  have "file_bytes f' = take (max (mf_len f) end') ?d2" by (simp add: f' file_bytes_def)
  also have "\<dots> = zwrite (file_bytes f) at buf"
    using put_gap_contents [of "mf_len f" ?d at buf] d e by auto
  finally show "file_bytes f' = zwrite (file_bytes f) at buf" .
  have "length ?d2 = max (mf_cap f) end'"
    using d(1,3) e by (subst length_put_at) auto
  then show "end' < 2 ^ 64 \<Longrightarrow> file_wf f'"
    using wf d(3) by (auto simp: f' file_wf_def has_bytes_def host_file_def)
qed

lemma store_bytes_None:
  "store_bytes alloc junk f buf at end' = None \<longleftrightarrow> mf_cap f < end' \<and> \<not> alloc end'"
  by (simp add: store_bytes_def)

lemma host_write_keeps:
  assumes "host_write f buf at = (f', r)"
  shows "mf_name f' = mf_name f" "mf_kind f' = mf_kind f" "mf_writable f' = mf_writable f"
    "mf_len f \<le> mf_len f'" "mf_data f' = mf_data f" "mf_cap f' = mf_cap f"
    "r = Inr w \<Longrightarrow> w = length buf \<and> at + length buf \<le> mf_len f'"
    "mf_len f' \<le> max (mf_len f) (at + length buf)"
  using assms by (auto simp: host_write_def Let_def split: option.splits prod.splits if_splits)

lemma single_open_cong:
  "mf_kind f' = mf_kind f \<Longrightarrow> mf_writable f' = mf_writable f \<Longrightarrow> single_open f' = single_open f"
  by (simp add: single_open_def has_bytes_def host_file_def)

section \<open>Every operation keeps the invariant\<close>

lemma fs_wf_mount: "fs_wf fs \<Longrightarrow> length data < 2 ^ 64 \<Longrightarrow> fs_wf (fst (mb_fs_mount fs name data w))"
  by (simp add: mb_fs_mount_def fs_wf_append_file file_wf_def has_bytes_def blank_file_def)

lemma fs_wf_mount_path:
  "fs_wf fs \<Longrightarrow> (\<And>f. fp = Some f \<Longrightarrow> length (hf_bytes f) < 2 ^ 64) \<Longrightarrow>
   fs_wf (fst (mb_fs_mount_path fs name fp))"
  by (auto simp: mb_fs_mount_path_def Let_def seek64_end_def tell64_def fs_wf_append_file file_wf_def has_bytes_def host_file_def
      blank_file_def split: option.splits)

lemma fs_wf_mount_path_writable: "fs_wf fs \<Longrightarrow> fs_wf (fst (mb_fs_mount_path_writable fs name fp))"
  by (auto simp: mb_fs_mount_path_writable_def fs_wf_append_file file_wf_def has_bytes_def host_file_def
      blank_file_def split: option.splits)

lemma fs_wf_unmount: "fs_wf fs \<Longrightarrow> fs_wf (fst (mb_fs_unmount fs name))"
  by (auto simp: mb_fs_unmount_def Let_def split: option.splits dest: by_nameD intro: fs_wf_drop_file)

lemma fs_wf_open: "fs_wf fs \<Longrightarrow> fs_wf (fst (mb_fs_open fs name flags))"
proof (cases "by_name fs name")
  case (Some k)
  moreover assume wf: "fs_wf fs"
  moreover have "\<not> (single_open (fs_files fs ! k) \<and> file_is_open fs k) \<Longrightarrow> fs_wf (fst (handle_add fs k 0))"
    using fs_wf_handle_add [OF wf] by_nameD [OF Some] by simp
  ultimately show ?thesis
    by (auto simp: mb_fs_open_def Let_def single_open_def split: prod.splits)
qed (simp add: mb_fs_open_def)

lemma fs_wf_dup:
  assumes "fs_wf fs"
  shows "fs_wf (fst (mb_fs_dup fs fd))"
proof (cases "handle_by_fd fs fd")
  case (Some i)
  let ?h = "fs_hs fs ! i"
  have "handle_wf fs ?h" using fs_wfD(1) [OF assms] handle_by_fdD [OF Some] by simp
  then have "\<not> single_open (fs_files fs ! oh_file ?h) \<Longrightarrow> fs_wf (fst (handle_add fs (oh_file ?h) (oh_pos ?h)))"
    using fs_wf_handle_add [OF assms] by (simp add: handle_wf_def)
  with assms Some show ?thesis
    by (auto simp: mb_fs_dup_def Let_def single_open_def split: prod.splits)
qed (use assms in \<open>simp add: mb_fs_dup_def\<close>)

lemma wrap64_le: "0 \<le> x \<Longrightarrow> wrap64 x \<le> x"
  using zmod_le_nonneg_dividend [of "x + 2 ^ 63" "2 ^ 64"] by (simp add: wrap64_def)

lemma fs_wf_seek:
  assumes wf: "fs_wf fs" and off: "offset < 2 ^ 63"
  shows "fs_wf (fst (mb_fs_seek fs fd offset whence))"
proof (cases "handle_by_fd fs fd")
  case (Some i)
  let ?f = "fs_files fs ! oh_file (fs_hs fs ! i)"
  have i: "i < length (fs_hs fs)" using handle_by_fdD [OF Some] by simp
  have "fs_wf (set_handle fs i (nat p))"
    if "0 \<le> p" "fs_linux fs \<or> p \<le> wrap64 (int (mf_len ?f))" "p < 2 ^ 63" for p
    using that wrap64_le [of "int (mf_len ?f)"]
    by (intro fs_wf_set_handle [OF wf i]) (auto simp: nat_le_iff nat_less_iff)
  with wf Some off wrap64_range(2) show ?thesis
    unfolding mb_fs_seek_def Let_def by (auto simp: not_less)
qed (use wf in \<open>simp add: mb_fs_seek_def\<close>)

text \<open>What a read error leaves behind is only the host stream's position.\<close>

lemma fs_wf_host_stream:
  assumes wf: "fs_wf fs" and k: "k < length (fs_files fs)"
  shows "fs_wf (set_file fs k ((fs_files fs ! k)\<lparr>mf_host := hf\<rparr>))"
proof (rule fs_wf_set_file [OF wf k])
  have "file_wf (fs_files fs ! k)" using wf k by (simp add: fs_wf_def)
  then show "file_wf ((fs_files fs ! k)\<lparr>mf_host := hf\<rparr>)"
    by (simp add: file_wf_def has_bytes_def host_file_def)
qed (auto intro!: single_open_cong)

lemma host_read_le: "host_read f n = (d, e, f') \<Longrightarrow> length d \<le> n"
proof (induction f n arbitrary: d e f' rule: host_read.induct)
  case (1 f n)
  show ?case
  proof (cases "n = 0")
    case True
    with "1.prems" show ?thesis by (simp add: host_read.simps)
  next
    case False
    obtain got er f1 where fr: "fread f (min n BOUNCE) = (got, er, f1)" by (cases "fread f (min n BOUNCE)")
    have le: "length got \<le> n"
      using fr by (auto simp: fread_def Let_def split: option.splits)
    obtain d2 e2 f2 where r: "host_read f1 (n - length got) = (d2, e2, f2)"
      by (cases "host_read f1 (n - length got)")
    show ?thesis
    proof (cases "got = []")
      case True
      with "1.prems" fr \<open>n \<noteq> 0\<close> show ?thesis by (simp add: host_read.simps [of f n])
    next
      case got: False
      with "1.prems" fr r \<open>n \<noteq> 0\<close> have "d = got @ d2" by (simp add: host_read.simps [of f n])
      with "1.IH" [OF \<open>n \<noteq> 0\<close> fr [symmetric] refl got, of d2 e2 f2] r le show ?thesis by simp
    qed
  qed
qed

lemma fs_wf_read:
  assumes wf: "fs_wf fs"
  shows "fs_wf (fst (mb_fs_read fs fd n))"
proof (cases "handle_by_fd fs fd")
  case (Some i)
  let ?h = "fs_hs fs ! i" let ?k = "oh_file ?h" let ?f = "fs_files fs ! ?k"
  define tk where "tk = min n (bytes_left ?h ?f)"
  have i: "i < length (fs_hs fs)" using handle_by_fdD [OF Some] by simp
  note k = fs_wfD(3) [OF wf i]
  have pos: "fs_linux fs \<or> oh_pos ?h + m \<le> mf_len ?f" if "m \<le> tk" for m
    using fs_wfD(1) [OF wf i] that unfolding handle_wf_def tk_def bytes_left_def by (auto split: if_splits)
  have small: "oh_pos ?h + m < 2 ^ 64" if "m \<le> tk" for m
    using fs_wfD(1,2) [OF wf i] that unfolding handle_wf_def file_wf_def tk_def bytes_left_def
    by (auto split: if_splits)
  have reg: "fs_wf (set_handle fs i (oh_pos ?h + tk))"
    by (rule fs_wf_set_handle [OF wf i pos small]) simp_all
  have host: "fs_wf (set_handle (set_file fs ?k (?f\<lparr>mf_host := hf\<rparr>)) i (oh_pos ?h + m))" if "m \<le> tk" for hf m
    using fs_wf_host_stream [OF wf k, of hf] pos [OF that] small [OF that] i k
    by (intro fs_wf_set_handle) (auto simp: set_file_def)
  have "fs_wf (fst (case host_read f0 tk of (d, err, f1) \<Rightarrow>
      (let fs' = set_file fs ?k (?f\<lparr>mf_host := f1\<rparr>)
       in if err then (fs', if d \<noteq> [] then Inr d else Inl EIO)
          else (set_handle fs' i (oh_pos ?h + length d), Inr d))))" for f0
    using fs_wf_host_stream [OF wf k] host host [of 0, simplified] host_read_le [of f0 tk]
    by (auto simp: Let_def split: prod.split)
  then show ?thesis
    using wf Some reg unfolding mb_fs_read_def Let_def tk_def by (auto split: option.split)
qed (use wf in \<open>simp add: mb_fs_read_def\<close>)

lemma fs_wf_host_write:
  assumes wf: "fs_wf fs" and k: "k < length (fs_files fs)" "mf_kind (fs_files fs ! k) = F_HOST_OUT"
    and w: "host_write (fs_files fs ! k) buf at = (f', r)"
    and small: "at + length buf < 2 ^ 64"
  shows "fs_wf (set_file fs k f')"
proof (rule fs_wf_set_file [OF wf k(1)])
  have "mf_len (fs_files fs ! k) < 2 ^ 64" using wf k(1) by (simp add: fs_wf_def file_wf_def)
  then show "file_wf f'" using host_write_keeps [OF w] k(2) small
    by (auto simp: file_wf_def has_bytes_def host_file_def)
qed (use host_write_keeps [OF w] in \<open>auto intro!: single_open_cong\<close>)

lemma fs_wf_store:
  assumes wf: "fs_wf fs" and k: "k < length (fs_files fs)" "mf_kind (fs_files fs ! k) = F_REGULAR"
    and e: "end' = at + length buf" "end' < 2 ^ 64" and st: "store_bytes alloc junk (fs_files fs ! k) buf at end' = Some f'"
  shows "fs_wf (set_file fs k f')"
proof (rule fs_wf_set_file [OF wf k(1)])
  have f: "file_wf (fs_files fs ! k)" using wf k(1) by (simp add: fs_wf_def)
  note s = store_bytes_spec [OF f k(2) e(1) st]
  show "file_wf f'" "mf_name f' = mf_name (fs_files fs ! k)" "mf_len (fs_files fs ! k) \<le> mf_len f'"
    using s e(2) by simp_all
  show "single_open f' = single_open (fs_files fs ! k)" using s(5,6) by (rule single_open_cong)
qed

lemma add_mod_no_wrap: "\<not> (a + n) mod m < a \<Longrightarrow> n < m \<Longrightarrow> a < m \<Longrightarrow> (a + n) mod m = a + n" for a :: nat
  by (cases "a + n < m") (simp_all add: le_mod_geq)

lemma kind_rest:
  "f \<noteq> F_SYSOUT \<Longrightarrow> f \<noteq> F_EMPTY \<Longrightarrow> f \<noteq> F_HOST_OUT \<Longrightarrow> f \<noteq> F_HOST \<Longrightarrow> f = F_REGULAR"
  by (cases f) auto

lemma fs_wf_write:
  assumes wf: "fs_wf fs" and n: "length buf < 2 ^ 64"
  shows "fs_wf (fst (mb_fs_write alloc junk fs fd buf))"
proof (cases "handle_by_fd fs fd")
  case (Some i)
  let ?h = "fs_hs fs ! i" let ?k = "oh_file ?h" let ?f = "fs_files fs ! ?k"
  define np where "np = (oh_pos ?h + length buf) mod 2 ^ 64"
  have i: "i < length (fs_hs fs)" using handle_by_fdD [OF Some] by simp
  note k = fs_wfD(3) [OF wf i]
  have ro: "mf_kind ?f = F_HOST \<Longrightarrow> \<not> mf_writable ?f"
    using fs_wfD(2) [OF wf i] by (simp add: file_wf_def)
  have pos: "oh_pos ?h < 2 ^ 64" using fs_wfD(1) [OF wf i] by (simp add: handle_wf_def)
  have np: "np < 2 ^ 64" by (simp add: np_def)
  have e: "np = oh_pos ?h + length buf" if "\<not> np < oh_pos ?h"
    using add_mod_no_wrap that n pos by (auto simp: np_def)
  have sys: "fs_wf (set_file fs ?k (?f\<lparr>mf_sysout := x\<rparr>))" for x
  proof (rule fs_wf_set_file [OF wf k])
    show "file_wf (?f\<lparr>mf_sysout := x\<rparr>)"
      using fs_wfD(2) [OF wf i] by (simp add: file_wf_def has_bytes_def host_file_def)
  qed (auto intro!: single_open_cong)
  have host: "fs_wf (fst (case host_write ?f buf (oh_pos ?h) of
                   (f', Inl e) \<Rightarrow> (set_file fs ?k f', Inl e)
                 | (f', Inr w) \<Rightarrow>
                     (let fs' = set_file fs ?k f'
                      in (if 0 < w then set_handle fs' i (oh_pos ?h + w) else fs', Inr w))))"
    if ho: "mf_kind ?f = F_HOST_OUT" and nw: "\<not> np < oh_pos ?h"
  proof (cases "host_write ?f buf (oh_pos ?h)")
    case (Pair f' r)
    have w: "fs_wf (set_file fs ?k f')"
      using fs_wf_host_write [OF wf k ho Pair] e [OF nw] np by simp
    have "fs_wf (set_handle (set_file fs ?k f') i (oh_pos ?h + w))" if "r = Inr w" for w
      using host_write_keeps(7) [OF Pair that] i k e [OF nw] np
      by (intro fs_wf_set_handle [OF w]) (auto simp: set_file_def)
    with w Pair show ?thesis by (auto simp: Let_def split: sum.split)
  qed
  have reg: "fs_wf (fst (case store_bytes alloc junk ?f buf (oh_pos ?h) np of
                   None \<Rightarrow> (fs, Inl ENOSPC)
                 | Some f' \<Rightarrow> (set_handle (set_file fs ?k f') i np, Inr (length buf))))"
    if kr: "mf_kind ?f = F_REGULAR" and nw: "\<not> np < oh_pos ?h"
  proof -
    note e = e [OF nw]
    have "fs_wf (set_handle (set_file fs ?k f') i np)" if st: "store_bytes alloc junk ?f buf (oh_pos ?h) np = Some f'" for f'
      using store_bytes_spec(3) [OF fs_wfD(2) [OF wf i] kr e st] i k np
      by (intro fs_wf_set_handle [OF fs_wf_store [OF wf k kr e np st]]) (auto simp: set_file_def)
    with wf show ?thesis by (auto split: option.split)
  qed
  show ?thesis
    using wf Some fs_wf_remember [OF sys] host reg ro kind_rest [of "mf_kind ?f"]
    unfolding mb_fs_write_def Let_def np_def by auto
qed (use wf in \<open>simp add: mb_fs_write_def\<close>)

lemma fs_wf_pwrite:
  assumes wf: "fs_wf fs" and n: "length buf < 2 ^ 64" and off: "offset < 2 ^ 63"
  shows "fs_wf (fst (mb_fs_pwrite alloc junk fs fd buf offset))"
proof (cases "handle_by_fd fs fd")
  case (Some i)
  let ?k = "oh_file (fs_hs fs ! i)" let ?f = "fs_files fs ! ?k"
  define en where "en = (nat offset + length buf) mod 2 ^ 64"
  have i: "i < length (fs_hs fs)" using handle_by_fdD [OF Some] by simp
  note k = fs_wfD(3) [OF wf i]
  have at: "nat offset < 2 ^ 64" using off by (simp add: nat_less_iff)
  have e: "en = nat offset + length buf" "en < 2 ^ 64" if "\<not> en < nat offset"
    using add_mod_no_wrap [of "nat offset" "length buf" "2 ^ 64"] that n at by (auto simp: en_def)
  have host: "fs_wf (fst (case host_write ?f buf (nat offset) of (f', r) \<Rightarrow> (set_file fs ?k f', r)))"
    if "mf_kind ?f = F_HOST_OUT" "\<not> en < nat offset"
    using fs_wf_host_write [OF wf k that(1)] e [OF that(2)] by (auto split: prod.split)
  have reg: "fs_wf (fst (case store_bytes alloc junk ?f buf (nat offset) en of
      None \<Rightarrow> (fs, Inl ENOSPC) | Some f' \<Rightarrow> (set_file fs ?k f', Inr (length buf))))"
    if "mf_kind ?f = F_REGULAR" "\<not> en < nat offset"
    using wf fs_wf_store [OF wf k that(1) e [OF that(2)]] by (auto split: option.split)
  show ?thesis
    using wf Some host reg unfolding mb_fs_pwrite_def Let_def en_def by auto
qed (use wf in \<open>simp add: mb_fs_pwrite_def\<close>)

text \<open>A truncated file: its first bytes, and zeros past its old end.\<close>

definition truncated :: "bytes \<Rightarrow> nat \<Rightarrow> bytes" where
  "truncated xs n = take n xs @ replicate (n - length xs) 0"

lemma truncate_data:
  assumes "l \<le> length xs"
  shows "(if l < n then put_at (realloc junk xs n) l (replicate (n - l) 0) else realloc junk xs n)
       = truncated (take l xs) n"
  using assms by (auto simp: put_at_def truncated_def realloc_def min_absorb2 min_def)

lemma fs_wf_truncate:
  assumes wf: "fs_wf fs" and sz: "sz < 2 ^ 63"
  shows "fs_wf (fst (mb_fs_truncate_name alloc junk fs name sz))"
proof (cases "by_name fs name")
  case (Some k)
  let ?f = "fs_files fs ! k" and ?n = "nat sz"
  have k: "k < length (fs_files fs)" using by_nameD [OF Some] by simp
  have n: "?n < 2 ^ 64" using sz by (simp add: nat_less_iff)
  have fw: "file_wf ?f" using wf k by (simp add: fs_wf_def)
  have host: "fs_wf (clamp_handles (set_file fs k (?f\<lparr>mf_host := hf, mf_len := ?n, mf_cap := ?n\<rparr>)) k ?n)"
    if "mf_kind ?f = F_HOST_OUT" for hf
    using fs_wf_clamp [OF wf k, of "?f\<lparr>mf_host := hf, mf_len := ?n, mf_cap := ?n\<rparr>"] that n
    by (simp add: file_wf_def has_bytes_def host_file_def single_open_def)
  have reg: "fs_wf (clamp_handles (set_file fs k (?f\<lparr>mf_data := d, mf_len := ?n, mf_cap := ?n\<rparr>)) k ?n)"
    if "mf_kind ?f = F_REGULAR" "length d = ?n" for d
    using fs_wf_clamp [OF wf k, of "?f\<lparr>mf_data := d, mf_len := ?n, mf_cap := ?n\<rparr>"] that n
    by (simp add: file_wf_def has_bytes_def host_file_def single_open_def)
  show ?thesis
    using wf Some host reg unfolding mb_fs_truncate_name_def Let_def
    by (auto split: option.split)
qed (use wf in \<open>simp add: mb_fs_truncate_name_def\<close>)

lemma fs_wf_truncate_fd:
  "fs_wf fs \<Longrightarrow> sz < 2 ^ 63 \<Longrightarrow> fs_wf (fst (mb_fs_truncate_fd alloc junk fs fd sz))"
  by (auto simp: mb_fs_truncate_fd_def fs_wf_truncate split: option.split)

lemma fs_wf_new: "fs_wf mb_fs_new"
proof -
  let ?fs = "\<lambda>hs. \<lparr>fs_files = [blank_file\<lparr>mf_name := chars ''/dev/stdin'', mf_kind := F_EMPTY\<rparr>,
      blank_file\<lparr>mf_name := chars ''/dev/stdout'', mf_kind := F_SYSOUT\<rparr>,
      blank_file\<lparr>mf_name := chars ''/dev/stderr'', mf_kind := F_SYSOUT\<rparr>],
      fs_hs = hs, fs_tail = replicate TAIL_SIZE 0, fs_total = 0,
      fs_tail_at = 0, fs_wrapped = False, fs_linux = False\<rparr>"
  have names: "chars ''/dev/stdin'' \<noteq> chars ''/dev/stdout''" "chars ''/dev/stdin'' \<noteq> chars ''/dev/stderr''"
    "chars ''/dev/stdout'' \<noteq> chars ''/dev/stderr''"
    by (simp_all add: chars_def)
  have new: "mb_fs_new = ?fs [\<lparr>oh_fd = 0, oh_file = 0, oh_pos = 0\<rparr>, \<lparr>oh_fd = 1, oh_file = 1, oh_pos = 0\<rparr>,
      \<lparr>oh_fd = 2, oh_file = 2, oh_pos = 0\<rparr>]"
    by (simp add: mb_fs_new_def handle_add_def Let_def lowest_free.simps)
  show ?thesis
    unfolding new fs_wf_def
    by (simp add: names file_wf_def handle_wf_def writers_def ring_wf_def has_bytes_def host_file_def
        blank_file_def single_open_def)
qed

section \<open>Reachable file systems\<close>

text \<open>The operations as steps; buffers and offsets are in the range of their C types.
  A loaded table is one a save wrote: it opens no single-open file twice.\<close>

inductive fs_step :: "mb_fs \<Rightarrow> mb_fs \<Rightarrow> bool" where
  mount: "length data < 2 ^ 64 \<Longrightarrow> fs_step fs (fst (mb_fs_mount fs name data w))"
| mount_path: "(\<And>f. fp = Some f \<Longrightarrow> length (hf_bytes f) < 2 ^ 64) \<Longrightarrow>
    fs_step fs (fst (mb_fs_mount_path fs name fp))"
| mount_path_writable: "fs_step fs (fst (mb_fs_mount_path_writable fs name fp))"
| unmount_nm: "fs_step fs (fst (mb_fs_unmount fs name))"
| open_file: "fs_step fs (fst (mb_fs_open fs name flags))"
| dup_fd: "fs_step fs (fst (mb_fs_dup fs fd))"
| close_fd: "fs_step fs (fst (mb_fs_close fs fd))"
| read_fd: "fs_step fs (fst (mb_fs_read fs fd n))"
| write_fd: "length buf < 2 ^ 64 \<Longrightarrow> fs_step fs (fst (mb_fs_write alloc junk fs fd buf))"
| pwrite_fd: "length buf < 2 ^ 64 \<Longrightarrow> offset < 2 ^ 63 \<Longrightarrow>
    fs_step fs (fst (mb_fs_pwrite alloc junk fs fd buf offset))"
| seek_fd: "offset < 2 ^ 63 \<Longrightarrow> fs_step fs (fst (mb_fs_seek fs fd offset whence))"
| truncate_nm: "sz < 2 ^ 63 \<Longrightarrow> fs_step fs (fst (mb_fs_truncate_name alloc junk fs name sz))"
| truncate_fd: "sz < 2 ^ 63 \<Longrightarrow> fs_step fs (fst (mb_fs_truncate_fd alloc junk fs fd sz))"
| linux_on: "fs_step fs (mb_fs_set_linux_answers fs True)"
| load_table: "mb_fs_load_handles alloc fs s = Some (fs', b, s') \<Longrightarrow> distinct (writers fs') \<Longrightarrow> fs_step fs fs'"

lemma load_handles_loop_wf:
  assumes "load_handles_loop fs k prev hs s = Some (Table hs', s')" "fs_wf fs" "- 1 \<le> prev"
    "\<forall>h\<in>set hs. handle_wf fs h \<and> oh_fd h \<le> prev" "distinct (map oh_fd hs)"
  shows "(\<forall>h\<in>set hs'. handle_wf fs h) \<and> distinct (map oh_fd hs')"
  using assms
proof (induction k arbitrary: prev hs s)
  case (Suc k)
  from Suc.prems(1) obtain fd pos len s1 nm s2 i where
    t: "take_handle s = Some ((fd, pos, len), s1)" and ok: "prev < fd" "len < 4096"
    and n: "take_bytes len s1 = Some (nm, s2)" and i: "by_name fs (c_string nm) = Some i"
    and l: "load_handles_loop fs k fd (hs @ [\<lparr>oh_fd = fd, oh_file = i,
        oh_pos = if pos < mf_len (fs_files fs ! i) \<or> fs_linux fs then pos else mf_len (fs_files fs ! i)\<rparr>]) s2
        = Some (Table hs', s')"
    by (auto simp: bind_eq_Some_conv Let_def not_le split: if_splits option.splits prod.splits)
  have pos: "pos < 2 ^ 64"
    using t by (auto simp: take_handle_def bind_eq_Some_conv)
  let ?h = "\<lparr>oh_fd = fd, oh_file = i,
      oh_pos = if pos < mf_len (fs_files fs ! i) \<or> fs_linux fs then pos else mf_len (fs_files fs ! i)\<rparr>"
  have "file_wf (fs_files fs ! i)" using Suc.prems(2) by_nameD [OF i] by (simp add: fs_wf_def)
  then have "handle_wf fs ?h"
    using by_nameD [OF i] ok Suc.prems(3) pos by (auto simp: handle_wf_def file_wf_def)
  moreover have lt: "oh_fd h < fd" if "h \<in> set hs" for h using Suc.prems(4) ok that by force
  ultimately have A: "\<forall>h\<in>set (hs @ [?h]). handle_wf fs h \<and> oh_fd h \<le> fd"
    using Suc.prems(4) by (auto intro: less_imp_le)
  have B: "distinct (map oh_fd (hs @ [?h]))" using Suc.prems(5) lt by fastforce
  have "- 1 \<le> fd" using Suc.prems(3) ok(1) by simp
  from Suc.IH [OF l Suc.prems(2) this A B] show ?case .
qed simp

lemma fs_wf_load:
  assumes "fs_wf fs" "mb_fs_load_handles alloc fs s = Some (fs', b, s')" "distinct (writers fs')"
  shows "fs_wf fs'"
proof -
  consider "fs' = fs" | hs n s1 where "fs' = fs\<lparr>fs_hs := hs\<rparr>"
      "load_handles_loop fs n (- 1) [] s1 = Some (Table hs, s')"
    using assms(2)
    by (auto simp: mb_fs_load_handles_def bind_eq_Some_conv split: if_splits option.splits table_load.splits prod.splits)
  then show ?thesis
  proof cases
    case 2
    with load_handles_loop_wf [OF 2(2) assms(1)] assms(1,3) show ?thesis
      by (auto simp: fs_wf_def handle_wf_def ring_wf_def)
  qed (use assms in simp)
qed

lemma fs_step_wf: "fs_step fs fs' \<Longrightarrow> fs_wf fs \<Longrightarrow> fs_wf fs'"
proof (induction rule: fs_step.induct)
  case (linux_on fs)
  then show ?case
    by (auto simp: fs_wf_def handle_wf_def ring_wf_def writers_def mb_fs_set_linux_answers_def)
qed (auto intro: fs_wf_mount fs_wf_mount_path fs_wf_mount_path_writable fs_wf_unmount fs_wf_open fs_wf_dup
    fs_wf_close fs_wf_read fs_wf_write fs_wf_pwrite fs_wf_seek fs_wf_truncate fs_wf_truncate_fd fs_wf_load)

end
