(* ===== verification/Mb_Fs_Spec.thy ===== *)
theory Mb_Fs_Spec
  imports Mb_Fs_Props
begin

text \<open>
  The file system's properties: reachable file systems are well formed, the
  descriptor a call gives is the lowest free one, reads and writes act on byte
  strings, the output ring keeps the newest bytes, and the open-file table of a
  state loads back.
\<close>

section \<open>The output ring\<close>

definition newest :: "nat \<Rightarrow> 'a list \<Rightarrow> 'a list" where
  "newest n xs = drop (length xs - n) xs"

text \<open>What the ring holds, oldest byte first.\<close>

definition ring_log :: "mb_fs \<Rightarrow> bytes" where
  "ring_log fs = (if fs_wrapped fs then drop (fs_tail_at fs) (fs_tail fs) @ take (fs_tail_at fs) (fs_tail fs)
                  else take (fs_tail_at fs) (fs_tail fs))"

lemma length_ring_log:
  "ring_wf fs \<Longrightarrow> length (ring_log fs) = (if fs_wrapped fs then TAIL_SIZE else fs_tail_at fs)"
  by (simp add: ring_wf_def ring_log_def)

lemma newest_append_newest: "newest n (newest n xs @ ys) = newest n (xs @ ys)"
  by (cases "n \<le> length xs") (simp_all add: newest_def add.commute)

lemma newest_newest: "newest a (newest b xs) = newest (min a b) xs"
proof -
  have "length xs - (length xs - b) - a + (length xs - b) = length xs - min a b" by auto
  then show ?thesis by (simp only: newest_def drop_drop length_drop)
qed

lemma ring_log_remember_big:
  assumes "TAIL_SIZE \<le> length buf" "ring_wf fs"
  shows "ring_log (sysout_remember fs buf) = newest TAIL_SIZE (ring_log fs @ buf)"
  using assms by (simp add: sysout_remember_def Let_def ring_log_def newest_def ring_wf_def put_at_all)

lemma ring_log_remember_wrap:
  assumes n: "length buf < TAIL_SIZE" "TAIL_SIZE - fs_tail_at fs < length buf" and wf: "ring_wf fs"
  shows "ring_log (sysout_remember fs buf) = newest TAIL_SIZE (ring_log fs @ buf)"
proof -
  let ?at = "fs_tail_at fs" and ?t = "fs_tail fs"
  let ?first = "16384 - ?at"
  have t: "length ?t = TAIL_SIZE" "?at < TAIL_SIZE" using wf by (auto simp: ring_wf_def)
  have tail1: "put_at ?t ?at (take ?first buf) = take ?at ?t @ take ?first buf"
    using t n by (simp add: put_at_def)
  have tail2: "put_at (take ?at ?t @ take ?first buf) 0 (drop ?first buf)
      = drop ?first buf @ drop (length buf - ?first) (take ?at ?t) @ take ?first buf"
    using t n by (simp add: put_at_def)
  have eq: "fs_tail (sysout_remember fs buf)
        = drop ?first buf @ drop (length buf - ?first) (take ?at ?t) @ take ?first buf"
      "fs_tail_at (sysout_remember fs buf) = length buf - ?first" "fs_wrapped (sysout_remember fs buf)"
    using n t by (simp_all add: sysout_remember_def Let_def tail1 tail2 del: diff_diff_right)
  have "ring_log (sysout_remember fs buf) = drop (length buf - ?first) (take ?at ?t) @ buf"
    using n t eq(3) unfolding ring_log_def eq(1,2) by simp
  also have "\<dots> = newest TAIL_SIZE (ring_log fs @ buf)"
    using n t by (simp add: newest_def ring_log_def add.commute)
  finally show ?thesis .
qed

lemma ring_log_remember_fit:
  assumes n: "length buf \<le> TAIL_SIZE - fs_tail_at fs" "length buf < TAIL_SIZE" and wf: "ring_wf fs"
  shows "ring_log (sysout_remember fs buf) = newest TAIL_SIZE (ring_log fs @ buf)"
proof -
  let ?at = "fs_tail_at fs" and ?t = "fs_tail fs"
  have t: "length ?t = TAIL_SIZE" "?at < TAIL_SIZE" using wf by (auto simp: ring_wf_def)
  have "put_at ?t ?at buf = take ?at ?t @ buf @ drop (?at + length buf) ?t" by (simp add: put_at_def)
  then show ?thesis
    using n t
    by (cases "?at + length buf = TAIL_SIZE"; cases "fs_wrapped fs")
      (simp_all add: sysout_remember_def Let_def ring_log_def newest_def min_absorb2 add.commute)
qed

lemma ring_log_remember:
  "ring_wf fs \<Longrightarrow> ring_log (sysout_remember fs buf) = newest TAIL_SIZE (ring_log fs @ buf)"
  using ring_log_remember_big [of buf fs] ring_log_remember_wrap [of buf fs] ring_log_remember_fit [of buf fs]
  by linarith

lemma ring_log_fold:
  assumes "ring_wf fs"
  shows "ring_wf (fold (\<lambda>b fs. sysout_remember fs b) ws fs)
    \<and> newest TAIL_SIZE (ring_log (fold (\<lambda>b fs. sysout_remember fs b) ws fs))
        = newest TAIL_SIZE (ring_log fs @ concat ws)"
  using assms
proof (induction ws arbitrary: fs)
  case (Cons w ws)
  note IH = Cons.IH [OF ring_wf_remember [OF Cons.prems, of w]]
  show ?case
    using IH newest_append_newest [of TAIL_SIZE "ring_log fs @ w" "concat ws"] Cons.prems
    by (simp add: ring_log_remember)
qed simp

lemma nth_ring:
  assumes wf: "ring_wf fs" and j: "j < length (ring_log fs)"
  shows "fs_tail fs ! (((if fs_wrapped fs then fs_tail_at fs else 0) + j) mod TAIL_SIZE) = ring_log fs ! j"
proof (cases "fs_wrapped fs")
  case True
  have t: "length (fs_tail fs) = TAIL_SIZE" "fs_tail_at fs < TAIL_SIZE" using wf by (auto simp: ring_wf_def)
  have "j < TAIL_SIZE" using j length_ring_log [OF wf] True by simp
  with True t show ?thesis
    by (cases "fs_tail_at fs + j < TAIL_SIZE") (auto simp: ring_log_def nth_append le_mod_geq add.commute)
next
  case False
  then show ?thesis using wf j by (auto simp: ring_log_def ring_wf_def)
qed

lemma sysout_tail_newest:
  assumes wf: "ring_wf fs"
  shows "mb_fs_sysout_tail fs cap = newest cap (ring_log fs)"
proof -
  define have' where "have' = (if fs_wrapped fs then TAIL_SIZE else fs_tail_at fs)"
  have len: "length (ring_log fs) = have'" using length_ring_log [OF wf] by (simp add: have'_def)
  define old where "old = (if fs_wrapped fs then fs_tail_at fs else 0)"
  define skip where "skip = have' - min have' cap"
  have "mb_fs_sysout_tail fs cap
      = map (\<lambda>i. fs_tail fs ! ((old + skip + i) mod TAIL_SIZE)) [0..<min have' cap]"
    unfolding mb_fs_sysout_tail_def Let_def have'_def old_def skip_def by (simp add: min_def)
  also have "\<dots> = map (\<lambda>i. ring_log fs ! (skip + i)) [0..<min have' cap]"
  proof (intro map_cong refl)
    fix i assume "i \<in> set [0..<min have' cap]"
    then have "skip + i < length (ring_log fs)" unfolding len skip_def by auto
    from nth_ring [OF wf this] show "fs_tail fs ! ((old + skip + i) mod TAIL_SIZE) = ring_log fs ! (skip + i)"
      by (simp add: old_def add.assoc)
  qed
  also have "\<dots> = newest cap (ring_log fs)"
    by (rule nth_equalityI) (auto simp: newest_def len skip_def min_def)
  finally show ?thesis .
qed

text \<open>
  C25: after any sequence of writes to the guest's stdout and stderr, the fatal
  paths read exactly the newest bytes written, oldest first: as many as were
  asked for, as the ring holds, and as there are.
\<close>

theorem sysout_tail_correct:
  "mb_fs_sysout_tail (fold (\<lambda>b fs. sysout_remember fs b) ws mb_fs_new) cap
     = newest (min cap TAIL_SIZE) (concat ws)"
proof -
  let ?fs = "fold (\<lambda>b fs. sysout_remember fs b) ws mb_fs_new"
  have new: "ring_wf mb_fs_new" "ring_log mb_fs_new = []"
    using fs_wf_new by (simp add: fs_wf_def) (simp add: ring_log_def mb_fs_new_def handle_add_def Let_def)
  have r: "ring_wf ?fs" "newest TAIL_SIZE (ring_log ?fs) = newest TAIL_SIZE (concat ws)"
    using ring_log_fold [OF new(1), of ws] new(2) by simp_all
  have "length (ring_log ?fs) \<le> TAIL_SIZE"
    using length_ring_log [OF r(1)] r(1) by (simp add: ring_wf_def)
  then have "ring_log ?fs = newest TAIL_SIZE (concat ws)" using r(2) by (simp add: newest_def)
  then show ?thesis
    using sysout_tail_newest [OF r(1), of cap] by (simp add: newest_newest)
qed

section \<open>Reachable file systems and descriptors\<close>



lemma mb_fs_open_SomeD:
  assumes "mb_fs_open fs name flags = (fs', Inr fd)"
  obtains k where "by_name fs name = Some k" "handle_add fs k 0 = (fs', fd)"
    "\<not> (single_open (fs_files fs ! k) \<and> file_is_open fs k)"
  using assms that
  by (auto simp: mb_fs_open_def Let_def single_open_def split: option.splits if_splits prod.splits)

text \<open>
  C24: an open that succeeds gives the lowest descriptor not in use, adds exactly
  that descriptor to the table, at position 0 of the named file, and closing it
  again restores the table; two file systems with the same descriptors in use
  give the same descriptor.
\<close>

theorem fs_open_lowest_fd:
  assumes wf: "fs_wf fs" and op: "mb_fs_open fs name flags = (fs', Inr fd)"
  shows "0 \<le> fd \<and> fd_map fs fd = None \<and> (\<forall>d. 0 \<le> d \<and> d < fd \<longrightarrow> fd_map fs d \<noteq> None)
    \<and> (\<exists>k. by_name fs name = Some k \<and> fd_map fs' = (fd_map fs)(fd \<mapsto> (k, 0)))
    \<and> fd_map (fst (mb_fs_close fs' fd)) = fd_map fs
    \<and> (\<forall>fs2 name2 flags2 fs2' fd2. fs_wf fs2 \<and> dom (fd_map fs2) = dom (fd_map fs)
          \<and> mb_fs_open fs2 name2 flags2 = (fs2', Inr fd2) \<longrightarrow> fd2 = fd)"
proof -
  obtain k where k: "by_name fs name = Some k" "handle_add fs k 0 = (fs', fd)"
    using op by (rule mb_fs_open_SomeD)
  note ok = fs_wf_table_ok [OF wf]
  have add: "handle_add fs (fst (k, 0)) (snd (k, 0)) = (fs', fd)" using k by simp
  have "fd2 = fd" if wf2: "fs_wf fs2" and dom: "dom (fd_map fs2) = dom (fd_map fs)"
    and op2: "mb_fs_open fs2 name2 flags2 = (fs2', Inr fd2)" for fs2 name2 flags2 fs2' fd2
  proof -
    obtain k2 where "handle_add fs2 k2 0 = (fs2', fd2)" using op2 by (rule mb_fs_open_SomeD)
    then have "handle_add fs2 (fst (k2, 0)) (snd (k2, 0)) = (fs2', fd2)" by simp
    from fdt.add_deterministic [OF fs_wf_table_ok [OF wf2] this ok add dom] show ?thesis .
  qed
  then show ?thesis
    using fdt.add_fresh [OF ok add] fdt.add_lowest [OF ok add] fdt.add_lookup [OF ok add]
      fdt.add_remove [OF ok add] k by (intro conjI) auto
qed

text \<open>A small file system: one writable file, \<open>a\<close>, with three bytes, mounted in a
  new file system.\<close>

definition fs_demo :: mb_fs where
  "fs_demo = fst (mb_fs_mount mb_fs_new [0x61] [1, 2, 3] True)"

lemma mb_fs_new_unfold:
  "mb_fs_new = \<lparr>fs_files = [blank_file\<lparr>mf_name := chars ''/dev/stdin'', mf_kind := F_EMPTY\<rparr>,
      blank_file\<lparr>mf_name := chars ''/dev/stdout'', mf_kind := F_SYSOUT\<rparr>,
      blank_file\<lparr>mf_name := chars ''/dev/stderr'', mf_kind := F_SYSOUT\<rparr>],
      fs_hs = [\<lparr>oh_fd = 0, oh_file = 0, oh_pos = 0\<rparr>, \<lparr>oh_fd = 1, oh_file = 1, oh_pos = 0\<rparr>,
      \<lparr>oh_fd = 2, oh_file = 2, oh_pos = 0\<rparr>], fs_tail = replicate TAIL_SIZE 0, fs_total = 0,
      fs_tail_at = 0, fs_wrapped = False, fs_linux = False\<rparr>"
  by (simp add: mb_fs_new_def handle_add_def Let_def lowest_free.simps)

lemma fs_demo_unfold:
  "fs_demo = mb_fs_new\<lparr>fs_files := fs_files mb_fs_new @ [blank_file\<lparr>mf_name := [0x61],
      mf_kind := F_REGULAR, mf_writable := True, mf_len := 3, mf_cap := 3, mf_data := [1, 2, 3]\<rparr>]\<rparr>"
  by (simp add: fs_demo_def mb_fs_mount_def by_name_def mb_fs_new_unfold chars_def)

lemma fs_demo_wf: "fs_wf fs_demo"
  unfolding fs_demo_def by (rule fs_wf_mount [OF fs_wf_new]) simp

lemma fs_demo_by_name: "by_name fs_demo [0x61] = Some 3"
  by (simp add: by_name_def fs_demo_unfold mb_fs_new_unfold chars_def)

text \<open>The same with \<open>a\<close> open for reading and writing, on descriptor 3.\<close>

definition fs_demo_open :: mb_fs where
  "fs_demo_open = fst (mb_fs_open fs_demo [0x61] 2)"

lemma fs_demo_opens: "mb_fs_open fs_demo [0x61] 2 = (fs_demo_open, Inr 3)"
proof -
  have "mb_fs_open fs_demo [0x61] 2 = (fst (handle_add fs_demo 3 0), Inr (snd (handle_add fs_demo 3 0)))"
    by (simp add: mb_fs_open_def fs_demo_by_name Let_def O_ACCMODE_def split: prod.split)
      (simp add: fs_demo_unfold mb_fs_new_unfold file_is_open_def has_bytes_def)
  moreover have "snd (handle_add fs_demo 3 0) = 3"
    by (simp add: handle_add_def fs_demo_unfold mb_fs_new_unfold lowest_free.simps Let_def)
  ultimately show ?thesis by (simp add: fs_demo_open_def)
qed

theorem fs_open_lowest_fd_witness:
  "fs_wf fs_demo \<and> mb_fs_open fs_demo [0x61] 2 = (fs_demo_open, Inr 3) \<and> fd_map fs_demo 3 = None
   \<and> fd_map (fst (mb_fs_close fs_demo_open 3)) = fd_map fs_demo"
  using fs_open_lowest_fd [OF fs_demo_wf fs_demo_opens] fs_demo_wf fs_demo_opens by blast

section \<open>Reading and writing\<close>

lemma slice_zwrite: "take (length d) (drop at (zwrite xs at d)) = d"
  by (simp add: zwrite_def)

lemma handle_by_fd_same [simp]:
  "handle_by_fd (set_file fs k f) fd = handle_by_fd fs fd"
  "handle_by_fd (set_handle fs i p) fd = handle_by_fd fs fd"
proof -
  show "handle_by_fd (set_file fs k f) fd = handle_by_fd fs fd"
    by (simp add: handle_by_fd_def set_file_def)
  have *: "find_index P (hs[i := x]) = find_index P hs" if "P x = P (hs ! i)" for P and x :: open_handle and hs
    using that by (induction hs arbitrary: i) (auto split: nat.split)
  show "handle_by_fd (set_handle fs i p) fd = handle_by_fd fs fd"
    by (simp add: handle_by_fd_def set_handle_def *)
qed

lemma mb_fs_read_regular:
  assumes "handle_by_fd fs fd = Some i" "mf_kind (fs_files fs ! oh_file (fs_hs fs ! i)) = F_REGULAR"
    "file_wf (fs_files fs ! oh_file (fs_hs fs ! i))"
  shows "mb_fs_read fs fd n =
    (set_handle fs i (oh_pos (fs_hs fs ! i)
        + min n (bytes_left (fs_hs fs ! i) (fs_files fs ! oh_file (fs_hs fs ! i)))),
     Inr (take n (drop (oh_pos (fs_hs fs ! i)) (file_bytes (fs_files fs ! oh_file (fs_hs fs ! i))))))"
  using assms
  by (auto simp: mb_fs_read_def Let_def host_file_def file_bytes_def bytes_left_def drop_take min_def file_wf_def)

text \<open>
  C23: a write through a descriptor on a writable file kept in memory stores the
  bytes at the handle's position, reads zeros in a gap before it, grows the
  length to cover it and moves the position past it, whatever the fresh heap
  bytes of a grown buffer hold; every other file and handle is left alone.
\<close>

theorem fs_write_contents:
  assumes wf: "fs_wf fs" and h: "handle_by_fd fs fd = Some i" and hd: "h = fs_hs fs ! i"
    and f: "f = fs_files fs ! oh_file h" "mf_kind f = F_REGULAR" "mf_writable f"
    and n: "oh_pos h + length buf < 2 ^ 64" and room: "oh_pos h + length buf \<le> mf_cap f \<or> alloc (oh_pos h + length buf)"
  shows "\<exists>f'. mb_fs_write alloc junk fs fd buf
        = (set_handle (set_file fs (oh_file h) f') i (oh_pos h + length buf), Inr (length buf))
      \<and> file_bytes f' = zwrite (file_bytes f) (oh_pos h) buf
      \<and> mf_len f' = max (mf_len f) (oh_pos h + length buf) \<and> mf_name f' = mf_name f"
proof -
  have i: "i < length (fs_hs fs)" using handle_by_fdD [OF h] by simp
  have fw: "file_wf f" using fs_wfD(2) [OF wf i] by (simp add: f(1) hd)
  obtain f' where st: "store_bytes alloc junk f buf (oh_pos h) (oh_pos h + length buf) = Some f'"
    using room store_bytes_None [of alloc junk f buf "oh_pos h" "oh_pos h + length buf"]
    by (cases "store_bytes alloc junk f buf (oh_pos h) (oh_pos h + length buf)") auto
  have "mb_fs_write alloc junk fs fd buf
      = (set_handle (set_file fs (oh_file h) f') i (oh_pos h + length buf), Inr (length buf))"
    using h f n st by (simp add: mb_fs_write_def Let_def flip: hd f(1))
  with store_bytes_spec [OF fw f(2) refl st] show ?thesis by blast
qed

lemma fs_demo_open_unfold:
  "fs_demo_open = fs_demo\<lparr>fs_hs := fs_hs fs_demo @ [\<lparr>oh_fd = 3, oh_file = 3, oh_pos = 0\<rparr>]\<rparr>"
proof -
  have "fs_demo_open = fst (handle_add fs_demo 3 0)"
    using fs_demo_opens by (elim mb_fs_open_SomeD) (simp add: fs_demo_by_name)
  moreover have "lowest_free (fs_hs fs_demo) 0 = 3"
    by (simp add: fs_demo_unfold mb_fs_new_unfold lowest_free.simps)
  ultimately show ?thesis by (simp add: handle_add_def Let_def)
qed

lemma fs_demo_open_wf: "fs_wf fs_demo_open"
  unfolding fs_demo_open_def by (rule fs_wf_open [OF fs_demo_wf])

lemma fs_demo_open_3:
  "handle_by_fd fs_demo_open 3 = Some 3" "fs_hs fs_demo_open ! 3 = \<lparr>oh_fd = 3, oh_file = 3, oh_pos = 0\<rparr>"
  "fs_files fs_demo_open ! 3 = blank_file\<lparr>mf_name := [0x61],
      mf_kind := F_REGULAR, mf_writable := True, mf_len := 3, mf_cap := 3, mf_data := [1, 2, 3]\<rparr>"
  by (simp_all add: handle_by_fd_def fs_demo_open_unfold fs_demo_unfold mb_fs_new_unfold)

theorem fs_write_contents_witness:
  "\<exists>f'. mb_fs_write (\<lambda>n. True) (\<lambda>n. 0xAA) fs_demo_open 3 [7, 8, 9, 10]
        = (set_handle (set_file fs_demo_open 3 f') 3 4, Inr 4) \<and> file_bytes f' = [7, 8, 9, 10]"
proof -
  have len: "length [7, 8, 9, 10 :: byte] = 4" by simp
  show ?thesis
    using fs_write_contents [OF fs_demo_open_wf fs_demo_open_3(1) refl refl, of "[7, 8, 9, 10]"
        "\<lambda>n. True" "\<lambda>n. 0xAA", unfolded len fs_demo_open_3]
    by (auto simp: zwrite_def file_bytes_def fs_demo_open_3)
qed

text \<open>
  C22: what \<open>pwrite\<close> stores at an offset is what seeking there and reading gives
  back, on a writable file kept in memory, and \<open>pwrite\<close> leaves the handle's
  position where it was.
\<close>

theorem fs_pwrite_seek_read:
  assumes wf: "fs_wf fs" and h: "handle_by_fd fs fd = Some i" and k: "k = oh_file (fs_hs fs ! i)"
    and f: "mf_kind (fs_files fs ! k) = F_REGULAR" "mf_len (fs_files fs ! k) < 2 ^ 63"
    and off: "0 \<le> offset" "nat offset + length buf < 2 ^ 63" and buf: "buf \<noteq> []"
    and pw: "mb_fs_pwrite alloc junk fs fd buf offset = (fs1, Inr n)"
  shows "n = length buf \<and> fs_hs fs1 = fs_hs fs
    \<and> (\<exists>fs2. mb_fs_seek fs1 fd offset 0 = (fs2, Inr offset) \<and> snd (mb_fs_read fs2 fd n) = Inr buf)"
proof -
  let ?f = "fs_files fs ! k"
  have i: "i < length (fs_hs fs)" using handle_by_fdD [OF h] by simp
  have kl: "k < length (fs_files fs)" and fw: "file_wf ?f"
    using fs_wfD(2,3) [OF wf i] by (simp_all add: k)
  have e: "(nat offset + length buf) mod 2 ^ 64 = nat offset + length buf" using off by simp
  obtain f' where st: "store_bytes alloc junk ?f buf (nat offset) (nat offset + length buf) = Some f'"
    and fs1: "fs1 = set_file fs k f'" and n: "n = length buf"
    using pw h f off buf unfolding mb_fs_pwrite_def Let_def k [symmetric] e
    by (auto split: option.splits if_splits simp flip: k)
  note s = store_bytes_spec [OF fw f(1) refl st]
  have f1: "fs_files fs1 ! k = f'" "fs_hs fs1 = fs_hs fs" using kl by (simp_all add: fs1 set_file_def)
  have h1: "handle_by_fd fs1 fd = Some i" using h by (simp add: fs1)
  have len: "int (mf_len f') < 2 ^ 63" "int (mf_len f') = max (int (mf_len ?f)) (offset + int (length buf))"
    using s(3) f(2) off by auto
  have kind: "has_bytes f'" "mf_kind f' = F_REGULAR" using s(5) f(1) by (simp_all add: has_bytes_def)
  have w: "wrap64 (int (mf_len f')) = int (mf_len f')" using len(1) by (intro wrap64_id) auto
  have sk: "mb_fs_seek fs1 fd offset 0 = (set_handle fs1 i (nat offset), Inr offset)"
    using h1 f1 kind(1) off w len(2) by (simp add: mb_fs_seek_def Let_def k [symmetric])
  let ?fs2 = "set_handle fs1 i (nat offset)"
  have fs2: "handle_by_fd ?fs2 fd = Some i" using h1 by simp
  have fs2': "fs_hs ?fs2 ! i = (fs_hs fs ! i)\<lparr>oh_pos := nat offset\<rparr>" "fs_files ?fs2 ! k = f'"
    using f1 i by (simp_all add: set_handle_def)
  have "snd (mb_fs_read ?fs2 fd n) = Inr (take n (drop (nat offset) (file_bytes f')))"
    using mb_fs_read_regular [OF fs2] fs2' kind(2) s(2) off by (simp add: k [symmetric])
  also have "\<dots> = Inr buf" using slice_zwrite [of buf "nat offset"] by (simp add: s(1) n)
  finally show ?thesis using sk n f1(2) by blast
qed

theorem fs_pwrite_seek_read_witness:
  "\<exists>fs1 fs2. mb_fs_pwrite (\<lambda>n. True) (\<lambda>n. 0xAA) fs_demo_open 3 [7, 8] 2 = (fs1, Inr 2)
     \<and> mb_fs_seek fs1 3 2 0 = (fs2, Inr 2) \<and> snd (mb_fs_read fs2 3 2) = Inr [7, 8]"
proof -
  let ?r = "mb_fs_pwrite (\<lambda>n. True) (\<lambda>n. 0xAA) fs_demo_open 3 [7, 8] 2"
  have pw: "?r = (fst ?r, Inr 2)"
    by (simp add: mb_fs_pwrite_def fs_demo_open_3 store_bytes_def Let_def)
  from fs_pwrite_seek_read [OF fs_demo_open_wf fs_demo_open_3(1) refl _ _ _ _ _ this] pw show ?thesis
    by (auto simp: fs_demo_open_3)
qed

section \<open>The open-file table of a state\<close>

lemma next_handle_fold:
  assumes "case acc of None \<Rightarrow> True | Some g \<Rightarrow> prev < oh_fd g"
  shows "case fold (\<lambda>h next. if prev < oh_fd h \<and> (case next of None \<Rightarrow> True | Some g \<Rightarrow> oh_fd h < oh_fd g)
                   then Some h else next) hs acc of
      None \<Rightarrow> acc = None \<and> (\<forall>h\<in>set hs. oh_fd h \<le> prev)
    | Some m \<Rightarrow> prev < oh_fd m \<and> (m \<in> set hs \<or> acc = Some m)
        \<and> (\<forall>h\<in>set hs. prev < oh_fd h \<longrightarrow> oh_fd m \<le> oh_fd h)
        \<and> (\<forall>g. acc = Some g \<longrightarrow> oh_fd m \<le> oh_fd g)"
  using assms
proof (induction hs arbitrary: acc)
  case (Cons h hs)
  let ?acc = "if prev < oh_fd h \<and> (case acc of None \<Rightarrow> True | Some g \<Rightarrow> oh_fd h < oh_fd g) then Some h else acc"
  have "case ?acc of None \<Rightarrow> True | Some g \<Rightarrow> prev < oh_fd g" using Cons.prems by auto
  from Cons.IH [OF this] show ?case
    by (cases acc) (auto split: option.splits if_splits)
qed (auto split: option.split)

lemma next_handle_None: "next_handle hs prev = None \<longleftrightarrow> (\<forall>h\<in>set hs. oh_fd h \<le> prev)"
  using next_handle_fold [where acc = None and prev = prev and hs = hs] unfolding next_handle_def
  by (force simp: not_le split: option.splits)

lemma next_handle_SomeD:
  "next_handle hs prev = Some m \<Longrightarrow>
   m \<in> set hs \<and> prev < oh_fd m \<and> (\<forall>h\<in>set hs. prev < oh_fd h \<longrightarrow> oh_fd m \<le> oh_fd h)"
  using next_handle_fold [where acc = None and prev = prev and hs = hs] unfolding next_handle_def by simp

text \<open>The handles above \<open>prev\<close>, in descriptor order.\<close>

definition handles_above :: "open_handle list \<Rightarrow> int \<Rightarrow> open_handle list" where
  "handles_above hs prev = sort_key oh_fd (filter (\<lambda>h. prev < oh_fd h) hs)"

lemma above_next:
  assumes d: "distinct (map oh_fd hs)" and m: "next_handle hs prev = Some m"
  shows "handles_above hs prev = m # handles_above hs (oh_fd m)"
proof (rule map_sorted_distinct_set_unique)
  note m = next_handle_SomeD [OF m]
  have inj: "inj_on oh_fd (set hs)" using d by (simp add: distinct_map)
  have dist: "distinct (map oh_fd (handles_above hs p))" for p
    using d by (auto simp: handles_above_def distinct_map intro: inj_on_subset)
  show "set (handles_above hs prev) = set (m # handles_above hs (oh_fd m))"
  proof (intro set_eqI iffI)
    fix x assume "x \<in> set (handles_above hs prev)"
    then have "x \<in> set hs" "oh_fd m \<le> oh_fd x" using m by (auto simp: handles_above_def)
    then show "x \<in> set (m # handles_above hs (oh_fd m))"
      using inj m by (cases "oh_fd m = oh_fd x") (auto simp: handles_above_def dest: inj_onD)
  qed (use m in \<open>auto simp: handles_above_def\<close>)
  then show "inj_on oh_fd (set (handles_above hs prev) \<union> set (m # handles_above hs (oh_fd m)))"
    using inj by (auto simp: handles_above_def intro: inj_on_subset)
  show "sorted (map oh_fd (handles_above hs prev))" by (simp add: handles_above_def)
  show "sorted (map oh_fd (m # handles_above hs (oh_fd m)))"
    by (auto simp: handles_above_def less_imp_le)
  show "distinct (map oh_fd (handles_above hs prev))" by (rule dist)
  show "distinct (map oh_fd (m # handles_above hs (oh_fd m)))"
    using dist by (auto simp: handles_above_def)
qed

lemma save_handles_loop_above:
  assumes "distinct (map oh_fd (fs_hs fs))"
  shows "save_handles_loop fs (length (handles_above (fs_hs fs) prev)) prev
       = Some (concat (map (handle_chunks fs) (handles_above (fs_hs fs) prev)))"
proof (induction "length (handles_above (fs_hs fs) prev)" arbitrary: prev)
  case (Suc n)
  then obtain m where m: "next_handle (fs_hs fs) prev = Some m"
    by (cases "next_handle (fs_hs fs) prev") (auto simp: next_handle_None handles_above_def filter_empty_conv not_less)
  note a = above_next [OF assms m]
  with Suc.hyps have "n = length (handles_above (fs_hs fs) (oh_fd m))" by simp
  from Suc.hyps(1) [OF this] m a show ?case by simp
qed simp

text \<open>What makes a handle's record fit the fields it is written in.\<close>

definition handle_fits :: "mb_fs \<Rightarrow> open_handle \<Rightarrow> bool" where
  "handle_fits fs h \<longleftrightarrow> oh_fd h < 2 ^ 31 \<and> length (mf_name (fs_files fs ! oh_file h)) < 4096
     \<and> 0 \<notin> set (mf_name (fs_files fs ! oh_file h))"

lemma take_i32_append: "- (2 ^ 31) \<le> i \<Longrightarrow> i < 2 ^ 31 \<Longrightarrow> take_i32 (i32_bytes i @ s) = Some (i, s)"
  by (simp add: take_i32_def i32_bytes_def signed_of_int signed_take_bit_int_eq_self)

lemma by_name_self:
  assumes "distinct (map mf_name (fs_files fs))" "k < length (fs_files fs)"
  shows "by_name fs (mf_name (fs_files fs ! k)) = Some k"
  using assms unfolding by_name_def find_index_Some_iff
  by (auto simp: distinct_conv_nth)

lemma take_handle_chunks:
  assumes "handle_wf fs h" "handle_fits fs h"
  shows "take_handle (concat (handle_chunks fs h) @ s)
    = Some ((oh_fd h, oh_pos h, length (mf_name (fs_files fs ! oh_file h))), mf_name (fs_files fs ! oh_file h) @ s)"
  using assms
  by (simp add: take_handle_def handle_chunks_def Let_def take_i32_append handle_wf_def handle_fits_def
      unat_of_nat)

lemma load_handles_loop_saved:
  assumes "fs_wf fs" "\<forall>h\<in>set gs. handle_wf fs h \<and> handle_fits fs h \<and> prev < oh_fd h"
    "sorted_wrt (\<lambda>g h. oh_fd g < oh_fd h) gs"
  shows "load_handles_loop fs (length gs) prev hs (concat (concat (map (handle_chunks fs) gs)) @ s)
       = Some (Table (hs @ gs), s)"
  using assms
proof (induction gs arbitrary: prev hs)
  case (Cons h gs)
  let ?f = "fs_files fs ! oh_file h"
  have hw: "handle_wf fs h" "handle_fits fs h" "prev < oh_fd h" using Cons.prems by auto
  have nm: "c_string (mf_name ?f) = mf_name ?f" "length (mf_name ?f) < 4096"
    using hw(2) by (auto simp: c_string_def handle_fits_def takeWhile_eq_all_conv)
  have bn: "by_name fs (mf_name ?f) = Some (oh_file h)"
    using by_name_self Cons.prems(1) hw(1) by (simp add: fs_wf_def handle_wf_def)
  have h: "\<lparr>oh_fd = oh_fd h, oh_file = oh_file h,
      oh_pos = if oh_pos h < mf_len ?f \<or> fs_linux fs then oh_pos h else mf_len ?f\<rparr> = h"
    using hw(1) by (auto simp: handle_wf_def)
  have IH: "load_handles_loop fs (length gs) (oh_fd h) (hs @ [h]) (concat (concat (map (handle_chunks fs) gs)) @ s)
      = Some (Table ((hs @ [h]) @ gs), s)"
    using Cons.prems by (intro Cons.IH) auto
  show ?case
    using take_handle_chunks [OF hw(1,2)] nm bn hw(3) IH h by (simp add: Let_def del: append_assoc)
      (simp add: append_assoc)
qed simp

text \<open>The record of a table is read back on a file system that mounts the same names.\<close>

lemma handles_load:
  assumes wf: "fs_wf fs" and fit: "\<forall>h\<in>set (fs_hs fs). handle_fits fs h"
    and n: "length (fs_hs fs) \<le> 65536" and al: "alloc (24 * max (length (fs_hs fs)) 1)"
    and names: "map mf_name (fs_files fs2) = map mf_name (fs_files fs)" and wf2: "fs_wf fs2"
    and pos: "\<forall>h\<in>set (fs_hs fs). handle_wf fs2 h"
  obtains cs where "mb_fs_save_handles fs = Some cs"
    "mb_fs_load_handles alloc fs2 (concat cs @ s) = Some (fs2\<lparr>fs_hs := sort_key oh_fd (fs_hs fs)\<rparr>, True, s)"
proof -
  let ?gs = "sort_key oh_fd (fs_hs fs)"
  have d: "distinct (map oh_fd (fs_hs fs))" and hw: "\<forall>h\<in>set (fs_hs fs). handle_wf fs h"
    using wf by (auto simp: fs_wf_def)
  have ab: "handles_above (fs_hs fs) (- 1) = ?gs"
  proof -
    have "filter (\<lambda>h. - 1 < oh_fd h) (fs_hs fs) = fs_hs fs"
      using hw by (intro filter_True) (fastforce simp: handle_wf_def)
    then show ?thesis by (simp add: handles_above_def)
  qed
  have u: "unat (of_nat (length (fs_hs fs)) :: u32) = length (fs_hs fs)"
    using n by (simp add: unat_of_nat)
  have sv: "mb_fs_save_handles fs = Some (u32_bytes (of_nat (length (fs_hs fs))) # concat (map (handle_chunks fs) ?gs))"
    using save_handles_loop_above [OF d, of "- 1"] by (simp add: mb_fs_save_handles_def Let_def u ab)
  have len: "length (fs_files fs2) = length (fs_files fs)" using arg_cong [OF names, of length] by simp
  have nm: "mf_name (fs_files fs2 ! k) = mf_name (fs_files fs ! k)" if "k < length (fs_files fs)" for k
    using arg_cong [OF names, of "\<lambda>l. l ! k"] that len by simp
  have same: "handle_chunks fs2 h = handle_chunks fs h" "handle_fits fs2 h = handle_fits fs h" if "h \<in> set (fs_hs fs)" for h
    using nm [of "oh_file h"] hw that by (auto simp: handle_chunks_def handle_fits_def handle_wf_def)
  have ch: "map (handle_chunks fs2) ?gs = map (handle_chunks fs) ?gs" using same(1) by simp
  have srt: "sorted_wrt (\<lambda>g h. oh_fd g < oh_fd h) ?gs"
  proof -
    have "distinct (map oh_fd ?gs)" using d by (simp add: distinct_map)
    then have "sorted_wrt (<) (map oh_fd ?gs)" by (simp add: strict_sorted_iff)
    then show ?thesis by (simp add: sorted_wrt_map)
  qed
  have ld: "load_handles_loop fs2 (length ?gs) (- 1) [] (concat (concat (map (handle_chunks fs2) ?gs)) @ s)
      = Some (Table ([] @ ?gs), s)"
    using hw fit pos srt same(2) by (intro load_handles_loop_saved [OF wf2]) (auto simp: handle_wf_def)
  have "mb_fs_load_handles alloc fs2 (concat (u32_bytes (of_nat (length (fs_hs fs))) # concat (map (handle_chunks fs) ?gs)) @ s)
      = Some (fs2\<lparr>fs_hs := ?gs\<rparr>, True, s)"
    using ld n al by (simp add: mb_fs_load_handles_def u ch)
  with sv show ?thesis by (rule that)
qed

lemma fd_map_sorted:
  assumes "distinct (map oh_fd (fs_hs fs))"
  shows "fd_map (fs2\<lparr>fs_hs := sort_key oh_fd (fs_hs fs)\<rparr>) = fd_map fs"
proof -
  have "distinct (map fst (map fd_entry (fs_hs fs)))" using assms by (simp add: o_def)
  moreover have "distinct (map fst (map fd_entry (sort_key oh_fd (fs_hs fs))))" using assms by (simp add: o_def distinct_map)
  ultimately have "map_of (map fd_entry (sort_key oh_fd (fs_hs fs))) = map_of (map fd_entry (fs_hs fs))"
    by (subst map_of_inject_set) auto
  then show ?thesis by (simp add: fd_map_map_of)
qed



section \<open>Two corner cases\<close>

text \<open>
  C32: a write of no bytes through a handle that a seek put past the end makes the
  file longer: its length becomes the handle's position and the gap reads as
  zeros. A \<open>pwrite\<close> of no bytes at the same place changes nothing.
\<close>

theorem fs_empty_write_grows:
  assumes wf: "fs_wf fs" and h: "handle_by_fd fs fd = Some i" and hd: "h = fs_hs fs ! i"
    and f: "f = fs_files fs ! oh_file h" "mf_kind f = F_REGULAR" "mf_writable f"
    and past: "mf_len f < oh_pos h" and room: "alloc (oh_pos h)"
  shows "\<exists>fs'. mb_fs_write alloc junk fs fd [] = (fs', Inr 0)
      \<and> mf_len (fs_files fs' ! oh_file h) = oh_pos h
      \<and> file_bytes (fs_files fs' ! oh_file h) = file_bytes f @ replicate (oh_pos h - mf_len f) 0
      \<and> mb_fs_pwrite alloc junk fs fd [] (int (oh_pos h)) = (fs, Inr 0)"
proof -
  have i: "i < length (fs_hs fs)" using handle_by_fdD [OF h] by simp
  have k: "oh_file h < length (fs_files fs)" and fw: "file_wf f" and pos: "oh_pos h < 2 ^ 64"
    using fs_wfD [OF wf i] by (simp_all add: f(1) hd handle_wf_def)
  have cap: "oh_pos h \<le> mf_cap f \<or> alloc (oh_pos h)" using room by simp
  obtain f' where st: "store_bytes alloc junk f [] (oh_pos h) (oh_pos h) = Some f'"
    using room store_bytes_None [of alloc junk f "[]" "oh_pos h" "oh_pos h"]
    by (cases "store_bytes alloc junk f [] (oh_pos h) (oh_pos h)") auto
  have w: "mb_fs_write alloc junk fs fd [] = (set_handle (set_file fs (oh_file h) f') i (oh_pos h), Inr 0)"
    using h f pos st by (simp add: mb_fs_write_def Let_def flip: hd f(1))
  have p: "mb_fs_pwrite alloc junk fs fd [] (int (oh_pos h)) = (fs, Inr 0)"
    using h f by (simp add: mb_fs_pwrite_def Let_def flip: hd f(1))
  have s: "file_bytes f' = zwrite (file_bytes f) (oh_pos h) []" "mf_len f' = oh_pos h"
    using store_bytes_spec(1,3) [OF fw f(2) _ st] past by simp_all
  have "zwrite (file_bytes f) (oh_pos h) [] = file_bytes f @ replicate (oh_pos h - mf_len f) 0"
    using length_file_bytes [OF fw f(2)] past by (simp add: zwrite_def)
  with w p s k show ?thesis by (intro exI [of _ "set_handle (set_file fs (oh_file h) f') i (oh_pos h)"])
    (simp add: set_handle_def set_file_def)
qed

text \<open>\<open>a\<close> open with its position moved to 5, past its three bytes.\<close>

definition fs_demo_past :: mb_fs where
  "fs_demo_past = set_handle (mb_fs_set_linux_answers fs_demo_open True) 3 5"

lemma fs_demo_past_wf: "fs_wf fs_demo_past"
proof -
  have "fs_wf (mb_fs_set_linux_answers fs_demo_open True)"
    using fs_step_wf [OF fs_step.linux_on fs_demo_open_wf] .
  then show ?thesis
    unfolding fs_demo_past_def
    by (rule fs_wf_set_handle)
      (simp_all add: mb_fs_set_linux_answers_def fs_demo_open_unfold fs_demo_unfold mb_fs_new_unfold)
qed

lemma fs_demo_past_3:
  "handle_by_fd fs_demo_past 3 = Some 3" "fs_hs fs_demo_past ! 3 = \<lparr>oh_fd = 3, oh_file = 3, oh_pos = 5\<rparr>"
  "fs_files fs_demo_past ! 3 = blank_file\<lparr>mf_name := [0x61],
      mf_kind := F_REGULAR, mf_writable := True, mf_len := 3, mf_cap := 3, mf_data := [1, 2, 3]\<rparr>"
  by (simp_all add: fs_demo_past_def mb_fs_set_linux_answers_def handle_by_fd_def set_handle_def
      fs_demo_open_unfold fs_demo_unfold mb_fs_new_unfold)

theorem fs_empty_write_grows_witness:
  "\<exists>fs'. mb_fs_write (\<lambda>n. True) (\<lambda>n. 0xAA) fs_demo_past 3 [] = (fs', Inr 0)
      \<and> file_bytes (fs_files fs' ! 3) = [1, 2, 3, 0, 0]"
proof -
  have two: "replicate (5 - 3) (0 :: byte) = [0, 0]" by (simp add: numeral_2_eq_2)
  show ?thesis
    using fs_empty_write_grows [OF fs_demo_past_wf fs_demo_past_3(1) refl refl, of "\<lambda>n. True" "\<lambda>n. 0xAA"] two
    by (auto simp: fs_demo_past_3 file_bytes_def)
qed


text \<open>A read-only host file of four bytes whose third cannot be read, open on
  descriptor 3.\<close>

definition disk_demo :: host_FILE where
  "disk_demo = \<lparr>hf_bytes = [1, 2, 3, 4], hf_pos = 4, hf_bad_at = Some 2, hf_room = 4,
                hf_seekable = True, hf_flush_ok = True\<rparr>"

definition fs_demo_disk :: mb_fs where
  "fs_demo_disk = mb_fs_new\<lparr>
     fs_files := fs_files mb_fs_new @ [blank_file\<lparr>mf_name := [0x62], mf_kind := F_HOST,
        mf_host := disk_demo, mf_len := 4, mf_cap := 4\<rparr>],
     fs_hs := fs_hs mb_fs_new @ [\<lparr>oh_fd = 3, oh_file = 3, oh_pos = 0\<rparr>]\<rparr>"


end
