(* ===== verification/Mb_Ranges.thy ===== *)
theory Mb_Ranges
  imports Mb_Prelude
begin

text \<open>
  Addresses, page alignment and half-open address ranges
  (\<^verbatim>\<open>minibox_internal.h\<close>), and guest memory as bytes by address.
\<close>

section \<open>Pages and ranges\<close>

definition MB_PAGESIZE :: nat where "MB_PAGESIZE = 0x1000"
definition MB_PAGEMASK :: u64 where "MB_PAGEMASK = 0xfff"

definition mb_align_down :: "u64 \<Rightarrow> u64" where
  "mb_align_down p = p AND NOT MB_PAGEMASK"

definition mb_align_up :: "u64 \<Rightarrow> u64" where
  "mb_align_up p = ((p - 1) OR MB_PAGEMASK) + 1"

record mb_range =
  rg_start :: u64
  rg_size :: u64

definition mb_range_end :: "mb_range \<Rightarrow> u64" where
  "mb_range_end r = rg_start r + rg_size r"

definition mb_range_contains :: "mb_range \<Rightarrow> u64 \<Rightarrow> bool" where
  "mb_range_contains r a \<longleftrightarrow> rg_start r \<le> a \<and> a < mb_range_end r"

definition mb_range_align_expand :: "mb_range \<Rightarrow> mb_range" where
  "mb_range_align_expand r =
    (let s = mb_align_down (rg_start r)
     in \<lparr>rg_start = s, rg_size = mb_align_up (mb_range_end r) - s\<rparr>)"

record mb_layout =
  ly_elf :: mb_range
  ly_main_thread :: mb_range
  ly_alt_thread :: mb_range
  ly_sbrk :: mb_range
  ly_sealed :: mb_range
  ly_invis :: mb_range
  ly_plain :: mb_range
  ly_mmap_arena :: mb_range

definition mb_layout_all :: "mb_layout \<Rightarrow> mb_range" where
  "mb_layout_all l = \<lparr>rg_start = rg_start (ly_elf l),
     rg_size = mb_range_end (ly_mmap_arena l) - rg_start (ly_elf l)\<rparr>"

record mb_layout_template =
  lt_sbrk_size :: u64
  lt_sealed_size :: u64
  lt_invis_size :: u64
  lt_plain_size :: u64
  lt_mmap_size :: u64

lemma MB_PAGEMASK_mask: "MB_PAGEMASK = mask 12"
  by (simp add: MB_PAGEMASK_def mask_eq_exp_minus_1)

lemma mb_align_down_drop: "mb_align_down p = push_bit 12 (drop_bit 12 p)"
  unfolding mb_align_down_def MB_PAGEMASK_mask
  by (rule bit_eqI) (auto simp: bit_simps)

lemma unat_mb_align_down: "unat (mb_align_down p) = unat p div MB_PAGESIZE * MB_PAGESIZE"
proof -
  have "unat p div 4096 * 4096 < 2 ^ 64"
    by (rule order_le_less_trans [OF div_times_less_eq_dividend]) simp
  then show ?thesis
    by (simp add: mb_align_down_drop MB_PAGESIZE_def push_bit_eq_mult drop_bit_eq_div
        unat_word_ariths unat_drop_bit_eq)
qed

lemma mb_align_up_drop: "mb_align_up p = push_bit 12 (drop_bit 12 (p - 1)) + 0x1000"
proof -
  have "(p - 1) OR mask 12 = push_bit 12 (drop_bit 12 (p - 1)) OR mask 12"
    by (rule bit_eqI) (auto simp: bit_simps)
  also have "\<dots> = push_bit 12 (drop_bit 12 (p - 1)) + mask 12"
    by (rule disjunctive_add [symmetric]) (auto simp: bit_simps)
  finally show ?thesis
    by (simp add: mb_align_up_def MB_PAGEMASK_mask mask_eq_exp_minus_1)
qed

text \<open>Rounding up is exact as long as the result fits in an address.\<close>

lemma unat_mb_align_up:
  assumes "unat p + 4095 < 2 ^ 64"
  shows "unat (mb_align_up p) = (unat p + 4095) div MB_PAGESIZE * MB_PAGESIZE"
proof (cases "p = 0")
  case True
  then show ?thesis by (simp add: mb_align_up_def MB_PAGEMASK_mask MB_PAGESIZE_def)
next
  case False
  then have p1: "unat (p - 1) = unat p - 1" "0 < unat p"
    by (simp_all add: unat_minus_one unat_gt_0)
  have d: "unat (push_bit 12 (drop_bit 12 (p - 1))) = (unat p - 1) div 4096 * 4096"
    using unat_mb_align_down [of "p - 1"] by (simp add: mb_align_down_drop MB_PAGESIZE_def p1)
  have "(unat p - 1) div 4096 * 4096 + 4096 < 2 ^ 64"
    using assms div_times_less_eq_dividend [of "unat p - 1" 4096] p1(2) by linarith
  moreover have "(unat p - 1) div 4096 * 4096 + 4096 = (unat p + 4095) div 4096 * 4096"
  proof -
    have "unat p + 4095 = unat p - 1 + 4096" using p1(2) by simp
    then have "(unat p + 4095) div 4096 = (unat p - 1) div 4096 + 1" by (simp only: div_add_self2)
    then show ?thesis by (simp only: distrib_right mult_1)
  qed
  ultimately show ?thesis
    unfolding mb_align_up_drop by (simp add: unat_word_ariths d MB_PAGESIZE_def)
qed

section \<open>Guest memory\<close>

text \<open>The bytes of the guest's address space; words are little-endian.\<close>

type_synonym gmem = "u64 \<Rightarrow> byte"

definition mem_read :: "gmem \<Rightarrow> u64 \<Rightarrow> nat \<Rightarrow> bytes" where
  "mem_read m a n = map (\<lambda>i. m (a + of_nat i)) [0..<n]"

definition mem_write :: "gmem \<Rightarrow> u64 \<Rightarrow> bytes \<Rightarrow> gmem" where
  "mem_write m a bs = (\<lambda>x. if unat (x - a) < length bs then bs ! unat (x - a) else m x)"

definition read32 :: "gmem \<Rightarrow> u64 \<Rightarrow> u32" where "read32 m a = bytes_u32 (mem_read m a 4)"
definition read64 :: "gmem \<Rightarrow> u64 \<Rightarrow> u64" where "read64 m a = bytes_u64 (mem_read m a 8)"
definition write32 :: "gmem \<Rightarrow> u64 \<Rightarrow> u32 \<Rightarrow> gmem" where "write32 m a w = mem_write m a (u32_bytes w)"
definition write64 :: "gmem \<Rightarrow> u64 \<Rightarrow> u64 \<Rightarrow> gmem" where "write64 m a w = mem_write m a (u64_bytes w)"

lemma mem_read_write:
  assumes "length bs < 2 ^ 64"
  shows "mem_read (mem_write m a bs) a (length bs) = bs"
proof (rule nth_equalityI)
  fix i assume "i < length (mem_read (mem_write m a bs) a (length bs))"
  then have "i < length bs" by (simp add: mem_read_def)
  moreover from this have "unat (of_nat i :: u64) = i" using assms by (simp add: unat_of_nat)
  ultimately show "mem_read (mem_write m a bs) a (length bs) ! i = bs ! i"
    by (simp add: mem_read_def mem_write_def)
qed (simp add: mem_read_def)

lemma read32_write32 [simp]: "read32 (write32 m a w) a = w"
  using mem_read_write [of "u32_bytes w" m a] by (simp add: read32_def write32_def)

lemma read64_write64 [simp]: "read64 (write64 m a w) a = w"
  using mem_read_write [of "u64_bytes w" m a] by (simp add: read64_def write64_def)

end
