(* ===== verification/Mb_Threads.thy ===== *)
theory Mb_Threads
  imports Mb_Stream Mb_Ranges
begin

text \<open>
  The guest's green threads (\<^verbatim>\<open>threading.c\<close>): the thread table sorted by id,
  the futex queues, the v3 virtual clock with waiters' deadlines, the scheduler
  and the thread set's part of a state. The parallel arrays \<open>threads\<close>,
  \<open>deadlines\<close> and \<open>seqs\<close>, which the code always moves together, are one list of
  records. A guest death does not return in the code; here it is the outcome
  \<open>Died\<close>.
\<close>

section \<open>State\<close>

text \<open>The enumeration; a thread set read from a stream may hold any number there.\<close>

datatype tstate = T_RUNNABLE | T_WAITING | T_OTHER u32

record gthread =
  g_tid :: nat
  g_state :: tstate
  g_rax :: u64
  g_rsp :: u64
  g_thread_area :: u64
  g_tid_address :: u64
  g_stack :: mb_range
  g_pending :: mb_range
  g_deadline :: nat   \<comment> \<open>\<open>deadlines[i]\<close>: absolute clock ns, 0 for none\<close>
  g_seq :: nat        \<comment> \<open>\<open>seqs[i]\<close>: park order\<close>

record futex_queue =
  q_addr :: u64
  q_tids :: "nat list"

record mb_threads =
  next_tid :: nat
  active_tid :: nat
  threads :: "gthread list"
  futicies :: "futex_queue list"
  spec :: int
  vclock_ns :: nat
  park_seq :: nat
  kit_revision :: nat

text \<open>The fields of \<open>mb_context\<close> the thread set reads and writes.\<close>

record mb_context =
  cx_thread_area :: u64
  cx_guest_rsp :: u64
  cx_guest_fcw :: u16
  cx_guest_mxcsr :: u32

datatype death = Deadlock | Main_exited | Last_exited

datatype 'a outcome = Ret mb_threads mb_context 'a | Died death mb_threads mb_context

definition sok :: "nat \<Rightarrow> u64" where "sok v = of_nat v"
definition serr :: "errno \<Rightarrow> u64" where "serr e = - of_nat (linux_errno e)"

section \<open>The thread table\<close>

definition find_thread :: "mb_threads \<Rightarrow> nat \<Rightarrow> nat option" where
  "find_thread t tid = find_index (\<lambda>g. g_tid g = tid) (threads t)"

text \<open>The thread behind a pointer \<open>find_thread\<close> gave; the code follows it without a
  check where the thread is known to exist.\<close>

definition thread_of :: "mb_threads \<Rightarrow> nat \<Rightarrow> gthread" where
  "thread_of t tid = threads t ! the (find_thread t tid)"

definition set_thread :: "mb_threads \<Rightarrow> nat \<Rightarrow> (gthread \<Rightarrow> gthread) \<Rightarrow> mb_threads" where
  "set_thread t tid f =
    t\<lparr>threads := (threads t)[the (find_thread t tid) := f (thread_of t tid)]\<rparr>"

text \<open>Insertion shifts the threads with a larger id up from the end.\<close>

fun insert_rev :: "gthread \<Rightarrow> gthread list \<Rightarrow> gthread list" where
  "insert_rev g [] = [g]"
| "insert_rev g (x # xs) = (if g_tid g < g_tid x then x # insert_rev g xs else g # x # xs)"

definition insert_thread :: "mb_threads \<Rightarrow> gthread \<Rightarrow> mb_threads" where
  "insert_thread t g =
    t\<lparr>threads := rev (insert_rev (g\<lparr>g_deadline := 0, g_seq := 0\<rparr>) (rev (threads t)))\<rparr>"

fun remove_first :: "('a \<Rightarrow> bool) \<Rightarrow> 'a list \<Rightarrow> 'a list" where
  "remove_first P [] = []"
| "remove_first P (x # xs) = (if P x then xs else x # remove_first P xs)"

definition remove_thread :: "mb_threads \<Rightarrow> nat \<Rightarrow> mb_threads" where
  "remove_thread t tid = t\<lparr>threads := remove_first (\<lambda>g. g_tid g = tid) (threads t)\<rparr>"

section \<open>Futex queues\<close>

definition find_queue :: "mb_threads \<Rightarrow> u64 \<Rightarrow> nat option" where
  "find_queue t addr = find_index (\<lambda>q. q_addr q = addr) (futicies t)"

text \<open>\<open>queue_push (get_or_make_queue (t, addr), tid)\<close>\<close>

definition queue_push :: "mb_threads \<Rightarrow> u64 \<Rightarrow> nat \<Rightarrow> mb_threads" where
  "queue_push t addr tid =
    (case find_queue t addr of
       Some i \<Rightarrow> t\<lparr>futicies := (futicies t)[i := (futicies t ! i)\<lparr>q_tids := q_tids (futicies t ! i) @ [tid]\<rparr>]\<rparr>
     | None \<Rightarrow> t\<lparr>futicies := futicies t @ [\<lparr>q_addr = addr, q_tids = [tid]\<rparr>]\<rparr>)"

definition remove_queue :: "mb_threads \<Rightarrow> u64 \<Rightarrow> mb_threads" where
  "remove_queue t addr = t\<lparr>futicies := remove_first (\<lambda>q. q_addr q = addr) (futicies t)\<rparr>"

definition is_waiting :: "mb_threads \<Rightarrow> nat \<Rightarrow> bool" where
  "is_waiting t tid \<longleftrightarrow>
    (case find_thread t tid of None \<Rightarrow> False | Some i \<Rightarrow> g_state (threads t ! i) = T_WAITING)"

text \<open>The loop of \<open>unpark_one\<close>: pop entries until one names a waiting thread.\<close>

fun pop_waiting :: "mb_threads \<Rightarrow> nat list \<Rightarrow> nat option \<times> nat list" where
  "pop_waiting t [] = (None, [])"
| "pop_waiting t (tid # tids) = (if is_waiting t tid then (Some tid, tids) else pop_waiting t tids)"

definition make_runnable :: "gthread \<Rightarrow> gthread" where
  "make_runnable g = g\<lparr>g_state := T_RUNNABLE, g_deadline := 0, g_seq := 0\<rparr>"

text \<open>The thread woken and whether its queue still has entries, or nothing.\<close>

definition unpark_one :: "mb_threads \<Rightarrow> u64 \<Rightarrow> mb_threads \<times> (nat \<times> bool) option" where
  "unpark_one t addr =
    (case find_queue t addr of
       None \<Rightarrow> (t, None)
     | Some i \<Rightarrow>
       (case pop_waiting t (q_tids (futicies t ! i)) of (r, rest) \<Rightarrow>
         (let t1 = t\<lparr>futicies := (futicies t)[i := (futicies t ! i)\<lparr>q_tids := rest\<rparr>]\<rparr>
          in case r of
               None \<Rightarrow> (if rest = [] then remove_queue t1 addr else t1, None)
             | Some tid \<Rightarrow>
                 (let t2 = set_thread t1 tid make_runnable
                  in if rest = [] then (remove_queue t2 addr, Some (tid, False))
                     else (t2, Some (tid, True))))))"

text \<open>Queues have distinct addresses, so dropping the emptied ones by address
  drops exactly those.\<close>

definition unqueue :: "mb_threads \<Rightarrow> nat \<Rightarrow> mb_threads" where
  "unqueue t tid =
    t\<lparr>futicies := filter (\<lambda>q. q_tids q \<noteq> [])
        (map (\<lambda>q. q\<lparr>q_tids := filter (\<lambda>x. x \<noteq> tid) (q_tids q)\<rparr>) (futicies t))\<rparr>"

section \<open>Lifecycle and settings\<close>

definition no_range :: mb_range where "no_range = \<lparr>rg_start = 0, rg_size = 0\<rparr>"

definition new_thread :: "nat \<Rightarrow> gthread" where
  "new_thread tid = \<lparr>g_tid = tid, g_state = T_RUNNABLE, g_rax = sok 0, g_rsp = 0, g_thread_area = 0,
     g_tid_address = 0, g_stack = no_range, g_pending = no_range, g_deadline = 0, g_seq = 0\<rparr>"

definition mb_threads_new :: mb_threads where
  "mb_threads_new =
    insert_thread \<lparr>next_tid = 2, active_tid = 1, threads = [], futicies = [], spec = 2,
      vclock_ns = 0, park_seq = 0, kit_revision = 0\<rparr> (new_thread 1)"

definition mb_threads_set_spec :: "mb_threads \<Rightarrow> int \<Rightarrow> mb_threads" where
  "mb_threads_set_spec t s = t\<lparr>spec := s\<rparr>"

definition mb_threads_set_kit_revision :: "mb_threads \<Rightarrow> nat \<Rightarrow> mb_threads" where
  "mb_threads_set_kit_revision t r = t\<lparr>kit_revision := r\<rparr>"

definition MB_V3_TICK_NS :: nat where "MB_V3_TICK_NS = 1000"
definition MB_CLOCK_START_MAX_SEC :: nat where "MB_CLOCK_START_MAX_SEC = 7258118400"
definition MB_V3_CLOCK_MAX :: nat where
  "MB_V3_CLOCK_MAX = (2 ^ 64 - 1) - MB_CLOCK_START_MAX_SEC * 1000000000"

text \<open>Arithmetic of \<open>uint64_t\<close>, which wraps.\<close>

definition mb_threads_ns_of :: "mb_threads \<Rightarrow> int \<Rightarrow> int \<Rightarrow> nat" where
  "mb_threads_ns_of t sec nsec =
    (let s = nat (sec mod 2 ^ 64); n = nat (nsec mod 2 ^ 64)
     in if 2 \<le> kit_revision t \<and> ((MB_V3_CLOCK_MAX + 2 ^ 64 - n) mod 2 ^ 64) div 1000000000 < s
        then MB_V3_CLOCK_MAX else (s * 1000000000 + n) mod 2 ^ 64)"

definition mb_threads_ns_add :: "mb_threads \<Rightarrow> nat \<Rightarrow> nat \<Rightarrow> nat" where
  "mb_threads_ns_add t a b =
    (if 2 \<le> kit_revision t \<and> (MB_V3_CLOCK_MAX < a \<or> MB_V3_CLOCK_MAX - a < b)
     then MB_V3_CLOCK_MAX else (a + b) mod 2 ^ 64)"

section \<open>Expiry and the scheduler\<close>

definition is_due :: "nat \<Rightarrow> gthread \<Rightarrow> bool" where
  "is_due now g \<longleftrightarrow> g_state g = T_WAITING \<and> g_deadline g \<noteq> 0 \<and> g_deadline g \<le> now"

definition due_before :: "gthread \<Rightarrow> gthread \<Rightarrow> bool" where
  "due_before a b \<longleftrightarrow> g_deadline a < g_deadline b \<or> g_deadline a = g_deadline b \<and> g_seq a < g_seq b"

definition pick_due :: "mb_threads \<Rightarrow> nat option" where
  "pick_due t =
    fold (\<lambda>i pick. if \<not> is_due (vclock_ns t) (threads t ! i) then pick
        else case pick of None \<Rightarrow> Some i
          | Some p \<Rightarrow> if due_before (threads t ! i) (threads t ! p) then Some i else Some p) [0..<length (threads t)] None"

definition expire_at :: "mb_threads \<Rightarrow> nat \<Rightarrow> mb_threads" where
  "expire_at t i =
    (let g = threads t ! i
     in unqueue (t\<lparr>threads := (threads t)[i := (make_runnable g)\<lparr>g_rax := serr ETIMEDOUT\<rparr>]\<rparr>) (g_tid g))"

lemma pick_due_fold:
  "case fold (\<lambda>i pick. if \<not> is_due now (xs ! i) then pick
        else case pick of None \<Rightarrow> Some i
          | Some p \<Rightarrow> if B i p then Some i else Some p) ks acc of
     None \<Rightarrow> acc = None \<and> (\<forall>i\<in>set ks. \<not> is_due now (xs ! i))
   | Some p \<Rightarrow> acc = Some p \<or> p \<in> set ks \<and> is_due now (xs ! p)"
proof (induction ks arbitrary: acc)
  case (Cons i js)
  let ?acc = "if \<not> is_due now (xs ! i) then acc
        else case acc of None \<Rightarrow> Some i | Some p \<Rightarrow> if B i p then Some i else Some p"
  show ?case
    using Cons.IH [of ?acc]
    by (cases acc; cases "is_due now (xs ! i)") (auto split: option.splits if_splits)
qed (simp split: option.split)

lemma pick_due_SomeD: "pick_due t = Some i \<Longrightarrow> i < length (threads t) \<and> is_due (vclock_ns t) (threads t ! i)"
  using pick_due_fold [where acc = None and now = "vclock_ns t" and xs = "threads t" and ks = "[0..<length (threads t)]"
      and B = "\<lambda>i p. due_before (threads t ! i) (threads t ! p)"]
  unfolding pick_due_def by (auto split: option.splits)

lemma pick_due_None: "pick_due t = None \<longleftrightarrow> (\<forall>g\<in>set (threads t). \<not> is_due (vclock_ns t) g)"
proof
  assume "pick_due t = None"
  then show "\<forall>g\<in>set (threads t). \<not> is_due (vclock_ns t) g"
    using pick_due_fold [where acc = None and now = "vclock_ns t" and xs = "threads t" and ks = "[0..<length (threads t)]"
      and B = "\<lambda>i p. due_before (threads t ! i) (threads t ! p)"]
    unfolding pick_due_def by (auto simp: in_set_conv_nth split: option.splits)
next
  assume none: "\<forall>g\<in>set (threads t). \<not> is_due (vclock_ns t) g"
  show "pick_due t = None"
  proof (cases "pick_due t")
    case (Some i)
    from pick_due_SomeD [OF this] none show ?thesis by (meson nth_mem)
  qed
qed

text \<open>Every iteration leaves one waiting thread fewer.\<close>

lemma expire_at_fewer:
  assumes "i < length (threads t)" "g_state (threads t ! i) = T_WAITING"
  shows "length (filter (\<lambda>g. g_state g = T_WAITING) (threads (expire_at t i)))
       < length (filter (\<lambda>g. g_state g = T_WAITING) (threads t))"
proof -
  let ?W = "\<lambda>g. g_state g = T_WAITING" and ?xs = "threads t"
  have split: "?xs = take i ?xs @ ?xs ! i # drop (Suc i) ?xs" using assms(1) by (rule id_take_nth_drop)
  have upd: "threads (expire_at t i) = take i ?xs @ (make_runnable (?xs ! i))\<lparr>g_rax := serr ETIMEDOUT\<rparr> # drop (Suc i) ?xs"
    using assms(1) by (simp add: expire_at_def unqueue_def Let_def upd_conv_take_nth_drop)
  have "length (filter ?W ?xs) = length (filter ?W (take i ?xs)) + Suc (length (filter ?W (drop (Suc i) ?xs)))"
    using assms(2) by (subst (1) split) simp
  then show ?thesis unfolding upd by (simp add: make_runnable_def)
qed

function expire_due :: "mb_threads \<Rightarrow> mb_threads" where
  "expire_due t = (case pick_due t of None \<Rightarrow> t | Some i \<Rightarrow> expire_due (expire_at t i))"
  by pat_completeness auto
termination
proof (relation "measure (\<lambda>t. length (filter (\<lambda>g. g_state g = T_WAITING) (threads t)))", goal_cases)
  case (2 t i)
  then show ?case using pick_due_SomeD [of t i] by (auto simp: is_due_def intro: expire_at_fewer)
qed simp

declare expire_due.simps [simp del]

definition mb_threads_advance :: "mb_threads \<Rightarrow> nat \<Rightarrow> mb_threads" where
  "mb_threads_advance t ns = expire_due (t\<lparr>vclock_ns := mb_threads_ns_add t (vclock_ns t) ns\<rparr>)"

text \<open>Storing the running thread's registers, and switching.\<close>

definition store_regs :: "mb_threads \<Rightarrow> mb_context \<Rightarrow> u64 \<Rightarrow> mb_threads" where
  "store_regs t c ret =
    set_thread t (active_tid t) (\<lambda>g. g\<lparr>g_rax := ret, g_rsp := cx_guest_rsp c, g_thread_area := cx_thread_area c\<rparr>)"

definition swap_to :: "mb_threads \<Rightarrow> mb_context \<Rightarrow> nat \<Rightarrow> u64 \<Rightarrow> mb_threads \<times> mb_context \<times> u64" where
  "swap_to t c tid ret =
    (let t1 = store_regs t c ret;
         nw = thread_of t1 tid
     in (t1\<lparr>active_tid := tid\<rparr>, c\<lparr>cx_guest_rsp := g_rsp nw, cx_thread_area := g_thread_area nw\<rparr>, g_rax nw))"

text \<open>The next runnable thread: the first with a larger id, else the first.\<close>

definition next_runnable :: "mb_threads \<Rightarrow> nat option" where
  "next_runnable t =
    (case find (\<lambda>g. active_tid t < g_tid g \<and> g_state g = T_RUNNABLE) (threads t) of
       Some g \<Rightarrow> Some (g_tid g)
     | None \<Rightarrow> map_option g_tid (find (\<lambda>g. g_state g = T_RUNNABLE) (threads t)))"

definition earliest_deadline :: "mb_threads \<Rightarrow> nat" where
  "earliest_deadline t =
    fold (\<lambda>g dl. if g_state g = T_WAITING \<and> g_deadline g \<noteq> 0 \<and> (dl = 0 \<or> g_deadline g < dl)
                 then g_deadline g else dl) (threads t) 0"

partial_function (option) swap_loop ::
  "mb_threads \<Rightarrow> mb_context \<Rightarrow> u64 \<Rightarrow> u64 outcome option" where
  "swap_loop t c ret =
    (case next_runnable t of
       Some best \<Rightarrow>
         Some (if best = active_tid t then Ret t c (g_rax (thread_of t (active_tid t)))
               else case swap_to t c best ret of (t', c', v) \<Rightarrow> Ret t' c' v)
     | None \<Rightarrow>
         if spec t = 3 \<and> earliest_deadline t \<noteq> 0
         then (let t' = expire_due (t\<lparr>vclock_ns := earliest_deadline t\<rparr>)
               in swap_loop t' c (g_rax (thread_of t' (active_tid t'))))
         else Some (Died Deadlock t c))"

definition swap_to_next :: "mb_threads \<Rightarrow> mb_context \<Rightarrow> u64 \<Rightarrow> u64 outcome option" where
  "swap_to_next t c ret = swap_loop (store_regs t c ret) c ret"

definition park_me :: "mb_threads \<Rightarrow> mb_context \<Rightarrow> u64 \<Rightarrow> u64 \<Rightarrow> u64 outcome option" where
  "park_me t c ret addr =
    (let t1 = queue_push t addr (active_tid t);
         t2 = set_thread t1 (active_tid t1) (\<lambda>g. g\<lparr>g_state := T_WAITING\<rparr>)
     in swap_to_next t2 c ret)"

definition park_other :: "mb_threads \<Rightarrow> u64 \<Rightarrow> nat \<Rightarrow> mb_threads" where
  "park_other t addr tid = set_thread (queue_push t addr tid) tid (\<lambda>g. g\<lparr>g_state := T_WAITING\<rparr>)"

section \<open>System calls\<close>

text \<open>\<open>mprotect r\<close>: the answer of \<open>mb_block_mprotect (b, r, MB_PROT_RWSTACK)\<close>. The
  guest memory after, and the answer.\<close>

definition mb_threads_spawn ::
  "(mb_range \<Rightarrow> unit res) \<Rightarrow> mb_threads \<Rightarrow> gmem \<Rightarrow> u64 \<Rightarrow> u64 \<Rightarrow> u64 \<Rightarrow> u64 \<Rightarrow> u64 \<Rightarrow> u64
     \<Rightarrow> mb_threads \<times> gmem \<times> nat res" where
  "mb_threads_spawn mprotect t m thread_area guest_rsp guest_rip child_tid parent_tid pthread_area =
    (let tid = next_tid t
     in if thread_area = 0 \<or> pthread_area = 0 then (t, m, Inl EINVAL)
        else
          let stack_end = read64 m (pthread_area + 96); stack_size = read64 m (pthread_area + 104);
              stack = \<lparr>rg_start = stack_end - stack_size, rg_size = stack_size\<rparr>
          in case mprotect (mb_range_align_expand stack) of
               Inl e \<Rightarrow> (t, m, Inl e)
             | Inr _ \<Rightarrow>
               (let m1 = write64 m (guest_rsp - 16) 0;
                    m2 = write64 m1 (guest_rsp - 8) guest_rip;
                    m3 = write32 m2 parent_tid (of_nat tid);
                    g = \<lparr>g_tid = tid, g_state = T_RUNNABLE, g_rax = sok 0, g_rsp = guest_rsp - 16,
                         g_thread_area = thread_area, g_tid_address = child_tid, g_stack = stack,
                         g_pending = no_range, g_deadline = 0, g_seq = 0\<rparr>;
                    t1 = insert_thread t g
                in (t1\<lparr>next_tid := (next_tid t1 + 1) mod 2 ^ 32\<rparr>, m3, Inr tid)))"

definition mb_threads_exit :: "mb_threads \<Rightarrow> mb_context \<Rightarrow> gmem \<Rightarrow> (u64 outcome \<times> gmem) option" where
  "mb_threads_exit t c m =
    (if active_tid t = 1 then Some (Died Main_exited t c, m)
     else
       let addr = g_tid_address (thread_of t (active_tid t));
           m' = (if addr \<noteq> 0 then write32 m addr 0 else m);
           t1 = (if addr \<noteq> 0 then fst (unpark_one t addr) else t);
           dead = active_tid t1;
           t2 = set_thread t1 dead (\<lambda>g. g\<lparr>g_state := T_WAITING\<rparr>)
       in map_option (\<lambda>r. (case r of
             Died d td cd \<Rightarrow> Died d td cd
           | Ret t3 c3 v \<Rightarrow>
               if active_tid t3 = dead then Died Last_exited t3 c3
               else Ret (remove_thread t3 dead) c3 v, m')) (swap_to_next t2 c (sok 0)))"

definition mb_threads_hold_stack_unmap :: "mb_threads \<Rightarrow> mb_range \<Rightarrow> mb_threads \<times> bool" where
  "mb_threads_hold_stack_unmap t r =
    (case find_thread t (active_tid t) of
       None \<Rightarrow> (t, False)
     | Some i \<Rightarrow>
       (let stack = g_stack (threads t ! i)
        in if rg_size stack = 0 then (t, False)
           else if mb_range_end stack \<le> rg_start r \<or> mb_range_end r \<le> rg_start stack then (t, False)
           else (set_thread t (active_tid t) (\<lambda>g. g\<lparr>g_pending := r\<rparr>), True)))"

definition mb_threads_take_held_unmap :: "mb_threads \<Rightarrow> mb_threads \<times> mb_range option" where
  "mb_threads_take_held_unmap t =
    (case find_thread t (active_tid t) of
       None \<Rightarrow> (t, None)
     | Some i \<Rightarrow>
       (let p = g_pending (threads t ! i)
        in if rg_size p = 0 then (t, None)
           else (set_thread t (active_tid t) (\<lambda>g. g\<lparr>g_pending := no_range\<rparr>), Some p)))"

definition mb_threads_futex_wait ::
  "mb_threads \<Rightarrow> mb_context \<Rightarrow> gmem \<Rightarrow> u64 \<Rightarrow> u32 \<Rightarrow> u64 outcome option" where
  "mb_threads_futex_wait t c m addr compare =
    (if read32 m addr \<noteq> compare then Some (Ret t c (serr EAGAIN)) else park_me t c (sok 0) addr)"

definition mb_threads_futex_wait_timeout ::
  "mb_threads \<Rightarrow> mb_context \<Rightarrow> gmem \<Rightarrow> u64 \<Rightarrow> u32 \<Rightarrow> bool \<Rightarrow> nat \<Rightarrow> u64 outcome option" where
  "mb_threads_futex_wait_timeout t c m addr compare has_deadline deadline =
    (if read32 m addr \<noteq> compare then Some (Ret t c (serr EAGAIN))
     else if spec t \<noteq> 3 \<or> \<not> has_deadline then park_me t c (sok 0) addr
     else if deadline \<le> vclock_ns t
     then (let t1 = mb_threads_advance t MB_V3_TICK_NS
           in if 2 \<le> kit_revision t1 then swap_to_next t1 c (serr ETIMEDOUT)
              else Some (Ret t1 c (serr ETIMEDOUT)))
     else
       let t1 = queue_push t addr (active_tid t);
           sq = (park_seq t1 + 1) mod 2 ^ 64;
           t2 = set_thread (t1\<lparr>park_seq := sq\<rparr>) (active_tid t1)
                  (\<lambda>g. g\<lparr>g_state := T_WAITING, g_deadline := deadline, g_seq := sq\<rparr>)
       in swap_to_next t2 c (sok 0))"

definition mb_threads_yield_value :: "mb_threads \<Rightarrow> mb_context \<Rightarrow> u64 \<Rightarrow> u64 outcome option" where
  "mb_threads_yield_value t c ret = swap_to_next t c ret"

function mb_threads_futex_requeue :: "mb_threads \<Rightarrow> u64 \<Rightarrow> u64 \<Rightarrow> nat \<Rightarrow> nat \<Rightarrow> mb_threads \<times> nat" where
  "mb_threads_futex_requeue t from' to wake requeue =
    (if wake = 0 \<and> requeue = 0 then (t, 0)
     else case unpark_one t from' of
       (t1, None) \<Rightarrow> (t1, 0)
     | (t1, Some (tid, again)) \<Rightarrow>
         (let t2 = (if 0 < wake then t1 else park_other t1 to tid);
              wake' = (if 0 < wake then wake - 1 else wake);
              requeue' = (if 0 < wake then requeue else requeue - 1)
          in if again then (case mb_threads_futex_requeue t2 from' to wake' requeue' of (t3, n) \<Rightarrow> (t3, Suc n))
             else (t2, 1)))"
  by pat_completeness auto
termination by (relation "measure (\<lambda>(t, f, to, w, r). w + r)") (auto split: if_splits)

declare mb_threads_futex_requeue.simps [simp del]

definition mb_threads_futex_wake :: "mb_threads \<Rightarrow> u64 \<Rightarrow> nat \<Rightarrow> mb_threads \<times> nat" where
  "mb_threads_futex_wake t addr count = mb_threads_futex_requeue t addr 0 count 0"

definition FUTEX_WAITERS :: u32 where "FUTEX_WAITERS = 0x80000000"

definition mb_threads_futex_lock_pi ::
  "mb_threads \<Rightarrow> mb_context \<Rightarrow> gmem \<Rightarrow> u64 \<Rightarrow> (u64 outcome \<times> gmem) option" where
  "mb_threads_futex_lock_pi t c m addr =
    (let atom = read32 m addr
     in if atom = 0 then Some (Ret t c (sok 0), write32 m addr (of_nat (active_tid t)))
        else map_option (\<lambda>r. (r, write32 m addr (atom OR FUTEX_WAITERS))) (park_me t c (sok 0) addr))"

definition mb_threads_futex_unlock_pi ::
  "mb_threads \<Rightarrow> mb_context \<Rightarrow> gmem \<Rightarrow> u64 \<Rightarrow> mb_threads \<times> mb_context \<times> u64 \<times> gmem" where
  "mb_threads_futex_unlock_pi t c m addr =
    (case unpark_one t addr of
       (t1, Some (tid, again)) \<Rightarrow>
         (let m' = write32 m addr (if again then of_nat tid OR FUTEX_WAITERS else of_nat tid)
          in case swap_to t1 c tid (sok 0) of (t2, c', v) \<Rightarrow> (t2, c', v, m'))
     | (t1, None) \<Rightarrow> (t1, c, sok 0, write32 m addr 0))"

definition mb_threads_set_tid_address :: "mb_threads \<Rightarrow> u64 \<Rightarrow> mb_threads \<times> nat" where
  "mb_threads_set_tid_address t addr =
    (set_thread t (active_tid t) (\<lambda>g. g\<lparr>g_tid_address := addr\<rparr>), g_tid (thread_of t (active_tid t)))"

definition mb_threads_has_thread :: "mb_threads \<Rightarrow> nat \<Rightarrow> bool" where
  "mb_threads_has_thread t tid \<longleftrightarrow> find_thread t tid \<noteq> None"

definition mb_threads_reset_active :: "mb_threads \<Rightarrow> mb_threads" where
  "mb_threads_reset_active t = t\<lparr>active_tid := 1\<rparr>"

definition mb_threads_yield :: "mb_threads \<Rightarrow> mb_context \<Rightarrow> u64 outcome option" where
  "mb_threads_yield t c = swap_to_next t c (sok 0)"

definition mb_threads_sched_yield :: "mb_threads \<Rightarrow> mb_context \<Rightarrow> u64 outcome option" where
  "mb_threads_sched_yield t c =
    (let others = (\<exists>g\<in>set (threads t). g_tid g \<noteq> active_tid t \<and> g_state g = T_RUNNABLE);
         timed = (\<exists>g\<in>set (threads t). g_tid g \<noteq> active_tid t \<and> g_state g = T_WAITING \<and> g_deadline g \<noteq> 0);
         t1 = (if spec t = 3 \<and> 2 \<le> kit_revision t \<and> \<not> others \<and> timed
               then mb_threads_advance t MB_V3_TICK_NS else t)
     in swap_to_next t1 c (sok 0))"

section \<open>The thread set of a state\<close>

fun tstate_num :: "tstate \<Rightarrow> u32" where
  "tstate_num T_RUNNABLE = 0"
| "tstate_num T_WAITING = 1"
| "tstate_num (T_OTHER w) = w"

definition num_tstate :: "u32 \<Rightarrow> tstate" where
  "num_tstate w = (if w = 0 then T_RUNNABLE else if w = 1 then T_WAITING else T_OTHER w)"

text \<open>The 72 bytes of a \<open>gthread\<close>.\<close>

definition gthread_bytes :: "gthread \<Rightarrow> bytes" where
  "gthread_bytes g =
    u32_bytes (of_nat (g_tid g)) @ u32_bytes (tstate_num (g_state g)) @ u64_bytes (g_rax g)
    @ u64_bytes (g_rsp g) @ u64_bytes (g_thread_area g) @ u64_bytes (g_tid_address g)
    @ u64_bytes (rg_start (g_stack g)) @ u64_bytes (rg_size (g_stack g))
    @ u64_bytes (rg_start (g_pending g)) @ u64_bytes (rg_size (g_pending g))"

definition take_gthread :: "bytes \<Rightarrow> (gthread \<times> bytes) option" where
  "take_gthread s =
    Option.bind (take_u32 s) (\<lambda>(tid, s). Option.bind (take_u32 s) (\<lambda>(st, s).
    Option.bind (take_u64 s) (\<lambda>(rax, s). Option.bind (take_u64 s) (\<lambda>(rsp, s).
    Option.bind (take_u64 s) (\<lambda>(area, s). Option.bind (take_u64 s) (\<lambda>(ta, s).
    Option.bind (take_u64 s) (\<lambda>(ss, s). Option.bind (take_u64 s) (\<lambda>(sz, s).
    Option.bind (take_u64 s) (\<lambda>(ps, s). Option.bind (take_u64 s) (\<lambda>(pz, s).
      Some (\<lparr>g_tid = unat tid, g_state = num_tstate st, g_rax = rax, g_rsp = rsp, g_thread_area = area,
             g_tid_address = ta, g_stack = \<lparr>rg_start = ss, rg_size = sz\<rparr>,
             g_pending = \<lparr>rg_start = ps, rg_size = pz\<rparr>, g_deadline = 0, g_seq = 0\<rparr>, s)))))))))))"

definition queue_chunks :: "futex_queue \<Rightarrow> bytes list" where
  "queue_chunks q =
    [u64_bytes (q_addr q), u32_bytes (of_nat (length (q_tids q)))]
    @ (if q_tids q \<noteq> [] then [concat (map (\<lambda>tid. u32_bytes (of_nat tid)) (q_tids q))] else [])"

text \<open>\<open>None\<close>: the answer \<open>-1\<close>. Otherwise the thread set after (the main thread's
  registers are stored first) and the chunks written.\<close>

definition mb_threads_save :: "mb_threads \<Rightarrow> mb_context \<Rightarrow> (mb_threads \<times> bytes list) option" where
  "mb_threads_save t c =
    (if active_tid t \<noteq> 1 then None
     else
       let t1 = set_thread t 1 (\<lambda>g. g\<lparr>g_thread_area := cx_thread_area c, g_rsp := cx_guest_rsp c\<rparr>);
           v3 = (spec t1 = 3)
       in Some (t1,
            [chars ''GuestFpuState1'', u16_bytes (cx_guest_fcw c), u32_bytes (cx_guest_mxcsr c)]
            @ (if v3 then [chars ''GuestThreadSe3'', u64_bytes (of_nat (vclock_ns t1))] else [])
            @ [chars ''GuestThreadSet'', u32_bytes (of_nat (next_tid t1)), u32_bytes (of_nat (active_tid t1)),
               u32_bytes (of_nat (length (threads t1)))]
            @ map gthread_bytes (threads t1)
            @ [u32_bytes (of_nat (length (futicies t1)))]
            @ concat (map queue_chunks (futicies t1))
            @ [chars ''GuestThreadSet'']
            @ (if v3 then map (\<lambda>g. u64_bytes (of_nat (g_deadline g))) (threads t1) else [])))"

fun load_threads :: "nat \<Rightarrow> mb_threads \<Rightarrow> bytes \<Rightarrow> (mb_threads \<times> bytes) option" where
  "load_threads 0 t s = Some (t, s)"
| "load_threads (Suc n) t s = Option.bind (take_gthread s) (\<lambda>(g, s). load_threads n (insert_thread t g) s)"

fun load_tids :: "nat \<Rightarrow> bytes \<Rightarrow> (nat list \<times> bytes) option" where
  "load_tids 0 s = Some ([], s)"
| "load_tids (Suc n) s =
    Option.bind (take_u32 s) (\<lambda>(tid, s). map_option (\<lambda>(tids, s). (unat tid # tids, s)) (load_tids n s))"

text \<open>\<open>get_or_make_queue\<close>, then the entries pushed one by one.\<close>

definition add_queue :: "mb_threads \<Rightarrow> u64 \<Rightarrow> nat list \<Rightarrow> mb_threads" where
  "add_queue t addr tids =
    (case find_queue t addr of
       Some i \<Rightarrow> t\<lparr>futicies := (futicies t)[i := (futicies t ! i)\<lparr>q_tids := q_tids (futicies t ! i) @ tids\<rparr>]\<rparr>
     | None \<Rightarrow> t\<lparr>futicies := futicies t @ [\<lparr>q_addr = addr, q_tids = tids\<rparr>]\<rparr>)"

fun load_queues :: "nat \<Rightarrow> mb_threads \<Rightarrow> bytes \<Rightarrow> (mb_threads \<times> bytes) option" where
  "load_queues 0 t s = Some (t, s)"
| "load_queues (Suc n) t s =
    Option.bind (take_u64 s) (\<lambda>(addr, s). Option.bind (take_u32 s) (\<lambda>(qn, s).
    Option.bind (load_tids (unat qn) s) (\<lambda>(tids, s). load_queues n (add_queue t addr tids) s)))"

fun load_deadlines :: "gthread list \<Rightarrow> bytes \<Rightarrow> (gthread list \<times> bytes) option" where
  "load_deadlines [] s = Some ([], s)"
| "load_deadlines (g # gs) s =
    Option.bind (take_u64 s) (\<lambda>(d, s).
      map_option (\<lambda>(gs, s). (g\<lparr>g_deadline := unat d\<rparr> # gs, s)) (load_deadlines gs s))"

text \<open>The words before the thread set: the floating-point control words if the state
  has them, then, in v3, the clock.\<close>

definition load_head :: "mb_threads \<Rightarrow> bytes \<Rightarrow> ((u16 \<times> u32 \<times> u64) \<times> bytes) option" where
  "load_head t s =
    Option.bind (take_bytes 14 s) (\<lambda>(magic, s).
    Option.bind (if magic = chars ''GuestFpuState1''
                 then Option.bind (take_u16 s) (\<lambda>(fcw, s). Option.bind (take_u32 s) (\<lambda>(mxcsr, s).
                      map_option (\<lambda>(magic, s). (fcw, mxcsr, magic, s)) (take_bytes 14 s)))
                 else Some (0x037F, 0x1F80, magic, s)) (\<lambda>(fcw, mxcsr, magic, s).
      if spec t = 3
      then (if magic \<noteq> chars ''GuestThreadSe3'' then None
            else Option.bind (take_u64 s) (\<lambda>(vclock, s).
                 map_option (\<lambda>s. ((fcw, mxcsr, vclock), s)) (take_magic (chars ''GuestThreadSet'') s)))
      else if magic \<noteq> chars ''GuestThreadSet'' then None else Some ((fcw, mxcsr, 0), s)))"

text \<open>\<open>None\<close>: the answer \<open>-1\<close>, the thread set then being partly replaced (the caller
  declares the machine dead). Otherwise the set, the context and the rest of the
  stream.\<close>

definition mb_threads_load ::
  "mb_threads \<Rightarrow> mb_context \<Rightarrow> bytes \<Rightarrow> ((mb_threads \<times> mb_context) \<times> bytes) option" where
  "mb_threads_load t c s =
    (if active_tid t \<noteq> 1 then None
     else Option.bind (load_head t s) (\<lambda>((fcw, mxcsr, vclock), s).
       Option.bind (take_u32 s) (\<lambda>(nt, s). Option.bind (take_u32 s) (\<lambda>(at, s).
       Option.bind (take_u32 s) (\<lambda>(n, s).
       Option.bind (load_threads (unat n) (t\<lparr>next_tid := unat nt, active_tid := unat at, threads := []\<rparr>) s) (\<lambda>(t1, s).
       Option.bind (take_u32 s) (\<lambda>(nf, s).
       Option.bind (load_queues (unat nf) (t1\<lparr>futicies := []\<rparr>) s) (\<lambda>(t2, s).
       Option.bind (take_magic (chars ''GuestThreadSet'') s) (\<lambda>s.
         if find_thread t2 1 = None then None
         else
           let g = thread_of t2 1;
               c' = c\<lparr>cx_thread_area := g_thread_area g, cx_guest_rsp := g_rsp g,
                      cx_guest_fcw := fcw, cx_guest_mxcsr := mxcsr\<rparr>
           in if spec t2 = 3
              then map_option (\<lambda>(gs, s). ((t2\<lparr>vclock_ns := unat vclock, threads := gs\<rparr>, c'), s))
                     (load_deadlines (threads t2) s)
              else Some ((t2, c'), s))))))))))"

end
