(* ===== verification/Mb_Threads_Inv.thy ===== *)
theory Mb_Threads_Inv
  imports Mb_Threads
begin

text \<open>
  The well-formedness invariant of the thread set and what each primitive of
  \<^verbatim>\<open>threading.c\<close> does to it: the table is strictly sorted by id, the queues hold
  exactly the waiting threads, and only a waiting thread has a deadline.
\<close>

named_theorems thr \<open>views of the thread set after an operation\<close>

section \<open>Views and the invariant\<close>

definition tids :: "mb_threads \<Rightarrow> nat set" where
  "tids t = g_tid ` set (threads t)"

definition waiters :: "mb_threads \<Rightarrow> nat set" where
  "waiters t = {g_tid g |g. g \<in> set (threads t) \<and> g_state g = T_WAITING}"

text \<open>The queue on an address; an address without a queue has the empty one.\<close>

definition queue_of :: "mb_threads \<Rightarrow> u64 \<Rightarrow> nat list" where
  "queue_of t addr = (case find_queue t addr of None \<Rightarrow> [] | Some i \<Rightarrow> q_tids (futicies t ! i))"

definition table_wf :: "mb_threads \<Rightarrow> bool" where
  "table_wf t \<longleftrightarrow>
    sorted_wrt (<) (map g_tid (threads t)) \<and> 1 \<in> tids t \<and> active_tid t \<in> tids t
    \<and> (\<forall>g\<in>set (threads t). g_tid g < next_tid t \<and> g_state g \<in> {T_RUNNABLE, T_WAITING}
         \<and> (g_deadline g \<noteq> 0 \<longrightarrow> g_state g = T_WAITING \<and> spec t = 3))"

text \<open>The waiting threads \<open>W\<close> are those of the queues \<open>f\<close>, each in one place, and those of
  \<open>X\<close>, which wait on nothing (the thread that is being taken down in an exit).\<close>

definition queue_map_ok :: "nat set \<Rightarrow> nat set \<Rightarrow> (u64 \<Rightarrow> nat list) \<Rightarrow> bool" where
  "queue_map_ok X W f \<longleftrightarrow>
    (\<forall>a. distinct (f a)) \<and> (\<forall>a b. a \<noteq> b \<longrightarrow> set (f a) \<inter> set (f b) = {})
    \<and> (\<forall>a. X \<inter> set (f a) = {}) \<and> W = (\<Union>a. set (f a)) \<union> X"

definition queue_list_ok :: "futex_queue list \<Rightarrow> bool" where
  "queue_list_ok qs \<longleftrightarrow> distinct (map q_addr qs) \<and> (\<forall>q\<in>set qs. q_tids q \<noteq> [])"

definition queues_wf :: "nat set \<Rightarrow> mb_threads \<Rightarrow> bool" where
  "queues_wf X t \<longleftrightarrow> queue_list_ok (futicies t) \<and> queue_map_ok X (waiters t) (queue_of t)"

definition threads_wf :: "mb_threads \<Rightarrow> bool" where
  "threads_wf t \<longleftrightarrow> table_wf t \<and> queues_wf {} t \<and> active_tid t \<notin> waiters t"

section \<open>The table as a map\<close>

lemma table_wf_distinct: "table_wf t \<Longrightarrow> distinct (map g_tid (threads t))"
  by (simp add: table_wf_def strict_sorted_iff)

lemma find_thread_present:
  assumes "tid \<in> tids t"
  obtains i where "find_thread t tid = Some i" "i < length (threads t)" "g_tid (threads t ! i) = tid"
  using assms unfolding find_thread_def tids_def
  by (metis (mono_tags, lifting) find_index_None_iff find_index_SomeD image_iff not_None_eq)

lemma find_thread_None: "find_thread t tid = None \<longleftrightarrow> tid \<notin> tids t"
  by (auto simp: find_thread_def tids_def find_index_None_iff)

lemma thread_of_in:
  assumes "tid \<in> tids t"
  shows "thread_of t tid \<in> set (threads t)" "g_tid (thread_of t tid) = tid"
  by (rule find_thread_present [OF assms], simp add: thread_of_def)+

lemma thread_of_unique:
  "distinct (map g_tid (threads t)) \<Longrightarrow> g \<in> set (threads t) \<Longrightarrow> thread_of t (g_tid g) = g"
  using thread_of_in [of "g_tid g" t] by (auto simp: tids_def dest: map_of_eq_Some_iff inj_onD simp: distinct_map)

lemma nth_update_as_map:
  assumes "distinct (map k xs)" "i < length xs"
  shows "xs[i := v] = map (\<lambda>x. if k x = k (xs ! i) then v else x) xs"
  using assms by (intro nth_equalityI) (auto simp: nth_list_update nth_eq_iff_index_eq distinct_map inj_on_eq_iff)

lemma threads_set_thread:
  assumes "distinct (map g_tid (threads t))" "tid \<in> tids t"
  shows "threads (set_thread t tid f) = map (\<lambda>g. if g_tid g = tid then f g else g) (threads t)"
proof -
  obtain i where i: "find_thread t tid = Some i" "i < length (threads t)" "g_tid (threads t ! i) = tid"
    using assms(2) by (rule find_thread_present)
  have same: "g = threads t ! i" if "g \<in> set (threads t)" "g_tid g = tid" for g
    using that i assms(1) by (metis thread_of_def thread_of_unique option.sel)
  have "threads (set_thread t tid f) = map (\<lambda>g. if g_tid g = tid then f (threads t ! i) else g) (threads t)"
    using nth_update_as_map [OF assms(1) i(2), of "f (threads t ! i)"] i by (simp add: set_thread_def thread_of_def)
  also have "\<dots> = map (\<lambda>g. if g_tid g = tid then f g else g) (threads t)"
    using same by (intro map_cong) auto
  finally show ?thesis .
qed

lemma set_thread_frame [simp]:
  "futicies (set_thread t tid f) = futicies t" "active_tid (set_thread t tid f) = active_tid t"
  "next_tid (set_thread t tid f) = next_tid t" "spec (set_thread t tid f) = spec t"
  "vclock_ns (set_thread t tid f) = vclock_ns t" "kit_revision (set_thread t tid f) = kit_revision t"
  "park_seq (set_thread t tid f) = park_seq t"
  by (simp_all add: set_thread_def)

text \<open>A map over the table that keeps the ids.\<close>

lemma table_wf_map:
  assumes "table_wf t" "threads t' = map h (threads t)" "\<And>g. g_tid (h g) = g_tid g"
    and "active_tid t' \<in> tids t" "next_tid t' = next_tid t" "spec t' = spec t"
    and "\<And>g. g \<in> set (threads t) \<Longrightarrow> g_state (h g) \<in> {T_RUNNABLE, T_WAITING}
       \<and> (g_deadline (h g) \<noteq> 0 \<longrightarrow> g_state (h g) = T_WAITING \<and> spec t = 3)"
  shows "table_wf t'" "tids t' = tids t"
proof -
  have ids: "map g_tid (threads t') = map g_tid (threads t)" using assms(2,3) by simp
  then show T: "tids t' = tids t" unfolding tids_def by (metis set_map)
  have "sorted_wrt (<) (map g_tid (threads t'))" using ids assms(1) by (simp add: table_wf_def)
  moreover have "\<forall>g\<in>set (threads t'). g_tid g < next_tid t' \<and> g_state g \<in> {T_RUNNABLE, T_WAITING}
         \<and> (g_deadline g \<noteq> 0 \<longrightarrow> g_state g = T_WAITING \<and> spec t' = 3)"
    using assms(1,7) by (auto simp: assms(2,3,5,6) table_wf_def)
  ultimately show "table_wf t'" using T assms(1,4) by (simp add: table_wf_def)
qed

lemma waiters_map:
  assumes "threads t' = map h (threads t)" "\<And>g. g_tid (h g) = g_tid g"
  shows "waiters t' = {g_tid g |g. g \<in> set (threads t) \<and> g_state (h g) = T_WAITING}"
proof -
  have "waiters t' = g_tid ` {g \<in> h ` set (threads t). g_state g = T_WAITING}" using assms(1) by (auto simp: waiters_def)
  also have "\<dots> = {g_tid g |g. g \<in> set (threads t) \<and> g_state (h g) = T_WAITING}"
    using assms(2) by (auto simp: image_iff) (metis assms(2))
  finally show ?thesis .
qed

lemma waiters_thread_of:
  "distinct (map g_tid (threads t)) \<Longrightarrow> tid \<in> tids t \<Longrightarrow> tid \<in> waiters t \<longleftrightarrow> g_state (thread_of t tid) = T_WAITING"
proof
  assume d: "distinct (map g_tid (threads t))" and "tid \<in> waiters t"
  then obtain g where "g \<in> set (threads t)" "g_state g = T_WAITING" "tid = g_tid g" by (auto simp: waiters_def)
  then show "g_state (thread_of t tid) = T_WAITING" using thread_of_unique [OF d] by simp
next
  assume "tid \<in> tids t" "g_state (thread_of t tid) = T_WAITING"
  then show "tid \<in> waiters t" using thread_of_in [of tid t] unfolding waiters_def by force
qed

lemma is_waiting_iff:
  assumes "distinct (map g_tid (threads t))"
  shows "is_waiting t tid \<longleftrightarrow> tid \<in> waiters t"
proof (cases "tid \<in> tids t")
  case True
  then obtain i where "find_thread t tid = Some i" by (rule find_thread_present)
  then show ?thesis using waiters_thread_of [OF assms True] by (simp add: is_waiting_def thread_of_def)
next
  case False
  then have "find_thread t tid = None" by (simp add: find_thread_None)
  then show ?thesis using False by (auto simp: is_waiting_def waiters_def tids_def)
qed

section \<open>The queues as a map\<close>

fun qlook :: "futex_queue list \<Rightarrow> u64 \<Rightarrow> nat list" where
  "qlook [] a = []"
| "qlook (q # qs) a = (if q_addr q = a then q_tids q else qlook qs a)"

lemma queue_of_qlook: "queue_of t a = qlook (futicies t) a"
proof -
  have "(case find_index (\<lambda>q. q_addr q = a) qs of None \<Rightarrow> [] | Some i \<Rightarrow> q_tids (qs ! i)) = qlook qs a" for qs
    by (induction qs) (auto split: option.splits)
  then show ?thesis by (simp add: queue_of_def find_queue_def)
qed

lemma qlook_absent: "a \<notin> q_addr ` set qs \<Longrightarrow> qlook qs a = []"
  by (induction qs) auto

lemma qlook_append: "qlook (qs @ rs) a = (if a \<in> q_addr ` set qs then qlook qs a else qlook rs a)"
  by (induction qs) auto

lemma qlook_update:
  assumes "i < length qs" "q_addr v = q_addr (qs ! i)" "distinct (map q_addr qs)"
  shows "qlook (qs[i := v]) b = (if b = q_addr v then q_tids v else qlook qs b)"
  using assms
proof (induction qs arbitrary: i)
  case (Cons q qs)
  show ?case
  proof (cases i)
    case (Suc j)
    with Cons.prems have "q_addr v \<in> q_addr ` set qs" by simp
    then have "q_addr v \<noteq> q_addr q" using Cons.prems(3) by auto
    with Suc Cons.prems Cons.IH [of j] show ?thesis by auto
  qed (use Cons.prems in auto)
qed simp

lemma qlook_remove:
  "distinct (map q_addr qs) \<Longrightarrow>
   qlook (remove_first (\<lambda>q. q_addr q = a) qs) b = (if b = a then [] else qlook qs b)"
  by (induction qs) (auto simp: qlook_absent)

lemma qlook_filter:
  "distinct (map q_addr qs) \<Longrightarrow>
   qlook (filter (\<lambda>q. q_tids q \<noteq> []) (map (\<lambda>q. q\<lparr>q_tids := filter P (q_tids q)\<rparr>) qs)) b = filter P (qlook qs b)"
proof (induction qs)
  case (Cons q qs)
  show ?case
  proof (cases "q_addr q = b")
    case True
    with Cons.prems have "qlook qs b = []" by (simp add: qlook_absent)
    then show ?thesis using True Cons.IH Cons.prems by auto
  next
    case False
    then show ?thesis using Cons.IH Cons.prems by auto
  qed
qed simp

lemma remove_first_set: "set (remove_first P xs) \<subseteq> set xs"
  by (induction xs) auto

lemma remove_first_distinct: "distinct (map f xs) \<Longrightarrow> distinct (map f (remove_first P xs))"
proof (induction xs)
  case (Cons x xs)
  then show ?case using remove_first_set [of P xs] by auto
qed simp

lemma find_queue_SomeD:
  "find_queue t a = Some i \<Longrightarrow> i < length (futicies t) \<and> q_addr (futicies t ! i) = a"
  unfolding find_queue_def by (blast dest: find_index_SomeD)

lemma find_queue_None: "find_queue t a = None \<longleftrightarrow> a \<notin> q_addr ` set (futicies t)"
  by (auto simp: find_queue_def find_index_None_iff)

lemma queue_of_empty:
  "queue_list_ok (futicies t) \<Longrightarrow> queue_of t a = [] \<longleftrightarrow> find_queue t a = None"
  by (cases "find_queue t a")
     (auto simp: queue_of_def queue_list_ok_def dest!: find_queue_SomeD)

lemma queue_push_frame [simp]:
  "threads (queue_push t a tid) = threads t" "active_tid (queue_push t a tid) = active_tid t"
  "next_tid (queue_push t a tid) = next_tid t" "spec (queue_push t a tid) = spec t"
  "vclock_ns (queue_push t a tid) = vclock_ns t" "kit_revision (queue_push t a tid) = kit_revision t"
  "park_seq (queue_push t a tid) = park_seq t"
  by (simp_all add: queue_push_def split: option.split)

lemma map_addr_update:
  "q_addr v = q_addr (qs ! i) \<Longrightarrow> i < length qs \<Longrightarrow> map q_addr (qs[i := v]) = map q_addr qs"
  by (metis list_update_id map_update)

lemma queue_push_ok:
  assumes "queue_list_ok (futicies t)"
  shows "queue_list_ok (futicies (queue_push t a tid))"
    "queue_of (queue_push t a tid) = (queue_of t)(a := queue_of t a @ [tid])"
proof -
  show "queue_list_ok (futicies (queue_push t a tid))"
  proof (cases "find_queue t a")
    case None
    then have "a \<notin> q_addr ` set (futicies t)" by (simp add: find_queue_None)
    then show ?thesis using assms None by (auto simp: queue_push_def queue_list_ok_def)
  next
    case (Some i)
    with assms find_queue_SomeD [OF Some] show ?thesis
      by (auto simp: queue_push_def queue_list_ok_def map_addr_update dest!: set_update_subset_insert [THEN subsetD])
  qed
  show "queue_of (queue_push t a tid) = (queue_of t)(a := queue_of t a @ [tid])"
  proof (cases "find_queue t a")
    case None
    then have "a \<notin> q_addr ` set (futicies t)" by (simp add: find_queue_None)
    then show ?thesis using None by (auto simp: queue_push_def fun_eq_iff queue_of_qlook qlook_append qlook_absent)
  next
    case (Some i)
    with assms find_queue_SomeD [OF Some] show ?thesis
      by (simp add: queue_push_def fun_eq_iff queue_of_qlook qlook_update queue_list_ok_def)
         (simp add: queue_of_qlook [symmetric] queue_of_def)
  qed
qed

lemma remove_queue_ok:
  assumes "distinct (map q_addr (futicies t))" "\<forall>q\<in>set (futicies t). q_addr q \<noteq> a \<longrightarrow> q_tids q \<noteq> []"
  shows "queue_list_ok (futicies (remove_queue t a))"
    "queue_of (remove_queue t a) = (queue_of t)(a := [])"
proof -
  have "q_addr q \<noteq> a" if "q \<in> set (remove_first (\<lambda>q. q_addr q = a) qs)" "distinct (map q_addr qs)" for q qs
    using that by (induction qs) (auto split: if_splits simp: image_iff)
  then show "queue_list_ok (futicies (remove_queue t a))"
    using assms remove_first_set [of _ "futicies t"] by (fastforce simp: queue_list_ok_def remove_queue_def remove_first_distinct)
  show "queue_of (remove_queue t a) = (queue_of t)(a := [])"
    using assms by (auto simp: fun_eq_iff queue_of_qlook remove_queue_def qlook_remove)
qed

lemma unqueue_ok:
  assumes "distinct (map q_addr (futicies t))"
  shows "queue_list_ok (futicies (unqueue t tid))"
    "queue_of (unqueue t tid) = (\<lambda>a. filter (\<lambda>x. x \<noteq> tid) (queue_of t a))"
proof -
  have "distinct (map q_addr (filter P (map (\<lambda>q. q\<lparr>q_tids := F q\<rparr>) qs)))" if "distinct (map q_addr qs)" for P F qs
    using that by (induction qs) auto
  then show "queue_list_ok (futicies (unqueue t tid))" using assms by (simp add: queue_list_ok_def unqueue_def)
  show "queue_of (unqueue t tid) = (\<lambda>a. filter (\<lambda>x. x \<noteq> tid) (queue_of t a))"
    using assms by (simp add: fun_eq_iff queue_of_qlook unqueue_def qlook_filter)
qed

section \<open>Moves on the queue map\<close>

lemma queue_map_push:
  "queue_map_ok X W f \<Longrightarrow> tid \<notin> W \<Longrightarrow> queue_map_ok X (insert tid W) (f(a := f a @ [tid]))"
  unfolding queue_map_ok_def by (auto split: if_splits)

lemma queue_map_pop:
  assumes ok: "queue_map_ok X W f" and f: "f a = tid # rest"
  shows "queue_map_ok X (W - {tid}) (f(a := rest))" "tid \<in> W"
proof -
  have d: "distinct (f b)" and j: "b \<noteq> c \<Longrightarrow> set (f b) \<inter> set (f c) = {}" and x: "X \<inter> set (f b) = {}"
    and W: "W = (\<Union>b. set (f b)) \<union> X" for b c
    using ok unfolding queue_map_ok_def by blast+
  have A: "set ((f(a := rest)) b) = set (f b) - {tid}" for b
  proof (cases "b = a")
    case False
    then show ?thesis using j [OF False] f by auto
  qed (use d [of a] f in auto)
  have "tid \<notin> X" using x [of a] f by auto
  then have "W - {tid} = (\<Union>b. set ((f(a := rest)) b)) \<union> X" unfolding W A by blast
  moreover have "distinct ((f(a := rest)) b)" for b using d [of a] d [of b] f by simp
  moreover have "set ((f(a := rest)) b) \<inter> set ((f(a := rest)) c) = {}" if "b \<noteq> c" for b c
    unfolding A using j [OF that] by blast
  moreover have "X \<inter> set ((f(a := rest)) b) = {}" for b unfolding A using x [of b] by blast
  ultimately show "queue_map_ok X (W - {tid}) (f(a := rest))" unfolding queue_map_ok_def by blast
  show "tid \<in> W" unfolding W using f by (metis UN_I UnI1 UNIV_I list.set_intros(1))
qed

lemma queue_map_drop:
  "queue_map_ok X W f \<Longrightarrow> D \<inter> X = {} \<Longrightarrow> queue_map_ok X (W - D) (\<lambda>a. filter (\<lambda>x. x \<notin> D) (f a))"
  unfolding queue_map_ok_def by (intro conjI allI impI) (auto, blast)

end
