(* ===== verification/Mb_Threads_Ops.thy ===== *)
theory Mb_Threads_Ops
  imports Mb_Threads_Inv
begin

text \<open>
  What the operations of the thread set do, seen through the table and the queue
  map: expiry, wake-up, parking and the scheduler, and that each keeps the
  invariant.
\<close>

section \<open>Expiry\<close>

definition expired :: "gthread \<Rightarrow> gthread" where
  "expired g = (make_runnable g)\<lparr>g_rax := serr ETIMEDOUT\<rparr>"

definition due_tids :: "mb_threads \<Rightarrow> nat set" where
  "due_tids t = {g_tid g |g. g \<in> set (threads t) \<and> is_due (vclock_ns t) g}"

lemma expired_simps [simp]:
  "g_tid (expired g) = g_tid g" "g_state (expired g) = T_RUNNABLE" "g_deadline (expired g) = 0"
  "\<not> is_due now (expired g)" "g_rsp (expired g) = g_rsp g" "g_thread_area (expired g) = g_thread_area g"
  by (simp_all add: expired_def make_runnable_def is_due_def)

lemma make_runnable_simps [simp]:
  "g_tid (make_runnable g) = g_tid g" "g_state (make_runnable g) = T_RUNNABLE" "g_deadline (make_runnable g) = 0"
  by (simp_all add: make_runnable_def)

lemma expire_at_eq:
  assumes "distinct (map g_tid (threads t))" "i < length (threads t)"
  shows "expire_at t i = t\<lparr>threads := map (\<lambda>g. if g_tid g = g_tid (threads t ! i) then expired g else g) (threads t),
      futicies := futicies (unqueue t (g_tid (threads t ! i)))\<rparr>"
proof -
  have "g = threads t ! i" if "g \<in> set (threads t)" "g_tid g = g_tid (threads t ! i)" for g
    using that assms by (metis in_set_conv_nth thread_of_unique nth_mem)
  then have "map (\<lambda>g. if g_tid g = g_tid (threads t ! i) then expired (threads t ! i) else g) (threads t)
      = map (\<lambda>g. if g_tid g = g_tid (threads t ! i) then expired g else g) (threads t)"
    by (intro map_cong) auto
  then show ?thesis
    using nth_update_as_map [OF assms, of "expired (threads t ! i)"] by (simp add: expire_at_def expired_def unqueue_def Let_def)
qed

lemma expire_due_eq:
  assumes "distinct (map g_tid (threads t))" "queue_list_ok (futicies t)"
  shows "expire_due t = t\<lparr>threads := map (\<lambda>g. if is_due (vclock_ns t) g then expired g else g) (threads t),
      futicies := futicies (expire_due t)\<rparr>
    \<and> queue_list_ok (futicies (expire_due t))
    \<and> queue_of (expire_due t) = (\<lambda>a. filter (\<lambda>x. x \<notin> due_tids t) (queue_of t a))"
  using assms
proof (induction t rule: expire_due.induct)
  case (1 t)
  show ?case
  proof (cases "pick_due t")
    case None
    then have no: "\<not> is_due (vclock_ns t) g" if "g \<in> set (threads t)" for g using that by (simp add: pick_due_None)
    then have "map (\<lambda>g. if is_due (vclock_ns t) g then expired g else g) (threads t) = threads t" "due_tids t = {}"
      by (auto intro: map_idI simp: due_tids_def)
    then show ?thesis using None "1.prems" by (simp add: expire_due.simps [of t])
  next
    case (Some i)
    let ?g = "threads t ! i" and ?t = "expire_at t i"
    have i: "i < length (threads t)" "is_due (vclock_ns t) ?g" using pick_due_SomeD [OF Some] by auto
    note eq = expire_at_eq [OF "1.prems"(1) i(1)]
    have same: "g = ?g" if "g \<in> set (threads t)" "g_tid g = g_tid ?g" for g
      using that "1.prems"(1) i(1) by (metis thread_of_unique nth_mem)
    have d: "distinct (map g_tid (threads ?t))"
      unfolding eq using "1.prems"(1) by (simp add: comp_def if_distrib [of g_tid] cong: if_cong)
    have q: "queue_list_ok (futicies ?t)" "queue_of ?t = (\<lambda>a. filter (\<lambda>x. x \<noteq> g_tid ?g) (queue_of t a))"
      using "1.prems"(2) unqueue_ok [of t "g_tid ?g"] by (simp_all add: eq queue_list_ok_def queue_of_qlook fun_eq_iff)
    have thr: "map (\<lambda>g. if is_due (vclock_ns ?t) g then expired g else g) (threads ?t)
        = map (\<lambda>g. if is_due (vclock_ns t) g then expired g else g) (threads t)"
      unfolding eq using same i(2) by (auto intro!: map_cong)
    have due: "due_tids t = insert (g_tid ?g) (due_tids ?t)"
      unfolding due_tids_def eq using same i by (auto split: if_splits)
    have step: "expire_due t = expire_due ?t" using Some by (simp add: expire_due.simps [of t])
    from "1.IH" [OF Some d q(1)] show ?thesis
      unfolding step thr q(2) due by (simp add: eq)
  qed
qed

lemma expire_due_frame [simp]:
  assumes "distinct (map g_tid (threads t))" "queue_list_ok (futicies t)"
  shows "active_tid (expire_due t) = active_tid t" "next_tid (expire_due t) = next_tid t"
    "spec (expire_due t) = spec t" "vclock_ns (expire_due t) = vclock_ns t"
    "kit_revision (expire_due t) = kit_revision t" "park_seq (expire_due t) = park_seq t"
  by (subst expire_due_eq [OF assms, THEN conjunct1], simp)+

lemma threads_expire_due:
  assumes "distinct (map g_tid (threads t))" "queue_list_ok (futicies t)"
  shows "threads (expire_due t) = map (\<lambda>g. if is_due (vclock_ns t) g then expired g else g) (threads t)"
  by (subst expire_due_eq [OF assms, THEN conjunct1]) simp

lemma table_wf_thread:
  "table_wf t \<Longrightarrow> g \<in> set (threads t) \<Longrightarrow> g_state g \<in> {T_RUNNABLE, T_WAITING}
     \<and> (g_deadline g \<noteq> 0 \<longrightarrow> g_state g = T_WAITING \<and> spec t = 3)"
  by (simp add: table_wf_def)

text \<open>The invariant with the threads of \<open>X\<close> off the queues.\<close>

definition thr_inv :: "nat set \<Rightarrow> mb_threads \<Rightarrow> bool" where
  "thr_inv X t \<longleftrightarrow> table_wf t \<and> queues_wf X t \<and> (\<forall>g\<in>set (threads t). g_tid g \<in> X \<longrightarrow> g_deadline g = 0)"

lemma thr_invD:
  assumes "thr_inv X t"
  shows "table_wf t" "distinct (map g_tid (threads t))" "queue_list_ok (futicies t)"
    "queue_map_ok X (waiters t) (queue_of t)" "active_tid t \<in> tids t" "1 \<in> tids t"
  using assms by (simp_all add: thr_inv_def queues_wf_def table_wf_distinct) (simp_all add: table_wf_def)

lemma threads_wf_alt: "threads_wf t \<longleftrightarrow> thr_inv {} t \<and> active_tid t \<notin> waiters t"
  by (auto simp: threads_wf_def thr_inv_def)

lemma ids_diff:
  assumes "distinct (map g_tid gs)"
  shows "{g_tid g |g. g \<in> set gs \<and> P g} - {g_tid g |g. g \<in> set gs \<and> Q g}
       = {g_tid g |g. g \<in> set gs \<and> P g \<and> \<not> Q g}"
  using assms by (auto simp: distinct_map dest: inj_onD)

lemma waiters_sub: "waiters t \<subseteq> tids t"
  by (auto simp: waiters_def tids_def)

lemma thr_inv_expire_due:
  assumes "thr_inv X t"
  shows "thr_inv X (expire_due t)" "waiters (expire_due t) = waiters t - due_tids t" "tids (expire_due t) = tids t"
proof -
  note D = thr_invD [OF assms]
  let ?h = "\<lambda>g. if is_due (vclock_ns t) g then expired g else g"
  have thr: "threads (expire_due t) = map ?h (threads t)" by (rule threads_expire_due [OF D(2,3)])
  have ok: "g_state (?h g) \<in> {T_RUNNABLE, T_WAITING}
      \<and> (g_deadline (?h g) \<noteq> 0 \<longrightarrow> g_state (?h g) = T_WAITING \<and> spec t = 3)" if "g \<in> set (threads t)" for g
    using table_wf_thread [OF D(1) that] by simp
  have h: "g_tid (?h g) = g_tid g" for g by simp
  have T: "table_wf (expire_due t)" "tids (expire_due t) = tids t"
    using table_wf_map [OF D(1) thr h _ _ _ ok] D by simp_all
  show W: "waiters (expire_due t) = waiters t - due_tids t"
  proof -
    have "waiters (expire_due t) = {g_tid g |g. g \<in> set (threads t) \<and> g_state (?h g) = T_WAITING}"
      by (rule waiters_map [OF thr]) simp
    also have "\<dots> = {g_tid g |g. g \<in> set (threads t) \<and> g_state g = T_WAITING \<and> \<not> is_due (vclock_ns t) g}"
      by (rule Collect_cong) (auto split: if_splits)
    finally show ?thesis by (simp only: waiters_def due_tids_def ids_diff [OF D(2)])
  qed
  have "due_tids t \<inter> X = {}"
    using assms by (auto simp: thr_inv_def due_tids_def is_due_def)
  then have "queues_wf X (expire_due t)"
    using expire_due_eq [OF D(2,3)] queue_map_drop [OF D(4)] by (simp add: queues_wf_def W)
  then show "thr_inv X (expire_due t)" using T(1) assms by (auto simp: thr_inv_def thr)
  show "tids (expire_due t) = tids t" by (rule T(2))
qed

section \<open>The scheduler\<close>

lemma thr_inv_regs:
  assumes I: "thr_inv X t" and thr: "threads t' = map h (threads t)" and fut: "futicies t' = futicies t"
    and h: "\<And>g. g_tid (h g) = g_tid g \<and> g_state (h g) = g_state g \<and> g_deadline (h g) = g_deadline g"
    and fr: "active_tid t' \<in> tids t" "next_tid t' = next_tid t" "spec t' = spec t"
  shows "thr_inv X t'" "waiters t' = waiters t" "tids t' = tids t"
proof -
  note D = thr_invD [OF I]
  have T: "table_wf t'" "tids t' = tids t"
    by (rule table_wf_map [OF D(1) thr _ fr]; use table_wf_thread [OF D(1)] h in simp)+
  show W: "waiters t' = waiters t" using waiters_map [OF thr] h by (simp add: waiters_def)
  have "queue_of t' = queue_of t" by (simp add: fun_eq_iff queue_of_qlook fut)
  then have "queues_wf X t'" using D by (simp add: queues_wf_def W fut)
  then show "thr_inv X t'" using T I h by (auto simp: thr_inv_def thr)
  show "tids t' = tids t" by (rule T(2))
qed

lemma thr_inv_store_regs:
  assumes "thr_inv X t"
  shows "thr_inv X (store_regs t c v)" "waiters (store_regs t c v) = waiters t" "tids (store_regs t c v) = tids t"
  using thr_inv_regs [OF assms threads_set_thread [OF thr_invD(2,5) [OF assms]]] assms thr_invD(5) [OF assms]
  unfolding store_regs_def by simp_all

lemma store_regs_frame [simp]:
  "active_tid (store_regs t c v) = active_tid t" "spec (store_regs t c v) = spec t"
  "vclock_ns (store_regs t c v) = vclock_ns t" "next_tid (store_regs t c v) = next_tid t"
  "kit_revision (store_regs t c v) = kit_revision t" "queue_of (store_regs t c v) = queue_of t"
  "park_seq (store_regs t c v) = park_seq t"
  by (simp_all add: store_regs_def fun_eq_iff queue_of_qlook)

definition runnable :: "mb_threads \<Rightarrow> nat set" where
  "runnable t = tids t - waiters t"

lemma runnable_iff:
  assumes "table_wf t"
  shows "runnable t = {g_tid g |g. g \<in> set (threads t) \<and> g_state g = T_RUNNABLE}"
proof -
  have "runnable t = {g_tid g |g. g \<in> set (threads t) \<and> True \<and> g_state g \<noteq> T_WAITING}"
    unfolding runnable_def waiters_def ids_diff [OF table_wf_distinct [OF assms], symmetric] by (auto simp: tids_def)
  also have "\<dots> = {g_tid g |g. g \<in> set (threads t) \<and> g_state g = T_RUNNABLE}"
    using table_wf_thread [OF assms] by (intro Collect_cong) auto
  finally show ?thesis .
qed

lemma find_sorted_Min:
  assumes "sorted_wrt (<) (map g_tid gs)"
  shows "map_option g_tid (find P gs)
       = (let S = {g_tid g |g. g \<in> set gs \<and> P g} in if S = {} then None else Some (Min S))"
  using assms
proof (induction gs)
  case (Cons g gs)
  let ?S = "{g_tid x |x. x \<in> set (g # gs) \<and> P x}"
  show ?case
  proof (cases "P g")
    case True
    have "finite ?S" by simp
    moreover have "g_tid g \<in> ?S" "\<And>x. x \<in> ?S \<Longrightarrow> g_tid g \<le> x" using True Cons.prems by force+
    ultimately have "Min ?S = g_tid g" by (metis (no_types, lifting) Min_eqI)
    then show ?thesis using True by (auto simp: Let_def)
  next
    case False
    then have "?S = {g_tid x |x. x \<in> set gs \<and> P x}" by auto
    then show ?thesis using False Cons by (simp add: Let_def)
  qed
qed simp

text \<open>Round robin: the next runnable id above the running thread's, else the least.\<close>

definition round_robin :: "nat set \<Rightarrow> nat \<Rightarrow> nat option" where
  "round_robin R a =
    (if {r \<in> R. a < r} \<noteq> {} then Some (Min {r \<in> R. a < r}) else if R \<noteq> {} then Some (Min R) else None)"

lemma next_runnable_eq:
  assumes "table_wf t"
  shows "next_runnable t = round_robin (runnable t) (active_tid t)"
proof -
  have s: "sorted_wrt (<) (map g_tid (threads t))" using assms by (simp add: table_wf_def)
  let ?P = "\<lambda>g. active_tid t < g_tid g \<and> g_state g = T_RUNNABLE"
  have A: "{g_tid g |g. g \<in> set (threads t) \<and> ?P g} = {r \<in> runnable t. active_tid t < r}"
    unfolding runnable_iff [OF assms] by auto
  have "next_runnable t = (case map_option g_tid (find ?P (threads t)) of Some x \<Rightarrow> Some x
      | None \<Rightarrow> map_option g_tid (find (\<lambda>g. g_state g = T_RUNNABLE) (threads t)))"
    by (simp add: next_runnable_def split: option.split)
  then show ?thesis
    unfolding find_sorted_Min [OF s] A Let_def runnable_iff [OF assms, symmetric] round_robin_def by auto
qed

lemma finite_tids [simp]: "finite (tids t)" "finite (waiters t)" "finite (runnable t)"
  using finite_subset [OF waiters_sub, of t] by (simp_all add: tids_def runnable_def)

lemma round_robin_Some:
  assumes "round_robin R a = Some x" "finite R"
  shows "x \<in> R"
proof (cases "{r \<in> R. a < r} = {}")
  case True
  then have "R \<noteq> {}" "x = Min R" using assms by (simp_all add: round_robin_def split: if_splits)
  then show ?thesis using assms(2) by simp
next
  case False
  then have "x = Min {r \<in> R. a < r}" using assms by (simp only: round_robin_def if_True option.inject not_False_eq_True)
  then show ?thesis using Min_in [OF _ False] assms(2) by simp
qed

lemma next_runnable_Some: "table_wf t \<Longrightarrow> next_runnable t = Some x \<Longrightarrow> x \<in> runnable t"
  using round_robin_Some [of "runnable t"] by (simp add: next_runnable_eq)

lemma next_runnable_None: "table_wf t \<Longrightarrow> next_runnable t = None \<longleftrightarrow> runnable t = {}"
  by (auto simp: next_runnable_eq round_robin_def)

lemma earliest_fold:
  "let d = fold (\<lambda>g dl. if g_state g = T_WAITING \<and> g_deadline g \<noteq> 0 \<and> (dl = 0 \<or> g_deadline g < dl)
                 then g_deadline g else dl) gs acc
   in (d = acc \<or> (\<exists>g\<in>set gs. g_state g = T_WAITING \<and> g_deadline g = d)) \<and> (acc \<noteq> 0 \<longrightarrow> d \<noteq> 0 \<and> d \<le> acc)
    \<and> (\<forall>g\<in>set gs. g_state g = T_WAITING \<and> g_deadline g \<noteq> 0 \<longrightarrow> d \<noteq> 0 \<and> d \<le> g_deadline g)"
proof (induction gs arbitrary: acc)
  case (Cons g gs)
  let ?a = "if g_state g = T_WAITING \<and> g_deadline g \<noteq> 0 \<and> (acc = 0 \<or> g_deadline g < acc) then g_deadline g else acc"
  show ?case using Cons.IH [of ?a] by (auto simp: Let_def split: if_splits)
qed simp

lemma earliest_deadline_props:
  "earliest_deadline t \<noteq> 0 \<Longrightarrow> \<exists>g\<in>set (threads t). g_state g = T_WAITING \<and> g_deadline g = earliest_deadline t"
  "g \<in> set (threads t) \<Longrightarrow> g_state g = T_WAITING \<Longrightarrow> g_deadline g \<noteq> 0 \<Longrightarrow>
     earliest_deadline t \<noteq> 0 \<and> earliest_deadline t \<le> g_deadline g"
  using earliest_fold [where gs = "threads t" and acc = 0] unfolding earliest_deadline_def Let_def by auto

text \<open>What the scheduler does first when nothing can run: it moves the clock to the
  earliest deadline.\<close>

definition settle :: "mb_threads \<Rightarrow> mb_threads" where
  "settle t =
    (if next_runnable t = None \<and> spec t = 3 \<and> earliest_deadline t \<noteq> 0
     then expire_due (t\<lparr>vclock_ns := earliest_deadline t\<rparr>) else t)"

lemma thr_inv_clock: "thr_inv X (t\<lparr>vclock_ns := n\<rparr>) = thr_inv X t" "tids (t\<lparr>vclock_ns := n\<rparr>) = tids t"
  "waiters (t\<lparr>vclock_ns := n\<rparr>) = waiters t" "queue_of (t\<lparr>vclock_ns := n\<rparr>) = queue_of t"
proof -
  show q: "queue_of (t\<lparr>vclock_ns := n\<rparr>) = queue_of t" by (simp add: fun_eq_iff queue_of_qlook)
  show "thr_inv X (t\<lparr>vclock_ns := n\<rparr>) = thr_inv X t" "tids (t\<lparr>vclock_ns := n\<rparr>) = tids t"
    "waiters (t\<lparr>vclock_ns := n\<rparr>) = waiters t"
    by (simp_all add: thr_inv_def table_wf_def queues_wf_def tids_def waiters_def q)
qed

lemma settle_inv:
  assumes "thr_inv X t"
  shows "thr_inv X (settle t)" "tids (settle t) = tids t" "active_tid (settle t) = active_tid t"
    "spec (settle t) = spec t" "next_tid (settle t) = next_tid t" "runnable t \<subseteq> runnable (settle t)"
    "kit_revision (settle t) = kit_revision t"
proof -
  let ?t = "t\<lparr>vclock_ns := earliest_deadline t\<rparr>"
  have I: "thr_inv X ?t" using assms by (simp add: thr_inv_clock)
  note E = thr_inv_expire_due [OF I] and F = expire_due_frame [OF thr_invD(2,3) [OF I]]
  show "thr_inv X (settle t)" "tids (settle t) = tids t" "active_tid (settle t) = active_tid t"
    "spec (settle t) = spec t" "next_tid (settle t) = next_tid t" "kit_revision (settle t) = kit_revision t"
    using assms E F by (simp_all add: settle_def thr_inv_clock)
  show "runnable t \<subseteq> runnable (settle t)"
    using E by (auto simp: settle_def runnable_def thr_inv_clock)
qed

lemma settle_runnable:
  assumes I: "thr_inv X t" and "runnable t = {}" "spec t = 3" "earliest_deadline t \<noteq> 0"
  shows "runnable (settle t) \<noteq> {}"
proof -
  let ?t = "t\<lparr>vclock_ns := earliest_deadline t\<rparr>"
  have I': "thr_inv X ?t" using I by (simp add: thr_inv_clock)
  obtain g where "g \<in> set (threads t)" "g_state g = T_WAITING" "g_deadline g = earliest_deadline t"
    using earliest_deadline_props(1) [OF assms(4)] by blast
  then have "g_tid g \<in> due_tids ?t" "g_tid g \<in> tids t"
    using assms(4) by (auto simp: due_tids_def is_due_def tids_def)
  then have "g_tid g \<in> runnable (expire_due ?t)"
    using thr_inv_expire_due [OF I'] by (simp add: runnable_def thr_inv_clock)
  moreover have "settle t = expire_due ?t"
    using assms next_runnable_None [OF thr_invD(1) [OF I]] by (simp add: settle_def)
  ultimately show ?thesis by auto
qed

text \<open>The scheduler returns: it settles at most once.\<close>

definition pick_next :: "mb_threads \<Rightarrow> mb_context \<Rightarrow> u64 \<Rightarrow> u64 outcome" where
  "pick_next t c ret =
    (case next_runnable t of
       None \<Rightarrow> Died Deadlock t c
     | Some best \<Rightarrow> if best = active_tid t then Ret t c (g_rax (thread_of t best))
                     else case swap_to t c best ret of (t', c', v) \<Rightarrow> Ret t' c' v)"

lemma swap_loop_eq:
  assumes I: "thr_inv X t"
  shows "swap_loop t c ret = Some (pick_next (settle t) c
           (if settle t = t then ret else g_rax (thread_of (settle t) (active_tid t))))"
proof (cases "next_runnable t = None \<and> spec t = 3 \<and> earliest_deadline t \<noteq> 0")
  case True
  have "runnable t = {}" using True next_runnable_None [OF thr_invD(1) [OF I]] by simp
  then have r: "runnable (settle t) \<noteq> {}" using settle_runnable [OF I] True by blast
  then obtain best where n: "next_runnable (settle t) = Some best"
    using next_runnable_None [OF thr_invD(1) [OF settle_inv(1) [OF I]]] by auto
  then have "settle t \<noteq> t" using True by auto
  moreover have "swap_loop t c ret = swap_loop (settle t) c (g_rax (thread_of (settle t) (active_tid (settle t))))"
    using True by (subst swap_loop.simps) (simp add: settle_def Let_def)
  moreover have "swap_loop (settle t) c v = Some (pick_next (settle t) c v)" for v
    using n by (subst swap_loop.simps) (simp add: pick_next_def)
  ultimately show ?thesis using settle_inv(3) [OF I] by simp
next
  case False
  then have "settle t = t" by (simp only: settle_def if_False)
  then show ?thesis using False by (subst swap_loop.simps) (auto simp: pick_next_def split: option.split)
qed

lemma pick_next_Ret:
  assumes I: "thr_inv X t" and P: "pick_next t c ret = Ret t' c' v"
  shows "thr_inv X t'" "tids t' = tids t" "waiters t' = waiters t" "active_tid t' \<in> runnable t'"
    "next_runnable t = Some (active_tid t')" "next_tid t' = next_tid t" "spec t' = spec t"
    "kit_revision t' = kit_revision t" "vclock_ns t' = vclock_ns t" "queue_of t' = queue_of t"
proof -
  obtain best where b: "next_runnable t = Some best" using P by (cases "next_runnable t") (auto simp: pick_next_def)
  have br: "best \<in> runnable t" using next_runnable_Some [OF thr_invD(1) [OF I] b] .
  then have bt: "best \<in> tids t" by (simp add: runnable_def)
  note S = thr_inv_store_regs [OF I, of c ret]
  let ?s = "(store_regs t c ret)\<lparr>active_tid := best\<rparr>"
  have s: "thr_inv X ?s" "waiters ?s = waiters (store_regs t c ret)" "tids ?s = tids (store_regs t c ret)"
    using thr_inv_regs [OF S(1), where h = "\<lambda>g. g" and t' = ?s] S bt by simp_all
  have q: "queue_of ?s = queue_of t" by (simp add: fun_eq_iff queue_of_qlook store_regs_def)
  have cs: "t' = t \<and> best = active_tid t \<or> t' = ?s"
    using P b by (auto simp: pick_next_def swap_to_def Let_def split: if_splits)
  show "thr_inv X t'" "tids t' = tids t" "waiters t' = waiters t" "active_tid t' \<in> runnable t'"
    "next_runnable t = Some (active_tid t')" "next_tid t' = next_tid t" "spec t' = spec t"
    "kit_revision t' = kit_revision t" "vclock_ns t' = vclock_ns t" "queue_of t' = queue_of t"
    using cs s S I br b q by (auto simp: runnable_def)
qed

lemma pick_next_Died: "pick_next t c ret = Died d t' c' \<Longrightarrow> d = Deadlock \<and> next_runnable t = None \<and> t' = t \<and> c' = c"
  by (auto simp: pick_next_def swap_to_def Let_def split: option.splits if_splits)

lemma swap_to_next_Ret:
  assumes I: "thr_inv X t" and S: "swap_to_next t c ret = Some (Ret t' c' v)"
  shows "thr_inv X t'" "tids t' = tids t" "active_tid t' \<in> runnable t'" "next_tid t' = next_tid t"
    "spec t' = spec t" "kit_revision t' = kit_revision t" "runnable t \<subseteq> runnable t'"
proof -
  let ?r = "store_regs t c ret"
  note R = thr_inv_store_regs [OF I, of c ret]
  note T = settle_inv [OF R(1)]
  obtain u where P: "pick_next (settle ?r) c u = Ret t' c' v"
    using S swap_loop_eq [OF R(1), of c ret] by (auto simp: swap_to_next_def)
  note N = pick_next_Ret [OF T(1) P]
  have "runnable ?r = runnable t" using R by (simp add: runnable_def)
  then show "runnable t \<subseteq> runnable t'" using N T by (auto simp: runnable_def)
  show "thr_inv X t'" "tids t' = tids t" "active_tid t' \<in> runnable t'" "next_tid t' = next_tid t"
    "spec t' = spec t" "kit_revision t' = kit_revision t"
    using N T R by simp_all
qed

section \<open>Waking and parking\<close>

lemma waiters_one:
  assumes "distinct (map g_tid (threads t))" "tid \<in> tids t"
    "threads t' = map (\<lambda>g. if g_tid g = tid then h g else g) (threads t)" "\<And>g. g_tid (h g) = g_tid g"
  shows "(\<And>g. g_state (h g) = T_RUNNABLE) \<Longrightarrow> waiters t' = waiters t - {tid}"
    "(\<And>g. g_state (h g) = T_WAITING) \<Longrightarrow> waiters t' = insert tid (waiters t)"
  using assms(2) waiters_map [OF assms(3)] assms(4)
  by (auto simp: waiters_def tids_def split: if_splits)

lemma unpark_one_eq:
  assumes I: "thr_inv X t"
  shows "case queue_of t a of
     [] \<Rightarrow> unpark_one t a = (t, None)
   | tid # rest \<Rightarrow> tid \<in> waiters t \<and> (\<exists>t'. unpark_one t a = (t', Some (tid, rest \<noteq> []))
       \<and> t' = t\<lparr>threads := map (\<lambda>g. if g_tid g = tid then make_runnable g else g) (threads t), futicies := futicies t'\<rparr>
       \<and> queue_list_ok (futicies t') \<and> queue_of t' = (queue_of t)(a := rest))"
proof (cases "queue_of t a")
  case Nil
  then have "find_queue t a = None" using queue_of_empty [OF thr_invD(3) [OF I]] by simp
  then show ?thesis using Nil by (simp add: unpark_one_def)
next
  case (Cons tid rest)
  note D = thr_invD [OF I]
  obtain i where i: "find_queue t a = Some i" using Cons by (auto simp: queue_of_def split: option.splits)
  note iq = find_queue_SomeD [OF i]
  have qi: "q_tids (futicies t ! i) = tid # rest" using Cons i by (simp add: queue_of_def)
  have w: "tid \<in> waiters t" using queue_map_pop(2) [OF D(4) Cons] .
  then have tt: "tid \<in> tids t" using waiters_sub by blast
  let ?q = "(futicies t ! i)\<lparr>q_tids := rest\<rparr>"
  let ?t1 = "t\<lparr>futicies := (futicies t)[i := ?q]\<rparr>"
  let ?thr = "map (\<lambda>g. if g_tid g = tid then make_runnable g else g) (threads t)"
  have d1: "distinct (map g_tid (threads ?t1))" "tid \<in> tids ?t1" using D(2) tt by (simp_all add: tids_def)
  have set: "set_thread ?t1 tid make_runnable = ?t1\<lparr>threads := ?thr\<rparr>"
    using threads_set_thread [OF d1, of make_runnable] by (simp add: set_thread_def)
  have pop: "pop_waiting t (tid # rest) = (Some tid, rest)" using w by (simp add: is_waiting_iff D(2))
  have dist: "distinct (map q_addr ((futicies t)[i := ?q]))"
    using D(3) iq by (simp add: queue_list_ok_def map_addr_update)
  have look: "qlook ((futicies t)[i := ?q]) = (queue_of t)(a := rest)"
    using D(3) iq by (auto simp: fun_eq_iff qlook_update queue_list_ok_def queue_of_qlook)
  show ?thesis
  proof (cases "rest = []")
    case True
    have ne: "q_tids q \<noteq> []" if "q \<in> set ((futicies t)[i := ?q])" "q_addr q \<noteq> a" for q
      using that D(3) iq by (auto simp: queue_list_ok_def dest!: set_update_subset_insert [THEN subsetD])
    have "unpark_one t a = (remove_queue (?t1\<lparr>threads := ?thr\<rparr>) a, Some (tid, False))"
      using i qi pop True set by (simp add: unpark_one_def Let_def)
    then show ?thesis
      using Cons True w look remove_queue_ok [of "?t1\<lparr>threads := ?thr\<rparr>" a] dist ne
      by (simp add: remove_queue_def fun_eq_iff queue_of_qlook)
  next
    case False
    have "unpark_one t a = (?t1\<lparr>threads := ?thr\<rparr>, Some (tid, True))"
      using i qi pop False set by (simp add: unpark_one_def Let_def)
    moreover have "queue_list_ok ((futicies t)[i := ?q])"
      using False dist D(3) by (auto simp: queue_list_ok_def dest!: set_update_subset_insert [THEN subsetD])
    ultimately show ?thesis using Cons False w look by (simp add: fun_eq_iff queue_of_qlook)
  qed
qed

end
