(* ===== verification/Mb_Threads_Props.thy ===== *)
theory Mb_Threads_Props
  imports Mb_Threads_Ops
begin

text \<open>
  Every operation of the thread set keeps the invariant (collected in the step
  relation \<open>thr_step\<close>), and wake-up and requeue move the waiters of a futex in
  order.
\<close>

section \<open>Waking and parking keep the invariant\<close>

lemma unpark_one_inv:
  assumes I: "thr_inv X t" and U: "unpark_one t a = (t', r)"
  shows "thr_inv X t'" "tids t' = tids t" "active_tid t' = active_tid t" "next_tid t' = next_tid t"
    "spec t' = spec t" "kit_revision t' = kit_revision t" "vclock_ns t' = vclock_ns t"
    "waiters t' = waiters t - (case r of None \<Rightarrow> {} | Some (tid, _) \<Rightarrow> {tid})"
    "r = Some (tid, again) \<Longrightarrow> tid \<in> waiters t"
proof -
  note D = thr_invD [OF I]
  have "thr_inv X t' \<and> tids t' = tids t \<and> active_tid t' = active_tid t \<and> next_tid t' = next_tid t
    \<and> spec t' = spec t \<and> kit_revision t' = kit_revision t \<and> vclock_ns t' = vclock_ns t
    \<and> waiters t' = waiters t - (case r of None \<Rightarrow> {} | Some (tid, _) \<Rightarrow> {tid})
    \<and> (r = Some (tid, again) \<longrightarrow> tid \<in> waiters t)"
  proof (cases "queue_of t a")
    case Nil
    then show ?thesis using unpark_one_eq [OF I, of a] U I by simp
  next
    case (Cons x rest)
    let ?h = "\<lambda>g. if g_tid g = x then make_runnable g else g"
    have x: "x \<in> waiters t" and r: "r = Some (x, rest \<noteq> [])"
      and t': "t' = t\<lparr>threads := map ?h (threads t), futicies := futicies t'\<rparr>"
      and q: "queue_list_ok (futicies t')" "queue_of t' = (queue_of t)(a := rest)"
      using unpark_one_eq [OF I, of a] Cons U by auto
    have thr: "threads t' = map ?h (threads t)" and fr: "active_tid t' = active_tid t" "next_tid t' = next_tid t"
      "spec t' = spec t" "kit_revision t' = kit_revision t" "vclock_ns t' = vclock_ns t"
      by (subst t', simp)+
    have xt: "x \<in> tids t" using x waiters_sub by blast
    have T: "table_wf t'" "tids t' = tids t"
      by (rule table_wf_map [OF D(1) thr]; use fr D(5) table_wf_thread [OF D(1)] in simp)+
    have W: "waiters t' = waiters t - {x}" by (rule waiters_one(1) [OF D(2) xt thr]) simp_all
    have "queues_wf X t'" using queue_map_pop(1) [OF D(4) Cons] q W by (simp add: queues_wf_def)
    then have "thr_inv X t'" using T(1) I by (auto simp: thr_inv_def thr)
    then show ?thesis using T W fr r x by auto
  qed
  then show "thr_inv X t'" "tids t' = tids t" "active_tid t' = active_tid t" "next_tid t' = next_tid t"
    "spec t' = spec t" "kit_revision t' = kit_revision t" "vclock_ns t' = vclock_ns t"
    "waiters t' = waiters t - (case r of None \<Rightarrow> {} | Some (tid, _) \<Rightarrow> {tid})"
    "r = Some (tid, again) \<Longrightarrow> tid \<in> waiters t" by auto
qed

text \<open>A runnable thread is queued on an address and set waiting, with a deadline or none.\<close>

lemma park_inv:
  assumes I: "thr_inv X t" and tid: "tid \<in> runnable t"
    and thr: "threads t' = map (\<lambda>g. if g_tid g = tid then h g else g) (threads t)"
    and h: "\<And>g. g_tid (h g) = g_tid g" "\<And>g. g_state (h g) = T_WAITING"
    and dl: "\<And>g. g_state g = T_RUNNABLE \<Longrightarrow> g_deadline g = 0 \<Longrightarrow> g_deadline (h g) \<noteq> 0 \<Longrightarrow> spec t = 3"
    and fut: "futicies t' = futicies (queue_push t a tid)"
    and fr: "active_tid t' = active_tid t" "next_tid t' = next_tid t" "spec t' = spec t"
  shows "thr_inv X t'" "tids t' = tids t" "waiters t' = insert tid (waiters t)"
    "queue_of t' = (queue_of t)(a := queue_of t a @ [tid])"
proof -
  note D = thr_invD [OF I]
  have tt: "tid \<in> tids t" "tid \<notin> waiters t" using tid by (simp_all add: runnable_def)
  have run: "g_state g = T_RUNNABLE \<and> g_deadline g = 0" if "g \<in> set (threads t)" "g_tid g = tid" for g
    using that table_wf_thread [OF D(1) that(1)] tt(2) by (auto simp: waiters_def)
  have T: "table_wf t'" "tids t' = tids t"
    by (rule table_wf_map [OF D(1) thr]; use fr D(5) table_wf_thread [OF D(1)] h run dl in force)+
  show W: "waiters t' = insert tid (waiters t)" by (rule waiters_one(2) [OF D(2) tt(1) thr h])
  have Q: "queue_of t' = queue_of (queue_push t a tid)" by (simp add: fun_eq_iff queue_of_qlook fut)
  then show "queue_of t' = (queue_of t)(a := queue_of t a @ [tid])" using queue_push_ok(2) [OF D(3)] by simp
  then have "queues_wf X t'"
    using queue_map_push [OF D(4) tt(2)] queue_push_ok(1) [OF D(3)] by (simp add: queues_wf_def W fut)
  moreover have "tid \<notin> X" using D(4) tt(2) by (auto simp: queue_map_ok_def)
  ultimately show "thr_inv X t'" using T(1) I by (auto simp: thr_inv_def thr h)
  show "tids t' = tids t" by (rule T(2))
qed

lemma park_other_inv:
  assumes I: "thr_inv X t" and tid: "tid \<in> runnable t"
  shows "thr_inv X (park_other t a tid)" "tids (park_other t a tid) = tids t"
    "waiters (park_other t a tid) = insert tid (waiters t)"
    "queue_of (park_other t a tid) = (queue_of t)(a := queue_of t a @ [tid])"
    "threads (park_other t a tid) = map (\<lambda>g. if g_tid g = tid then g\<lparr>g_state := T_WAITING\<rparr> else g) (threads t)"
proof -
  have d: "distinct (map g_tid (threads (queue_push t a tid)))" "tid \<in> tids (queue_push t a tid)"
    using thr_invD [OF I] tid by (simp_all add: tids_def runnable_def)
  show thr: "threads (park_other t a tid) = map (\<lambda>g. if g_tid g = tid then g\<lparr>g_state := T_WAITING\<rparr> else g) (threads t)"
    using threads_set_thread [OF d] by (simp add: park_other_def)
  show "thr_inv X (park_other t a tid)" "tids (park_other t a tid) = tids t"
    "waiters (park_other t a tid) = insert tid (waiters t)"
    "queue_of (park_other t a tid) = (queue_of t)(a := queue_of t a @ [tid])"
    by (rule park_inv [OF I tid thr]; simp add: park_other_def)+
qed

lemma park_other_frame [simp]:
  "active_tid (park_other t a tid) = active_tid t" "next_tid (park_other t a tid) = next_tid t"
  "spec (park_other t a tid) = spec t" "kit_revision (park_other t a tid) = kit_revision t"
  "vclock_ns (park_other t a tid) = vclock_ns t"
  by (simp_all add: park_other_def)

lemma park_me_eq: "park_me t c ret a = swap_to_next (park_other t a (active_tid t)) c ret"
  by (simp add: park_me_def park_other_def)

lemma requeue_inv:
  assumes "thr_inv X t" "mb_threads_futex_requeue t a b w r = (t', n)"
  shows "thr_inv X t' \<and> tids t' = tids t \<and> active_tid t' = active_tid t \<and> next_tid t' = next_tid t
    \<and> spec t' = spec t \<and> kit_revision t' = kit_revision t \<and> waiters t' \<subseteq> waiters t"
  using assms
proof (induction t a b w r arbitrary: t' n rule: mb_threads_futex_requeue.induct)
  case (1 t a b w r)
  obtain t1 x where u: "unpark_one t a = (t1, x)" by (cases "unpark_one t a")
  note U = unpark_one_inv [OF "1.prems"(1) u]
  show ?case
  proof (cases "w = 0 \<and> r = 0 \<or> x = None")
    case True
    then have "t' = t \<or> t' = t1 \<and> x = None"
      using "1.prems"(2) u by (auto simp: mb_threads_futex_requeue.simps [of t a b w r] split: if_splits)
    then show ?thesis using "1.prems"(1) U by auto
  next
    case False
    then obtain tid again where x: "x = Some (tid, again)" by auto
    have tw: "tid \<in> waiters t" using U(9) x by simp
    then have run: "tid \<in> runnable t1" using U waiters_sub by (auto simp: runnable_def x)
    let ?t2 = "if 0 < w then t1 else park_other t1 b tid"
    have I2: "thr_inv X ?t2 \<and> tids ?t2 = tids t \<and> active_tid ?t2 = active_tid t \<and> next_tid ?t2 = next_tid t
      \<and> spec ?t2 = spec t \<and> kit_revision ?t2 = kit_revision t \<and> waiters ?t2 \<subseteq> waiters t"
      using U park_other_inv [OF U(1) run, of b] tw by (auto simp: x)
    show ?thesis
    proof (cases again)
      case True
      obtain t3 m where rec: "mb_threads_futex_requeue ?t2 a b (if 0 < w then w - 1 else w) (if 0 < w then r else r - 1) = (t3, m)"
        by (cases "mb_threads_futex_requeue ?t2 a b (if 0 < w then w - 1 else w) (if 0 < w then r else r - 1)")
      have "t' = t3" using "1.prems"(2) False u x True rec
        by (simp add: mb_threads_futex_requeue.simps [of t a b w r] Let_def split: if_splits)
      moreover have nz: "\<not> (w = 0 \<and> r = 0)" using False by simp
      ultimately show ?thesis
        using "1.IH" [OF nz u [unfolded x, symmetric] refl refl refl refl refl True conjunct1 [OF I2] rec] I2 by auto
    next
      case again: False
      then have "t' = ?t2" using "1.prems"(2) False u x
        by (simp add: mb_threads_futex_requeue.simps [of t a b w r] Let_def split: if_splits)
      then show ?thesis using I2 by simp
    qed
  qed
qed

section \<open>Wake-up and requeue take the waiters in order\<close>

lemma requeue_none:
  assumes "thr_inv X t" "w = 0 \<and> r = 0 \<or> queue_of t a = []"
  shows "mb_threads_futex_requeue t a b w r = (t, 0)"
  using assms unpark_one_eq [OF assms(1), of a] by (auto simp: mb_threads_futex_requeue.simps [of t a b w r])

lemma requeue_step:
  assumes I: "thr_inv X t" and q: "queue_of t a = tid # rest" and n: "w \<noteq> 0 \<or> r \<noteq> 0" and ab: "a \<noteq> b \<or> r = 0"
  obtains t2 where "thr_inv X t2"
    "mb_threads_futex_requeue t a b w r
       = map_prod id Suc (mb_threads_futex_requeue t2 a b (w - 1) (if w = 0 then r - 1 else r))"
    "queue_of t2 = (if w = 0 then (queue_of t)(a := rest, b := queue_of t b @ [tid]) else (queue_of t)(a := rest))"
    "threads t2 = map (\<lambda>g. if g_tid g = tid then (if w = 0 then (make_runnable g)\<lparr>g_state := T_WAITING\<rparr> else make_runnable g) else g)
       (threads t)"
proof -
  obtain t1 where u: "unpark_one t a = (t1, Some (tid, rest \<noteq> []))" and tw: "tid \<in> waiters t"
    and t1: "t1 = t\<lparr>threads := map (\<lambda>g. if g_tid g = tid then make_runnable g else g) (threads t), futicies := futicies t1\<rparr>"
    and q1: "queue_of t1 = (queue_of t)(a := rest)"
    using unpark_one_eq [OF I, of a] q by auto
  note U = unpark_one_inv [OF I u]
  have thr1: "threads t1 = map (\<lambda>g. if g_tid g = tid then make_runnable g else g) (threads t)" by (subst t1) simp
  have run: "tid \<in> runnable t1" using U tw waiters_sub by (auto simp: runnable_def)
  note P = park_other_inv [OF U(1) run, of b]
  let ?t2 = "if w = 0 then park_other t1 b tid else t1"
  have I2: "thr_inv X ?t2" using P U by simp
  have q2: "queue_of ?t2 = (if w = 0 then (queue_of t)(a := rest, b := queue_of t b @ [tid]) else (queue_of t)(a := rest))"
    using P(4) q1 n ab by (auto simp: fun_eq_iff)
  have t2: "threads ?t2 = map (\<lambda>g. if g_tid g = tid then (if w = 0 then (make_runnable g)\<lparr>g_state := T_WAITING\<rparr> else make_runnable g) else g)
       (threads t)" using P(5) thr1 by (auto simp: thr1)
  have "mb_threads_futex_requeue t a b w r
      = map_prod id Suc (mb_threads_futex_requeue ?t2 a b (w - 1) (if w = 0 then r - 1 else r))"
  proof (cases "rest = []")
    case True
    have "queue_of ?t2 a = []" using q2 True n ab by auto
    from requeue_none [OF I2 disjI2, OF this] True u n show ?thesis
      by (simp add: mb_threads_futex_requeue.simps [of t a b w r] Let_def)
  next
    case False
    then show ?thesis using u n
      by (auto simp: mb_threads_futex_requeue.simps [of t a b w r] Let_def map_prod_def split: prod.split)
  qed
  then show thesis by (rule that [OF I2 _ q2 t2])
qed

lemma requeue_eq:
  assumes "thr_inv X t" "a \<noteq> b \<or> r = 0"
  shows "case mb_threads_futex_requeue t a b w r of (t', n) \<Rightarrow>
      n = min (w + r) (length (queue_of t a))
      \<and> queue_of t' = ((queue_of t)(b := queue_of t b @ take r (drop w (queue_of t a))))(a := drop (w + r) (queue_of t a))
      \<and> threads t' = map (\<lambda>g. if g_tid g \<in> set (take w (queue_of t a)) then make_runnable g
           else if g_tid g \<in> set (take r (drop w (queue_of t a))) then (make_runnable g)\<lparr>g_state := T_WAITING\<rparr> else g) (threads t)"
  using assms
proof (induction "queue_of t a" arbitrary: t w r)
  case Nil
  then show ?case using requeue_none [of X t w r a b] by (auto simp: fun_eq_iff map_idI)
next
  case (Cons tid rest)
  show ?case
  proof (cases "w = 0 \<and> r = 0")
    case True
    then show ?thesis using requeue_none [OF Cons.prems(1), of w r a b] by (auto simp: fun_eq_iff map_idI)
  next
    case False
    then have n: "w \<noteq> 0 \<or> r \<noteq> 0" by simp
    obtain t2 where t2: "thr_inv X t2"
      "mb_threads_futex_requeue t a b w r
         = map_prod id Suc (mb_threads_futex_requeue t2 a b (w - 1) (if w = 0 then r - 1 else r))"
      "queue_of t2 = (if w = 0 then (queue_of t)(a := rest, b := queue_of t b @ [tid]) else (queue_of t)(a := rest))"
      "threads t2 = map (\<lambda>g. if g_tid g = tid then (if w = 0 then (make_runnable g)\<lparr>g_state := T_WAITING\<rparr> else make_runnable g) else g)
       (threads t)"
      by (rule requeue_step [OF Cons.prems(1) Cons.hyps(2) [symmetric] n Cons.prems(2)]) blast
    have q2: "queue_of t2 a = rest" using t2(3) False Cons.prems(2) by auto
    have nr: "tid \<notin> set rest"
      using thr_invD(4) [OF Cons.prems(1)] Cons.hyps(2) by (metis distinct.simps(2) queue_map_ok_def)
    have IH: "case mb_threads_futex_requeue t2 a b (w - 1) (if w = 0 then r - 1 else r) of (t', n) \<Rightarrow>
      n = min (w - 1 + (if w = 0 then r - 1 else r)) (length rest)
      \<and> queue_of t' = ((queue_of t2)(b := queue_of t2 b @ take (if w = 0 then r - 1 else r) (drop (w - 1) rest)))
          (a := drop (w - 1 + (if w = 0 then r - 1 else r)) rest)
      \<and> threads t' = map (\<lambda>g. if g_tid g \<in> set (take (w - 1) rest) then make_runnable g
           else if g_tid g \<in> set (take (if w = 0 then r - 1 else r) (drop (w - 1) rest)) then (make_runnable g)\<lparr>g_state := T_WAITING\<rparr>
           else g) (threads t2)"
      by (rule Cons.hyps(1) [OF q2 [symmetric] t2(1), unfolded q2]) (use Cons.prems(2) in auto)
    have sub: "tid \<notin> set (take i rest)" "tid \<notin> set (take i (drop j rest))" for i j
      using nr by (meson in_set_takeD in_set_dropD)+
    show ?thesis
    proof (cases w)
      case 0
      then obtain r' where r': "r = Suc r'" using n by (cases r) auto
      have "a \<noteq> b" using Cons.prems(2) r' by simp
      then show ?thesis using IH t2(2,3,4) sub
        by (auto simp: 0 r' Cons.hyps(2) [symmetric] fun_eq_iff comp_def split: prod.splits intro!: map_cong)
    next
      case (Suc w')
      then show ?thesis using IH t2(2,3,4) sub Cons.prems(2)
        by (auto simp: Cons.hyps(2) [symmetric] fun_eq_iff comp_def split: prod.splits intro!: map_cong)
    qed
  qed
qed

end
