(* ===== verification/Mb_Threads_Steps.thy ===== *)
theory Mb_Threads_Steps
  imports Mb_Threads_Props
begin

text \<open>
  The system calls of the thread set as a step relation, and the invariant at
  every reachable thread set.
\<close>

section \<open>Each system call keeps the invariant\<close>

lemma threads_wfI: "thr_inv {} t \<Longrightarrow> active_tid t \<in> runnable t \<Longrightarrow> threads_wf t"
  by (simp add: threads_wf_alt runnable_def)

lemma threads_wfD: "threads_wf t \<Longrightarrow> thr_inv {} t" "threads_wf t \<Longrightarrow> active_tid t \<in> runnable t"
  using thr_invD(5) [of "{}" t] by (auto simp: threads_wf_alt runnable_def)

lemma swap_to_next_wf: "thr_inv {} t \<Longrightarrow> swap_to_next t c ret = Some (Ret t' c' v) \<Longrightarrow> threads_wf t'"
  by (blast intro: threads_wfI dest: swap_to_next_Ret)

lemma park_me_wf: "threads_wf t \<Longrightarrow> park_me t c ret a = Some (Ret t' c' v) \<Longrightarrow> threads_wf t'"
  unfolding park_me_eq by (blast intro: swap_to_next_wf park_other_inv dest: threads_wfD)

lemma advance_inv:
  assumes "thr_inv X t"
  shows "thr_inv X (mb_threads_advance t ns)" "active_tid (mb_threads_advance t ns) = active_tid t"
    "runnable t \<subseteq> runnable (mb_threads_advance t ns)" "spec (mb_threads_advance t ns) = spec t"
    "kit_revision (mb_threads_advance t ns) = kit_revision t"
    "vclock_ns (mb_threads_advance t ns) = mb_threads_ns_add t (vclock_ns t) ns"
proof -
  let ?t = "t\<lparr>vclock_ns := mb_threads_ns_add t (vclock_ns t) ns\<rparr>"
  have I: "thr_inv X ?t" using assms by (simp add: thr_inv_clock)
  note E = thr_inv_expire_due [OF I] and F = expire_due_frame [OF thr_invD(2,3) [OF I]]
  show "thr_inv X (mb_threads_advance t ns)" "active_tid (mb_threads_advance t ns) = active_tid t"
    "spec (mb_threads_advance t ns) = spec t" "kit_revision (mb_threads_advance t ns) = kit_revision t"
    "vclock_ns (mb_threads_advance t ns) = mb_threads_ns_add t (vclock_ns t) ns"
    using E F by (simp_all add: mb_threads_advance_def)
  show "runnable t \<subseteq> runnable (mb_threads_advance t ns)"
    using E by (auto simp: mb_threads_advance_def runnable_def thr_inv_clock)
qed

lemma advance_wf: "threads_wf t \<Longrightarrow> threads_wf (mb_threads_advance t ns)"
  using advance_inv [of "{}" t ns] threads_wfD [of t] by (intro threads_wfI) auto

lemma wait_timeout_wf:
  assumes "threads_wf t" "mb_threads_futex_wait_timeout t c m a cmp has dl = Some (Ret t' c' v)"
  shows "threads_wf t'"
proof -
  let ?t1 = "queue_push t a (active_tid t)" and ?s = "(park_seq t + 1) mod 2 ^ 64"
  let ?h = "\<lambda>g. g\<lparr>g_state := T_WAITING, g_deadline := dl, g_seq := ?s\<rparr>"
  let ?p = "set_thread (?t1\<lparr>park_seq := ?s\<rparr>) (active_tid t) ?h"
  note I = threads_wfD [OF assms(1)]
  consider "t' = t" | "park_me t c (sok 0) a = Some (Ret t' c' v)"
    | "swap_to_next (mb_threads_advance t MB_V3_TICK_NS) c (serr ETIMEDOUT) = Some (Ret t' c' v)"
    | "t' = mb_threads_advance t MB_V3_TICK_NS"
    | "spec t = 3" "swap_to_next ?p c (sok 0) = Some (Ret t' c' v)"
    using assms(2) by (auto simp: mb_threads_futex_wait_timeout_def Let_def split: if_splits)
  then show ?thesis
  proof cases
    case 3
    then show ?thesis using swap_to_next_wf advance_inv(1) [OF I(1)] by blast
  next
    case 5
    have d: "distinct (map g_tid (threads (?t1\<lparr>park_seq := ?s\<rparr>)))" "active_tid t \<in> tids (?t1\<lparr>park_seq := ?s\<rparr>)"
      using thr_invD [OF I(1)] by (simp_all add: tids_def)
    have thr: "threads ?p = map (\<lambda>g. if g_tid g = active_tid t then ?h g else g) (threads t)"
      using threads_set_thread [OF d, of ?h] by simp
    have "thr_inv {} ?p" by (rule park_inv(1) [OF I(1,2) thr]) (simp_all add: 5)
    then show ?thesis using 5 swap_to_next_wf by blast
  qed (use assms(1) park_me_wf advance_wf in auto)
qed

lemma unlock_pi_wf:
  assumes "threads_wf t" "mb_threads_futex_unlock_pi t c m a = (t', c', v, m')"
  shows "threads_wf t'"
proof -
  obtain t1 x where u: "unpark_one t a = (t1, x)" by (cases "unpark_one t a")
  note I = threads_wfD [OF assms(1)]
  note U = unpark_one_inv [OF I(1) u]
  show ?thesis
  proof (cases x)
    case None
    then have "t' = t1" using assms(2) u by (simp add: mb_threads_futex_unlock_pi_def)
    then show ?thesis using U I None by (auto intro!: threads_wfI simp: runnable_def)
  next
    case (Some p)
    obtain tid again where x: "x = Some (tid, again)" using Some by (cases p) simp
    have tid: "tid \<in> runnable t1" using U waiters_sub x by (auto simp: runnable_def)
    note S = thr_inv_store_regs [OF U(1), of c "sok 0"]
    let ?s = "(store_regs t1 c (sok 0))\<lparr>active_tid := tid\<rparr>"
    have "thr_inv {} ?s" "waiters ?s = waiters t1" "tids ?s = tids t1"
      using thr_inv_regs [OF S(1), where h = "\<lambda>g. g" and t' = ?s] S tid by (simp_all add: runnable_def)
    moreover have "t' = ?s" using assms(2) u x by (simp add: mb_threads_futex_unlock_pi_def swap_to_def Let_def)
    ultimately show ?thesis using tid by (auto intro!: threads_wfI simp: runnable_def)
  qed
qed

text \<open>The exit: the dying thread waits on nothing until it is removed, and the
  scheduler cannot hand the machine back to it.\<close>

lemma remove_first_map:
  "distinct (map f xs) \<Longrightarrow> remove_first (\<lambda>x. f x = k) xs = filter (\<lambda>x. f x \<noteq> k) xs"
proof (induction xs)
  case (Cons x xs)
  then have "f x = k \<Longrightarrow> filter (\<lambda>y. f y \<noteq> k) xs = xs" by (auto intro!: filter_True simp: image_iff)
  then show ?case using Cons by simp
qed simp

lemma remove_thread_wf:
  assumes I: "thr_inv {d} t" and a: "active_tid t \<in> runnable t" and d: "d \<noteq> 1"
  shows "threads_wf (remove_thread t d)" "active_tid t \<noteq> d" "tids (remove_thread t d) = tids t - {d}"
proof -
  note D = thr_invD [OF I]
  have dw: "d \<in> waiters t" using D(4) by (auto simp: queue_map_ok_def)
  then show ad: "active_tid t \<noteq> d" using a by (auto simp: runnable_def)
  have eq: "remove_thread t d = t\<lparr>threads := filter (\<lambda>g. g_tid g \<noteq> d) (threads t)\<rparr>"
    using remove_first_map [OF D(2)] by (simp add: remove_thread_def)
  have "sorted_wrt (<) (map g_tid (filter P (threads t)))" for P
    using D(1) by (simp add: table_wf_def sorted_wrt_map sorted_wrt_filter)
  then have T: "table_wf (remove_thread t d)"
    using D(1) ad d by (auto simp: table_wf_def eq tids_def)
  show tid: "tids (remove_thread t d) = tids t - {d}" by (auto simp: tids_def eq)
  have W: "waiters (remove_thread t d) = waiters t - {d}" by (auto simp: waiters_def eq)
  have "queue_map_ok {} (waiters t - {d}) (queue_of t)"
    using D(4) by (auto simp: queue_map_ok_def)
  moreover have "queue_of (remove_thread t d) = queue_of t" by (simp add: fun_eq_iff queue_of_qlook eq)
  ultimately have "queues_wf {} (remove_thread t d)" using D(3) by (simp add: queues_wf_def W) (simp add: eq)
  with T have "thr_inv {} (remove_thread t d)" by (simp add: thr_inv_def)
  then show "threads_wf (remove_thread t d)"
    using a ad by (intro threads_wfI) (simp_all add: runnable_def tid W, simp_all add: eq)
qed

lemma queue_map_off:
  assumes "queue_map_ok {} W f" "d \<notin> W"
  shows "queue_map_ok {d} (insert d W) f"
proof -
  have "d \<notin> set (f a)" for a using assms by (auto simp: queue_map_ok_def)
  then show ?thesis using assms(1) by (simp add: queue_map_ok_def)
qed

lemma stop_thread_inv:
  assumes I: "thr_inv {} t" and d: "d \<in> runnable t"
  defines "t' \<equiv> set_thread t d (\<lambda>g. g\<lparr>g_state := T_WAITING\<rparr>)"
  shows "thr_inv {d} t'" "tids t' = tids t"
proof -
  note D = thr_invD [OF I]
  have dt: "d \<in> tids t" "d \<notin> waiters t" using d by (simp_all add: runnable_def)
  have thr: "threads t' = map (\<lambda>g. if g_tid g = d then g\<lparr>g_state := T_WAITING\<rparr> else g) (threads t)"
    unfolding t'_def by (rule threads_set_thread [OF D(2) dt(1)])
  have run: "g_state g = T_RUNNABLE \<and> g_deadline g = 0" if "g \<in> set (threads t)" "g_tid g = d" for g
    using that table_wf_thread [OF D(1) that(1)] dt(2) by (auto simp: waiters_def)
  have T: "table_wf t'" "tids t' = tids t"
    by (rule table_wf_map [OF D(1) thr]; use D(5) table_wf_thread [OF D(1)] run in \<open>simp add: t'_def\<close>)+
  have W: "waiters t' = insert d (waiters t)" by (rule waiters_one(2) [OF D(2) dt(1) thr]) simp_all
  have fut: "futicies t' = futicies t" by (simp add: t'_def)
  then have q: "queue_of t' = queue_of t" by (simp add: fun_eq_iff queue_of_qlook)
  have "queues_wf {d} t'"
    unfolding queues_wf_def W fut q by (rule conjI [OF D(3) queue_map_off [OF D(4) dt(2)]])
  moreover have "\<forall>g\<in>set (threads t'). g_tid g \<in> {d} \<longrightarrow> g_deadline g = 0" 
    unfolding thr set_map by (intro ballI impI) (elim imageE, simp add: run split: if_splits)
  ultimately show "thr_inv {d} t'" using T(1) by (simp add: thr_inv_def)
  show "tids t' = tids t" by (rule T(2))
qed

lemma exit_wf:
  assumes wf: "threads_wf t" and E: "mb_threads_exit t c m = Some (r, m')"
  shows "r = Ret t' c' v \<Longrightarrow> threads_wf t' \<and> tids t' = tids t - {active_tid t}"
    and "r = Died d t' c' \<Longrightarrow> d \<noteq> Last_exited"
    and "r = Ret t' c' v \<Longrightarrow> g_tid_address (thread_of t (active_tid t)) \<noteq> 0 \<Longrightarrow>
      queue_of t (g_tid_address (thread_of t (active_tid t))) = x # rest \<Longrightarrow> x \<in> runnable t'"
proof -
  note I = threads_wfD [OF wf]
  let ?a = "g_tid_address (thread_of t (active_tid t))"
  let ?t1 = "if ?a \<noteq> 0 then fst (unpark_one t ?a) else t"
  let ?t2 = "set_thread ?t1 (active_tid t) (\<lambda>g. g\<lparr>g_state := T_WAITING\<rparr>)"
  have U: "thr_inv {} ?t1" "tids ?t1 = tids t" "active_tid ?t1 = active_tid t" "active_tid t \<in> runnable ?t1"
    using unpark_one_inv [OF I(1), of ?a "fst (unpark_one t ?a)" "snd (unpark_one t ?a)"] I
    by (auto simp: runnable_def)
  note S = stop_thread_inv [OF U(1,4)]
  have key: "active_tid t \<noteq> 1 \<Longrightarrow> swap_to_next ?t2 c (sok 0) = Some (Ret t3 c3 v3) \<Longrightarrow>
      threads_wf (remove_thread t3 (active_tid t)) \<and> active_tid t3 \<noteq> active_tid t
        \<and> tids (remove_thread t3 (active_tid t)) = tids t - {active_tid t}
        \<and> runnable ?t1 - {active_tid t} \<subseteq> runnable (remove_thread t3 (active_tid t))" for t3 c3 v3
  proof -
    assume one: "active_tid t \<noteq> 1" and sw: "swap_to_next ?t2 c (sok 0) = Some (Ret t3 c3 v3)"
    note N = swap_to_next_Ret [OF S(1) sw]
    note R = remove_thread_wf [OF N(1,3) one]
    have "waiters (remove_thread t3 d') \<subseteq> waiters t3" for d'
      using remove_first_set by (fastforce simp: waiters_def remove_thread_def)
    then have "runnable t3 - {active_tid t} \<subseteq> runnable (remove_thread t3 (active_tid t))" using R(3) by (auto simp: runnable_def)
    moreover have "runnable ?t1 - {active_tid t} \<subseteq> runnable ?t2"
      using waiters_one(2) [OF thr_invD(2) [OF U(1)] _ threads_set_thread [OF thr_invD(2) [OF U(1)]], of "active_tid t"] U(4) S(2)
      by (auto simp: runnable_def)
    ultimately show ?thesis using R N(2,7) S(2) U(2) by blast
  qed
  have joined: "x \<in> runnable ?t1 - {active_tid t}" if nz: "?a \<noteq> 0" and qx: "queue_of t ?a = x # rest"
  proof -
    obtain u where "unpark_one t ?a = (u, Some (x, rest \<noteq> []))" "x \<in> waiters t"
      using unpark_one_eq [OF I(1), of ?a] qx by auto
    then show ?thesis using unpark_one_inv [OF I(1), of ?a u] nz I(2) waiters_sub by (auto simp: runnable_def)
  qed
  have dead: "swap_to_next ?t2 c (sok 0) = Some (Died d td cd) \<Longrightarrow> d = Deadlock" for d td cd
    using swap_loop_eq [OF thr_inv_store_regs(1) [OF S(1)]] by (auto simp: swap_to_next_def dest: pick_next_Died)
  have cs: "active_tid t = 1 \<and> r = Died Main_exited t c \<or> active_tid t \<noteq> 1 \<and>
     (\<exists>x. swap_to_next ?t2 c (sok 0) = Some x \<and> r = (case x of Died d td cd \<Rightarrow> Died d td cd
       | Ret t3 c3 v3 \<Rightarrow> if active_tid t3 = active_tid t then Died Last_exited t3 c3 else Ret (remove_thread t3 (active_tid t)) c3 v3))"
    using E U(3) by (auto simp: mb_threads_exit_def Let_def split: if_splits outcome.split)
  have "(r = Ret t' c' v \<longrightarrow> threads_wf t' \<and> tids t' = tids t - {active_tid t}) \<and> (r = Died d t' c' \<longrightarrow> d \<noteq> Last_exited)
      \<and> (r = Ret t' c' v \<longrightarrow> ?a \<noteq> 0 \<longrightarrow> queue_of t ?a = x # rest \<longrightarrow> x \<in> runnable t')"
  proof (cases "active_tid t = 1")
    case False
    then obtain y where y: "swap_to_next ?t2 c (sok 0) = Some y" "r = (case y of Died d td cd \<Rightarrow> Died d td cd
       | Ret t3 c3 v3 \<Rightarrow> if active_tid t3 = active_tid t then Died Last_exited t3 c3 else Ret (remove_thread t3 (active_tid t)) c3 v3)"
      using cs by blast
    show ?thesis
    proof (cases y)
      case (Ret t3 c3 v3)
      then show ?thesis using key [OF False y(1) [unfolded Ret]] y(2) joined by auto
    next
      case (Died d' td cd)
      then show ?thesis using dead [OF y(1) [unfolded Died]] y(2) by auto
    qed
  qed (use cs in auto)
  then show "r = Ret t' c' v \<Longrightarrow> threads_wf t' \<and> tids t' = tids t - {active_tid t}"
    "r = Died d t' c' \<Longrightarrow> d \<noteq> Last_exited"
    "r = Ret t' c' v \<Longrightarrow> ?a \<noteq> 0 \<Longrightarrow> queue_of t ?a = x # rest \<Longrightarrow> x \<in> runnable t'" by auto
qed

text \<open>Register updates of the running thread that touch neither its state nor its deadline.\<close>

lemma set_thread_wf:
  assumes wf: "threads_wf t" and tid: "tid \<in> tids t"
    and f: "\<And>g. g_tid (f g) = g_tid g \<and> g_state (f g) = g_state g \<and> g_deadline (f g) = g_deadline g"
  shows "threads_wf (set_thread t tid f)"
proof -
  note I = threads_wfD(1) [OF wf]
  have thr: "threads (set_thread t tid f) = map (\<lambda>g. if g_tid g = tid then f g else g) (threads t)"
    by (rule threads_set_thread [OF thr_invD(2) [OF I] tid])
  have a: "active_tid t \<in> tids t" using thr_invD(5) [OF I] .
  have S: "thr_inv {} (set_thread t tid f)" "waiters (set_thread t tid f) = waiters t" "tids (set_thread t tid f) = tids t"
    using thr_inv_regs [OF I thr] f a by simp_all
  show ?thesis using S threads_wfD(2) [OF wf] by (intro threads_wfI) (simp_all add: runnable_def)
qed

lemma insert_rev_above: "\<forall>x\<in>set xs. g_tid x < g_tid g \<Longrightarrow> insert_rev g xs = g # xs"
  by (cases xs) auto

lemma insert_thread_above:
  assumes "\<forall>x\<in>set (threads t). g_tid x < g_tid g"
  shows "insert_thread t g = t\<lparr>threads := threads t @ [g\<lparr>g_deadline := 0, g_seq := 0\<rparr>]\<rparr>"
  using assms by (simp add: insert_thread_def insert_rev_above)

lemma spawn_Inr:
  assumes "mb_threads_spawn mp t m area rsp rip ctid ptid parea = (t', m', Inr tid)"
  obtains g where "g_tid g = next_tid t" "g_state g = T_RUNNABLE" "g_deadline g = 0" "g_seq g = 0" "tid = next_tid t"
    "t' = (insert_thread t g)\<lparr>next_tid := (next_tid (insert_thread t g) + 1) mod 2 ^ 32\<rparr>"
proof -
  let ?stack = "\<lparr>rg_start = read64 m (parea + 96) - read64 m (parea + 104), rg_size = read64 m (parea + 104)\<rparr>"
  let ?g = "\<lparr>g_tid = next_tid t, g_state = T_RUNNABLE, g_rax = sok 0, g_rsp = rsp - 16, g_thread_area = area,
     g_tid_address = ctid, g_stack = ?stack, g_pending = no_range, g_deadline = 0, g_seq = 0\<rparr>"
  have "\<not> (area = 0 \<or> parea = 0)" using assms by (auto simp: mb_threads_spawn_def)
  moreover obtain u where "mp (mb_range_align_expand ?stack) = Inr u"
    using assms calculation by (cases "mp (mb_range_align_expand ?stack)") (simp_all add: mb_threads_spawn_def Let_def)
  ultimately have "tid = next_tid t \<and> t' = (insert_thread t ?g)\<lparr>next_tid := (next_tid (insert_thread t ?g) + 1) mod 2 ^ 32\<rparr>"
    using assms unfolding mb_threads_spawn_def Let_def by (simp only: if_False sum.case prod.inject sum.inject simp_thms) blast
  then show thesis by (intro that [of ?g]) simp_all
qed

lemma spawn_wf:
  assumes wf: "threads_wf t" and n: "next_tid t + 1 < 2 ^ 32"
    and S: "mb_threads_spawn mp t m area rsp rip ctid ptid parea = (t', m', r)"
  shows "threads_wf t' \<and> (\<forall>tid. r = Inr tid \<longrightarrow> tid \<notin> tids t \<and> tids t' = insert tid (tids t) \<and> tid \<in> runnable t')"
proof (cases r)
  case (Inl e)
  then have "t' = t" using S by (auto simp: mb_threads_spawn_def Let_def split: if_splits sum.splits)
  then show ?thesis using wf Inl by simp
next
  case (Inr tid)
  note I = threads_wfD [OF wf]
  note D = thr_invD [OF I(1)]
  have above: "\<forall>x\<in>set (threads t). g_tid x < next_tid t" using D(1) by (simp add: table_wf_def)
  obtain g where g: "g_tid g = next_tid t" "g_state g = T_RUNNABLE" "g_deadline g = 0" "g_seq g = 0" and tid: "tid = next_tid t"
    and ins: "t' = (insert_thread t g)\<lparr>next_tid := (next_tid (insert_thread t g) + 1) mod 2 ^ 32\<rparr>"
    by (rule spawn_Inr [OF S [unfolded Inr]])
  have t': "t' = t\<lparr>threads := threads t @ [g], next_tid := next_tid t + 1\<rparr>"
    unfolding ins using insert_thread_above [of t g] above g n by simp
  have T: "tids t' = insert tid (tids t)" by (auto simp: tids_def t' g tid)
  have W: "waiters t' = waiters t" using g by (auto simp: waiters_def t')
  have "sorted_wrt (<) (map g_tid (threads t'))"
    using D(1) above by (simp add: table_wf_def t' sorted_wrt_append g)
  then have "table_wf t'" using D(1) T g by (auto simp: table_wf_def t')
  moreover have "queue_of t' = queue_of t" by (simp add: fun_eq_iff queue_of_qlook t')
  then have "queues_wf {} t'" using D(3,4) by (simp add: queues_wf_def W) (simp add: t')
  ultimately have "thr_inv {} t'" by (simp add: thr_inv_def)
  moreover have nt: "tid \<notin> tids t" using above by (auto simp: tids_def tid)
  moreover have "tid \<in> runnable t'" using nt waiters_sub [of t] T W by (auto simp: runnable_def)
  moreover have "active_tid t' \<in> runnable t'" using I(2) T W by (auto simp: runnable_def t')
  ultimately show ?thesis using Inr T threads_wfI by simp
qed

lemma hold_take_wf:
  assumes "threads_wf t"
  shows "threads_wf (fst (mb_threads_hold_stack_unmap t r))" "threads_wf (fst (mb_threads_take_held_unmap t))"
    "threads_wf (fst (mb_threads_set_tid_address t a))"
  using assms set_thread_wf [OF assms thr_invD(5) [OF threads_wfD(1) [OF assms]]]
  by (auto simp: mb_threads_hold_stack_unmap_def mb_threads_take_held_unmap_def mb_threads_set_tid_address_def Let_def
      split: option.splits)

lemma requeue_wf: "threads_wf t \<Longrightarrow> mb_threads_futex_requeue t a b w r = (t', n) \<Longrightarrow> threads_wf t'"
  using requeue_inv [of "{}" t a b w r t' n] threads_wfD [of t] by (intro threads_wfI) (auto simp: runnable_def)

lemma sched_yield_wf: "threads_wf t \<Longrightarrow> mb_threads_sched_yield t c = Some (Ret t' c' v) \<Longrightarrow> threads_wf t'"
  unfolding mb_threads_sched_yield_def Let_def
  by (auto intro: swap_to_next_wf advance_inv dest: threads_wfD split: if_splits)

lemma save_wf: "threads_wf t \<Longrightarrow> mb_threads_save t c = Some (t', ch) \<Longrightarrow> threads_wf t'"
  using set_thread_wf [of t 1] thr_invD(6) [of "{}" t] threads_wfD [of t]
  by (auto simp: mb_threads_save_def Let_def split: if_splits)

section \<open>The step relation\<close>

inductive thr_step :: "mb_threads \<Rightarrow> mb_threads \<Rightarrow> bool" where
  spawn: "next_tid t + 1 < 2 ^ 32 \<Longrightarrow> mb_threads_spawn mp t m area rsp rip ctid ptid parea = (t', m', r) \<Longrightarrow> thr_step t t'"
| exit: "mb_threads_exit t c m = Some (Ret t' c' v, m') \<Longrightarrow> thr_step t t'"
| hold: "mb_threads_hold_stack_unmap t rg = (t', b) \<Longrightarrow> thr_step t t'"
| take_held: "mb_threads_take_held_unmap t = (t', rg') \<Longrightarrow> thr_step t t'"
| futex_wait: "mb_threads_futex_wait t c m a cmp = Some (Ret t' c' v) \<Longrightarrow> thr_step t t'"
| futex_wait_timeout: "mb_threads_futex_wait_timeout t c m a cmp has dl = Some (Ret t' c' v) \<Longrightarrow> thr_step t t'"
| requeue: "mb_threads_futex_requeue t a b' w q = (t', n) \<Longrightarrow> thr_step t t'"
| wake: "mb_threads_futex_wake t a k = (t', n) \<Longrightarrow> thr_step t t'"
| lock_pi: "mb_threads_futex_lock_pi t c m a = Some (Ret t' c' v, m') \<Longrightarrow> thr_step t t'"
| unlock_pi: "mb_threads_futex_unlock_pi t c m a = (t', c', v, m') \<Longrightarrow> thr_step t t'"
| set_tid: "mb_threads_set_tid_address t a = (t', n) \<Longrightarrow> thr_step t t'"
| yield_value: "mb_threads_yield_value t c ret = Some (Ret t' c' v) \<Longrightarrow> thr_step t t'"
| yield: "mb_threads_yield t c = Some (Ret t' c' v) \<Longrightarrow> thr_step t t'"
| sched_yield: "mb_threads_sched_yield t c = Some (Ret t' c' v) \<Longrightarrow> thr_step t t'"
| advance: "thr_step t (mb_threads_advance t ns)"
| save: "mb_threads_save t c = Some (t', ch) \<Longrightarrow> thr_step t t'"

lemmas thr_ops_wf = spawn_wf hold_take_wf wait_timeout_wf requeue_wf unlock_pi_wf sched_yield_wf save_wf
  advance_wf park_me_wf swap_to_next_wf

lemma thr_step_wf: "thr_step t t' \<Longrightarrow> threads_wf t \<Longrightarrow> threads_wf t'"
proof (induction rule: thr_step.induct)
  case (spawn t mp m area rsp rip ctid ptid parea t' m' r)
  then show ?case using spawn_wf by blast
next
  case (exit t c m t' c' v m')
  then show ?case using exit_wf(1) by blast
next
  case (hold t rg t' b)
  then show ?case using hold_take_wf(1) [of t rg] by simp
next
  case (take_held t t' rg')
  then show ?case using hold_take_wf(2) [of t] by simp
next
  case (futex_wait t c m a cmp t' c' v)
  then show ?case using park_me_wf by (auto simp: mb_threads_futex_wait_def split: if_splits)
next
  case (futex_wait_timeout t c m a cmp has dl t' c' v)
  then show ?case using wait_timeout_wf by blast
next
  case (requeue t a b' w q t' n)
  then show ?case using requeue_wf by blast
next
  case (wake t a k t' n)
  then show ?case using requeue_wf by (auto simp: mb_threads_futex_wake_def)
next
  case (lock_pi t c m a t' c' v m')
  then show ?case using park_me_wf by (auto simp: mb_threads_futex_lock_pi_def Let_def split: if_splits)
next
  case (unlock_pi t c m a t' c' v m')
  then show ?case using unlock_pi_wf by blast
next
  case (set_tid t a t' n)
  then show ?case using hold_take_wf(3) [of t a] by simp
qed (auto simp: mb_threads_yield_value_def mb_threads_yield_def intro: thr_ops_wf dest: threads_wfD)

lemma threads_wf_new: "threads_wf mb_threads_new"
proof -
  have q: "queue_of mb_threads_new a = []" for a by (simp add: queue_of_qlook mb_threads_new_def insert_thread_def)
  show ?thesis
    unfolding threads_wf_def table_wf_def queues_wf_def queue_map_ok_def q
    by (auto simp: mb_threads_new_def insert_thread_def new_thread_def tids_def waiters_def queue_list_ok_def)
qed

end
