(* ===== verification/Mb_Threads_Spec.thy ===== *)
theory Mb_Threads_Spec
  imports Mb_Threads_Steps
begin

text \<open>
  The properties of the thread set: the invariant at every reachable thread set,
  round-robin scheduling with the v3 clock, exact expiry, clock saturation, FIFO
  wake-up and requeue, the priority-inheritance hand-off, and the round trip of
  the thread set through a state.
\<close>

section \<open>Facts about the clock\<close>

definition deadlines :: "mb_threads \<Rightarrow> nat set" where
  "deadlines t = {g_deadline g |g. g \<in> set (threads t) \<and> g_deadline g \<noteq> 0}"

lemma earliest_deadline_Min:
  assumes "table_wf t"
  shows "earliest_deadline t = (if deadlines t = {} then 0 else Min (deadlines t))"
proof (cases "deadlines t = {}")
  case True
  then have "g_deadline g = 0" if "g \<in> set (threads t)" for g using that by (auto simp: deadlines_def)
  then show ?thesis using True earliest_deadline_props(1) [of t] by fastforce
next
  case False
  then obtain g where g: "g \<in> set (threads t)" "g_deadline g \<noteq> 0" by (auto simp: deadlines_def)
  have w: "x \<in> set (threads t) \<Longrightarrow> g_deadline x \<noteq> 0 \<Longrightarrow> g_state x = T_WAITING" for x
    using table_wf_thread [OF assms] by blast
  have nz: "earliest_deadline t \<noteq> 0" using earliest_deadline_props(2) [OF g(1) w [OF g] g(2)] by simp
  have "finite (deadlines t)" by (simp add: deadlines_def)
  moreover have "earliest_deadline t \<in> deadlines t"
    using earliest_deadline_props(1) [OF nz] nz unfolding deadlines_def by force
  moreover have "earliest_deadline t \<le> d" if "d \<in> deadlines t" for d
    using that earliest_deadline_props(2) w by (auto simp: deadlines_def)
  ultimately have "Min (deadlines t) = earliest_deadline t" by (intro Min_eqI)
  then show ?thesis using False by simp
qed

lemma earliest_nonzero:
  assumes "table_wf t" "deadlines t \<noteq> {}"
  shows "earliest_deadline t \<noteq> 0"
proof -
  have "finite (deadlines t)" by (simp add: deadlines_def)
  then have "Min (deadlines t) \<in> deadlines t" using assms(2) by (rule Min_in)
  then have "Min (deadlines t) \<noteq> 0" by (auto simp: deadlines_def)
  then show ?thesis using assms by (simp add: earliest_deadline_Min)
qed

lemma store_regs_deadlines [simp]:
  assumes "thr_inv X t"
  shows "deadlines (store_regs t c v) = deadlines t"
proof -
  have "threads (store_regs t c v) = map (\<lambda>g. if g_tid g = active_tid t
      then g\<lparr>g_rax := v, g_rsp := cx_guest_rsp c, g_thread_area := cx_thread_area c\<rparr> else g) (threads t)"
    unfolding store_regs_def by (rule threads_set_thread [OF thr_invD(2,5) [OF assms]])
  then have "map g_deadline (threads (store_regs t c v)) = map g_deadline (threads t)" by simp
  then have "g_deadline ` set (threads (store_regs t c v)) = g_deadline ` set (threads t)"
    unfolding set_map [symmetric] by (rule arg_cong)
  moreover have "deadlines u = {d \<in> g_deadline ` set (threads u). d \<noteq> 0}" for u by (auto simp: deadlines_def)
  ultimately show ?thesis by simp
qed

lemma settle_eq:
  assumes I: "thr_inv X t"
  shows "settle t = (if runnable t = {} \<and> spec t = 3 \<and> deadlines t \<noteq> {} then expire_due (t\<lparr>vclock_ns := Min (deadlines t)\<rparr>) else t)"
proof -
  have "finite (deadlines t)" by (simp add: deadlines_def)
  then have "deadlines t \<noteq> {} \<Longrightarrow> Min (deadlines t) \<noteq> 0" using Min_in [of "deadlines t"] by (auto simp: deadlines_def)
  then show ?thesis
    using next_runnable_None [OF thr_invD(1) [OF I]] earliest_deadline_Min [OF thr_invD(1) [OF I]]
    by (auto simp: settle_def)
qed

lemma due_tids_earliest:
  assumes "table_wf t" "deadlines t \<noteq> {}" "vclock_ns t = Min (deadlines t)"
  shows "due_tids t = {g_tid g |g. g \<in> set (threads t) \<and> g_deadline g = Min (deadlines t)}"
proof -
  have fin: "finite (deadlines t)" by (simp add: deadlines_def)
  have nz: "Min (deadlines t) \<noteq> 0" using Min_in [OF fin assms(2)] by (auto simp: deadlines_def)
  have "is_due (vclock_ns t) g \<longleftrightarrow> g_deadline g = Min (deadlines t)" if "g \<in> set (threads t)" for g
  proof
    assume "is_due (vclock_ns t) g"
    moreover from this have "Min (deadlines t) \<le> g_deadline g"
      using that by (intro Min_le [OF fin]) (auto simp: is_due_def deadlines_def)
    ultimately show "g_deadline g = Min (deadlines t)" using assms(3) by (simp add: is_due_def)
  next
    assume "g_deadline g = Min (deadlines t)"
    then show "is_due (vclock_ns t) g" using table_wf_thread [OF assms(1) that] nz assms(3) by (simp add: is_due_def)
  qed
  then show ?thesis unfolding due_tids_def by (intro Collect_cong) auto
qed

lemma store_regs_tid_deadline:
  assumes "thr_inv X t"
  shows "{g_tid g |g. g \<in> set (threads (store_regs t c v)) \<and> g_deadline g = d}
       = {g_tid g |g. g \<in> set (threads t) \<and> g_deadline g = d}"
proof -
  have "threads (store_regs t c v) = map (\<lambda>g. if g_tid g = active_tid t
      then g\<lparr>g_rax := v, g_rsp := cx_guest_rsp c, g_thread_area := cx_thread_area c\<rparr> else g) (threads t)"
    unfolding store_regs_def by (rule threads_set_thread [OF thr_invD(2,5) [OF assms]])
  then have "map (\<lambda>g. (g_tid g, g_deadline g)) (threads (store_regs t c v)) = map (\<lambda>g. (g_tid g, g_deadline g)) (threads t)"
    by simp
  then have "(\<lambda>g. (g_tid g, g_deadline g)) ` set (threads (store_regs t c v)) = (\<lambda>g. (g_tid g, g_deadline g)) ` set (threads t)"
    unfolding set_map [symmetric] by (rule arg_cong)
  moreover have "{g_tid g |g. g \<in> S \<and> g_deadline g = d} = {i. (i, d) \<in> (\<lambda>g. (g_tid g, g_deadline g)) ` S}" for S :: "gthread set"
    by auto
  ultimately show ?thesis by (simp only:)
qed

lemma runnable_after_jump:
  assumes I: "thr_inv X t" and "runnable t = {}" "deadlines t \<noteq> {}"
  shows "runnable (expire_due ((store_regs t c v)\<lparr>vclock_ns := Min (deadlines t)\<rparr>))
       = {g_tid g |g. g \<in> set (threads t) \<and> g_deadline g = Min (deadlines t)}"
proof -
  let ?r = "store_regs t c v"
  let ?t = "?r\<lparr>vclock_ns := Min (deadlines t)\<rparr>"
  note R = thr_inv_store_regs [OF I, of c v]
  have I': "thr_inv X ?t" using R by (simp add: thr_inv_clock)
  have "deadlines ?t = deadlines ?r" by (simp add: deadlines_def)
  then have dl: "deadlines ?t = deadlines t" using I by simp
  have "due_tids ?t = {g_tid g |g. g \<in> set (threads ?t) \<and> g_deadline g = Min (deadlines t)}"
    using due_tids_earliest [OF thr_invD(1) [OF I']] assms(3) by (simp add: dl)
  then have due: "due_tids ?t = {g_tid g |g. g \<in> set (threads t) \<and> g_deadline g = Min (deadlines t)}"
    using store_regs_tid_deadline [OF I] by simp
  have "tids t = waiters t" using assms(2) waiters_sub [of t] by (auto simp: runnable_def)
  moreover have "due_tids ?t \<subseteq> tids t" unfolding due by (auto simp: tids_def)
  ultimately show ?thesis
    using thr_inv_expire_due [OF I'] R unfolding due [symmetric] by (auto simp: runnable_def thr_inv_clock)
qed

section \<open>The thread set of a state\<close>

lemma num_tstate_num: "s \<in> {T_RUNNABLE, T_WAITING} \<Longrightarrow> num_tstate (tstate_num s) = s"
  by (auto simp: num_tstate_def)

lemma unat_of_nat32: "n < 2 ^ 32 \<Longrightarrow> unat (of_nat n :: u32) = n"
  by (simp add: unat_of_nat take_bit_nat_eq_self)

lemma unat_of_nat64: "n < 2 ^ 64 \<Longrightarrow> unat (of_nat n :: u64) = n"
  by (simp add: unat_of_nat take_bit_nat_eq_self)

definition thread_saved :: "gthread \<Rightarrow> gthread" where
  "thread_saved g = g\<lparr>g_deadline := 0, g_seq := 0\<rparr>"

lemma take_gthread_bytes:
  assumes "g_tid g < 2 ^ 32" "g_state g \<in> {T_RUNNABLE, T_WAITING}"
  shows "take_gthread (gthread_bytes g @ s) = Some (thread_saved g, s)"
  unfolding take_gthread_def gthread_bytes_def thread_saved_def
  by (simp add: num_tstate_num [OF assms(2)] unat_of_nat32 [OF assms(1)])

lemma load_threads_bytes:
  assumes "sorted_wrt (<) (map g_tid (threads t @ gs))"
    and "\<forall>g\<in>set gs. g_tid g < 2 ^ 32 \<and> g_state g \<in> {T_RUNNABLE, T_WAITING}"
  shows "load_threads (length gs) t (concat (map gthread_bytes gs) @ s)
       = Some (t\<lparr>threads := threads t @ map thread_saved gs\<rparr>, s)"
  using assms
proof (induction gs arbitrary: t)
  case (Cons g gs)
  have above: "\<forall>x\<in>set (threads t). g_tid x < g_tid (thread_saved g)"
    using Cons.prems(1) by (auto simp: sorted_wrt_append thread_saved_def)
  have ins: "insert_thread t (thread_saved g) = t\<lparr>threads := threads t @ [thread_saved g]\<rparr>"
    unfolding insert_thread_above [OF above] by (simp add: thread_saved_def)
  have srt: "sorted_wrt (<) (map g_tid (threads (t\<lparr>threads := threads t @ [thread_saved g]\<rparr>) @ gs))"
    using Cons.prems(1) by (simp add: thread_saved_def)
  have tk: "take_gthread (gthread_bytes g @ concat (map gthread_bytes gs) @ s) = Some (thread_saved g, concat (map gthread_bytes gs) @ s)"
    using Cons.prems(2) by (intro take_gthread_bytes) auto
  show ?case using Cons.IH [OF srt] Cons.prems(2) by (simp add: tk ins)
qed simp

lemma load_tids_bytes:
  "\<forall>x\<in>set xs. x < 2 ^ 32 \<Longrightarrow> load_tids (length xs) (concat (map (\<lambda>tid. u32_bytes (of_nat tid)) xs) @ s) = Some (xs, s)"
  by (induction xs) (auto simp: unat_of_nat32)

lemma load_queues_bytes:
  assumes "distinct (map q_addr (futicies t @ qs))"
    and "\<forall>q\<in>set qs. length (q_tids q) < 2 ^ 32 \<and> (\<forall>x\<in>set (q_tids q). x < 2 ^ 32)"
  shows "load_queues (length qs) t (concat (concat (map queue_chunks qs)) @ s) = Some (t\<lparr>futicies := futicies t @ qs\<rparr>, s)"
  using assms
proof (induction qs arbitrary: t)
  case (Cons q qs)
  have new: "find_queue t (q_addr q) = None" using Cons.prems(1) by (auto simp: find_queue_None)
  have add: "add_queue t (q_addr q) (q_tids q) = t\<lparr>futicies := futicies t @ [q]\<rparr>"
    using new by (simp add: add_queue_def)
  have len: "unat (of_nat (length (q_tids q)) :: u32) = length (q_tids q)" using Cons.prems(2) by (simp add: unat_of_nat32)
  have chunks: "concat (queue_chunks q) = u64_bytes (q_addr q) @ u32_bytes (of_nat (length (q_tids q)))
      @ concat (map (\<lambda>tid. u32_bytes (of_nat tid)) (q_tids q))"
    by (simp add: queue_chunks_def)
  have tids: "load_tids (length (q_tids q)) (concat (map (\<lambda>tid. u32_bytes (of_nat tid)) (q_tids q)) @ s') = Some (q_tids q, s')" for s'
    using Cons.prems(2) by (intro load_tids_bytes) simp
  have d: "distinct (map q_addr (futicies (t\<lparr>futicies := futicies t @ [q]\<rparr>) @ qs))" using Cons.prems(1) by simp
  show ?case using Cons.IH [OF d] Cons.prems(2) by (simp add: chunks len tids add)
qed simp

lemma load_deadlines_bytes:
  "\<forall>g\<in>set gs. g_deadline g < 2 ^ 64 \<Longrightarrow>
   load_deadlines (map thread_saved gs) (concat (map (\<lambda>g. u64_bytes (of_nat (g_deadline g))) gs) @ s)
     = Some (map (\<lambda>g. g\<lparr>g_seq := 0\<rparr>) gs, s)"
  by (induction gs) (auto simp: unat_of_nat64 thread_saved_def)

section \<open>Properties\<close>

definition threads_start :: "int \<Rightarrow> nat \<Rightarrow> mb_threads" where
  "threads_start sp rev' = mb_threads_set_kit_revision (mb_threads_set_spec mb_threads_new sp) rev'"

lemma threads_wf_start: "threads_wf (threads_start sp rev')"
proof -
  have q: "queue_of (threads_start sp rev') a = []" for a
    by (simp add: queue_of_qlook threads_start_def mb_threads_set_kit_revision_def mb_threads_set_spec_def
        mb_threads_new_def insert_thread_def)
  show ?thesis
    unfolding threads_wf_def table_wf_def queues_wf_def queue_map_ok_def q
    by (auto simp: threads_start_def mb_threads_set_kit_revision_def mb_threads_set_spec_def mb_threads_new_def
        insert_thread_def new_thread_def tids_def waiters_def queue_list_ok_def)
qed


definition thr_demo_spawn :: mb_threads where
  "thr_demo_spawn = fst (mb_threads_spawn (\<lambda>_. Inr ()) (threads_start 3 2) (\<lambda>_. 0) 16 4096 0 0 256 512)"


text \<open>C10: The scheduler always answers. If a thread is runnable, the clock stands still and
  the next runnable id above the running thread's is chosen, else the least. If none is
  and the machine is v3 with a deadline pending, the clock jumps to the earliest deadline,
  exactly the threads of that deadline become runnable and the choice is made among them.
  The machine stops for deadlock exactly when no thread is runnable and no deadline can
  come.\<close>

theorem scheduler_round_robin:
  assumes "thr_inv X t"
  shows "case swap_to_next t c ret of
      None \<Rightarrow> False
    | Some (Died d t' c') \<Rightarrow> d = Deadlock \<and> runnable t = {} \<and> (spec t \<noteq> 3 \<or> deadlines t = {})
    | Some (Ret t' c' v) \<Rightarrow>
        round_robin (runnable t') (active_tid t) = Some (active_tid t')
        \<and> (if runnable t \<noteq> {} then vclock_ns t' = vclock_ns t \<and> runnable t' = runnable t
           else spec t = 3 \<and> deadlines t \<noteq> {} \<and> vclock_ns t' = Min (deadlines t)
             \<and> runnable t' = {g_tid g |g. g \<in> set (threads t) \<and> g_deadline g = Min (deadlines t)})"
proof -
  let ?r = "store_regs t c ret"
  note R = thr_inv_store_regs [OF assms, of c ret]
  note T = settle_inv [OF R(1)]
  have rr: "runnable ?r = runnable t" using R by (simp add: runnable_def)
  obtain u where P: "swap_to_next t c ret = Some (pick_next (settle ?r) c u)"
    using swap_loop_eq [OF R(1), of c ret] by (auto simp: swap_to_next_def)
  have nz: "deadlines t \<noteq> {} \<Longrightarrow> earliest_deadline ?r \<noteq> 0"
    using earliest_nonzero [OF thr_invD(1) [OF R(1)]] assms by simp
  note next_eq = next_runnable_eq [OF thr_invD(1) [OF T(1)]]
  show ?thesis
  proof (cases "pick_next (settle ?r) c u")
    case (Died d t' c')
    have "runnable (settle ?r) = {}"
      using pick_next_Died [OF Died] next_runnable_None [OF thr_invD(1) [OF T(1)]] by simp
    then have "runnable t = {} \<and> (spec t \<noteq> 3 \<or> deadlines t = {})"
      using T(6) rr settle_runnable [OF R(1)] nz by (cases "deadlines t = {}") auto
    then show ?thesis using P Died pick_next_Died [OF Died] by simp
  next
    case (Ret t' c' v)
    note N = pick_next_Ret [OF T(1) Ret]
    have rob: "round_robin (runnable t') (active_tid t) = Some (active_tid t')"
      using N next_eq T(3) by (simp add: runnable_def)
    have rt': "runnable t' = runnable (settle ?r)" using N by (simp add: runnable_def)
    show ?thesis
    proof (cases "runnable t = {}")
      case False
      then have "settle ?r = ?r" using rr by (simp add: settle_eq [OF R(1)])
      then show ?thesis using P Ret False rob N rt' rr by simp
    next
      case True
      have ne: "runnable (settle ?r) \<noteq> {}" using N rt' by auto
      then have c: "spec t = 3" "deadlines t \<noteq> {}"
        using True rr assms by (auto simp: settle_eq [OF R(1)] split: if_splits)
      then have s: "settle ?r = expire_due (?r\<lparr>vclock_ns := Min (deadlines t)\<rparr>)"
        using True rr assms by (simp add: settle_eq [OF R(1)])
      have I': "thr_inv X (?r\<lparr>vclock_ns := Min (deadlines t)\<rparr>)" using R by (simp add: thr_inv_clock)
      note F = expire_due_frame [OF thr_invD(2,3) [OF I']]
      have run: "runnable (settle ?r) = {g_tid g |g. g \<in> set (threads t) \<and> g_deadline g = Min (deadlines t)}"
        unfolding s by (rule runnable_after_jump [OF assms True c(2)])
      show ?thesis using P Ret True rob rt' run c N(9) s F by simp
    qed
  qed
qed

text \<open>A v3 thread set with three waiters on one futex, two of them with a deadline.\<close>

definition demo_waiter :: "nat \<Rightarrow> nat \<Rightarrow> gthread" where
  "demo_waiter tid dl = (new_thread tid)\<lparr>g_state := T_WAITING, g_deadline := dl\<rparr>"

definition thr_demo :: mb_threads where
  "thr_demo = \<lparr>next_tid = 5, active_tid = 1,
     threads = [new_thread 1, demo_waiter 2 5000, demo_waiter 3 0, demo_waiter 4 7000],
     futicies = [\<lparr>q_addr = 64, q_tids = [3, 2, 4]\<rparr>], spec = 3, vclock_ns = 1000, park_seq = 2, kit_revision = 2\<rparr>"

definition ctx_demo :: mb_context where
  "ctx_demo = \<lparr>cx_thread_area = 4096, cx_guest_rsp = 8192, cx_guest_fcw = 0x037F, cx_guest_mxcsr = 0x1F80\<rparr>"

lemma queue_of_demo: "queue_of thr_demo = (\<lambda>a. if a = 64 then [3, 2, 4] else [])"
  by (simp add: fun_eq_iff queue_of_qlook thr_demo_def)

lemma thr_demo_views: "tids thr_demo = {1, 2, 3, 4}" "waiters thr_demo = {2, 3, 4}" "runnable thr_demo = {1}"
  "deadlines thr_demo = {5000, 7000}"
  unfolding tids_def waiters_def runnable_def deadlines_def setcompr_set
  by (auto simp: thr_demo_def demo_waiter_def new_thread_def)

lemma thr_demo_fields: "active_tid thr_demo = 1" "kit_revision thr_demo = 2" "vclock_ns thr_demo = 1000"
  "spec thr_demo = 3" "g_deadline (threads thr_demo ! Suc 0) = 5000"
  by (simp_all add: thr_demo_def demo_waiter_def)

lemma thr_demo_inv: "thr_inv {} thr_demo"
proof -
  have "table_wf thr_demo"
    unfolding table_wf_def thr_demo_views by (simp add: thr_demo_def demo_waiter_def new_thread_def)
  moreover have "queues_wf {} thr_demo"
    unfolding queues_wf_def queue_map_ok_def queue_of_demo thr_demo_views
    by (auto simp: queue_list_ok_def thr_demo_def split: if_splits)
  ultimately show ?thesis by (simp add: thr_inv_def)
qed

theorem scheduler_round_robin_witness:
  "thr_inv {} thr_demo \<and> (\<exists>t' c' v. swap_to_next thr_demo ctx_demo 0 = Some (Ret t' c' v) \<and> active_tid t' = 1)"
proof -
  have "round_robin {1} 1 = Some 1" by (simp add: round_robin_def)
  then show ?thesis
    using scheduler_round_robin [OF thr_demo_inv, of ctx_demo 0] thr_demo_inv thr_demo_views
    by (auto simp: thr_demo_def round_robin_def split: option.splits outcome.splits if_splits)
qed

text \<open>C27: Advancing the clock wakes exactly the threads whose deadline has come: each is made
  runnable with ETIMEDOUT as its result and its deadline cleared, it leaves its futex
  queue, and every other thread and the order of the queues stay as they were.\<close>

theorem advance_expires_exactly:
  fixes t :: mb_threads and ns :: nat
  assumes "thr_inv X t"
  defines "now \<equiv> mb_threads_ns_add t (vclock_ns t) ns"
  shows "let t' = mb_threads_advance t ns;
             due = {g_tid g |g. g \<in> set (threads t) \<and> g_state g = T_WAITING \<and> g_deadline g \<noteq> 0 \<and> g_deadline g \<le> now}
    in vclock_ns t' = now
     \<and> threads t' = map (\<lambda>g. if g_tid g \<in> due
          then g\<lparr>g_state := T_RUNNABLE, g_deadline := 0, g_seq := 0, g_rax := serr ETIMEDOUT\<rparr> else g) (threads t)
     \<and> queue_of t' = (\<lambda>a. filter (\<lambda>x. x \<notin> due) (queue_of t a))
     \<and> (\<forall>g\<in>set (threads t'). \<not> is_due now g)"
proof -
  let ?t = "t\<lparr>vclock_ns := now\<rparr>"
  have I: "thr_inv X ?t" using assms(1) by (simp add: thr_inv_clock)
  note D = thr_invD [OF I]
  let ?due = "{g_tid g |g. g \<in> set (threads t) \<and> g_state g = T_WAITING \<and> g_deadline g \<noteq> 0 \<and> g_deadline g \<le> now}"
  have due: "due_tids ?t = ?due" by (simp add: due_tids_def is_due_def)
  have iff: "is_due now g \<longleftrightarrow> g_tid g \<in> ?due" if "g \<in> set (threads t)" for g
    using that thread_of_unique [OF thr_invD(2) [OF assms(1)]] by (auto simp: is_due_def) (metis that)+
  have thr: "threads (expire_due ?t) = map (\<lambda>g. if g_tid g \<in> ?due
          then g\<lparr>g_state := T_RUNNABLE, g_deadline := 0, g_seq := 0, g_rax := serr ETIMEDOUT\<rparr> else g) (threads t)"
    unfolding threads_expire_due [OF D(2,3)] using iff by (intro map_cong) (auto simp: expired_def make_runnable_def)
  have "\<not> is_due now g" if "g \<in> set (threads (expire_due ?t))" for g
    using that unfolding threads_expire_due [OF D(2,3)] by auto
  moreover have "queue_of (expire_due ?t) = (\<lambda>a. filter (\<lambda>x. x \<notin> ?due) (queue_of t a))"
    using expire_due_eq [OF D(2,3)] unfolding due by (simp add: thr_inv_clock)
  moreover have "vclock_ns (expire_due ?t) = now" using expire_due_frame(4) [OF D(2,3)] by simp
  ultimately show ?thesis unfolding Let_def mb_threads_advance_def now_def [symmetric] thr by blast
qed

theorem advance_expires_exactly_witness:
  "thr_inv {} thr_demo \<and> mb_threads_ns_add thr_demo (vclock_ns thr_demo) 4500 = 5500
   \<and> queue_of (mb_threads_advance thr_demo 4500) 64 = [3, 4]
   \<and> map g_state (threads (mb_threads_advance thr_demo 4500)) = [T_RUNNABLE, T_RUNNABLE, T_WAITING, T_WAITING]"
proof -
  have n: "mb_threads_ns_add thr_demo (vclock_ns thr_demo) 4500 = 5500"
    by (simp add: mb_threads_ns_add_def thr_demo_def MB_V3_CLOCK_MAX_def MB_CLOCK_START_MAX_SEC_def)
  have due: "{g_tid g |g. g \<in> set (threads thr_demo) \<and> g_state g = T_WAITING \<and> g_deadline g \<noteq> 0 \<and> g_deadline g \<le> 5500} = {2}"
    unfolding setcompr_set by (simp add: thr_demo_def demo_waiter_def new_thread_def)
  show ?thesis
    using advance_expires_exactly [OF thr_demo_inv, of 4500] thr_demo_inv
    unfolding n due Let_def by (simp add: queue_of_demo) (simp add: thr_demo_def demo_waiter_def new_thread_def)
qed

text \<open>C30: From guest kit revision 2 the clock saturates instead of wrapping: a valid timespec
  is converted to the smaller of its nanoseconds and the clock's largest value, and adding
  to a clock within range gives the smaller of the sum and that value, so that the clock
  never goes back.\<close>

theorem clock_saturates:
  assumes "2 \<le> kit_revision t" "0 \<le> sec" "sec < 2 ^ 63" "0 \<le> nsec" "nsec < 1000000000" "a \<le> MB_V3_CLOCK_MAX"
  shows "mb_threads_ns_of t sec nsec = min (nat (sec * 1000000000 + nsec)) MB_V3_CLOCK_MAX
    \<and> mb_threads_ns_add t a b = min (a + b) MB_V3_CLOCK_MAX"
proof -
  define M where "M = MB_V3_CLOCK_MAX"
  have M: "M = 11188625673709551615" by (simp add: M_def MB_V3_CLOCK_MAX_def MB_CLOCK_START_MAX_SEC_def)
  obtain s n where sn: "sec = int s" "nsec = int n" using assms(2,4) by (metis nonneg_int_cases)
  have b: "s < 2 ^ 63" "n < 1000000000" using assms(3,5) unfolding sn by simp_all
  have mods: "nat (sec mod 2 ^ 64) = s" "nat (nsec mod 2 ^ 64) = n" using b by (simp_all add: sn nat_mod_distrib)
  have nM: "n \<le> M" using b M by simp
  have M64: "M < 2 ^ 64" by (simp add: M)
  have "(M + 2 ^ 64 - n) mod 2 ^ 64 = (M - n + 2 ^ 64) mod 2 ^ 64" using nM by (simp only: diff_add_assoc2)
  also have "\<dots> = M - n" unfolding mod_add_self2 by (rule mod_less) (rule le_less_trans [OF diff_le_self M64])
  finally have sub: "(M + 2 ^ 64 - n) mod 2 ^ 64 = M - n" .
  from nM have dv: "(M - n) div 1000000000 < s \<longleftrightarrow> M < s * 1000000000 + n"
    by (simp add: div_less_iff_less_mult less_diff_conv2)
  have md: "x \<le> M \<Longrightarrow> x mod 2 ^ 64 = x" for x
    by (intro mod_less) (rule le_less_trans [OF _ M64])
  have "mb_threads_ns_of t sec nsec = (if M < s * 1000000000 + n then M else (s * 1000000000 + n) mod 2 ^ 64)"
    using assms(1) by (simp only: mb_threads_ns_of_def Let_def mods M_def [symmetric] sub dv simp_thms)
  then have "mb_threads_ns_of t sec nsec = min (s * 1000000000 + n) M"
    by (cases "M < s * 1000000000 + n") (simp_all only: if_True if_False md not_less min.absorb2 min.absorb1 less_imp_le)
  moreover have "nat (sec * 1000000000 + nsec) = s * 1000000000 + n" unfolding sn by (simp add: nat_int_add)
  moreover have "mb_threads_ns_add t a b = min (a + b) M"
  proof (cases "M - a < b")
    case True
    then show ?thesis using assms(1,6) by (simp add: mb_threads_ns_add_def flip: M_def)
  next
    case False
    then have "a + b \<le> M" using assms(6) by (simp flip: M_def)
    moreover have "\<not> (M < a \<or> M - a < b)" using False assms(6) by (simp flip: M_def)
    ultimately show ?thesis using md [of "a + b"] unfolding mb_threads_ns_add_def M_def [symmetric]
      by (simp only: min.absorb1 if_False simp_thms)
  qed
  ultimately show ?thesis by (simp add: M_def)
qed

theorem clock_saturates_witness:
  "mb_threads_ns_of thr_demo 20000000000 5 = MB_V3_CLOCK_MAX \<and> mb_threads_ns_of thr_demo 3 5 = 3000000005
   \<and> mb_threads_ns_add thr_demo 1000 4500 = 5500"
  using clock_saturates [of thr_demo 20000000000 5 1000 4500] clock_saturates [of thr_demo 3 5 1000 4500]
  by (simp add: thr_demo_def MB_V3_CLOCK_MAX_def MB_CLOCK_START_MAX_SEC_def)

text \<open>C26: A futex requeue takes the waiters of the first address in the order they came: it
  makes the first \<open>w\<close> runnable, moves the next \<open>r\<close> to the end of the second address's
  queue, leaves the rest in place and answers how many it took; every other queue and
  thread is untouched. A wake-up is the case \<open>r = 0\<close>.\<close>

theorem futex_requeue_fifo:
  assumes "thr_inv X t" "a \<noteq> b \<or> r = 0"
  shows "let q = queue_of t a; woken = take w q; moved = take r (drop w q);
             (t', n) = mb_threads_futex_requeue t a b w r
    in n = length woken + length moved
      \<and> queue_of t' = ((queue_of t)(b := queue_of t b @ moved))(a := drop (w + r) q)
      \<and> waiters t' = waiters t - set woken
      \<and> threads t' = map (\<lambda>g. if g_tid g \<in> set woken then make_runnable g
           else if g_tid g \<in> set moved then (make_runnable g)\<lparr>g_state := T_WAITING\<rparr> else g) (threads t)"
proof -
  let ?q = "queue_of t a"
  let ?W = "set (take w ?q)" and ?M = "set (take r (drop w ?q))"
  let ?h = "\<lambda>g. if g_tid g \<in> ?W then make_runnable g
           else if g_tid g \<in> ?M then (make_runnable g)\<lparr>g_state := T_WAITING\<rparr> else g"
  obtain t' n where e: "mb_threads_futex_requeue t a b w r = (t', n)" by (cases "mb_threads_futex_requeue t a b w r")
  have R: "n = min (w + r) (length ?q)" "queue_of t' = ((queue_of t)(b := queue_of t b @ take r (drop w ?q)))(a := drop (w + r) ?q)"
    and thr: "threads t' = map ?h (threads t)"
    using requeue_eq [OF assms, of w] unfolding e by simp_all
  have sub: "set ?q \<subseteq> waiters t" using thr_invD(4) [OF assms(1)] unfolding queue_map_ok_def by blast
  have mw: "?M \<subseteq> waiters t" using sub by (meson in_set_dropD in_set_takeD subsetD subsetI)
  have "waiters t' = {g_tid g |g. g \<in> set (threads t) \<and> g_state (?h g) = T_WAITING}"
    by (rule waiters_map [OF thr]) simp
  also have "\<dots> = {g_tid g |g. g \<in> set (threads t) \<and> g_state g = T_WAITING} - ?W"
    using mw waiters_thread_of [OF thr_invD(2) [OF assms(1)]] thread_of_unique [OF thr_invD(2) [OF assms(1)]]
    by (auto simp: tids_def split: if_splits)
  finally have "waiters t' = waiters t - ?W" by (simp add: waiters_def)
  moreover have "n = length (take w ?q) + length (take r (drop w ?q))" using R(1) by simp
  ultimately show ?thesis using R(2) thr by (simp add: Let_def e)
qed

theorem futex_requeue_fifo_witness:
  "thr_inv {} thr_demo \<and> snd (mb_threads_futex_requeue thr_demo 64 128 1 1) = 2
   \<and> queue_of (fst (mb_threads_futex_requeue thr_demo 64 128 1 1)) 64 = [4]
   \<and> queue_of (fst (mb_threads_futex_requeue thr_demo 64 128 1 1)) 128 = [2]"
  using futex_requeue_fifo [OF thr_demo_inv, of 64 128 1 1] thr_demo_inv
  by (simp add: Let_def queue_of_demo split: prod.splits)

text \<open>C31: A requeued waiter loses its timeout: whatever deadline a moved thread had, it waits
  on the second address with none, so no clock value makes it due.\<close>

theorem requeue_drops_deadline:
  assumes "thr_inv X t" "a \<noteq> b" "tid \<in> set (take r (drop w (queue_of t a)))"
  shows "let t' = fst (mb_threads_futex_requeue t a b w r) in
     tid \<in> set (queue_of t' b) \<and> (\<forall>g\<in>set (threads t'). g_tid g = tid \<longrightarrow>
        g_state g = T_WAITING \<and> g_deadline g = 0 \<and> (\<forall>now. \<not> is_due now g))"
proof -
  let ?q = "queue_of t a"
  obtain t' n where e: "mb_threads_futex_requeue t a b w r = (t', n)" by (cases "mb_threads_futex_requeue t a b w r")
  have q: "queue_of t' = ((queue_of t)(b := queue_of t b @ take r (drop w ?q)))(a := drop (w + r) ?q)"
    and thr: "threads t' = map (\<lambda>g. if g_tid g \<in> set (take w ?q) then make_runnable g
           else if g_tid g \<in> set (take r (drop w ?q)) then (make_runnable g)\<lparr>g_state := T_WAITING\<rparr> else g) (threads t)"
    using requeue_eq [OF assms(1), of a b r w] assms(2) unfolding e by simp_all
  have "distinct ?q" using thr_invD(4) [OF assms(1)] unfolding queue_map_ok_def by blast
  then have "set (take w ?q) \<inter> set (drop w ?q) = {}" by (simp add: set_take_disj_set_drop_if_distinct)
  then have "tid \<notin> set (take w ?q)" using assms(3) in_set_takeD by fastforce
  then have "g_state g = T_WAITING \<and> g_deadline g = 0" if "g \<in> set (threads t')" "g_tid g = tid" for g
    using that assms(3) unfolding thr by (auto split: if_splits)
  then show ?thesis using q assms(2,3) by (auto simp: e Let_def is_due_def)
qed

theorem requeue_drops_deadline_witness:
  "thr_inv {} thr_demo \<and> g_deadline (threads thr_demo ! 1) = 5000
   \<and> 2 \<in> set (queue_of (fst (mb_threads_futex_requeue thr_demo 64 128 1 1)) 128)
   \<and> g_deadline (thread_of (fst (mb_threads_futex_requeue thr_demo 64 128 1 1)) 2) = 0"
proof -
  have "2 \<in> tids (fst (mb_threads_futex_requeue thr_demo 64 128 1 1))"
    using requeue_inv [OF thr_demo_inv prod.collapse [symmetric], of 64 128 1 1] thr_demo_views by simp
  from thread_of_in [OF this] requeue_drops_deadline [OF thr_demo_inv, of 64 128 2 1 1] thr_demo_inv
  show ?thesis by (simp add: Let_def queue_of_demo thr_demo_fields)
qed

text \<open>C29: Unlocking a priority-inheritance futex hands it straight to the longest waiter: that
  thread leaves the queue, becomes the running thread, and the word in guest memory names
  it, with the waiters bit set exactly when others still wait. With no waiter the word
  becomes 0 and the caller runs on.\<close>

theorem unlock_pi_hands_over:
  assumes "thr_inv {} t" "active_tid t \<notin> waiters t"
  shows "let (t', c', v, m') = mb_threads_futex_unlock_pi t c m a in
    case queue_of t a of
      [] \<Rightarrow> t' = t \<and> c' = c \<and> v = sok 0 \<and> m' = write32 m a 0
    | tid # rest \<Rightarrow>
        active_tid t' = tid \<and> tid \<in> runnable t' \<and> threads_wf t' \<and> queue_of t' = (queue_of t)(a := rest)
        \<and> read32 m' a = (if rest = [] then of_nat tid else of_nat tid OR FUTEX_WAITERS)
        \<and> cx_guest_rsp c' = g_rsp (thread_of t' tid) \<and> v = g_rax (thread_of t' tid)"
proof (cases "queue_of t a")
  case Nil
  then have "unpark_one t a = (t, None)" using unpark_one_eq [OF assms(1), of a] by simp
  then show ?thesis using Nil by (simp add: mb_threads_futex_unlock_pi_def)
next
  case (Cons tid rest)
  obtain t1 where u: "unpark_one t a = (t1, Some (tid, rest \<noteq> []))" and q: "queue_of t1 = (queue_of t)(a := rest)"
    and w: "tid \<in> waiters t"
    using unpark_one_eq [OF assms(1), of a] Cons by auto
  let ?s = "(store_regs t1 c (sok 0))\<lparr>active_tid := tid\<rparr>"
  have wf: "threads_wf t" using assms by (simp add: threads_wf_alt)
  obtain t' c' v m' where e: "mb_threads_futex_unlock_pi t c m a = (t', c', v, m')" by (metis prod_cases4)
  have eq: "t' = ?s" "c' = c\<lparr>cx_guest_rsp := g_rsp (thread_of (store_regs t1 c (sok 0)) tid),
      cx_thread_area := g_thread_area (thread_of (store_regs t1 c (sok 0)) tid)\<rparr>"
    "v = g_rax (thread_of (store_regs t1 c (sok 0)) tid)"
    "m' = write32 m a (if rest \<noteq> [] then of_nat tid OR FUTEX_WAITERS else of_nat tid)"
    using e u by (simp_all add: mb_threads_futex_unlock_pi_def swap_to_def Let_def)
  have tw: "threads_wf t'" by (rule unlock_pi_wf [OF wf e])
  have qs: "queue_of ?s = queue_of (store_regs t1 c (sok 0))" by (simp add: fun_eq_iff queue_of_qlook store_regs_def)
  have th: "thread_of ?s tid = thread_of (store_regs t1 c (sok 0)) tid" by (simp add: thread_of_def find_thread_def)
  show ?thesis using Cons e tw threads_wfD(2) [OF tw] q qs th by (simp add: eq)
qed

theorem unlock_pi_hands_over_witness:
  "thr_inv {} thr_demo \<and> active_tid thr_demo \<notin> waiters thr_demo
   \<and> active_tid (fst (mb_threads_futex_unlock_pi thr_demo ctx_demo (\<lambda>_. 0) 64)) = 3"
  using unlock_pi_hands_over [OF thr_demo_inv, of ctx_demo "\<lambda>_. 0" 64] thr_demo_inv
  by (auto simp: Let_def queue_of_demo thr_demo_views thr_demo_fields split: prod.splits)

text \<open>The sizes a state can hold.\<close>

definition threads_fit :: "mb_threads \<Rightarrow> bool" where
  "threads_fit t \<longleftrightarrow> next_tid t < 2 ^ 32 \<and> length (threads t) < 2 ^ 32 \<and> length (futicies t) < 2 ^ 32 \<and> vclock_ns t < 2 ^ 64
    \<and> (\<forall>q\<in>set (futicies t). length (q_tids q) < 2 ^ 32) \<and> (\<forall>g\<in>set (threads t). g_deadline g < 2 ^ 64)"

lemma load_head_bytes:
  "load_head t (chars ''GuestFpuState1'' @ u16_bytes fcw @ u32_bytes mx
      @ (if spec t = 3 then chars ''GuestThreadSe3'' @ u64_bytes v else []) @ chars ''GuestThreadSet'' @ s)
   = Some ((fcw, mx, if spec t = 3 then v else 0), s)"
  by (simp add: load_head_def)

lemma queue_tids_small:
  assumes "threads_wf t" "next_tid t < 2 ^ 32" "q \<in> set (futicies t)" "x \<in> set (q_tids q)"
  shows "x < 2 ^ 32"
proof -
  note I = threads_wfD(1) [OF assms(1)]
  have "distinct (map q_addr (futicies t))" using thr_invD(3) [OF I] by (simp add: queue_list_ok_def)
  then have "qlook qs (q_addr q) = q_tids q" if "q \<in> set qs" "distinct (map q_addr qs)" for qs
    using that by (induction qs) auto
  then have "x \<in> set (queue_of t (q_addr q))"
    using assms(3,4) thr_invD(3) [OF I] by (simp add: queue_of_qlook queue_list_ok_def)
  then have "x \<in> waiters t" using thr_invD(4) [OF I] unfolding queue_map_ok_def by blast
  then have "x \<in> tids t" using waiters_sub by blast
  then show ?thesis using thr_invD(1) [OF I] assms(2) by (auto simp: tids_def table_wf_def)
qed

lemma thread_saved_simps [simp]: "g_tid (thread_saved g) = g_tid g" "g_rsp (thread_saved g) = g_rsp g"
  "g_thread_area (thread_saved g) = g_thread_area g"
  by (simp_all add: thread_saved_def)

lemma find_index_map: "find_index P (map f xs) = find_index (P \<circ> f) xs"
  by (induction xs) auto

lemma threads_load_saved:
  assumes wf: "threads_wf t" and fit: "threads_fit t" and one: "active_tid t = 1"
    and t0: "active_tid t0 = 1" "spec t0 = spec t"
  shows "\<exists>t1 ch. mb_threads_save t c = Some (t1, ch)
    \<and> mb_threads_load t0 c0 (concat ch @ rest)
      = Some ((t0\<lparr>next_tid := next_tid t, active_tid := 1, threads := map (\<lambda>g. g\<lparr>g_seq := 0\<rparr>) (threads t1),
                 futicies := futicies t, vclock_ns := (if spec t = 3 then vclock_ns t else vclock_ns t0)\<rparr>,
               c0\<lparr>cx_thread_area := cx_thread_area c, cx_guest_rsp := cx_guest_rsp c,
                  cx_guest_fcw := cx_guest_fcw c, cx_guest_mxcsr := cx_guest_mxcsr c\<rparr>), rest)"
proof -
  let ?f = "\<lambda>g. g\<lparr>g_thread_area := cx_thread_area c, g_rsp := cx_guest_rsp c\<rparr>"
  define t1 where "t1 = set_thread t 1 ?f"
  have in1: "1 \<in> tids t" using thr_invD(6) [OF threads_wfD(1) [OF wf]] .
  have wf1: "threads_wf t1" unfolding t1_def by (rule set_thread_wf [OF wf in1]) simp
  note I = threads_wfD(1) [OF wf1]
  note D = thr_invD [OF I]
  have thr: "threads t1 = map (\<lambda>g. if g_tid g = 1 then ?f g else g) (threads t)"
    unfolding t1_def by (rule threads_set_thread [OF thr_invD(2) [OF threads_wfD(1) [OF wf]] in1])
  have fr: "futicies t1 = futicies t" "next_tid t1 = next_tid t" "spec t1 = spec t" "vclock_ns t1 = vclock_ns t" "active_tid t1 = active_tid t"
    by (simp_all add: t1_def)
  have srt: "sorted_wrt (<) (map g_tid (threads t1))" using D(1) by (simp add: table_wf_def)
  have thok: "\<forall>g\<in>set (threads t1). g_tid g < 2 ^ 32 \<and> g_state g \<in> {T_RUNNABLE, T_WAITING}"
    using D(1) fit by (auto simp: table_wf_def threads_fit_def fr)
  have dl: "\<forall>g\<in>set (threads t1). g_deadline g < 2 ^ 64" using fit unfolding thr by (auto simp: threads_fit_def)
  have len: "length (threads t1) = length (threads t)" by (simp add: thr)
  note n32 = unat_of_nat32
  have ns: "unat (of_nat (next_tid t) :: u32) = next_tid t" "unat (of_nat (length (threads t)) :: u32) = length (threads t)"
    "unat (of_nat (length (futicies t)) :: u32) = length (futicies t)" "unat (of_nat (vclock_ns t) :: u64) = vclock_ns t"
    using fit by (simp_all add: threads_fit_def n32 unat_of_nat64)
  have lt: "load_threads (length (threads t)) (u\<lparr>threads := []\<rparr>) (concat (map gthread_bytes (threads t1)) @ s)
      = Some (u\<lparr>threads := map thread_saved (threads t1)\<rparr>, s)" for u s
    using load_threads_bytes [of "u\<lparr>threads := []\<rparr>" "threads t1" s] srt thok len by simp
  have lq: "load_queues (length (futicies t)) (u\<lparr>futicies := []\<rparr>) (concat (concat (map queue_chunks (futicies t))) @ s)
      = Some (u\<lparr>futicies := futicies t\<rparr>, s)" for u s
    using load_queues_bytes [of "u\<lparr>futicies := []\<rparr>" "futicies t" s] D(3) fit queue_tids_small [OF wf]
    by (simp add: queue_list_ok_def threads_fit_def fr)
  have fi: "find_thread u (Suc 0) \<noteq> None \<and> g_thread_area (thread_of u (Suc 0)) = cx_thread_area c \<and> g_rsp (thread_of u (Suc 0)) = cx_guest_rsp c"
    if u: "threads u = map thread_saved (threads t1)" for u
  proof -
    have fe: "find_thread u 1 = find_thread t1 1" by (simp add: find_thread_def u find_index_map comp_def)
    obtain i where i: "find_thread t1 1 = Some i" "i < length (threads t1)" "g_tid (threads t1 ! i) = 1"
      using D(6) by (rule find_thread_present)
    moreover from i have "threads t1 ! i = ?f (threads t ! i)" by (auto simp: thr)
    ultimately show ?thesis using i by (simp add: thread_of_def fe [simplified] u)
  qed
  have v2: "map thread_saved (threads t1) = map (\<lambda>g. g\<lparr>g_seq := 0\<rparr>) (threads t1)" if "spec t \<noteq> 3"
    using D(1) that by (auto simp: table_wf_def thread_saved_def fr intro!: map_cong)
  obtain ch where ch: "mb_threads_save t c = Some (t1, ch)" using one by (simp add: mb_threads_save_def Let_def t1_def)
  have "mb_threads_load t0 c0 (concat ch @ rest)
      = Some ((t0\<lparr>next_tid := next_tid t, active_tid := 1, threads := map (\<lambda>g. g\<lparr>g_seq := 0\<rparr>) (threads t1),
                 futicies := futicies t, vclock_ns := (if spec t = 3 then vclock_ns t else vclock_ns t0)\<rparr>,
               c0\<lparr>cx_thread_area := cx_thread_area c, cx_guest_rsp := cx_guest_rsp c,
                  cx_guest_fcw := cx_guest_fcw c, cx_guest_mxcsr := cx_guest_mxcsr c\<rparr>), rest)"
  proof -
    let ?tail = "if spec t = 3 then concat (map (\<lambda>g. u64_bytes (of_nat (g_deadline g))) (threads t1)) else []"
    have "concat ch @ rest = chars ''GuestFpuState1'' @ u16_bytes (cx_guest_fcw c) @ u32_bytes (cx_guest_mxcsr c)
      @ (if spec t0 = 3 then chars ''GuestThreadSe3'' @ u64_bytes (of_nat (vclock_ns t)) else []) @ chars ''GuestThreadSet''
      @ u32_bytes (of_nat (next_tid t)) @ u32_bytes 1 @ u32_bytes (of_nat (length (threads t)))
      @ concat (map gthread_bytes (threads t1)) @ u32_bytes (of_nat (length (futicies t)))
      @ concat (concat (map queue_chunks (futicies t))) @ chars ''GuestThreadSet'' @ ?tail @ rest"
      using ch one t0 len unfolding mb_threads_save_def Let_def t1_def [symmetric] by (auto simp: comp_def fr)
    note str = this
    show ?thesis
      unfolding mb_threads_load_def str load_head_bytes
      using t0 by (simp add: ns lt lq fi v2 load_deadlines_bytes [OF dl] Let_def)
  qed
  then show ?thesis using ch by blast
qed

text \<open>C11: The thread set round-trips through a state: loading what a save wrote into any
  machine of the same spec restores every thread (registers, stacks, wait states and, in
  v3, deadlines and the clock), every futex queue in order, the running thread's registers
  and the floating-point control words, and leaves the rest of the stream. Only the park
  order counters start again.\<close>

theorem threads_save_load_roundtrip:
  assumes wf: "threads_wf t" and fit: "threads_fit t" and one: "active_tid t = 1"
    and t0: "active_tid t0 = 1" "spec t0 = spec t"
  shows "\<exists>t1 ch. mb_threads_save t c = Some (t1, ch)
    \<and> mb_threads_load t0 c0 (concat ch @ rest)
      = Some ((t0\<lparr>next_tid := next_tid t, active_tid := 1, threads := map (\<lambda>g. g\<lparr>g_seq := 0\<rparr>) (threads t1),
                 futicies := futicies t, vclock_ns := (if spec t = 3 then vclock_ns t else vclock_ns t0)\<rparr>,
               c0\<lparr>cx_thread_area := cx_thread_area c, cx_guest_rsp := cx_guest_rsp c,
                  cx_guest_fcw := cx_guest_fcw c, cx_guest_mxcsr := cx_guest_mxcsr c\<rparr>), rest)"
  by (rule threads_load_saved [OF assms])

lemma thr_demo_wf: "threads_wf thr_demo"
  using thr_demo_inv by (simp add: threads_wf_alt thr_demo_views thr_demo_fields)

theorem threads_save_load_roundtrip_witness:
  "threads_wf thr_demo \<and> threads_fit thr_demo
   \<and> (\<exists>t1 ch t' c'. mb_threads_save thr_demo ctx_demo = Some (t1, ch)
       \<and> mb_threads_load (threads_start 3 2) ctx_demo (concat ch @ [7]) = Some ((t', c'), [7])
       \<and> futicies t' = [\<lparr>q_addr = 64, q_tids = [3, 2, 4]\<rparr>] \<and> vclock_ns t' = 1000)"
proof -
  have fit: "threads_fit thr_demo" by (simp add: threads_fit_def thr_demo_def demo_waiter_def new_thread_def)
  have "active_tid (threads_start 3 2) = 1" "spec (threads_start 3 2) = spec thr_demo"
    by (simp_all add: thr_demo_fields threads_start_def mb_threads_set_kit_revision_def mb_threads_set_spec_def
        mb_threads_new_def insert_thread_def)
  from threads_save_load_roundtrip [OF thr_demo_wf fit thr_demo_fields(1) this, of ctx_demo ctx_demo "[7]"]
  show ?thesis using thr_demo_wf fit by (auto simp: thr_demo_fields) (auto simp: thr_demo_def)
qed


text \<open>The demonstration set with thread 2 running and thread 3 joining it.\<close>

definition exit_demo :: mb_threads where
  "exit_demo = \<lparr>next_tid = 4, active_tid = 2,
     threads = [new_thread 1, (new_thread 2)\<lparr>g_tid_address := 64\<rparr>, demo_waiter 3 0],
     futicies = [\<lparr>q_addr = 64, q_tids = [3]\<rparr>], spec = 3, vclock_ns = 0, park_seq = 0, kit_revision = 2\<rparr>"

lemma exit_demo_wf: "threads_wf exit_demo" "queue_of exit_demo 64 = [3]" "active_tid exit_demo = 2"
  "g_tid_address (thread_of exit_demo 2) = 64" "tids exit_demo = {1, 2, 3}"
proof -
  have q: "queue_of exit_demo = (\<lambda>a. if a = 64 then [3] else [])"
    by (simp add: fun_eq_iff queue_of_qlook exit_demo_def)
  have v: "tids exit_demo = {1, 2, 3}" "waiters exit_demo = {3}"
    unfolding tids_def waiters_def setcompr_set by (auto simp: exit_demo_def demo_waiter_def new_thread_def)
  have "table_wf exit_demo" unfolding table_wf_def v by (simp add: exit_demo_def demo_waiter_def new_thread_def)
  moreover have "queues_wf {} exit_demo"
    unfolding queues_wf_def queue_map_ok_def q v by (auto simp: queue_list_ok_def exit_demo_def split: if_splits)
  ultimately show "threads_wf exit_demo" unfolding threads_wf_def v by (simp add: exit_demo_def)
  show "queue_of exit_demo 64 = [3]" "active_tid exit_demo = 2" "g_tid_address (thread_of exit_demo 2) = 64" "tids exit_demo = {1, 2, 3}"
    using q v by (simp_all, simp_all add: exit_demo_def thread_of_def find_thread_def new_thread_def)
qed


end
