(* ===== verification/Mb_Bits.thy ===== *)
theory Mb_Bits
  imports Mb_Prelude
begin

text \<open>
  The page bitmaps of \<^verbatim>\<open>memblock.c\<close>: one bit a page in 64-bit words, with the
  loop that visits the set bits of a word lowest first by clearing them one at a
  time. The locale \<open>bitmap\<close> is what the memory block relies on; the word
  operations are its interpretation.
\<close>

section \<open>The code\<close>

definition bits_set :: "u64 list \<Rightarrow> nat \<Rightarrow> u64 list" where
  "bits_set w i = w[i div 64 := w ! (i div 64) OR push_bit (i mod 64) 1]"

definition bits_clr :: "u64 list \<Rightarrow> nat \<Rightarrow> u64 list" where
  "bits_clr w i = w[i div 64 := w ! (i div 64) AND NOT (push_bit (i mod 64) 1)]"

definition bits_get :: "u64 list \<Rightarrow> nat \<Rightarrow> bool" where
  "bits_get w i \<longleftrightarrow> drop_bit (i mod 64) (w ! (i div 64)) AND 1 = 1"

definition bits_none :: "nat \<Rightarrow> u64 list" where
  "bits_none nwords = replicate nwords 0"

text \<open>\<open>__builtin_ctzll\<close>: the number of zero bits below the lowest set one.\<close>

definition bits_first :: "u64 \<Rightarrow> nat" where
  "bits_first x = length (takeWhile (\<lambda>k. \<not> bit x k) [0..<64])"

lemma clear_lowest_less: "(m :: u64) \<noteq> 0 \<Longrightarrow> unat (m AND (m - 1)) < unat m"
proof -
  assume "m \<noteq> 0"
  have "m AND (m - 1) \<le> m - 1" by (simp add: word_and_le1)
  also have "m - 1 < m" using \<open>m \<noteq> 0\<close> by (simp add: word_less_nat_alt unat_minus_one unat_gt_0)
  finally show ?thesis by (simp add: word_less_nat_alt)
qed

text \<open>\<open>while (m) { i = bits_first (m); m &= m - 1; ... }\<close>\<close>

function bits_word :: "u64 \<Rightarrow> nat list" where
  "bits_word m = (if m = 0 then [] else bits_first m # bits_word (m AND (m - 1)))"
  by pat_completeness auto
termination by (relation "measure unat") (auto intro: clear_lowest_less)

declare bits_word.simps [simp del]

definition bits_each :: "u64 list \<Rightarrow> nat list" where
  "bits_each w = concat (map (\<lambda>j. map (\<lambda>k. j * 64 + k) (bits_word (w ! j))) [0..<length w])"

section \<open>Reading bits\<close>

lemma bits_get_bit: "bits_get w i \<longleftrightarrow> bit (w ! (i div 64)) (i mod 64)"
  by (simp add: bits_get_def bit_iff_odd_drop_bit even_iff_mod_2_eq_zero and_one_eq odd_iff_mod_2_eq_one)

lemma bits_div_mod_eq: "i div 64 = j div 64 \<Longrightarrow> i mod 64 = j mod 64 \<longleftrightarrow> i = (j :: nat)"
  by (metis div_mult_mod_eq)

lemma bits_get_set:
  "i < 64 * length w \<Longrightarrow> j < 64 * length w \<Longrightarrow> bits_get (bits_set w i) j \<longleftrightarrow> j = i \<or> bits_get w j"
proof -
  assume "i < 64 * length w" "j < 64 * length w"
  then have "i div 64 < length w" "j div 64 < length w" by (simp_all add: less_mult_imp_div_less mult.commute)
  then show ?thesis
    using bits_div_mod_eq [of i j]
    by (cases "i div 64 = j div 64")
       (auto simp: bits_get_bit bits_set_def bit_or_iff bit_exp_iff nth_list_update)
qed

lemma bits_get_clr:
  "i < 64 * length w \<Longrightarrow> j < 64 * length w \<Longrightarrow> bits_get (bits_clr w i) j \<longleftrightarrow> j \<noteq> i \<and> bits_get w j"
proof -
  assume "i < 64 * length w" "j < 64 * length w"
  then have "i div 64 < length w" "j div 64 < length w" by (simp_all add: less_mult_imp_div_less mult.commute)
  then show ?thesis
    using bits_div_mod_eq [of i j]
    by (cases "i div 64 = j div 64")
       (auto simp: bits_get_bit bits_clr_def bit_and_iff bit_not_iff bit_exp_iff nth_list_update)
qed

lemma bits_get_none: "i < 64 * n \<Longrightarrow> \<not> bits_get (bits_none n) i"
  by (simp add: bits_get_bit bits_none_def less_mult_imp_div_less mult.commute)

lemma length_bits [simp, mb_len]:
  "length (bits_set w i) = length w" "length (bits_clr w i) = length w" "length (bits_none n) = n"
  by (simp_all add: bits_set_def bits_clr_def bits_none_def)

section \<open>Visiting the set bits\<close>

lemma bits_first_props:
  assumes "x \<noteq> (0 :: u64)"
  shows "bits_first x < 64" "bit x (bits_first x)" "k < bits_first x \<Longrightarrow> \<not> bit x k"
proof -
  obtain b where "bit x b" "b < 64" using assms bit_imp_le_length [of x] by (auto simp: bit_eq_iff)
  then have "\<exists>k\<in>set [0..<64]. bit x k" by auto
  then have l: "bits_first x < length [0..<64]" unfolding bits_first_def
    by (metis length_takeWhile_le nat_less_le takeWhile_eq_all_conv takeWhile_eq_take take_all_iff)
  then show f: "bits_first x < 64" by simp
  show "bit x (bits_first x)" using nth_length_takeWhile [of "\<lambda>k. \<not> bit x k" "[0..<64]"] l f
    by (simp add: bits_first_def)
  show "\<not> bit x k" if "k < bits_first x"
    using takeWhile_nth [of k "\<lambda>k. \<not> bit x k" "[0..<64]"] set_takeWhileD [of k "\<lambda>k. \<not> bit x k" "[0..<64]"] that f
    by (metis (no_types, lifting) add_0 bits_first_def diff_zero length_upt nth_mem nth_upt order_less_trans)
qed

lemma div_add_small: "(r :: nat) < b \<Longrightarrow> (b * a + r) div b = a"
  by simp

lemma odd_part:
  assumes "(n :: nat) mod 2 ^ c = 0" "odd (n div 2 ^ c)"
  obtains q where "n = 2 ^ c * (2 * q + 1)"
proof -
  obtain q where "n div 2 ^ c = 2 * q + 1" using assms(2) by (rule oddE)
  moreover have "n = 2 ^ c * (n div 2 ^ c)" using assms(1) by (metis add.right_neutral mult_div_mod_eq)
  ultimately show thesis using that by metis
qed

lemma pred_div:
  fixes q c :: nat
  defines "n \<equiv> 2 ^ c * (2 * q + 1)"
  shows "(n - 1) div 2 ^ c = 2 * q" "(n - 1) div 2 ^ Suc c = n div 2 ^ Suc c"
proof -
  have n1: "n - 1 = 2 ^ c * (2 * q) + (2 ^ c - 1)" by (simp add: n_def algebra_simps)
  show "(n - 1) div 2 ^ c = 2 * q" unfolding n1 by (rule div_add_small) simp
  then have "(n - 1) div 2 ^ Suc c = q" by (simp add: power_Suc2 div_mult2_eq del: power_Suc)
  moreover have "n div 2 ^ Suc c = q" by (simp add: n_def power_Suc2 div_mult2_eq del: power_Suc)
  ultimately show "(n - 1) div 2 ^ Suc c = n div 2 ^ Suc c" by simp
qed

lemma bit_word_div: "bit (m :: u64) k \<longleftrightarrow> odd (unat m div 2 ^ k)"
proof -
  have "bit (unat m) k \<longleftrightarrow> bit m k" by (simp add: bit_unsigned_iff)
  then show ?thesis by (simp add: bit_iff_odd [of "unat m"])
qed

text \<open>\<open>m & (m - 1)\<close> clears exactly the lowest set bit.\<close>

lemma clear_lowest:
  assumes "m \<noteq> (0 :: u64)"
  shows "bit (m AND (m - 1)) k \<longleftrightarrow> bit m k \<and> k \<noteq> bits_first m"
proof -
  let ?c = "bits_first m"
  note F = bits_first_props [OF assms]
  have "\<not> bit (take_bit ?c (unat m)) j" for j using F(3) [of j] by (auto simp: bit_take_bit_iff bit_unsigned_iff)
  then have "take_bit ?c (unat m) = 0" by (simp add: bit_eq_iff)
  then have low: "unat m mod 2 ^ ?c = 0" by (simp add: take_bit_eq_mod)
  have "odd (unat m div 2 ^ ?c)" using F(2) by (simp add: bit_word_div)
  from odd_part [OF low this] obtain q where n: "unat m = 2 ^ ?c * (2 * q + 1)" .
  have pred: "unat (m - 1) = unat m - 1" using assms by (simp add: unat_minus_one)
  note P = pred_div [of ?c q, folded n pred]
  consider "k < ?c" | "k = ?c" | "k > ?c" by linarith
  then show ?thesis
  proof cases
    case 1
    then show ?thesis using F(3) by (auto simp: bit_and_iff)
  next
    case 2
    have "\<not> bit (m - 1) ?c" unfolding bit_word_div P(1) by simp
    then show ?thesis using 2 by (simp add: bit_and_iff)
  next
    case 3
    then obtain d where k: "k = Suc ?c + d" using less_iff_Suc_add by auto
    have "unat (m - 1) div 2 ^ k = unat m div 2 ^ k" unfolding k power_add div_mult2_eq P(2) ..
    then have "bit (m - 1) k \<longleftrightarrow> bit m k" by (simp add: bit_word_div)
    then show ?thesis using 3 by (auto simp: bit_and_iff)
  qed
qed

lemma set_bits_word: "set (bits_word m) = {k. bit m k}" "sorted (bits_word m)" "distinct (bits_word m)"
proof (induction m rule: bits_word.induct)
  case (1 m)
  show "set (bits_word m) = {k. bit m k}"
  proof (cases "m = 0")
    case False
    then show ?thesis using "1.IH"(1) [OF False] bits_first_props(2) [OF False] clear_lowest [OF False]
      by (subst bits_word.simps) auto
  qed (simp add: bits_word.simps)
  show "sorted (bits_word m)" "distinct (bits_word m)"
  proof -
    have "sorted (bits_word m) \<and> distinct (bits_word m)"
    proof (cases "m = 0")
      case False
      have "bits_first m < k" if "k \<in> set (bits_word (m AND (m - 1)))" for k
        using that "1.IH"(1) [OF False] clear_lowest [OF False] bits_first_props(3) [OF False, of k]
        by (metis mem_Collect_eq nat_neq_iff)
      then show ?thesis using "1.IH"(2,3) [OF False] False
        by (subst (1 2) bits_word.simps) (auto simp: less_imp_le)
    qed (simp add: bits_word.simps)
    then show "sorted (bits_word m)" "distinct (bits_word m)" by auto
  qed
qed

lemma bits_word_filter: "bits_word m = filter (bit m) [0..<64]"
proof (rule sorted_distinct_set_unique)
  show "set (bits_word m) = set (filter (bit m) [0..<64])"
    using bit_imp_le_length [of m] by (auto simp: set_bits_word(1))
qed (simp_all add: set_bits_word sorted_wrt_filter)

text \<open>The loop over the words visits exactly the set bits, in ascending order.\<close>

lemma bits_each_filter: "bits_each w = filter (bits_get w) [0..<64 * length w]"
proof -
  have "map (\<lambda>k. j * 64 + k) (filter (bit (w ! j)) [0..<64]) = filter (bits_get w) [j * 64..<j * 64 + 64]" for j
  proof -
    have "[j * 64..<j * 64 + 64] = map (\<lambda>k. j * 64 + k) [0..<64]" by (simp add: map_add_upt add.commute)
    then show ?thesis by (simp add: filter_map comp_def bits_get_bit) (rule filter_cong, auto)
  qed
  moreover have "concat (map (\<lambda>j. filter P [j * 64..<j * 64 + 64]) [0..<n]) = filter P [0..<64 * n]" for P n
  proof (induction n)
    case (Suc n)
    have "[0..<64 * Suc n] = [0..<64 * n] @ [n * 64..<n * 64 + 64]"
      using upt_add_eq_append [of 0 "64 * n" 64] by (simp add: mult.commute add.commute)
    then show ?case using Suc by (simp add: mult.commute)
  qed simp
  ultimately show ?thesis by (simp add: bits_each_def bits_word_filter)
qed

section \<open>The interface\<close>

locale bitmap =
  fixes get :: "'w \<Rightarrow> nat \<Rightarrow> bool" and set_bit' clr_bit :: "'w \<Rightarrow> nat \<Rightarrow> 'w" and room :: "'w \<Rightarrow> nat"
    and each :: "'w \<Rightarrow> nat list"
  assumes get_set: "i < room w \<Longrightarrow> j < room w \<Longrightarrow> get (set_bit' w i) j \<longleftrightarrow> j = i \<or> get w j"
    and get_clr: "i < room w \<Longrightarrow> j < room w \<Longrightarrow> get (clr_bit w i) j \<longleftrightarrow> j \<noteq> i \<and> get w j"
    and room_set: "room (set_bit' w i) = room w"
    and room_clr: "room (clr_bit w i) = room w"
    and each_set: "each w = filter (get w) [0..<room w]"
begin

text \<open>The pages of the first \<open>n\<close> whose bit is set.\<close>

definition members :: "'w \<Rightarrow> nat \<Rightarrow> nat set" where
  "members w n = {i. i < n \<and> get w i}"

lemma members_set: "i < n \<Longrightarrow> n \<le> room w \<Longrightarrow> members (set_bit' w i) n = insert i (members w n)"
  using get_set [of i w] by (auto simp: members_def)

lemma members_clr: "i < n \<Longrightarrow> n \<le> room w \<Longrightarrow> members (clr_bit w i) n = members w n - {i}"
  using get_clr [of i w] by (auto simp: members_def)

lemma card_members_set: "i < n \<Longrightarrow> n \<le> room w \<Longrightarrow> \<not> get w i \<Longrightarrow> card (members (set_bit' w i) n) = Suc (card (members w n))"
  by (subst members_set) (auto simp: members_def)

lemma each_members: "(\<And>i. n \<le> i \<Longrightarrow> i < room w \<Longrightarrow> \<not> get w i) \<Longrightarrow> n \<le> room w \<Longrightarrow> set (each w) = members w n \<and> sorted (each w)
    \<and> distinct (each w) \<and> length (each w) = card (members w n)"
proof -
  assume none: "\<And>i. n \<le> i \<Longrightarrow> i < room w \<Longrightarrow> \<not> get w i" and n: "n \<le> room w"
  have s: "set (each w) = members w n" using none n by (auto simp: each_set members_def not_le [symmetric])
  moreover have "sorted (each w)" "distinct (each w)" by (simp_all add: each_set sorted_wrt_filter)
  ultimately show ?thesis using distinct_card [of "each w"] by simp
qed

end

interpretation bm: bitmap bits_get bits_set bits_clr "\<lambda>w. 64 * length w" bits_each
  by unfold_locales (auto simp: bits_get_set bits_get_clr bits_each_filter)

end
