(* ===== verification/Mb_Page.thy ===== *)
theory Mb_Page
  imports Mb_Ranges Mb_Bits
begin

text \<open>
  One page of the memory block: its record, the protections and statuses of
  \<^verbatim>\<open>minibox_internal.h\<close>, the protection it is mapped with
  (\<^verbatim>\<open>mb_page_native_prot\<close>, \<^verbatim>\<open>group_native_prot\<close>), and its baseline copy
  (\<^verbatim>\<open>mb_page_maybe_snapshot\<close>). Two fields stand for memory the C code reaches
  through pointers: \<open>pg_live\<close> is the page's bytes, which the guest's view and the
  mirror share, and \<open>pg_os\<close> is the protection the operating system was last told.
\<close>

section \<open>The code\<close>

datatype mb_prot =
  MB_PROT_NONE | MB_PROT_R | MB_PROT_RW | MB_PROT_RX | MB_PROT_RWX | MB_PROT_RWSTACK

definition MB_ST_FREE :: byte where "MB_ST_FREE = 0x00"
definition MB_ST_NONE :: byte where "MB_ST_NONE = 0x20"
definition MB_ST_R :: byte where "MB_ST_R = 0x01"
definition MB_ST_RW :: byte where "MB_ST_RW = 0x03"
definition MB_ST_RX :: byte where "MB_ST_RX = 0x05"
definition MB_ST_RWX :: byte where "MB_ST_RWX = 0x07"
definition MB_ST_RWSTACK :: byte where "MB_ST_RWSTACK = 0x13"

lemmas st_defs =
  MB_ST_FREE_def MB_ST_NONE_def MB_ST_R_def MB_ST_RW_def MB_ST_RX_def MB_ST_RWX_def MB_ST_RWSTACK_def

datatype mb_snap = MB_SNAP_NONE | MB_SNAP_ZERO | MB_SNAP_DATA bytes

record mb_page =
  pg_status :: byte
  pg_dirty :: bool
  pg_invisible :: bool
  pg_snap :: mb_snap
  pg_held :: bool
  pg_epoch_dirty :: bool
  pg_hot :: bool
  pg_heat :: nat
  pg_seen :: nat
  pg_shadow :: "bytes option"
  pg_plan_hold :: bool
  pg_plan_slot :: nat
  pg_live :: bytes
  pg_os :: mb_prot

definition zero_page :: bytes where "zero_page = replicate MB_PAGESIZE 0"

definition status_prot :: "byte \<Rightarrow> mb_prot" where
  "status_prot s =
    (if s = MB_ST_NONE then MB_PROT_NONE
     else if s = MB_ST_R then MB_PROT_R
     else if s = MB_ST_RW then MB_PROT_RW
     else if s = MB_ST_RX then MB_PROT_RX
     else if s = MB_ST_RWX then MB_PROT_RWX
     else if s = MB_ST_RWSTACK then MB_PROT_RWSTACK
     else MB_PROT_NONE)"

fun prot_status :: "mb_prot \<Rightarrow> byte" where
  "prot_status MB_PROT_NONE = MB_ST_NONE"
| "prot_status MB_PROT_R = MB_ST_R"
| "prot_status MB_PROT_RW = MB_ST_RW"
| "prot_status MB_PROT_RX = MB_ST_RX"
| "prot_status MB_PROT_RWX = MB_ST_RWX"
| "prot_status MB_PROT_RWSTACK = MB_ST_RWSTACK"

definition prot_writable :: "mb_prot \<Rightarrow> bool" where
  "prot_writable prot \<longleftrightarrow> prot = MB_PROT_RW \<or> prot = MB_PROT_RWX \<or> prot = MB_PROT_RWSTACK"

definition status_tracked :: "byte \<Rightarrow> bool" where
  "status_tracked s \<longleftrightarrow> s = MB_ST_RW \<or> s = MB_ST_RWX \<or> s = MB_ST_RWSTACK"

definition mb_page_native_prot :: "mb_page \<Rightarrow> mb_prot" where
  "mb_page_native_prot p =
    (if pg_status p = MB_ST_FREE then MB_PROT_NONE
     else if pg_plan_hold p then
       (let asked = status_prot (pg_status p)
        in if asked = MB_PROT_RWX then MB_PROT_RX
           else if asked = MB_PROT_RW \<or> asked = MB_PROT_RWSTACK then MB_PROT_R
           else asked)
     else if pg_hot p then status_prot (pg_status p)
     else
       (let clean = (\<not> pg_dirty p \<or> pg_held p)
        in if pg_status p = MB_ST_RW \<and> clean then MB_PROT_R
           else if pg_status p = MB_ST_RWX \<and> clean then MB_PROT_RX
           else if pg_status p = MB_ST_RWSTACK then (if clean then MB_PROT_R else MB_PROT_RW)
           else status_prot (pg_status p)))"

text \<open>\<open>room\<close> is whether \<^verbatim>\<open>mb_snap_alloc\<close> finds a slot for the copy.\<close>

definition mb_page_maybe_snapshot :: "bool \<Rightarrow> mb_page \<Rightarrow> mb_page \<times> bool" where
  "mb_page_maybe_snapshot room p =
    (if pg_snap p = MB_SNAP_NONE then
       (if room then (p\<lparr>pg_snap := MB_SNAP_DATA (pg_live p)\<rparr>, True) else (p, False))
     else (p, True))"

text \<open>
  One protection for the host page that starts at machine page \<open>first\<close>, when it
  holds \<open>n\<close> machine pages: reading and running are a union, writing is not.
\<close>

record prot_bits =
  pb_r :: bool
  pb_w :: bool
  pb_x :: bool
  pb_held :: bool

definition prot_bits_add :: "mb_page \<Rightarrow> prot_bits \<Rightarrow> prot_bits" where
  "prot_bits_add p g =
    (let prot = mb_page_native_prot p;
         g1 = (case prot of
             MB_PROT_NONE \<Rightarrow> g
           | MB_PROT_R \<Rightarrow> g\<lparr>pb_r := True\<rparr>
           | MB_PROT_RW \<Rightarrow> g\<lparr>pb_r := True, pb_w := True\<rparr>
           | MB_PROT_RWSTACK \<Rightarrow> g\<lparr>pb_r := True, pb_w := True\<rparr>
           | MB_PROT_RX \<Rightarrow> g\<lparr>pb_r := True, pb_x := True\<rparr>
           | MB_PROT_RWX \<Rightarrow> g\<lparr>pb_r := True, pb_w := True, pb_x := True\<rparr>)
     in if status_tracked (pg_status p) \<and> \<not> prot_writable prot then g1\<lparr>pb_held := True\<rparr> else g1)"

definition group_native_prot :: "nat \<Rightarrow> mb_page list \<Rightarrow> nat \<Rightarrow> mb_prot" where
  "group_native_prot n ps first =
    (if n = 1 then mb_page_native_prot (ps ! first)
     else
       (let g = fold (\<lambda>k. prot_bits_add (ps ! k)) [first..<min (first + n) (length ps)]
                  \<lparr>pb_r = False, pb_w = False, pb_x = False, pb_held = False\<rparr>;
            w = (pb_w g \<and> \<not> pb_held g)
        in if pb_x g then (if w then MB_PROT_RWX else MB_PROT_RX)
           else if w then MB_PROT_RW
           else if pb_r g then MB_PROT_R else MB_PROT_NONE))"

text \<open>\<open>tracked_status\<close> of \<^verbatim>\<open>tripguard.c\<close> is \<open>status_tracked\<close>; \<open>group_page_held\<close> is its use.\<close>

definition group_page_held :: "mb_page list \<Rightarrow> nat \<Rightarrow> nat \<Rightarrow> bool" where
  "group_page_held ps qi pi \<longleftrightarrow>
    status_tracked (pg_status (ps ! qi)) \<and>
    (qi = pi \<or> \<not> prot_writable (mb_page_native_prot (ps ! qi)))"

section \<open>Statuses and protections\<close>

lemma status_prot_status [simp]: "status_prot (prot_status prot) = prot"
  by (cases prot) (simp_all add: status_prot_def st_defs)

lemma prot_status_not_free [simp]: "prot_status prot \<noteq> MB_ST_FREE"
  by (cases prot) (simp_all add: st_defs)

lemma status_tracked_free [simp]: "\<not> status_tracked MB_ST_FREE"
  by (simp add: status_tracked_def st_defs)

lemma status_tracked_prot: "status_tracked s \<longleftrightarrow> prot_writable (status_prot s)"
  by (auto simp: status_tracked_def prot_writable_def status_prot_def st_defs)

lemma prot_writable_simps [simp]:
  "prot_writable MB_PROT_RW" "prot_writable MB_PROT_RWX" "prot_writable MB_PROT_RWSTACK"
  "\<not> prot_writable MB_PROT_NONE" "\<not> prot_writable MB_PROT_R" "\<not> prot_writable MB_PROT_RX"
  by (simp_all add: prot_writable_def)

text \<open>What is mapped writable, in one line.\<close>

lemma native_writable:
  "prot_writable (mb_page_native_prot p) \<longleftrightarrow>
     status_tracked (pg_status p) \<and> \<not> pg_plan_hold p \<and> (pg_hot p \<or> pg_dirty p \<and> \<not> pg_held p)"
  by (auto simp: mb_page_native_prot_def status_tracked_def status_prot_def st_defs Let_def)

text \<open>What is mapped executable, or not mapped at all, is what the guest asked for.\<close>

definition prot_readable :: "mb_prot \<Rightarrow> bool" where
  "prot_readable prot \<longleftrightarrow> prot \<noteq> MB_PROT_NONE"

definition prot_executable :: "mb_prot \<Rightarrow> bool" where
  "prot_executable prot \<longleftrightarrow> prot = MB_PROT_RX \<or> prot = MB_PROT_RWX"

lemma native_readable:
  "prot_readable (mb_page_native_prot p) \<longleftrightarrow> prot_readable (status_prot (pg_status p))"
  by (auto simp: mb_page_native_prot_def prot_readable_def status_prot_def st_defs Let_def)

lemma native_executable:
  "prot_executable (mb_page_native_prot p) \<longleftrightarrow> prot_executable (status_prot (pg_status p))"
  by (auto simp: mb_page_native_prot_def prot_executable_def status_prot_def st_defs Let_def)

lemma native_status_free [simp]: "pg_status p = MB_ST_FREE \<Longrightarrow> mb_page_native_prot p = MB_PROT_NONE"
  by (simp add: mb_page_native_prot_def)

section \<open>A group of pages\<close>

lemma fold_prot_bits_held:
  "pb_held (fold (\<lambda>k. prot_bits_add (ps ! k)) ks g) \<longleftrightarrow>
     pb_held g \<or> (\<exists>k\<in>set ks. status_tracked (pg_status (ps ! k)) \<and> \<not> prot_writable (mb_page_native_prot (ps ! k)))"
  by (induction ks arbitrary: g) (auto simp: prot_bits_add_def Let_def split: mb_prot.splits)

lemma fold_prot_bits_w:
  "pb_w (fold (\<lambda>k. prot_bits_add (ps ! k)) ks g) \<longleftrightarrow>
     pb_w g \<or> (\<exists>k\<in>set ks. prot_writable (mb_page_native_prot (ps ! k)))"
  by (induction ks arbitrary: g) (auto simp: prot_bits_add_def Let_def prot_writable_def split: mb_prot.splits)

lemma fold_prot_bits_r:
  "pb_r (fold (\<lambda>k. prot_bits_add (ps ! k)) ks g) \<longleftrightarrow>
     pb_r g \<or> (\<exists>k\<in>set ks. prot_readable (mb_page_native_prot (ps ! k)))"
  by (induction ks arbitrary: g) (auto simp: prot_bits_add_def Let_def prot_readable_def split: mb_prot.splits)

lemma fold_prot_bits_x:
  "pb_x (fold (\<lambda>k. prot_bits_add (ps ! k)) ks g) \<longleftrightarrow>
     pb_x g \<or> (\<exists>k\<in>set ks. prot_executable (mb_page_native_prot (ps ! k)))"
  by (induction ks arbitrary: g) (auto simp: prot_bits_add_def Let_def prot_executable_def split: mb_prot.splits)

lemmas fold_prot_bits = fold_prot_bits_held fold_prot_bits_w fold_prot_bits_r fold_prot_bits_x

text \<open>
  Whatever the size of the host page, it is mapped writable only when some page
  of it wants writing and none is held, and it is never less readable or less
  executable than a page in it.
\<close>

lemma group_writable:
  assumes "first + n \<le> length ps" "0 < n"
  shows "prot_writable (group_native_prot n ps first) \<longleftrightarrow>
    (\<exists>k\<in>{first..<first + n}. prot_writable (mb_page_native_prot (ps ! k))) \<and>
    (\<forall>k\<in>{first..<first + n}. status_tracked (pg_status (ps ! k)) \<longrightarrow>
        prot_writable (mb_page_native_prot (ps ! k)))"
proof (cases "n = 1")
  case True
  then show ?thesis by (auto simp: group_native_prot_def native_writable less_Suc_eq_le)
next
  case False
  then show ?thesis
    using assms by (auto simp: group_native_prot_def Let_def fold_prot_bits min_absorb1)
qed

lemma group_readable:
  assumes "first + n \<le> length ps" "k \<in> {first..<first + n}"
      "prot_readable (mb_page_native_prot (ps ! k))"
  shows "prot_readable (group_native_prot n ps first)"
proof (cases "n = 1")
  case True
  then show ?thesis using assms by (simp add: group_native_prot_def less_Suc_eq_le)
next
  case False
  have "\<exists>k\<in>{first..<first + n}. prot_readable (mb_page_native_prot (ps ! k))"
    using assms(2,3) by blast
  then show ?thesis
    using assms(1) False by (simp add: group_native_prot_def Let_def fold_prot_bits min_absorb1 prot_readable_def)
qed

section \<open>The baseline a page returns to\<close>

definition page_baseline :: "mb_page \<Rightarrow> bytes" where
  "page_baseline p = (case pg_snap p of
     MB_SNAP_NONE \<Rightarrow> pg_live p
   | MB_SNAP_ZERO \<Rightarrow> zero_page
   | MB_SNAP_DATA d \<Rightarrow> d)"

lemma length_zero_page [simp, mb_len]: "length zero_page = MB_PAGESIZE"
  by (simp add: zero_page_def)

lemma snapshot_baseline: "page_baseline (fst (mb_page_maybe_snapshot room p)) = page_baseline p"
  by (auto simp: mb_page_maybe_snapshot_def page_baseline_def split: mb_snap.splits)

lemma snapshot_taken:
  "mb_page_maybe_snapshot room p = (p', True) \<Longrightarrow> pg_snap p' \<noteq> MB_SNAP_NONE"
  by (auto simp: mb_page_maybe_snapshot_def split: if_splits)

end
