(* ===== verification/Mb_Block.thy ===== *)
theory Mb_Block
  imports Mb_Page
begin

text \<open>
  The memory block's record and the bookkeeping of \<^verbatim>\<open>memblock.c\<close> that every
  operation is made of: noting protections, statuses and dirty bits, hot pages,
  the epoch's half of a fault, the planned state's copy, and refreshing the
  protections of a run of pages.
\<close>

record mb_block =
  bk_pages :: "mb_page list"
  bk_addr :: mb_range
  bk_sealed :: bool
  bk_load_touched :: bool
  bk_swapped_in :: bool
  bk_active :: bool
  bk_hash :: bytes
  bk_epoch_active :: bool
  bk_epoch_bits :: "u64 list"
  bk_stat_bits :: "u64 list"
  bk_unheld_bits :: "u64 list"
  bk_hot_bits :: "u64 list"
  bk_nhot :: nat
  bk_epoch_no :: nat
  bk_epoch_ndirty :: nat
  bk_epoch_nstat :: nat
  bk_epoch_status :: "byte list"
  bk_status_map :: "byte list"
  bk_dirty_map :: "byte list"
  bk_group_free :: "nat list"
  bk_plan_active :: bool
  bk_plan_dest :: bytes
  bk_plan_data_at :: nat
  bk_plan_list :: "nat list"

definition bk_npages :: "mb_block \<Rightarrow> nat" where "bk_npages b = length (bk_pages b)"
definition bk_nwords :: "mb_block \<Rightarrow> nat" where "bk_nwords b = (bk_npages b + 63) div 64"

definition MB_GROUP_PAGES :: nat where "MB_GROUP_PAGES = 512"

text \<open>
  What the operating system and the snapshot pool answer: the number of machine
  pages in a host page, whether a protection change of \<open>count\<close> pages from
  \<open>first\<close> is granted, and whether there is room for a copy of page \<open>i\<close>.
\<close>

record os_env =
  os_group :: nat
  os_grants :: "nat \<Rightarrow> nat \<Rightarrow> mb_prot \<Rightarrow> bool"
  os_room :: "nat \<Rightarrow> bool"

text \<open>Writing a field of one page, as \<^verbatim>\<open>b->pages[i].field = ...\<close> does.\<close>

definition upd_page :: "(mb_page \<Rightarrow> mb_page) \<Rightarrow> mb_block \<Rightarrow> nat \<Rightarrow> mb_block" where
  "upd_page f b i = b\<lparr>bk_pages := (bk_pages b)[i := f (bk_pages b ! i)]\<rparr>"

section \<open>Noting what a page is\<close>

definition note_prot :: "mb_block \<Rightarrow> nat \<Rightarrow> mb_prot \<Rightarrow> mb_block" where
  "note_prot b i prot =
    (let writable = prot_writable prot;
         p = bk_pages b ! i;
         b1 = (if writable \<and> \<not> pg_hot p \<and> \<not> pg_invisible p
               then b\<lparr>bk_unheld_bits := bits_set (bk_unheld_bits b) i\<rparr>
               else b\<lparr>bk_unheld_bits := bits_clr (bk_unheld_bits b) i\<rparr>)
     in if writable then upd_page (\<lambda>p. p\<lparr>pg_held := False\<rparr>) b1 i else b1)"

definition mb_block_note_unheld :: "mb_block \<Rightarrow> nat \<Rightarrow> mb_block" where
  "mb_block_note_unheld b pi =
    (if pg_hot (bk_pages b ! pi) then b else b\<lparr>bk_unheld_bits := bits_set (bk_unheld_bits b) pi\<rparr>)"

definition page_cool :: "mb_block \<Rightarrow> nat \<Rightarrow> mb_block" where
  "page_cool b i =
    (if \<not> pg_hot (bk_pages b ! i) then b
     else
       let b1 = upd_page (\<lambda>p. p\<lparr>pg_hot := False, pg_heat := 0, pg_shadow := None\<rparr>) b i
       in b1\<lparr>bk_hot_bits := bits_clr (bk_hot_bits b1) i,
             bk_nhot := bk_nhot b1 - 1,
             bk_unheld_bits := bits_set (bk_unheld_bits b1) i\<rparr>)"

definition note_status :: "mb_block \<Rightarrow> nat \<Rightarrow> byte \<Rightarrow> mb_block" where
  "note_status b i status =
    (let was = pg_status (bk_pages b ! i);
         gi = i div MB_GROUP_PAGES;
         gf = bk_group_free b;
         b1 = (if was \<noteq> status then
                 (if was = MB_ST_FREE then b\<lparr>bk_group_free := gf[gi := gf ! gi - 1]\<rparr>
                  else if status = MB_ST_FREE then b\<lparr>bk_group_free := gf[gi := gf ! gi + 1]\<rparr>
                  else b)
               else b);
         b2 = (if pg_hot (bk_pages b1 ! i) \<and> pg_status (bk_pages b1 ! i) \<noteq> status
               then page_cool b1 i else b1);
         b3 = upd_page (\<lambda>p. p\<lparr>pg_status := status\<rparr>) b2 i
     in b3\<lparr>bk_status_map := (bk_status_map b3)[i := status]\<rparr>)"

definition set_dirty :: "mb_block \<Rightarrow> nat \<Rightarrow> bool \<Rightarrow> mb_block" where
  "set_dirty b i dirty =
    (let b1 = (if \<not> dirty \<and> pg_hot (bk_pages b ! i) then page_cool b i else b);
         b2 = upd_page (\<lambda>p. p\<lparr>pg_dirty := dirty\<rparr>) b1 i
     in b2\<lparr>bk_dirty_map := (bk_dirty_map b2)[i := of_bool dirty]\<rparr>)"

definition mb_block_maps_consistent :: "mb_block \<Rightarrow> bool" where
  "mb_block_maps_consistent b \<longleftrightarrow>
    list_all (\<lambda>i. let p = bk_pages b ! i in
        bk_status_map b ! i = pg_status p \<and> bk_dirty_map b ! i = of_bool (pg_dirty p)
      \<and> pg_hot p = bits_get (bk_hot_bits b) i
      \<and> \<not> (pg_hot p \<and> (\<not> pg_dirty p \<or> pg_shadow p = None \<or> bits_get (bk_unheld_bits b) i))
      \<and> \<not> (pg_held p \<and> (pg_hot p \<or> bits_get (bk_unheld_bits b) i))
      \<and> \<not> (\<not> pg_hot p \<and> pg_shadow p \<noteq> None \<and> pg_status p \<noteq> MB_ST_RWSTACK))
      [0..<bk_npages b]
    \<and> length (filter pg_hot (bk_pages b)) = bk_nhot b"

section \<open>Hot pages\<close>

definition HOT_AFTER :: nat where "HOT_AFTER = 3"
definition COLD_AFTER :: nat where "COLD_AFTER = 8"
definition HOT_MOST :: nat where "HOT_MOST = 32768"

definition page_heat :: "os_env \<Rightarrow> mb_block \<Rightarrow> nat \<Rightarrow> mb_block" where
  "page_heat E b i =
    (let p = bk_pages b ! i
     in if pg_hot p \<or> pg_invisible p \<or> \<not> pg_dirty p then b
        else if pg_status p \<noteq> MB_ST_RW \<and> pg_status p \<noteq> MB_ST_RWX then b
        else if \<not> bits_get (bk_unheld_bits b) i \<or> HOT_MOST \<le> bk_nhot b then b
        else if \<not> os_room E i then b
        else
          let b1 = upd_page (\<lambda>p. p\<lparr>pg_shadow := Some (pg_live p), pg_hot := True, pg_heat := 0\<rparr>) b i
          in b1\<lparr>bk_hot_bits := bits_set (bk_hot_bits b1) i,
                bk_unheld_bits := bits_clr (bk_unheld_bits b1) i,
                bk_nhot := bk_nhot b1 + 1\<rparr>)"

definition mark_epoch_dirty :: "mb_block \<Rightarrow> nat \<Rightarrow> mb_block" where
  "mark_epoch_dirty b i =
    (let b1 = upd_page (\<lambda>p. p\<lparr>pg_epoch_dirty := True\<rparr>) b i
     in b1\<lparr>bk_epoch_bits := bits_set (bk_epoch_bits b1) i, bk_epoch_ndirty := bk_epoch_ndirty b1 + 1\<rparr>)"

definition hot_epoch_page :: "mb_block \<Rightarrow> nat \<Rightarrow> mb_block" where
  "hot_epoch_page b i =
    (let p = bk_pages b ! i
     in if pg_shadow p = Some (pg_live p) then
          (let b1 = upd_page (\<lambda>p. p\<lparr>pg_heat := (pg_heat p + 1) mod 256\<rparr>) b i
           in if COLD_AFTER \<le> pg_heat (bk_pages b1 ! i) then page_cool b1 i else b1)
        else
          (let b1 = upd_page (\<lambda>p. p\<lparr>pg_heat := 0\<rparr>) b i
           in if pg_epoch_dirty p then b1 else mark_epoch_dirty b1 i))"

definition get_hot_epoch :: "mb_block \<Rightarrow> mb_block" where
  "get_hot_epoch b = fold (\<lambda>i b. hot_epoch_page b i) (bits_each (bk_hot_bits b)) b"

definition heat_page :: "os_env \<Rightarrow> mb_block \<Rightarrow> nat \<Rightarrow> mb_block" where
  "heat_page E b i =
    (let p = bk_pages b ! i
     in if pg_hot p then b
        else
          (let b1 = upd_page (\<lambda>p. p\<lparr>pg_heat :=
                  (if pg_seen p = (bk_epoch_no b + 2 ^ 16 - 1) mod 2 ^ 16
                   then (if pg_heat p < 255 then pg_heat p + 1 else pg_heat p) else 1)\<rparr>) b i;
               b2 = upd_page (\<lambda>p. p\<lparr>pg_seen := bk_epoch_no b\<rparr>) b1 i
           in if HOT_AFTER \<le> pg_heat (bk_pages b2 ! i) then page_heat E b2 i else b2))"

definition heat_written_pages :: "os_env \<Rightarrow> mb_block \<Rightarrow> mb_block" where
  "heat_written_pages E b = fold (\<lambda>i b. heat_page E b i) (bits_each (bk_epoch_bits b)) b"

section \<open>The epoch's half of a fault, and the plan's\<close>

definition epoch_tracks :: "mb_page \<Rightarrow> bool" where
  "epoch_tracks p \<longleftrightarrow> \<not> pg_invisible p \<and>
     (pg_status p = MB_ST_RW \<or> pg_status p = MB_ST_RWX \<or> pg_status p = MB_ST_RWSTACK)"

definition mb_block_epoch_capture :: "mb_block \<Rightarrow> nat \<Rightarrow> mb_block" where
  "mb_block_epoch_capture b pi =
    (let b1 = upd_page (\<lambda>p. p\<lparr>pg_held := False\<rparr>) b pi;
         p = bk_pages b1 ! pi
     in if \<not> bk_epoch_active b1 \<or> \<not> epoch_tracks p \<or> pg_epoch_dirty p then b1
        else mark_epoch_dirty b1 pi)"

definition plan_copy_page :: "mb_block \<Rightarrow> nat \<Rightarrow> mb_block" where
  "plan_copy_page b pi =
    (let p = bk_pages b ! pi
     in b\<lparr>bk_plan_dest := put_at (bk_plan_dest b) (bk_plan_data_at b + pg_plan_slot p * MB_PAGESIZE) (pg_live p)\<rparr>)"

text \<open>
  \<open>plan_take\<close> with nobody else copying: \<^verbatim>\<open>plan_hold\<close> is 1 or 0. The race for
  the value 2 is modelled on its own in \<^verbatim>\<open>Mb_Plan_Race\<close>.
\<close>

definition plan_take :: "mb_block \<Rightarrow> nat \<Rightarrow> mb_block \<times> bool" where
  "plan_take b pi =
    (if pg_plan_hold (bk_pages b ! pi)
     then (upd_page (\<lambda>p. p\<lparr>pg_plan_hold := False\<rparr>) (plan_copy_page b pi) pi, True)
     else (b, False))"

definition mb_block_plan_capture :: "mb_block \<Rightarrow> nat \<Rightarrow> mb_block" where
  "mb_block_plan_capture b pi = (if \<not> bk_plan_active b then b else fst (plan_take b pi))"

definition page_snapshot :: "os_env \<Rightarrow> mb_block \<Rightarrow> nat \<Rightarrow> mb_block \<times> bool" where
  "page_snapshot E b i =
    (let r = mb_page_maybe_snapshot (os_room E i) (bk_pages b ! i)
     in (upd_page (\<lambda>_. fst r) b i, snd r))"

section \<open>Refreshing protections\<close>

text \<open>\<^verbatim>\<open>mb_pal_protect\<close> over a run of pages of the guest's view: all of it or nothing.\<close>

definition os_protect :: "os_env \<Rightarrow> mb_block \<Rightarrow> nat \<Rightarrow> nat \<Rightarrow> mb_prot \<Rightarrow> mb_block \<times> bool" where
  "os_protect E b first count prot =
    (if os_grants E first count prot
     then (fold (\<lambda>i b. upd_page (\<lambda>p. p\<lparr>pg_os := prot\<rparr>) b i) [first..<min (first + count) (bk_npages b)] b, True)
     else (b, False))"

function refresh_groups_from :: "os_env \<Rightarrow> mb_block \<Rightarrow> nat \<Rightarrow> nat \<Rightarrow> mb_block" where
  "refresh_groups_from E b g endg =
    (if g < endg then
       (let n = os_group E;
            prot = group_native_prot n (bk_pages b) g;
            m = length (takeWhile (\<lambda>k. group_native_prot n (bk_pages b) (g + k * n) = prot)
                  [1..<(endg - g + n - 1) div n]);
            h = g + (m + 1) * max 1 n;
            b1 = fst (os_protect E b g (h - g) prot)
        in refresh_groups_from E b1 h endg)
     else b)"
  by pat_completeness auto
termination by (relation "measure (\<lambda>(E, b, g, endg). endg - g)") (auto simp: Let_def)

definition refresh_groups :: "os_env \<Rightarrow> mb_block \<Rightarrow> nat \<Rightarrow> nat \<Rightarrow> mb_block" where
  "refresh_groups E b pstart pcount =
    (let n = os_group E;
         first = pstart div n * n;
         endg = (pstart + pcount + n - 1) div n * n;
         b1 = fold (\<lambda>k b. note_prot b k (mb_page_native_prot (bk_pages b ! k))) [pstart..<pstart + pcount] b
     in refresh_groups_from E b1 first endg)"

definition native_run :: "mb_block \<Rightarrow> nat \<Rightarrow> nat \<Rightarrow> nat" where
  "native_run b i endp =
    i + 1 + length (takeWhile (\<lambda>j. mb_page_native_prot (bk_pages b ! j) = mb_page_native_prot (bk_pages b ! i))
                      [i + 1..<endp])"

function refresh_from :: "os_env \<Rightarrow> mb_block \<Rightarrow> nat \<Rightarrow> nat \<Rightarrow> mb_block" where
  "refresh_from E b i endp =
    (if i < endp then
       (let prot = mb_page_native_prot (bk_pages b ! i);
            j = native_run b i endp;
            b1 = fst (os_protect E b i (j - i) prot);
            b2 = fold (\<lambda>k b. note_prot b k prot) [i..<j] b1
        in refresh_from E b2 j endp)
     else b)"
  by pat_completeness auto
termination by (relation "measure (\<lambda>(E, b, i, endp). endp - i)") (auto simp: Let_def native_run_def)

declare refresh_from.simps [simp del] refresh_groups_from.simps [simp del]

definition refresh_range :: "os_env \<Rightarrow> mb_block \<Rightarrow> nat \<Rightarrow> nat \<Rightarrow> mb_block" where
  "refresh_range E b pstart pcount =
    (if \<not> bk_swapped_in b then b
     else if 1 < os_group E then refresh_groups E b pstart pcount
     else refresh_from E b pstart (pstart + pcount))"

definition refresh_all :: "os_env \<Rightarrow> mb_block \<Rightarrow> mb_block" where
  "refresh_all E b = refresh_range E b 0 (bk_npages b)"

definition mb_block_protect_group :: "os_env \<Rightarrow> mb_block \<Rightarrow> nat \<Rightarrow> mb_block \<times> bool" where
  "mb_block_protect_group E b pi =
    (let n = os_group E; first = pi div n * n
     in os_protect E b first n (group_native_prot n (bk_pages b) first))"

text \<open>The run a loop is collecting: \<open>None\<close> when none is open.\<close>

type_synonym prot_run = "(nat \<times> nat) option"

definition run_close :: "os_env \<Rightarrow> mb_block \<Rightarrow> prot_run \<Rightarrow> mb_block" where
  "run_close E b run = (case run of None \<Rightarrow> b | Some (start, lst) \<Rightarrow> refresh_range E b start (lst - start + 1))"

definition run_note :: "os_env \<Rightarrow> mb_block \<Rightarrow> prot_run \<Rightarrow> nat \<Rightarrow> mb_block \<times> prot_run" where
  "run_note E b run i =
    (case run of
       None \<Rightarrow> (b, Some (i, i))
     | Some (start, lst) \<Rightarrow>
         if i = lst + 1 then (b, Some (start, i))
         else (refresh_range E b start (lst - start + 1), Some (i, i)))"

section \<open>Validating a range, and changing a range's status\<close>

definition validate :: "mb_block \<Rightarrow> mb_range \<Rightarrow> (nat \<times> nat) option" where
  "validate b addr =
    (let ba = bk_addr b
     in if rg_size addr = 0 \<or> rg_start addr < rg_start ba
         \<or> rg_start addr - rg_start ba > rg_size ba
         \<or> rg_size addr > rg_size ba - (rg_start addr - rg_start ba)
         \<or> rg_start addr \<noteq> mb_align_down (rg_start addr) \<or> rg_size addr \<noteq> mb_align_down (rg_size addr)
        then None
        else Some (unat (drop_bit 12 (rg_start addr - rg_start ba)), unat (drop_bit 12 (rg_size addr))))"

definition epoch_note_status_change :: "mb_block \<Rightarrow> nat \<Rightarrow> byte \<Rightarrow> mb_block" where
  "epoch_note_status_change b i to =
    (let p = bk_pages b ! i
     in if \<not> bk_epoch_active b \<or> pg_status p = to then b
        else
          (let b1 = (if \<not> bits_get (bk_stat_bits b) i
                     then b\<lparr>bk_stat_bits := bits_set (bk_stat_bits b) i,
                            bk_epoch_status := (bk_epoch_status b)[i := pg_status p],
                            bk_epoch_nstat := bk_epoch_nstat b + 1\<rparr>
                     else b)
           in if pg_invisible p then b1
              else if epoch_tracks p then mb_block_epoch_capture b1 i
              else if pg_epoch_dirty p then b1
              else mark_epoch_dirty b1 i))"

definition set_protections :: "os_env \<Rightarrow> mb_block \<Rightarrow> nat \<Rightarrow> nat \<Rightarrow> byte \<Rightarrow> mb_block" where
  "set_protections E b pstart pcount status =
    (let is = [pstart..<pstart + pcount];
         b1 = fold (\<lambda>i b. epoch_note_status_change b i status) is b;
         b2 = fold (\<lambda>i b. note_status b i status) is b1
     in refresh_range E b2 pstart pcount)"

section \<open>Construction and activation\<close>

definition new_page :: mb_page where
  "new_page = \<lparr>pg_status = MB_ST_FREE, pg_dirty = False, pg_invisible = False, pg_snap = MB_SNAP_ZERO,
     pg_held = False, pg_epoch_dirty = False, pg_hot = False, pg_heat = 0, pg_seen = 0, pg_shadow = None,
     pg_plan_hold = False, pg_plan_slot = 0, pg_live = zero_page, pg_os = MB_PROT_NONE\<rparr>"

text \<open>\<open>room\<close>: every allocation and mapping of the block succeeds.\<close>

definition mb_block_new :: "bool \<Rightarrow> mb_range \<Rightarrow> mb_block option" where
  "mb_block_new room addr =
    (if rg_start addr \<noteq> mb_align_down (rg_start addr) \<or> rg_size addr \<noteq> mb_align_down (rg_size addr) then None
     else if rg_start addr AND 0xffffffff \<noteq> 0 then None
     else if \<not> room then None
     else
       (let n = unat (drop_bit 12 (rg_size addr));
            nw = (n + 63) div 64;
            ng = (n + MB_GROUP_PAGES - 1) div MB_GROUP_PAGES
        in Some \<lparr>bk_pages = replicate n new_page, bk_addr = addr, bk_sealed = False,
             bk_load_touched = False, bk_swapped_in = False, bk_active = False,
             bk_hash = replicate 32 0, bk_epoch_active = False,
             bk_epoch_bits = replicate nw 0, bk_stat_bits = replicate nw 0,
             bk_unheld_bits = replicate nw 0, bk_hot_bits = replicate nw 0,
             bk_nhot = 0, bk_epoch_no = 0, bk_epoch_ndirty = 0, bk_epoch_nstat = 0,
             bk_epoch_status = replicate n 0, bk_status_map = replicate n 0, bk_dirty_map = replicate n 0,
             bk_group_free = map (\<lambda>g. let first = g * MB_GROUP_PAGES
                in if n - first < MB_GROUP_PAGES then n - first else MB_GROUP_PAGES) [0..<ng],
             bk_plan_active = False, bk_plan_dest = [], bk_plan_data_at = 0, bk_plan_list = []\<rparr>))"

text \<open>A block the OS will not map at its address ends the process: \<open>None\<close>.\<close>

definition mb_block_activate :: "os_env \<Rightarrow> bool \<Rightarrow> mb_block \<Rightarrow> mb_block option" where
  "mb_block_activate E mapped b =
    (if bk_active b then Some b
     else if bk_swapped_in b then Some (b\<lparr>bk_active := True\<rparr>)
     else if \<not> mapped then None
     else Some ((refresh_all E (b\<lparr>bk_swapped_in := True\<rparr>))\<lparr>bk_active := True\<rparr>))"

definition mb_block_deactivate :: "mb_block \<Rightarrow> mb_block" where
  "mb_block_deactivate b = (if \<not> bk_active b then b else b\<lparr>bk_active := False\<rparr>)"

section \<open>A write of the guest\<close>

text \<open>
  \<open>trip\<close> of \<^verbatim>\<open>tripguard.c\<close>: the fault handler's answer to a write at a page of
  this block that is mapped without write access.
\<close>

definition trip_snapshots :: "os_env \<Rightarrow> mb_block \<Rightarrow> nat \<Rightarrow> nat list \<Rightarrow> mb_block \<times> bool" where
  "trip_snapshots E b pi qs =
    fold (\<lambda>qi (b, ok). if \<not> ok \<or> \<not> group_page_held (bk_pages b) qi pi then (b, ok) else page_snapshot E b qi)
      qs (b, True)"

definition trip_release :: "mb_block \<Rightarrow> nat \<Rightarrow> mb_block" where
  "trip_release b qi = set_dirty (mb_block_plan_capture (mb_block_epoch_capture b qi) qi) qi True"

definition trip_pages :: "mb_block \<Rightarrow> nat \<Rightarrow> nat list \<Rightarrow> mb_block \<times> nat list" where
  "trip_pages b pi qs =
    fold (\<lambda>qi (b, released). if \<not> group_page_held (bk_pages b) qi pi then (b, released)
                             else (trip_release b qi, released @ [qi])) qs (b, [])"

definition trip :: "os_env \<Rightarrow> mb_block \<Rightarrow> nat \<Rightarrow> mb_block \<times> bool" where
  "trip E b pi =
    (if \<not> status_tracked (pg_status (bk_pages b ! pi)) then (b, False)
     else
       (let n = os_group E;
            first = pi div n * n;
            qs = [first..<min (first + n) (bk_npages b)];
            (b1, ok) = trip_snapshots E b pi qs
        in if \<not> ok then (b1, False)
           else
             (let (b2, released) = trip_pages b1 pi qs;
                  (b3, granted) = mb_block_protect_group E b2 pi
              in if \<not> granted then (b3, False)
                 else (fold (\<lambda>qi b. mb_block_note_unheld b qi) released b3, True))))"

text \<open>
  The bytes \<open>xs\<close> stored at offset \<open>off\<close> of a page: at once when the page is mapped
  writable, after the handler let the write through when it is not, and not at
  all (\<open>None\<close>: the fault is somebody else's) when the handler answers no.
\<close>

definition store :: "mb_block \<Rightarrow> nat \<Rightarrow> nat \<Rightarrow> bytes \<Rightarrow> mb_block" where
  "store b i off xs = upd_page (\<lambda>p. p\<lparr>pg_live := put_at (pg_live p) off xs\<rparr>) b i"

definition guest_write :: "os_env \<Rightarrow> mb_block \<Rightarrow> nat \<Rightarrow> nat \<Rightarrow> bytes \<Rightarrow> mb_block \<times> bool" where
  "guest_write E b i off xs =
    (if prot_writable (pg_os (bk_pages b ! i)) then (store b i off xs, True)
     else
       (case trip E b i of
          (b1, False) \<Rightarrow> (b1, False)
        | (b1, True) \<Rightarrow> (store b1 i off xs, True)))"

end
