(* ===== verification/Mb_Block_View.thy ===== *)
theory Mb_Block_View
  imports Mb_Block
begin

text \<open>
  The block seen one page at a time. \<open>view b i\<close> is everything the block keeps for
  page \<open>i\<close>, in the page array, the bitmaps and the packed maps; \<open>frame b\<close> is what
  does not belong to a page. An operation of the locale \<open>page_op\<close> changes the view
  of one page by a function of that view, and keeps \<open>block_ok\<close>: the maps agree
  with the page array and the counters count it. The bookkeeping operations are
  its interpretations, and a loop of them over pages acts on each page alone.
\<close>

section \<open>Views and frames\<close>

record pview =
  v_page :: mb_page
  v_epoch :: bool
  v_stat :: bool
  v_unheld :: bool
  v_hot :: bool
  v_smap :: byte
  v_dmap :: byte

record bframe =
  fr_n :: nat
  fr_addr :: mb_range
  fr_sealed :: bool
  fr_touched :: bool
  fr_swapped :: bool
  fr_active :: bool
  fr_hash :: bytes
  fr_epoch :: bool
  fr_epoch_no :: nat
  fr_plan :: bool
  fr_plan_at :: nat
  fr_plan_list :: "nat list"

definition view :: "mb_block \<Rightarrow> nat \<Rightarrow> pview" where
  "view b i = \<lparr>v_page = bk_pages b ! i, v_epoch = bits_get (bk_epoch_bits b) i,
     v_stat = bits_get (bk_stat_bits b) i, v_unheld = bits_get (bk_unheld_bits b) i,
     v_hot = bits_get (bk_hot_bits b) i, v_smap = bk_status_map b ! i, v_dmap = bk_dirty_map b ! i\<rparr>"

definition frame :: "mb_block \<Rightarrow> bframe" where
  "frame b = \<lparr>fr_n = bk_npages b, fr_addr = bk_addr b, fr_sealed = bk_sealed b, fr_touched = bk_load_touched b,
     fr_swapped = bk_swapped_in b, fr_active = bk_active b, fr_hash = bk_hash b, fr_epoch = bk_epoch_active b,
     fr_epoch_no = bk_epoch_no b, fr_plan = bk_plan_active b, fr_plan_at = bk_plan_data_at b,
     fr_plan_list = bk_plan_list b\<rparr>"

lemma view_sel [simp]:
  "v_page (view b i) = bk_pages b ! i" "v_epoch (view b i) = bits_get (bk_epoch_bits b) i"
  "v_stat (view b i) = bits_get (bk_stat_bits b) i" "v_unheld (view b i) = bits_get (bk_unheld_bits b) i"
  "v_hot (view b i) = bits_get (bk_hot_bits b) i" "v_smap (view b i) = bk_status_map b ! i"
  "v_dmap (view b i) = bk_dirty_map b ! i"
  by (simp_all add: view_def)

lemma frame_sel [simp]:
  "fr_n (frame b) = bk_npages b" "fr_addr (frame b) = bk_addr b" "fr_sealed (frame b) = bk_sealed b"
  "fr_touched (frame b) = bk_load_touched b" "fr_swapped (frame b) = bk_swapped_in b"
  "fr_active (frame b) = bk_active b" "fr_hash (frame b) = bk_hash b" "fr_epoch (frame b) = bk_epoch_active b"
  "fr_epoch_no (frame b) = bk_epoch_no b" "fr_plan (frame b) = bk_plan_active b"
  "fr_plan_at (frame b) = bk_plan_data_at b" "fr_plan_list (frame b) = bk_plan_list b"
  by (simp_all add: frame_def)

lemma frame_eqD:
  assumes "frame b' = frame b"
  shows "bk_npages b' = bk_npages b" "bk_addr b' = bk_addr b" "bk_sealed b' = bk_sealed b"
    "bk_load_touched b' = bk_load_touched b" "bk_swapped_in b' = bk_swapped_in b" "bk_active b' = bk_active b"
    "bk_hash b' = bk_hash b" "bk_epoch_active b' = bk_epoch_active b" "bk_epoch_no b' = bk_epoch_no b"
    "bk_plan_active b' = bk_plan_active b" "bk_plan_data_at b' = bk_plan_data_at b" "bk_plan_list b' = bk_plan_list b"
  using assms by (metis frame_sel)+

definition bits_below :: "nat \<Rightarrow> u64 list \<Rightarrow> bool" where
  "bits_below n w \<longleftrightarrow> (\<forall>i. n \<le> i \<longrightarrow> i < 64 * length w \<longrightarrow> \<not> bits_get w i)"

definition bits_fit :: "nat \<Rightarrow> u64 list \<Rightarrow> bool" where
  "bits_fit n w \<longleftrightarrow> length w = (n + 63) div 64 \<and> bits_below n w"

definition block_lens :: "mb_block \<Rightarrow> bool" where
  "block_lens b \<longleftrightarrow>
     bits_fit (bk_npages b) (bk_epoch_bits b) \<and> bits_fit (bk_npages b) (bk_stat_bits b) \<and>
     bits_fit (bk_npages b) (bk_unheld_bits b) \<and> bits_fit (bk_npages b) (bk_hot_bits b) \<and>
     length (bk_epoch_status b) = bk_npages b \<and> length (bk_status_map b) = bk_npages b \<and>
     length (bk_dirty_map b) = bk_npages b \<and>
     length (bk_group_free b) = (bk_npages b + MB_GROUP_PAGES - 1) div MB_GROUP_PAGES"

definition view_ok :: "pview \<Rightarrow> bool" where
  "view_ok v \<longleftrightarrow> v_smap v = pg_status (v_page v) \<and> v_dmap v = of_bool (pg_dirty (v_page v)) \<and>
     v_hot v = pg_hot (v_page v) \<and> v_epoch v = pg_epoch_dirty (v_page v)"

definition page_count :: "mb_block \<Rightarrow> (mb_page \<Rightarrow> bool) \<Rightarrow> nat" where
  "page_count b P = card {i. i < bk_npages b \<and> P (bk_pages b ! i)}"

definition group_count :: "mb_block \<Rightarrow> nat \<Rightarrow> nat" where
  "group_count b g = card {i. i < bk_npages b \<and> i div MB_GROUP_PAGES = g \<and> pg_status (bk_pages b ! i) = MB_ST_FREE}"

definition block_ok :: "mb_block \<Rightarrow> bool" where
  "block_ok b \<longleftrightarrow> block_lens b \<and> (\<forall>i < bk_npages b. view_ok (view b i)) \<and>
     bk_nhot b = page_count b pg_hot \<and> bk_epoch_ndirty b = page_count b pg_epoch_dirty \<and>
     bk_epoch_nstat b = card {i. i < bk_npages b \<and> bits_get (bk_stat_bits b) i} \<and>
     (\<forall>g < length (bk_group_free b). bk_group_free b ! g = group_count b g)"

lemma block_ok_lens: "block_ok b \<Longrightarrow> block_lens b" by (simp add: block_ok_def)

lemma block_ok_view: "block_ok b \<Longrightarrow> i < bk_npages b \<Longrightarrow> view_ok (view b i)" by (simp add: block_ok_def)

section \<open>Counting\<close>

lemma card_below_insert:
  assumes "k < n" "P' k" "\<not> P k" "\<And>j. j < n \<Longrightarrow> j \<noteq> k \<Longrightarrow> P' j = P j"
  shows "card {i. i < (n :: nat) \<and> P' i} = Suc (card {i. i < n \<and> P i})"
proof -
  have "{i. i < n \<and> P' i} = insert k {i. i < n \<and> P i}" using assms by auto
  then show ?thesis using assms(3) by simp
qed

lemma card_below_remove:
  assumes "k < n" "\<not> P' k" "P k" "\<And>j. j < n \<Longrightarrow> j \<noteq> k \<Longrightarrow> P' j = P j"
  shows "card {i. i < (n :: nat) \<and> P' i} = card {i. i < n \<and> P i} - 1"
  using card_below_insert [of k n P P'] assms by auto

lemma card_below_cong:
  assumes "\<And>j. j < n \<Longrightarrow> P' j = P j"
  shows "card {i. i < (n :: nat) \<and> P' i} = card {i. i < n \<and> P i}"
  by (metis (mono_tags, lifting) assms)

lemma card_below_change:
  assumes i: "i < n" and eq: "\<And>j. j < n \<Longrightarrow> j \<noteq> i \<Longrightarrow> Q' j = Q j"
  shows "card {k. k < (n :: nat) \<and> Q' k} + of_bool (Q i) = card {k. k < n \<and> Q k} + of_bool (Q' i)"
proof (cases "Q i = Q' i")
  case True
  then have "Q' j = Q j" if "j < n" for j using eq [OF that] by (cases "j = i") simp_all
  then show ?thesis using True by (simp add: card_below_cong [of n Q' Q])
next
  case False
  show ?thesis
  proof (cases "Q i")
    case True
    then show ?thesis using False card_below_insert [of i n Q Q'] i eq by simp
  next
    case nq: False
    then show ?thesis using False card_below_insert [of i n Q' Q] i eq by simp
  qed
qed

lemma bits_fit_room: "bits_fit n w \<Longrightarrow> n \<le> 64 * length w"
  by (simp add: bits_fit_def)

lemma bits_fit_get [simp]:
  assumes "bits_fit n w" "i < n" "j < n"
  shows "bits_get (bits_set w i) j \<longleftrightarrow> j = i \<or> bits_get w j"
    "bits_get (bits_clr w i) j \<longleftrightarrow> j \<noteq> i \<and> bits_get w j"
  using assms bits_fit_room [OF assms(1)] by (simp_all add: bits_get_set bits_get_clr)

lemma bits_fit_upd [simp]:
  assumes "bits_fit n w" "i < n"
  shows "bits_fit n (bits_set w i)" "bits_fit n (bits_clr w i)"
  using assms bits_fit_room [OF assms(1)]
  by (auto simp: bits_fit_def bits_below_def bits_get_set bits_get_clr)

lemma bits_fit_none [simp]: "bits_fit n (replicate ((n + 63) div 64) 0)"
  using bits_get_none by (auto simp: bits_fit_def bits_below_def bits_none_def)

lemma bits_b:
  assumes "block_lens b"
  shows "bits_fit (bk_npages b) (bk_epoch_bits b)" "bits_fit (bk_npages b) (bk_stat_bits b)"
    "bits_fit (bk_npages b) (bk_unheld_bits b)" "bits_fit (bk_npages b) (bk_hot_bits b)"
    "length (bk_epoch_status b) = bk_npages b" "length (bk_status_map b) = bk_npages b"
    "length (bk_dirty_map b) = bk_npages b"
  using assms by (simp_all add: block_lens_def)

lemma bits_get_b [simp]:
  assumes "block_lens b" "i < bk_npages b" "j < bk_npages b"
  shows "bits_get (bits_set (bk_epoch_bits b) i) j \<longleftrightarrow> j = i \<or> bits_get (bk_epoch_bits b) j"
    "bits_get (bits_set (bk_stat_bits b) i) j \<longleftrightarrow> j = i \<or> bits_get (bk_stat_bits b) j"
    "bits_get (bits_set (bk_unheld_bits b) i) j \<longleftrightarrow> j = i \<or> bits_get (bk_unheld_bits b) j"
    "bits_get (bits_set (bk_hot_bits b) i) j \<longleftrightarrow> j = i \<or> bits_get (bk_hot_bits b) j"
    "bits_get (bits_clr (bk_unheld_bits b) i) j \<longleftrightarrow> j \<noteq> i \<and> bits_get (bk_unheld_bits b) j"
    "bits_get (bits_clr (bk_hot_bits b) i) j \<longleftrightarrow> j \<noteq> i \<and> bits_get (bk_hot_bits b) j"
  by (simp_all only: bits_fit_get [OF bits_b(1) [OF assms(1)] assms(2,3)]
      bits_fit_get [OF bits_b(2) [OF assms(1)] assms(2,3)] bits_fit_get [OF bits_b(3) [OF assms(1)] assms(2,3)]
      bits_fit_get [OF bits_b(4) [OF assms(1)] assms(2,3)])

lemma set_bits_each: "bits_fit n w \<Longrightarrow> set (bits_each w) = {i. i < n \<and> bits_get w i}"
  by (auto simp: bits_each_filter bits_fit_def bits_below_def) (meson not_less)

lemma distinct_bits_each: "distinct (bits_each w)"
  by (simp add: bits_each_filter)

lemma sorted_bits_each: "sorted (bits_each w)"
  by (simp add: bits_each_filter sorted_wrt_filter)

section \<open>What a field's update does to a view\<close>

lemma npages_upd_page [simp]: "bk_npages (upd_page f b i) = bk_npages b"
  by (simp add: upd_page_def bk_npages_def)

lemma upd_page_sel [simp]:
  "bk_addr (upd_page f b i) = bk_addr b" "bk_sealed (upd_page f b i) = bk_sealed b"
  "bk_load_touched (upd_page f b i) = bk_load_touched b" "bk_swapped_in (upd_page f b i) = bk_swapped_in b"
  "bk_active (upd_page f b i) = bk_active b" "bk_hash (upd_page f b i) = bk_hash b"
  "bk_epoch_active (upd_page f b i) = bk_epoch_active b" "bk_epoch_bits (upd_page f b i) = bk_epoch_bits b"
  "bk_stat_bits (upd_page f b i) = bk_stat_bits b" "bk_unheld_bits (upd_page f b i) = bk_unheld_bits b"
  "bk_hot_bits (upd_page f b i) = bk_hot_bits b" "bk_nhot (upd_page f b i) = bk_nhot b"
  "bk_epoch_no (upd_page f b i) = bk_epoch_no b" "bk_epoch_ndirty (upd_page f b i) = bk_epoch_ndirty b"
  "bk_epoch_nstat (upd_page f b i) = bk_epoch_nstat b" "bk_epoch_status (upd_page f b i) = bk_epoch_status b"
  "bk_status_map (upd_page f b i) = bk_status_map b" "bk_dirty_map (upd_page f b i) = bk_dirty_map b"
  "bk_group_free (upd_page f b i) = bk_group_free b" "bk_plan_active (upd_page f b i) = bk_plan_active b"
  "bk_plan_dest (upd_page f b i) = bk_plan_dest b" "bk_plan_data_at (upd_page f b i) = bk_plan_data_at b"
  "bk_plan_list (upd_page f b i) = bk_plan_list b"
  by (simp_all add: upd_page_def)

lemma pages_upd_page [simp]:
  "i < bk_npages b \<Longrightarrow> bk_pages (upd_page f b i) ! j = (if j = i then f (bk_pages b ! i) else bk_pages b ! j)"
  by (simp add: upd_page_def bk_npages_def)

lemma npages_upds [simp]:
  "bk_npages (b\<lparr>bk_epoch_bits := w\<rparr>) = bk_npages b" "bk_npages (b\<lparr>bk_stat_bits := w\<rparr>) = bk_npages b"
  "bk_npages (b\<lparr>bk_unheld_bits := w\<rparr>) = bk_npages b" "bk_npages (b\<lparr>bk_hot_bits := w\<rparr>) = bk_npages b"
  "bk_npages (b\<lparr>bk_nhot := k\<rparr>) = bk_npages b" "bk_npages (b\<lparr>bk_epoch_ndirty := k\<rparr>) = bk_npages b"
  "bk_npages (b\<lparr>bk_epoch_nstat := k\<rparr>) = bk_npages b" "bk_npages (b\<lparr>bk_epoch_status := m\<rparr>) = bk_npages b"
  "bk_npages (b\<lparr>bk_status_map := m\<rparr>) = bk_npages b" "bk_npages (b\<lparr>bk_dirty_map := m\<rparr>) = bk_npages b"
  "bk_npages (b\<lparr>bk_group_free := gf\<rparr>) = bk_npages b" "bk_npages (b\<lparr>bk_plan_dest := d\<rparr>) = bk_npages b"
  "bk_npages (b\<lparr>bk_swapped_in := q\<rparr>) = bk_npages b" "bk_npages (b\<lparr>bk_active := q\<rparr>) = bk_npages b"
  "bk_npages (b\<lparr>bk_sealed := q\<rparr>) = bk_npages b" "bk_npages (b\<lparr>bk_load_touched := q\<rparr>) = bk_npages b"
  "bk_npages (b\<lparr>bk_epoch_active := q\<rparr>) = bk_npages b" "bk_npages (b\<lparr>bk_plan_active := q\<rparr>) = bk_npages b"
  "bk_npages (b\<lparr>bk_hash := h\<rparr>) = bk_npages b" "bk_npages (b\<lparr>bk_epoch_no := k\<rparr>) = bk_npages b"
  "bk_npages (b\<lparr>bk_plan_list := l\<rparr>) = bk_npages b" "bk_npages (b\<lparr>bk_plan_data_at := k\<rparr>) = bk_npages b"
  by (simp_all add: bk_npages_def)

lemma nwords_cong: "bk_npages b' = bk_npages b \<Longrightarrow> bk_nwords b' = bk_nwords b"
  by (simp add: bk_nwords_def)

text \<open>Any record update that keeps the pages' array and the maps keeps the views.\<close>

lemma view_eqI:
  "bk_pages b' ! j = bk_pages b ! j \<Longrightarrow> bits_get (bk_epoch_bits b') j = bits_get (bk_epoch_bits b) j \<Longrightarrow>
   bits_get (bk_stat_bits b') j = bits_get (bk_stat_bits b) j \<Longrightarrow>
   bits_get (bk_unheld_bits b') j = bits_get (bk_unheld_bits b) j \<Longrightarrow>
   bits_get (bk_hot_bits b') j = bits_get (bk_hot_bits b) j \<Longrightarrow>
   bk_status_map b' ! j = bk_status_map b ! j \<Longrightarrow> bk_dirty_map b' ! j = bk_dirty_map b ! j \<Longrightarrow>
   view b' j = view b j"
  by (simp add: view_def)

section \<open>One page changes\<close>

lemma page_count_pos: "i < bk_npages b \<Longrightarrow> P (bk_pages b ! i) \<Longrightarrow> 0 < page_count b P"
  by (auto simp: page_count_def card_gt_0_iff)

lemma group_count_pos:
  "i < bk_npages b \<Longrightarrow> pg_status (bk_pages b ! i) = MB_ST_FREE \<Longrightarrow> 0 < group_count b (i div MB_GROUP_PAGES)"
  by (auto simp: group_count_def card_gt_0_iff)

lemma page_count_upd:
  assumes "i < bk_npages b" "bk_npages b' = bk_npages b"
    "\<And>j. j < bk_npages b \<Longrightarrow> j \<noteq> i \<Longrightarrow> bk_pages b' ! j = bk_pages b ! j"
  shows "page_count b' P + of_bool (P (bk_pages b ! i)) = page_count b P + of_bool (P (bk_pages b' ! i))"
  unfolding page_count_def assms(2) using assms(1,3) by (intro card_below_change) simp_all

lemma block_ok_change:
  assumes ok: "block_ok b" and i: "i < bk_npages b" and n: "bk_npages b' = bk_npages b" and lens: "block_lens b'"
    and other: "\<And>j. j < bk_npages b \<Longrightarrow> j \<noteq> i \<Longrightarrow> view b' j = view b j"
    and vok: "view_ok (view b' i)"
    and hot: "bk_nhot b' + of_bool (pg_hot (bk_pages b ! i)) = bk_nhot b + of_bool (pg_hot (bk_pages b' ! i))"
    and dirty: "bk_epoch_ndirty b' + of_bool (pg_epoch_dirty (bk_pages b ! i)) =
                bk_epoch_ndirty b + of_bool (pg_epoch_dirty (bk_pages b' ! i))"
    and stat: "bk_epoch_nstat b' + of_bool (v_stat (view b i)) = bk_epoch_nstat b + of_bool (v_stat (view b' i))"
    and gf: "\<And>g. g < length (bk_group_free b) \<Longrightarrow>
        bk_group_free b' ! g + of_bool (g = i div MB_GROUP_PAGES \<and> pg_status (bk_pages b ! i) = MB_ST_FREE) =
        bk_group_free b ! g + of_bool (g = i div MB_GROUP_PAGES \<and> pg_status (bk_pages b' ! i) = MB_ST_FREE)"
  shows "block_ok b'"
proof -
  have pg: "bk_pages b' ! j = bk_pages b ! j" "bits_get (bk_stat_bits b') j = bits_get (bk_stat_bits b) j"
    if "j < bk_npages b" "j \<noteq> i" for j
    using other [OF that] by (metis view_sel)+
  have cnt: "page_count b' P + of_bool (P (bk_pages b ! i)) = page_count b P + of_bool (P (bk_pages b' ! i))" for P
    using page_count_upd [OF i n pg(1)] .
  have views: "view_ok (view b' j)" if "j < bk_npages b" for j
    using vok other [OF that] block_ok_view [OF ok that] by (cases "j = i") simp_all
  have st: "card {k. k < bk_npages b \<and> bits_get (bk_stat_bits b') k} + of_bool (bits_get (bk_stat_bits b) i) =
      card {k. k < bk_npages b \<and> bits_get (bk_stat_bits b) k} + of_bool (bits_get (bk_stat_bits b') i)"
    using card_below_change [OF i pg(2)] .
  have lg: "length (bk_group_free b') = length (bk_group_free b)"
    using lens ok n by (simp add: block_lens_def block_ok_def)
  have gc: "group_count b' g + of_bool (i div MB_GROUP_PAGES = g \<and> pg_status (bk_pages b ! i) = MB_ST_FREE) =
      group_count b g + of_bool (i div MB_GROUP_PAGES = g \<and> pg_status (bk_pages b' ! i) = MB_ST_FREE)" for g
    unfolding group_count_def n using i pg(1) by (intro card_below_change) auto
  have g': "bk_group_free b' ! g = group_count b' g" if "g < length (bk_group_free b)" for g
    using gf [OF that] gc [of g] ok that by (simp add: block_ok_def eq_commute [of "i div MB_GROUP_PAGES" g])
  show ?thesis
    unfolding block_ok_def n lg
    using lens views hot dirty stat st g' cnt [of pg_hot] cnt [of pg_epoch_dirty] ok
    by (simp add: block_ok_def)
qed

text \<open>A write to fields of one page that neither the maps nor the counters keep.\<close>

definition keeps_mapped :: "(mb_page \<Rightarrow> mb_page) \<Rightarrow> bool" where
  "keeps_mapped f \<longleftrightarrow> (\<forall>p. pg_status (f p) = pg_status p \<and> pg_dirty (f p) = pg_dirty p \<and>
     pg_hot (f p) = pg_hot p \<and> pg_epoch_dirty (f p) = pg_epoch_dirty p)"

lemma block_lens_upd_page [simp]: "block_lens (upd_page f b i) = block_lens b"
  by (simp add: block_lens_def)

lemma frame_upd_page [simp]: "frame (upd_page f b i) = frame b"
  by (simp add: frame_def)

lemma view_upd_page:
  "i < bk_npages b \<Longrightarrow>
     view (upd_page f b i) j = (if j = i then (view b i)\<lparr>v_page := f (bk_pages b ! i)\<rparr> else view b j)"
  by (simp add: view_def)

lemma block_ok_upd_page: "block_ok b \<Longrightarrow> i < bk_npages b \<Longrightarrow> keeps_mapped f \<Longrightarrow> block_ok (upd_page f b i)"
  by (rule block_ok_change [of b i])
     (auto simp: block_ok_lens view_upd_page keeps_mapped_def dest: block_ok_view, auto simp: view_ok_def dest: block_ok_view)

section \<open>Operations on one page\<close>

locale page_op =
  fixes op :: "mb_block \<Rightarrow> nat \<Rightarrow> mb_block" and g :: "bframe \<Rightarrow> pview \<Rightarrow> pview"
  assumes op_ok: "block_ok b \<Longrightarrow> i < bk_npages b \<Longrightarrow> block_ok (op b i)"
    and op_frame: "block_ok b \<Longrightarrow> i < bk_npages b \<Longrightarrow> frame (op b i) = frame b"
    and op_view: "block_ok b \<Longrightarrow> i < bk_npages b \<Longrightarrow> j < bk_npages b \<Longrightarrow>
      view (op b i) j = (if j = i then g (frame b) (view b i) else view b j)"
begin

lemma op_npages: "block_ok b \<Longrightarrow> i < bk_npages b \<Longrightarrow> bk_npages (op b i) = bk_npages b"
  using op_frame frame_eqD(1) by blast

lemma fold_ok:
  "block_ok b \<Longrightarrow> \<forall>i\<in>set is. i < bk_npages b \<Longrightarrow>
     block_ok (fold (\<lambda>i b. op b i) is b) \<and> frame (fold (\<lambda>i b. op b i) is b) = frame b"
proof (induction "is" arbitrary: b)
  case (Cons i "is")
  then have "block_ok (op b i)" "frame (op b i) = frame b" "bk_npages (op b i) = bk_npages b"
    using op_ok op_frame op_npages by simp_all
  then show ?case using Cons.IH [of "op b i"] Cons.prems by simp
qed simp

lemma fold_view:
  "block_ok b \<Longrightarrow> \<forall>i\<in>set is. i < bk_npages b \<Longrightarrow> distinct is \<Longrightarrow> j < bk_npages b \<Longrightarrow>
     view (fold (\<lambda>i b. op b i) is b) j = (if j \<in> set is then g (frame b) (view b j) else view b j)"
proof (induction "is" arbitrary: b)
  case (Cons i "is")
  then have *: "block_ok (op b i)" "frame (op b i) = frame b" "bk_npages (op b i) = bk_npages b"
    using op_ok op_frame op_npages by simp_all
  then show ?case using Cons.IH [of "op b i"] Cons.prems op_view [of b i j] by auto
qed simp

end

text \<open>One operation on a page after another.\<close>

lemma page_op_comp:
  assumes "page_op op1 g1" "page_op op2 g2"
  shows "page_op (\<lambda>b i. op2 (op1 b i) i) (\<lambda>fr v. g2 fr (g1 fr v))"
proof
  fix b i j
  assume b: "block_ok b" "i < bk_npages b"
  note 1 = page_op.op_ok [OF assms(1) b] page_op.op_frame [OF assms(1) b] page_op.op_npages [OF assms(1) b]
  show "block_ok (op2 (op1 b i) i)" using page_op.op_ok [OF assms(2) 1(1)] 1 b by simp
  show "frame (op2 (op1 b i) i) = frame b" using page_op.op_frame [OF assms(2) 1(1)] 1 b by simp
  show "view (op2 (op1 b i) i) j = (if j = i then g2 (frame b) (g1 (frame b) (view b i)) else view b j)"
    if "j < bk_npages b"
    using page_op.op_view [OF assms(2) 1(1)] page_op.op_view [OF assms(1) b] 1 b that by simp
qed

text \<open>An operation chosen by what the page and the frame are.\<close>

lemma page_op_if:
  assumes "page_op op1 g1" "page_op op2 g2"
    and c: "\<And>b i. block_ok b \<Longrightarrow> i < bk_npages b \<Longrightarrow> c b i \<longleftrightarrow> P (frame b) (view b i)"
  shows "page_op (\<lambda>b i. if c b i then op1 b i else op2 b i) (\<lambda>fr v. if P fr v then g1 fr v else g2 fr v)"
proof
  fix b i j
  assume b: "block_ok b" "i < bk_npages b"
  note 1 = page_op.op_ok [OF assms(1) b] page_op.op_frame [OF assms(1) b]
  note 2 = page_op.op_ok [OF assms(2) b] page_op.op_frame [OF assms(2) b]
  show "block_ok (if c b i then op1 b i else op2 b i)" using 1 2 by simp
  show "frame (if c b i then op1 b i else op2 b i) = frame b" using 1 2 by simp
  show "view (if c b i then op1 b i else op2 b i) j =
      (if j = i then if P (frame b) (view b i) then g1 (frame b) (view b i) else g2 (frame b) (view b i) else view b j)"
    if "j < bk_npages b"
    using page_op.op_view [OF assms(1) b that] page_op.op_view [OF assms(2) b that] c [OF b] by auto
qed

lemma page_op_skip: "page_op (\<lambda>b i. b) (\<lambda>_ v. v)"
  by unfold_locales simp_all

lemma page_op_upd: "keeps_mapped f \<Longrightarrow> page_op (upd_page f) (\<lambda>_ v. v\<lparr>v_page := f (v_page v)\<rparr>)"
  by unfold_locales (simp_all add: block_ok_upd_page view_upd_page)

text \<open>What the bookkeeping does to a view.\<close>

definition cool_v :: "pview \<Rightarrow> pview" where
  "cool_v v = (if pg_hot (v_page v)
     then v\<lparr>v_page := (v_page v)\<lparr>pg_hot := False, pg_heat := 0, pg_shadow := None\<rparr>, v_hot := False, v_unheld := True\<rparr>
     else v)"

definition note_prot_v :: "mb_prot \<Rightarrow> pview \<Rightarrow> pview" where
  "note_prot_v prot v =
    (let p = v_page v; w = prot_writable prot
     in v\<lparr>v_unheld := (w \<and> \<not> pg_hot p \<and> \<not> pg_invisible p),
          v_page := (if w then p\<lparr>pg_held := False\<rparr> else p)\<rparr>)"

definition unheld_v :: "pview \<Rightarrow> pview" where
  "unheld_v v = (if pg_hot (v_page v) then v else v\<lparr>v_unheld := True\<rparr>)"

definition status_v :: "byte \<Rightarrow> pview \<Rightarrow> pview" where
  "status_v s v =
    (let v1 = (if pg_status (v_page v) \<noteq> s then cool_v v else v)
     in v1\<lparr>v_page := (v_page v1)\<lparr>pg_status := s\<rparr>, v_smap := s\<rparr>)"

definition dirty_v :: "bool \<Rightarrow> pview \<Rightarrow> pview" where
  "dirty_v d v =
    (let v1 = (if \<not> d then cool_v v else v)
     in v1\<lparr>v_page := (v_page v1)\<lparr>pg_dirty := d\<rparr>, v_dmap := of_bool d\<rparr>)"

definition written_v :: "pview \<Rightarrow> pview" where
  "written_v v = v\<lparr>v_page := (v_page v)\<lparr>pg_epoch_dirty := True\<rparr>, v_epoch := True\<rparr>"

definition capture_v :: "bframe \<Rightarrow> pview \<Rightarrow> pview" where
  "capture_v fr v =
    (let v1 = v\<lparr>v_page := (v_page v)\<lparr>pg_held := False\<rparr>\<rparr>
     in if fr_epoch fr \<and> epoch_tracks (v_page v) then written_v v1 else v1)"

definition estat_v :: "byte \<Rightarrow> bframe \<Rightarrow> pview \<Rightarrow> pview" where
  "estat_v to fr v =
    (if \<not> fr_epoch fr \<or> pg_status (v_page v) = to then v
     else
       (let v1 = v\<lparr>v_stat := True\<rparr>
        in if pg_invisible (v_page v) then v1
           else if epoch_tracks (v_page v) then capture_v fr v1
           else written_v v1))"

definition plan_v :: "bframe \<Rightarrow> pview \<Rightarrow> pview" where
  "plan_v fr v = (if fr_plan fr then v\<lparr>v_page := (v_page v)\<lparr>pg_plan_hold := False\<rparr>\<rparr> else v)"

definition refresh_v :: "bframe \<Rightarrow> pview \<Rightarrow> pview" where
  "refresh_v fr v =
    (if fr_swapped fr
     then note_prot_v (mb_page_native_prot (v_page v))
            (v\<lparr>v_page := (v_page v)\<lparr>pg_os := mb_page_native_prot (v_page v)\<rparr>\<rparr>)
     else v)"

lemma frame_unheld [simp]: "frame (b\<lparr>bk_unheld_bits := w\<rparr>) = frame b"
  by (simp add: frame_def)

lemma view_unheld [simp]: "view (b\<lparr>bk_unheld_bits := w\<rparr>) j = (view b j)\<lparr>v_unheld := bits_get w j\<rparr>"
  by (simp add: view_def)

lemma block_ok_unheld:
  assumes "block_ok b" "bits_fit (bk_npages b) w"
  shows "block_ok (b\<lparr>bk_unheld_bits := w\<rparr>)"
  using assms by (simp add: block_ok_def block_lens_def view_ok_def page_count_def group_count_def)

lemma block_ok_nhot_pos: "block_ok b \<Longrightarrow> i < bk_npages b \<Longrightarrow> pg_hot (bk_pages b ! i) \<Longrightarrow> 0 < bk_nhot b"
  by (simp add: block_ok_def page_count_pos)

interpretation cool: page_op page_cool "\<lambda>_. cool_v"
proof
  fix b i j
  assume b: "block_ok b" "i < bk_npages b"
  note l = block_ok_lens [OF b(1)]
  show fr: "frame (page_cool b i) = frame b" by (simp add: page_cool_def Let_def frame_def)
  show v: "view (page_cool b i) j = (if j = i then cool_v (view b i) else view b j)" if "j < bk_npages b" for j
    using b l that by (auto simp: page_cool_def cool_v_def Let_def view_def)
  show "block_ok (page_cool b i)"
  proof (rule block_ok_change [OF b])
    show "view_ok (view (page_cool b i) i)"
      using v [OF b(2)] block_ok_view [OF b] by (simp add: cool_v_def view_ok_def)
    show "block_lens (page_cool b i)"
      using l b bits_b [OF l] by (simp add: page_cool_def Let_def block_lens_def)
  qed (use b v block_ok_nhot_pos [OF b] in \<open>simp_all add: page_cool_def cool_v_def Let_def frame_eqD [OF fr]\<close>)
qed

interpretation nprot: page_op "\<lambda>b i. note_prot b i prot" "\<lambda>_. note_prot_v prot" for prot
proof
  fix b i j
  assume b: "block_ok b" "i < bk_npages b"
  note l = block_ok_lens [OF b(1)]
  show "frame (note_prot b i prot) = frame b" by (simp add: note_prot_def Let_def)
  show "view (note_prot b i prot) j = (if j = i then note_prot_v prot (view b i) else view b j)"
    if "j < bk_npages b" for j
    using b l that by (simp add: note_prot_def note_prot_v_def Let_def view_upd_page)
  show "block_ok (note_prot b i prot)"
    using b bits_b [OF l]
    by (auto simp: note_prot_def Let_def keeps_mapped_def intro!: block_ok_upd_page block_ok_unheld)
qed

interpretation unheld: page_op mb_block_note_unheld "\<lambda>_. unheld_v"
proof
  fix b i j
  assume b: "block_ok b" "i < bk_npages b"
  note l = block_ok_lens [OF b(1)]
  show "frame (mb_block_note_unheld b i) = frame b" by (simp add: mb_block_note_unheld_def)
  show "view (mb_block_note_unheld b i) j = (if j = i then unheld_v (view b i) else view b j)"
    if "j < bk_npages b" for j
    using b l that by (simp add: mb_block_note_unheld_def unheld_v_def)
  show "block_ok (mb_block_note_unheld b i)"
    using b bits_b [OF l] by (simp add: mb_block_note_unheld_def block_ok_unheld)
qed

lemma view_ok_cool: "view_ok v \<Longrightarrow> view_ok (cool_v v)"
  by (simp add: view_ok_def cool_v_def)

text \<open>Changing the status or the dirty bit: the cooling first, then the field and its map.\<close>

definition put_dirty :: "bool \<Rightarrow> mb_block \<Rightarrow> nat \<Rightarrow> mb_block" where
  "put_dirty d b i =
    (let b2 = upd_page (\<lambda>p. p\<lparr>pg_dirty := d\<rparr>) b i in b2\<lparr>bk_dirty_map := (bk_dirty_map b2)[i := of_bool d]\<rparr>)"

interpretation putd: page_op "put_dirty d" "\<lambda>_ v. v\<lparr>v_page := (v_page v)\<lparr>pg_dirty := d\<rparr>, v_dmap := of_bool d\<rparr>" for d
proof
  fix b i j
  assume b: "block_ok b" "i < bk_npages b"
  note l = block_ok_lens [OF b(1)]
  show fr: "frame (put_dirty d b i) = frame b" by (simp add: put_dirty_def Let_def frame_def)
  show v: "view (put_dirty d b i) j = (if j = i then (view b i)\<lparr>v_page := (v_page (view b i))\<lparr>pg_dirty := d\<rparr>,
      v_dmap := of_bool d\<rparr> else view b j)" if "j < bk_npages b" for j
    using b bits_b [OF l] that by (simp add: put_dirty_def Let_def view_def)
  show "block_ok (put_dirty d b i)"
  proof (rule block_ok_change [OF b])
    show "view_ok (view (put_dirty d b i) i)"
      using v [OF b(2)] block_ok_view [OF b] by (simp add: view_ok_def)
    show "block_lens (put_dirty d b i)"
      using l by (simp add: put_dirty_def Let_def block_lens_def)
  qed (use b v in \<open>simp_all add: put_dirty_def Let_def frame_eqD [OF fr]\<close>)
qed

lemma set_dirty_eq: "set_dirty b i d = put_dirty d (if \<not> d then page_cool b i else b) i"
  by (simp add: set_dirty_def put_dirty_def page_cool_def Let_def)

interpretation dirt: page_op "\<lambda>b i. set_dirty b i d" "\<lambda>_. dirty_v d" for d
proof (cases d)
  case True
  then show "page_op (\<lambda>b i. set_dirty b i d) (\<lambda>_. dirty_v d)"
    using putd.page_op_axioms [of True] by (simp add: set_dirty_eq dirty_v_def [abs_def] Let_def)
next
  case False
  then show "page_op (\<lambda>b i. set_dirty b i d) (\<lambda>_. dirty_v d)"
    using page_op_comp [OF cool.page_op_axioms putd.page_op_axioms [of False]]
    by (simp add: set_dirty_eq dirty_v_def [abs_def] Let_def)
qed

definition put_status :: "byte \<Rightarrow> mb_block \<Rightarrow> nat \<Rightarrow> mb_block" where
  "put_status s b i =
    (let was = pg_status (bk_pages b ! i); gi = i div MB_GROUP_PAGES; gf = bk_group_free b;
         b1 = (if was \<noteq> s then
                 (if was = MB_ST_FREE then b\<lparr>bk_group_free := gf[gi := gf ! gi - 1]\<rparr>
                  else if s = MB_ST_FREE then b\<lparr>bk_group_free := gf[gi := gf ! gi + 1]\<rparr>
                  else b)
               else b);
         b2 = upd_page (\<lambda>p. p\<lparr>pg_status := s\<rparr>) b1 i
     in b2\<lparr>bk_status_map := (bk_status_map b2)[i := s]\<rparr>)"

lemma group_index: "i < n \<Longrightarrow> i div MB_GROUP_PAGES < (n + MB_GROUP_PAGES - 1) div MB_GROUP_PAGES"
proof -
  assume "i < n"
  then have "i + MB_GROUP_PAGES \<le> n + MB_GROUP_PAGES - 1" by simp
  then have "(i + MB_GROUP_PAGES) div MB_GROUP_PAGES \<le> (n + MB_GROUP_PAGES - 1) div MB_GROUP_PAGES"
    by (rule div_le_mono)
  then show ?thesis by (simp add: MB_GROUP_PAGES_def)
qed

lemma block_ok_group_pos:
  "block_ok b \<Longrightarrow> i < bk_npages b \<Longrightarrow> pg_status (bk_pages b ! i) = MB_ST_FREE \<Longrightarrow>
     0 < bk_group_free b ! (i div MB_GROUP_PAGES)"
  using group_index [of i "bk_npages b"] group_count_pos [of i b]
  by (simp add: block_ok_def block_lens_def)

interpretation puts: page_op "put_status s" "\<lambda>_ v. v\<lparr>v_page := (v_page v)\<lparr>pg_status := s\<rparr>, v_smap := s\<rparr>" for s
proof
  fix b i j
  assume b: "block_ok b" "i < bk_npages b"
  note l = block_ok_lens [OF b(1)]
  show fr: "frame (put_status s b i) = frame b" by (simp add: put_status_def Let_def frame_def)
  show v: "view (put_status s b i) j = (if j = i then (view b i)\<lparr>v_page := (v_page (view b i))\<lparr>pg_status := s\<rparr>,
      v_smap := s\<rparr> else view b j)" if "j < bk_npages b" for j
    using b bits_b [OF l] that by (simp add: put_status_def Let_def view_def)
  have gi: "i div MB_GROUP_PAGES < length (bk_group_free b)"
    using l group_index [OF b(2)] by (simp add: block_lens_def)
  show "block_ok (put_status s b i)"
  proof (rule block_ok_change [OF b])
    show "view_ok (view (put_status s b i) i)"
      using v [OF b(2)] block_ok_view [OF b] by (simp add: view_ok_def)
    show "block_lens (put_status s b i)"
      using l by (simp add: put_status_def Let_def block_lens_def)
    show "bk_group_free (put_status s b i) ! g +
          of_bool (g = i div MB_GROUP_PAGES \<and> pg_status (bk_pages b ! i) = MB_ST_FREE) =
        bk_group_free b ! g +
          of_bool (g = i div MB_GROUP_PAGES \<and> pg_status (bk_pages (put_status s b i) ! i) = MB_ST_FREE)"
      if "g < length (bk_group_free b)" for g
      using b gi block_ok_group_pos [OF b] that
      by (cases "g = i div MB_GROUP_PAGES") (auto simp: put_status_def Let_def)
  qed (use b v in \<open>simp_all add: put_status_def Let_def frame_eqD [OF fr]\<close>)
qed

lemma page_cool_group_free [simp]: "page_cool (b\<lparr>bk_group_free := gf\<rparr>) i = (page_cool b i)\<lparr>bk_group_free := gf\<rparr>"
  by (simp add: page_cool_def Let_def upd_page_def)

lemma page_cool_pages:
  "i < bk_npages b \<Longrightarrow> pg_status (bk_pages (page_cool b i) ! i) = pg_status (bk_pages b ! i)"
  "bk_group_free (page_cool b i) = bk_group_free b"
  by (simp_all add: page_cool_def Let_def)

lemma note_status_eq:
  "i < bk_npages b \<Longrightarrow>
     note_status b i s = put_status s (if pg_status (bk_pages b ! i) \<noteq> s then page_cool b i else b) i"
  by (simp add: note_status_def put_status_def Let_def page_cool_pages)
     (auto simp: page_cool_def)

interpretation stat: page_op "\<lambda>b i. note_status b i s" "\<lambda>_. status_v s" for s
proof
  fix b i j
  assume b: "block_ok b" "i < bk_npages b"
  have *: "page_op (\<lambda>b i. put_status s (if pg_status (bk_pages b ! i) \<noteq> s then page_cool b i else b) i) (\<lambda>_. status_v s)"
    unfolding status_v_def Let_def
    by (rule page_op_comp [OF page_op_if [OF cool.page_op_axioms page_op_skip] puts.page_op_axioms]) simp
  show "block_ok (note_status b i s)" "frame (note_status b i s) = frame b"
    using page_op.op_ok [OF * b] page_op.op_frame [OF * b] note_status_eq [OF b(2)] by simp_all
  show "view (note_status b i s) j = (if j = i then status_v s (view b i) else view b j)" if "j < bk_npages b"
    using page_op.op_view [OF * b that] note_status_eq [OF b(2)] by simp
qed

end
