(* ===== verification/Mb_Alloc.thy ===== *)
theory Mb_Alloc
  imports Mb_Block_View
begin

text \<open>
  Where a request without an address goes: \<^verbatim>\<open>find_free_pages\<close> of
  \<^verbatim>\<open>memblock.c\<close>, with the counters that let it cross a whole group of pages in
  one step. It is compared with the page-by-page walk, which is also shown to
  find a run whenever there is one.
\<close>

section \<open>The code\<close>

definition MB_BIG_REQUEST_PAGES :: nat where "MB_BIG_REQUEST_PAGES = 4096"

definition group_taken :: "mb_block \<Rightarrow> nat \<Rightarrow> nat \<Rightarrow> nat \<Rightarrow> bool" where
  "group_taken b first lo hi \<longleftrightarrow> first mod MB_GROUP_PAGES = 0 \<and> lo \<le> first \<and> first + MB_GROUP_PAGES \<le> hi \<and>
     bk_group_free b ! (first div MB_GROUP_PAGES) = 0"

definition group_all_free :: "mb_block \<Rightarrow> nat \<Rightarrow> nat \<Rightarrow> nat \<Rightarrow> bool" where
  "group_all_free b first lo hi \<longleftrightarrow> first mod MB_GROUP_PAGES = 0 \<and> lo \<le> first \<and> first + MB_GROUP_PAGES \<le> hi \<and>
     bk_group_free b ! (first div MB_GROUP_PAGES) = MB_GROUP_PAGES"

lemma MB_GROUP_PAGES_pos [simp]: "0 < MB_GROUP_PAGES"
  by (simp add: MB_GROUP_PAGES_def)

function find_top :: "mb_block \<Rightarrow> nat \<Rightarrow> nat \<Rightarrow> nat \<Rightarrow> nat \<Rightarrow> nat \<Rightarrow> nat option" where
  "find_top b lo hi npages i run_end =
    (if lo < i then
       (if MB_GROUP_PAGES \<le> i \<and> group_taken b (i - MB_GROUP_PAGES) lo hi
        then find_top b lo hi npages (i - MB_GROUP_PAGES) (i - MB_GROUP_PAGES)
        else if MB_GROUP_PAGES \<le> i \<and> run_end - (i - MB_GROUP_PAGES) < npages
                \<and> group_all_free b (i - MB_GROUP_PAGES) lo hi
        then find_top b lo hi npages (i - MB_GROUP_PAGES) run_end
        else if bk_status_map b ! (i - 1) \<noteq> MB_ST_FREE
        then find_top b lo hi npages (i - 1) (i - 1)
        else if npages \<le> run_end - (i - 1) then Some (run_end - npages)
        else find_top b lo hi npages (i - 1) run_end)
     else None)"
  by pat_completeness auto
termination by (relation "measure (\<lambda>(b, lo, hi, npages, i, run_end). i)") auto

function run_from :: "mb_block \<Rightarrow> nat \<Rightarrow> nat \<Rightarrow> nat \<Rightarrow> nat" where
  "run_from b lo hi j =
    (if j < hi \<and> bk_status_map b ! j = MB_ST_FREE
     then run_from b lo hi (if group_all_free b j lo hi then j + MB_GROUP_PAGES else j + 1)
     else j)"
  by pat_completeness auto
termination by (relation "measure (\<lambda>(b, lo, hi, j). hi - j)") (auto simp: MB_GROUP_PAGES_def)

declare find_top.simps [simp del] run_from.simps [simp del]

lemma run_from_le: "j \<le> run_from b lo hi j"
proof (induction b lo hi j rule: run_from.induct)
  case (1 b lo hi j)
  show ?case
  proof (cases "j < hi \<and> bk_status_map b ! j = MB_ST_FREE")
    case True
    have "j \<le> (if group_all_free b j lo hi then j + MB_GROUP_PAGES else j + 1)" by simp
    also have "\<dots> \<le> run_from b lo hi (if group_all_free b j lo hi then j + MB_GROUP_PAGES else j + 1)"
      by (rule "1.IH" [OF True])
    finally show ?thesis using True by (subst run_from.simps) simp
  qed (simp add: run_from.simps)
qed

lemma run_from_less: "j < hi \<Longrightarrow> bk_status_map b ! j = MB_ST_FREE \<Longrightarrow> j < run_from b lo hi j"
  using run_from_le [of "if group_all_free b j lo hi then j + MB_GROUP_PAGES else j + 1" b lo hi]
  by (subst run_from.simps) (simp split: if_splits add: MB_GROUP_PAGES_def)

text \<open>The smallest run that is long enough; \<open>best\<close> is its start and length.\<close>

function find_best :: "mb_block \<Rightarrow> nat \<Rightarrow> nat \<Rightarrow> nat \<Rightarrow> nat \<Rightarrow> (nat \<times> nat) option \<Rightarrow> nat option" where
  "find_best b lo hi npages i best =
    (if i < hi then
       (if bk_status_map b ! i = MB_ST_FREE then
          (let j = run_from b lo hi i; len = j - i
           in find_best b lo hi npages j
                (if npages \<le> len \<and> (case best of None \<Rightarrow> True | Some (s, l) \<Rightarrow> len < l)
                 then Some (i, len) else best))
        else if group_taken b i lo hi then find_best b lo hi npages (i + MB_GROUP_PAGES) best
        else find_best b lo hi npages (i + 1) best)
     else map_option fst best)"
  by pat_completeness auto
termination
  by (relation "measure (\<lambda>(b, lo, hi, npages, i, best). hi - i)")
     (auto simp: MB_GROUP_PAGES_def run_from_less intro!: diff_less_mono2)

declare find_best.simps [simp del]

definition find_free_pages :: "mb_block \<Rightarrow> nat \<Rightarrow> nat \<Rightarrow> nat \<Rightarrow> nat option" where
  "find_free_pages b arena_start arena_count npages =
    (let endp = arena_start + arena_count
     in if MB_BIG_REQUEST_PAGES \<le> npages then find_top b arena_start endp npages endp endp
        else find_best b arena_start endp npages arena_start None)"

section \<open>The page-by-page walk\<close>

fun walk_top :: "(nat \<Rightarrow> bool) \<Rightarrow> nat \<Rightarrow> nat \<Rightarrow> nat \<Rightarrow> nat \<Rightarrow> nat option" where
  "walk_top free lo npages 0 run_end = None"
| "walk_top free lo npages (Suc i) run_end =
    (if lo < Suc i then
       (if \<not> free i then walk_top free lo npages i i
        else if npages \<le> run_end - i then Some (run_end - npages)
        else walk_top free lo npages i run_end)
     else None)"

definition run_length :: "(nat \<Rightarrow> bool) \<Rightarrow> nat \<Rightarrow> nat \<Rightarrow> nat" where
  "run_length free hi i = length (takeWhile free [i..<hi])"

text \<open>\<open>walk_best\<close> on the pages from \<open>i\<close>, with \<open>k = hi - i\<close> left, stepping over one
  maximal run of free pages or one taken page at a time.\<close>

function walk_best :: "(nat \<Rightarrow> bool) \<Rightarrow> nat \<Rightarrow> nat \<Rightarrow> nat \<Rightarrow> (nat \<times> nat) option \<Rightarrow> nat option" where
  "walk_best free hi npages i best =
    (if i < hi then
       (if free i then
          (let len = run_length free hi i
           in walk_best free hi npages (i + max 1 len)
                (if npages \<le> len \<and> (case best of None \<Rightarrow> True | Some (s, l) \<Rightarrow> len < l)
                 then Some (i, len) else best))
        else walk_best free hi npages (i + 1) best)
     else map_option fst best)"
  by pat_completeness auto
termination by (relation "measure (\<lambda>(free, hi, npages, i, best). hi - i)") auto

declare walk_best.simps [simp del]

definition walk_free_pages :: "(nat \<Rightarrow> bool) \<Rightarrow> nat \<Rightarrow> nat \<Rightarrow> nat \<Rightarrow> nat option" where
  "walk_free_pages free arena_start arena_count npages =
    (let endp = arena_start + arena_count
     in if MB_BIG_REQUEST_PAGES \<le> npages then walk_top free arena_start npages endp endp
        else walk_best free endp npages arena_start None)"

abbreviation page_free :: "mb_block \<Rightarrow> nat \<Rightarrow> bool" where
  "page_free b i \<equiv> bk_status_map b ! i = MB_ST_FREE"

section \<open>What the group counters know\<close>

lemma group_members:
  "first mod MB_GROUP_PAGES = 0 \<Longrightarrow> i div MB_GROUP_PAGES = first div MB_GROUP_PAGES \<longleftrightarrow>
     first \<le> i \<and> i < first + MB_GROUP_PAGES"
proof -
  assume "first mod MB_GROUP_PAGES = 0"
  then obtain q where q: "first = MB_GROUP_PAGES * q" by (auto simp: mod_eq_0_iff_dvd elim: dvdE)
  then have fq: "first div MB_GROUP_PAGES = q" by simp
  show ?thesis
  proof
    assume "i div MB_GROUP_PAGES = first div MB_GROUP_PAGES"
    then show "first \<le> i \<and> i < first + MB_GROUP_PAGES"
      using times_div_less_eq_dividend [of MB_GROUP_PAGES i] dividend_less_times_div [of MB_GROUP_PAGES i] fq q
      by simp
  next
    assume "first \<le> i \<and> i < first + MB_GROUP_PAGES"
    then show "i div MB_GROUP_PAGES = first div MB_GROUP_PAGES"
      unfolding fq using q by (intro div_nat_eqI) (simp_all add: mult.commute)
  qed
qed

lemma group_count_eq:
  assumes "block_ok b" "first mod MB_GROUP_PAGES = 0" "first + MB_GROUP_PAGES \<le> bk_npages b"
  shows "bk_group_free b ! (first div MB_GROUP_PAGES) = card {i \<in> {first..<first + MB_GROUP_PAGES}. page_free b i}"
proof -
  have g: "first div MB_GROUP_PAGES < length (bk_group_free b)"
    using assms group_index [of first "bk_npages b"]
    by (simp add: block_ok_def block_lens_def MB_GROUP_PAGES_def)
  have "pg_status (bk_pages b ! i) = bk_status_map b ! i" if "i < bk_npages b" for i
    using block_ok_view [OF assms(1) that] by (simp add: view_ok_def)
  then have "{i. i < bk_npages b \<and> i div MB_GROUP_PAGES = first div MB_GROUP_PAGES
        \<and> pg_status (bk_pages b ! i) = MB_ST_FREE} = {i \<in> {first..<first + MB_GROUP_PAGES}. page_free b i}"
    using assms(3) by (auto simp: group_members [OF assms(2)])
  then show ?thesis
    using assms(1) g by (simp add: block_ok_def group_count_def)
qed

lemma group_takenD:
  assumes "block_ok b" "hi \<le> bk_npages b" "group_taken b first lo hi" "i \<in> {first..<first + MB_GROUP_PAGES}"
  shows "\<not> page_free b i"
proof -
  have "card {i \<in> {first..<first + MB_GROUP_PAGES}. page_free b i} = 0"
    using group_count_eq [OF assms(1), of first] assms(2,3) by (simp add: group_taken_def)
  then show ?thesis using assms(4) by auto
qed

lemma group_all_freeD:
  assumes "block_ok b" "hi \<le> bk_npages b" "group_all_free b first lo hi" "i \<in> {first..<first + MB_GROUP_PAGES}"
  shows "page_free b i"
proof -
  let ?G = "{first..<first + MB_GROUP_PAGES}"
  have "card {i \<in> ?G. page_free b i} = card ?G"
    using group_count_eq [OF assms(1), of first] assms(2,3) by (simp add: group_all_free_def)
  then have "{i \<in> ?G. page_free b i} = ?G"
    by (intro card_subset_eq) auto
  then show ?thesis using assms(4) by blast
qed

section \<open>The two walks agree\<close>

lemma walk_top_taken:
  "lo \<le> i \<Longrightarrow> (\<And>k. i \<le> k \<Longrightarrow> k < i + Suc m \<Longrightarrow> \<not> free k) \<Longrightarrow>
     walk_top free lo npages (i + Suc m) run_end = walk_top free lo npages i i"
  by (induction m arbitrary: run_end) simp_all

lemma walk_top_free:
  "lo \<le> i \<Longrightarrow> (\<And>k. i \<le> k \<Longrightarrow> k < i + m \<Longrightarrow> free k) \<Longrightarrow> run_end - i < npages \<Longrightarrow>
     walk_top free lo npages (i + m) run_end = walk_top free lo npages i run_end"
proof (induction m)
  case (Suc m)
  then have "\<not> npages \<le> run_end - (i + m)" by linarith
  then show ?case using Suc by simp
qed simp

lemma find_top_walk:
  assumes "block_ok b" "hi \<le> bk_npages b"
  shows "find_top b lo hi npages i run_end = walk_top (page_free b) lo npages i run_end"
proof (induction i arbitrary: run_end rule: less_induct)
  case (less i)
  let ?G = MB_GROUP_PAGES
  show ?case
  proof (cases "lo < i")
    case False
    then show ?thesis by (cases i) (simp_all add: find_top.simps)
  next
    case lo: True
    consider (taken) "?G \<le> i" "group_taken b (i - ?G) lo hi"
      | (free) "\<not> (?G \<le> i \<and> group_taken b (i - ?G) lo hi)" "?G \<le> i" "run_end - (i - ?G) < npages" "group_all_free b (i - ?G) lo hi"
      | (page) "\<not> (?G \<le> i \<and> group_taken b (i - ?G) lo hi)" "\<not> (?G \<le> i \<and> run_end - (i - ?G) < npages \<and> group_all_free b (i - ?G) lo hi)"
      by blast
    then show ?thesis
    proof cases
      case taken
      have i: "i - ?G + Suc (?G - 1) = i" using taken by simp
      have "walk_top (page_free b) lo npages (i - ?G + Suc (?G - 1)) run_end =
          walk_top (page_free b) lo npages (i - ?G) (i - ?G)"
        using taken group_takenD [OF assms, of "i - ?G" lo] by (intro walk_top_taken) (simp_all add: group_taken_def)
      then show ?thesis
        using lo taken less.IH [of "i - ?G"] unfolding i by (simp add: find_top.simps [of b lo hi npages i])
    next
      case free
      have i: "i - ?G + ?G = i" using free by simp
      have "walk_top (page_free b) lo npages (i - ?G + ?G) run_end = walk_top (page_free b) lo npages (i - ?G) run_end"
        using free group_all_freeD [OF assms, of "i - ?G" lo] by (intro walk_top_free) (simp_all add: group_all_free_def)
      then show ?thesis
        using lo free less.IH [of "i - ?G"] unfolding i by (simp add: find_top.simps [of b lo hi npages i])
    next
      case page
      then obtain k where "i = Suc k" using lo by (cases i) simp_all
      then show ?thesis
        using lo page less.IH [of k] by (auto simp: find_top.simps [of b lo hi npages "Suc k"])
    qed
  qed
qed

lemma run_length_step: "i < hi \<Longrightarrow> free i \<Longrightarrow> run_length free hi i = Suc (run_length free hi (Suc i))"
  by (simp add: run_length_def upt_conv_Cons)

lemma run_length_stop: "\<not> (i < hi \<and> free i) \<Longrightarrow> run_length free hi i = 0"
  by (cases "i < hi") (simp_all add: run_length_def upt_conv_Cons)

lemma run_length_skip:
  "i + m \<le> hi \<Longrightarrow> (\<And>k. i \<le> k \<Longrightarrow> k < i + m \<Longrightarrow> free k) \<Longrightarrow>
     run_length free hi i = m + run_length free hi (i + m)"
proof (induction m arbitrary: i)
  case (Suc m)
  then have "run_length free hi (Suc i) = m + run_length free hi (Suc i + m)" by (intro Suc.IH) simp_all
  moreover have "run_length free hi i = Suc (run_length free hi (Suc i))"
    using Suc.prems by (intro run_length_step) simp_all
  ultimately show ?case by simp
qed simp

lemma run_from_length:
  assumes "block_ok b" "hi \<le> bk_npages b"
  shows "run_from b lo hi j = j + run_length (page_free b) hi j"
proof (induction "hi - j" arbitrary: j rule: less_induct)
  case less
  show ?case
  proof (cases "j < hi \<and> page_free b j")
    case False
    then show ?thesis by (subst run_from.simps) (auto simp: run_length_stop)
  next
    case True
    show ?thesis
    proof (cases "group_all_free b j lo hi")
      case all: True
      then have "run_length (page_free b) hi j = MB_GROUP_PAGES + run_length (page_free b) hi (j + MB_GROUP_PAGES)"
        using group_all_freeD [OF assms all] by (intro run_length_skip) (simp_all add: group_all_free_def)
      then show ?thesis
        using True all less [of "j + MB_GROUP_PAGES"] by (simp add: run_from.simps [of b lo hi j] diff_less_mono2)
    next
      case False
      then show ?thesis
        using True less [of "Suc j"] run_length_step [of j hi "page_free b"]
        by (simp add: run_from.simps [of b lo hi j] diff_less_mono2)
    qed
  qed
qed

lemma walk_best_taken:
  "i + m \<le> hi \<Longrightarrow> (\<And>k. i \<le> k \<Longrightarrow> k < i + m \<Longrightarrow> \<not> free k) \<Longrightarrow>
     walk_best free hi npages i best = walk_best free hi npages (i + m) best"
proof (induction m arbitrary: i)
  case (Suc m)
  have "walk_best free hi npages i best = walk_best free hi npages (Suc i) best"
    using Suc.prems by (subst walk_best.simps) simp
  also have "\<dots> = walk_best free hi npages (Suc i + m) best"
    using Suc.prems by (intro Suc.IH) simp_all
  finally show ?case by simp
qed simp

lemma find_best_walk:
  assumes "block_ok b" "hi \<le> bk_npages b"
  shows "find_best b lo hi npages i best = walk_best (page_free b) hi npages i best"
proof (induction "hi - i" arbitrary: i best rule: less_induct)
  case less
  show ?case
  proof (cases "i < hi")
    case False
    then show ?thesis by (simp add: find_best.simps walk_best.simps)
  next
    case hi: True
    show ?thesis
    proof (cases "page_free b i")
      case True
      define len where "len = run_length (page_free b) hi i"
      have len: "0 < len" using run_length_step [of i hi "page_free b"] hi True by (simp add: len_def)
      have j: "run_from b lo hi i = i + len" using run_from_length [OF assms] by (simp add: len_def)
      have "find_best b lo hi npages (i + len) best' = walk_best (page_free b) hi npages (i + len) best'" for best'
        using less hi len by simp
      then show ?thesis
        using hi True len
        by (auto simp: find_best.simps [of b lo hi npages i] walk_best.simps [of _ hi npages i] j Let_def
            max_absorb2 len_def [symmetric] split: option.split)
    next
      case taken: False
      show ?thesis
      proof (cases "group_taken b i lo hi")
        case True
        then have "walk_best (page_free b) hi npages i best = walk_best (page_free b) hi npages (i + MB_GROUP_PAGES) best"
          using group_takenD [OF assms True] by (intro walk_best_taken) (simp_all add: group_taken_def)
        then show ?thesis
          using True taken hi less [of "i + MB_GROUP_PAGES"]
          by (simp add: find_best.simps [of b lo hi npages i] diff_less_mono2)
      next
        case False
        then show ?thesis
          using taken hi less [of "Suc i"]
          by (simp add: find_best.simps [of b lo hi npages i] walk_best.simps [of _ hi npages i] diff_less_mono2)
      qed
    qed
  qed
qed

lemma find_free_walk:
  "block_ok b \<Longrightarrow> arena_start + arena_count \<le> bk_npages b \<Longrightarrow>
     find_free_pages b arena_start arena_count npages = walk_free_pages (page_free b) arena_start arena_count npages"
  by (simp add: find_free_pages_def walk_free_pages_def find_top_walk find_best_walk Let_def)

section \<open>A run is found exactly when there is one\<close>

definition free_run :: "(nat \<Rightarrow> bool) \<Rightarrow> nat \<Rightarrow> nat \<Rightarrow> nat \<Rightarrow> nat \<Rightarrow> bool" where
  "free_run free lo hi npages s \<longleftrightarrow> lo \<le> s \<and> s + npages \<le> hi \<and> (\<forall>k. s \<le> k \<and> k < s + npages \<longrightarrow> free k)"

lemma walk_top_spec:
  assumes "i \<le> run_end" "\<And>k. i \<le> k \<Longrightarrow> k < run_end \<Longrightarrow> free k" "run_end - i < npages" "lo \<le> i"
  shows "case walk_top free lo npages i run_end of
       Some s \<Rightarrow> free_run free lo run_end npages s \<and> (\<forall>s'. free_run free lo run_end npages s' \<longrightarrow> s' \<le> s)
     | None \<Rightarrow> \<forall>s. \<not> free_run free lo run_end npages s"
  using assms
proof (induction i arbitrary: run_end)
  case 0
  then show ?case by (auto simp: free_run_def)
next
  case (Suc i)
  show ?case
  proof (cases "lo < Suc i")
    case False
    then have "\<not> free_run free lo run_end npages s" for s using Suc.prems by (auto simp: free_run_def)
    then show ?thesis using False by simp
  next
    case lo: True
    show ?thesis
    proof (cases "free i")
      case False
      have same: "free_run free lo run_end npages s \<longleftrightarrow> free_run free lo i npages s" for s
      proof
        assume r: "free_run free lo run_end npages s"
        then have "\<not> (s \<le> i \<and> i < s + npages)" using False by (auto simp: free_run_def)
        moreover have "\<not> i < s" using r Suc.prems(3) by (auto simp: free_run_def)
        ultimately show "free_run free lo i npages s" using r by (auto simp: free_run_def)
      qed (use Suc.prems in \<open>auto simp: free_run_def\<close>)
      show ?thesis using Suc.IH [of i] False lo Suc.prems by (simp add: same split: option.splits)
    next
      case fr: True
      have fri: "free k" if "i \<le> k" "k < run_end" for k using that fr Suc.prems(2) [of k] by (cases "k = i") simp_all
      show ?thesis
      proof (cases "npages \<le> run_end - i")
        case True
        then have "run_end - npages = i" using Suc.prems by linarith
        then show ?thesis using lo fr True fri by (auto simp: free_run_def)
      next
        case False
        then show ?thesis using Suc.IH [of run_end] fri lo fr Suc.prems by simp
      qed
    qed
  qed
qed

lemma run_length_free:
  "run_length free hi i \<le> hi - i" "k < run_length free hi i \<Longrightarrow> free (i + k)"
  "i + run_length free hi i < hi \<Longrightarrow> \<not> free (i + run_length free hi i)"
proof -
  let ?t = "takeWhile free [i..<hi]"
  show le: "run_length free hi i \<le> hi - i"
    using length_takeWhile_le [of free "[i..<hi]"] by (simp add: run_length_def)
  show "free (i + k)" if k: "k < run_length free hi i"
  proof -
    have "?t ! k \<in> set ?t" using k by (simp add: run_length_def)
    moreover have "?t ! k = i + k" using k le by (simp add: run_length_def takeWhile_nth)
    ultimately show ?thesis by (metis set_takeWhileD)
  qed
  show "\<not> free (i + run_length free hi i)" if "i + run_length free hi i < hi"
    using that nth_length_takeWhile [of free "[i..<hi]"] by (simp add: run_length_def)
qed

text \<open>What has been passed holds no run longer than the best one.\<close>

definition best_ok :: "(nat \<Rightarrow> bool) \<Rightarrow> nat \<Rightarrow> nat \<Rightarrow> nat \<Rightarrow> nat \<Rightarrow> (nat \<times> nat) option \<Rightarrow> bool" where
  "best_ok free lo hi npages i best \<longleftrightarrow> lo \<le> i \<and>
     (case best of
        None \<Rightarrow> \<forall>s. \<not> (free_run free lo hi npages s \<and> s < i)
      | Some (s, l) \<Rightarrow> npages \<le> l \<and> free_run free lo hi l s)"

lemma walk_best_spec:
  assumes "best_ok free lo hi npages i best" "0 < npages"
  shows "case walk_best free hi npages i best of
       Some s \<Rightarrow> free_run free lo hi npages s
     | None \<Rightarrow> \<forall>s. \<not> free_run free lo hi npages s"
  using assms(1)
proof (induction "hi - i" arbitrary: i best rule: less_induct)
  case less
  show ?case
  proof (cases "i < hi")
    case False
    then have "\<not> (free_run free lo hi npages s \<and> i \<le> s)" for s using assms(2) by (auto simp: free_run_def)
    then show ?thesis
      using less.prems False
      by (auto simp: walk_best.simps [of free hi npages i best] best_ok_def free_run_def not_le split: option.splits)
  next
    case hi: True
    show ?thesis
    proof (cases "free i")
      case False
      then have "best_ok free lo hi npages (Suc i) best"
        using less.prems assms(2)
        by (auto simp: best_ok_def free_run_def less_Suc_eq split: option.splits)
      then show ?thesis
        using less.hyps [of "Suc i" best] hi False by (simp add: walk_best.simps [of free hi npages i best] diff_less_mono2)
    next
      case True
      define len where "len = run_length free hi i"
      define best' where "best' = (if npages \<le> len \<and> (case best of None \<Rightarrow> True | Some (s, l) \<Rightarrow> len < l) then Some (i, len) else best)"
      have len: "0 < len" "i + len \<le> hi" using run_length_step [of i hi free] hi True run_length_free(1) [of free hi i]
        by (simp_all add: len_def)
      have run: "free_run free lo hi len i"
      proof -
        have "free k" if "i \<le> k" "k < i + len" for k
          using run_length_free(2) [of "k - i" free hi i] that by (simp add: len_def)
        then show ?thesis using len less.prems by (simp add: free_run_def best_ok_def)
      qed
      have "best_ok free lo hi npages (i + len) best'"
      proof (cases best')
        case None
        then have b: "best = None" "\<not> npages \<le> len" by (auto simp: best'_def split: if_splits option.splits)
        have "\<not> (free_run free lo hi npages s \<and> s < i + len)" for s
        proof
          assume s: "free_run free lo hi npages s \<and> s < i + len"
          then have "i \<le> s" using less.prems b by (auto simp: best_ok_def not_less)
          then have stop: "i + len < hi" "s \<le> i + len" "i + len < s + npages" using s b by (auto simp: free_run_def)
          then show False using run_length_free(3) [of i free hi] s by (auto simp: free_run_def len_def)
        qed
        then show ?thesis using None less.prems by (simp add: best_ok_def)
      next
        case (Some a)
        then show ?thesis
          using run less.prems by (auto simp: best_ok_def best'_def split: if_splits option.splits)
      qed
      then show ?thesis
        using less.hyps [of "i + len" best'] hi True len
        by (simp add: walk_best.simps [of free hi npages i best] len_def [symmetric] best'_def [symmetric] max_absorb2)
    qed
  qed
qed

lemma walk_free_spec:
  assumes "0 < npages"
  shows "case walk_free_pages free lo n npages of
       Some s \<Rightarrow> free_run free lo (lo + n) npages s
     | None \<Rightarrow> \<forall>s. \<not> free_run free lo (lo + n) npages s"
proof (cases "MB_BIG_REQUEST_PAGES \<le> npages")
  case True
  then show ?thesis
    using walk_top_spec [of "lo + n" "lo + n" free npages lo] assms
    by (auto simp: walk_free_pages_def Let_def split: option.splits)
next
  case False
  have "best_ok free lo (lo + n) npages lo None" by (simp add: best_ok_def free_run_def)
  then show ?thesis
    using walk_best_spec [of free lo "lo + n" npages lo None] assms False by (simp add: walk_free_pages_def Let_def)
qed

end
