(* ===== verification/Mb_Block_Steps.thy ===== *)
theory Mb_Block_Steps
  imports Mb_Block_View
begin

text \<open>
  The rest of the bookkeeping as operations on one page: the epoch's and the
  plan's captures, the baseline copy, refreshing the protection of a range, and
  the fault handler. An environment \<open>env_ok\<close> grants what it is asked and has
  one machine page to a host page.
\<close>

definition env_ok :: "os_env \<Rightarrow> bool" where
  "env_ok E \<longleftrightarrow> os_group E = 1 \<and> (\<forall>first count prot. os_grants E first count prot) \<and> (\<forall>i. os_room E i)"

section \<open>Written in an epoch\<close>

definition put_written :: "mb_block \<Rightarrow> nat \<Rightarrow> mb_block" where
  "put_written b i = (if pg_epoch_dirty (bk_pages b ! i) then b else mark_epoch_dirty b i)"

interpretation written: page_op put_written "\<lambda>_. written_v"
proof
  fix b i j
  assume b: "block_ok b" "i < bk_npages b"
  note l = block_ok_lens [OF b(1)]
  have vi: "v_epoch (view b i) = pg_epoch_dirty (bk_pages b ! i)"
    using block_ok_view [OF b] by (simp add: view_ok_def)
  show fr: "frame (put_written b i) = frame b"
    by (simp add: put_written_def mark_epoch_dirty_def Let_def frame_def)
  show v: "view (put_written b i) j = (if j = i then written_v (view b i) else view b j)" if "j < bk_npages b" for j
    using b l that vi by (auto simp: put_written_def mark_epoch_dirty_def written_v_def Let_def view_def)
  show "block_ok (put_written b i)"
  proof (rule block_ok_change [OF b])
    show "view_ok (view (put_written b i) i)"
      using v [OF b(2)] block_ok_view [OF b] by (simp add: written_v_def view_ok_def)
    show "block_lens (put_written b i)"
      using l b bits_b [OF l] by (simp add: put_written_def mark_epoch_dirty_def Let_def block_lens_def)
    show "bk_epoch_nstat (put_written b i) + of_bool (v_stat (view b i)) =
        bk_epoch_nstat b + of_bool (v_stat (view (put_written b i) i))"
      by (simp add: put_written_def mark_epoch_dirty_def Let_def)
  qed (use b v in \<open>simp_all add: put_written_def mark_epoch_dirty_def Let_def frame_eqD [OF fr]\<close>)
qed

lemma keeps_mapped_simps [simp]:
  "keeps_mapped (pg_held_update h)" "keeps_mapped (pg_snap_update s)" "keeps_mapped (pg_plan_hold_update h)"
  "keeps_mapped (pg_plan_slot_update k)" "keeps_mapped (pg_live_update l)" "keeps_mapped (pg_os_update r)"
  "keeps_mapped (pg_invisible_update h)" "keeps_mapped (pg_heat_update k)" "keeps_mapped (pg_seen_update k)"
  "keeps_mapped (pg_shadow_update sh)"
  by (simp_all add: keeps_mapped_def)

lemma epoch_capture_eq:
  assumes "i < bk_npages b"
  shows "mb_block_epoch_capture b i =
    (let b1 = upd_page (pg_held_update (\<lambda>_. False)) b i
     in if bk_epoch_active b1 \<and> epoch_tracks (bk_pages b1 ! i) then put_written b1 i else b1)"
  using assms by (simp add: mb_block_epoch_capture_def put_written_def Let_def)

lemma page_op_cong:
  assumes "page_op op g" "\<And>b i. i < bk_npages b \<Longrightarrow> op' b i = op b i"
    and "\<And>fr v. g' fr v = g fr v"
  shows "page_op op' g'"
  using assms(1) unfolding page_op_def assms(3) by (simp add: assms(2))

lemma epoch_tracks_held [simp]: "epoch_tracks (pg_held_update f p) = epoch_tracks p"
  by (simp add: epoch_tracks_def)

interpretation capt: page_op mb_block_epoch_capture capture_v
proof (rule page_op_cong [OF page_op_comp [OF page_op_upd [of "pg_held_update (\<lambda>_. False)"]
    page_op_if [OF written.page_op_axioms page_op_skip,
      of "\<lambda>b i. bk_epoch_active b \<and> epoch_tracks (bk_pages b ! i)" "\<lambda>fr v. fr_epoch fr \<and> epoch_tracks (v_page v)"]]])
qed (simp_all add: epoch_capture_eq capture_v_def Let_def)

definition put_stat :: "mb_block \<Rightarrow> nat \<Rightarrow> mb_block" where
  "put_stat b i =
    (if \<not> bits_get (bk_stat_bits b) i
     then b\<lparr>bk_stat_bits := bits_set (bk_stat_bits b) i,
            bk_epoch_status := (bk_epoch_status b)[i := pg_status (bk_pages b ! i)],
            bk_epoch_nstat := bk_epoch_nstat b + 1\<rparr>
     else b)"

interpretation pstat: page_op put_stat "\<lambda>_ v. v\<lparr>v_stat := True\<rparr>"
proof
  fix b i j
  assume b: "block_ok b" "i < bk_npages b"
  note l = block_ok_lens [OF b(1)]
  show fr: "frame (put_stat b i) = frame b"
    by (simp add: put_stat_def Let_def frame_def)
  show v: "view (put_stat b i) j = (if j = i then (view b i)\<lparr>v_stat := True\<rparr> else view b j)"
    if "j < bk_npages b" for j
    using b l that by (auto simp: put_stat_def Let_def view_def)
  show "block_ok (put_stat b i)"
  proof (rule block_ok_change [OF b])
    show "view_ok (view (put_stat b i) i)"
      using v [OF b(2)] block_ok_view [OF b] by (simp add: view_ok_def)
    show "block_lens (put_stat b i)"
      using l b bits_b [OF l] by (simp add: put_stat_def Let_def block_lens_def)
  qed (use b v in \<open>simp_all add: put_stat_def Let_def frame_eqD [OF fr]\<close>)
qed

lemma put_stat_pages [simp]: "bk_pages (put_stat b i) = bk_pages b"
  by (simp add: put_stat_def)

lemma estat_eq:
  "epoch_note_status_change b i to =
    (if bk_epoch_active b \<and> pg_status (bk_pages b ! i) \<noteq> to
     then (if pg_invisible (bk_pages b ! i) then put_stat b i
           else if epoch_tracks (bk_pages b ! i) then mb_block_epoch_capture (put_stat b i) i
           else put_written (put_stat b i) i)
     else b)"
  by (simp add: epoch_note_status_change_def put_written_def put_stat_def Let_def)

interpretation estat: page_op "\<lambda>b i. epoch_note_status_change b i to" "estat_v to" for to
proof (rule page_op_cong [OF page_op_if [OF
      page_op_if [OF pstat.page_op_axioms
        page_op_if [OF page_op_comp [OF pstat.page_op_axioms capt.page_op_axioms]
                       page_op_comp [OF pstat.page_op_axioms written.page_op_axioms],
          of "\<lambda>b i. epoch_tracks (bk_pages b ! i)" "\<lambda>fr v. epoch_tracks (v_page v)"],
        of "\<lambda>b i. pg_invisible (bk_pages b ! i)" "\<lambda>fr v. pg_invisible (v_page v)"]
      page_op_skip,
    of "\<lambda>b i. bk_epoch_active b \<and> pg_status (bk_pages b ! i) \<noteq> to"
       "\<lambda>fr v. fr_epoch fr \<and> pg_status (v_page v) \<noteq> to"]])
qed (simp_all add: estat_eq estat_v_def Let_def)

section \<open>The plan's copy and the baseline's\<close>

lemma plan_dest_upd [simp]:
  "frame (b\<lparr>bk_plan_dest := d\<rparr>) = frame b" "view (b\<lparr>bk_plan_dest := d\<rparr>) j = view b j"
  "block_ok (b\<lparr>bk_plan_dest := d\<rparr>) = block_ok b" "bk_plan_dest (b\<lparr>bk_plan_dest := d\<rparr>) = d"
  "bk_pages (b\<lparr>bk_plan_dest := d\<rparr>) = bk_pages b"
  by (simp_all add: frame_def view_def block_ok_def block_lens_def page_count_def group_count_def)

lemma plan_capture_eq:
  "mb_block_plan_capture b i =
    (if bk_plan_active b
     then (if pg_plan_hold (bk_pages b ! i)
           then upd_page (pg_plan_hold_update (\<lambda>_. False)) (plan_copy_page b i) i else b)
     else b)"
  by (simp add: mb_block_plan_capture_def plan_take_def)

interpretation plan: page_op mb_block_plan_capture plan_v
proof
  fix b i j
  assume b: "block_ok b" "i < bk_npages b"
  show "frame (mb_block_plan_capture b i) = frame b" "block_ok (mb_block_plan_capture b i)"
    using b by (simp_all add: plan_capture_eq plan_copy_page_def Let_def block_ok_upd_page)
  show "view (mb_block_plan_capture b i) j = (if j = i then plan_v (frame b) (view b i) else view b j)"
    if "j < bk_npages b"
    using b by (auto simp: plan_capture_eq plan_copy_page_def plan_v_def Let_def view_upd_page)
qed

definition snap_v :: "bool \<Rightarrow> pview \<Rightarrow> pview" where
  "snap_v room v = v\<lparr>v_page := fst (mb_page_maybe_snapshot room (v_page v))\<rparr>"

lemma keeps_mapped_snapshot [simp]: "keeps_mapped (\<lambda>p. fst (mb_page_maybe_snapshot room p))"
  by (simp add: keeps_mapped_def mb_page_maybe_snapshot_def)

lemma page_snapshot_eq:
  "fst (page_snapshot E b i) = upd_page (\<lambda>p. fst (mb_page_maybe_snapshot (os_room E i) p)) b i"
  by (simp add: page_snapshot_def upd_page_def Let_def)

interpretation snap: page_op "\<lambda>b i. upd_page (\<lambda>p. fst (mb_page_maybe_snapshot room p)) b i" "\<lambda>_. snap_v room" for room
  by (rule page_op_cong [OF page_op_upd]) (simp_all add: snap_v_def)

section \<open>Refreshing a range\<close>

lemma takeWhile_upt: "takeWhile P [a..<c] = [a..<a + length (takeWhile P [a..<c])]"
proof -
  have "length (takeWhile P [a..<c]) \<le> length [a..<c]" by (rule length_takeWhile_le)
  then show ?thesis by (cases "a \<le> c") (subst takeWhile_eq_take, simp_all add: take_upt)
qed

lemma native_run_bounds: "i < endp \<Longrightarrow> i < native_run b i endp \<and> native_run b i endp \<le> endp"
  using length_takeWhile_le [of "\<lambda>j. mb_page_native_prot (bk_pages b ! j) = mb_page_native_prot (bk_pages b ! i)" "[i + 1..<endp]"]
  by (simp add: native_run_def)

lemma native_run_same:
  assumes "i \<le> k" "k < native_run b i endp"
  shows "mb_page_native_prot (bk_pages b ! k) = mb_page_native_prot (bk_pages b ! i)"
proof (cases "k = i")
  case False
  let ?P = "\<lambda>j. mb_page_native_prot (bk_pages b ! j) = mb_page_native_prot (bk_pages b ! i)"
  have "k \<in> set [i + 1..<i + 1 + length (takeWhile ?P [i + 1..<endp])]"
    using assms False unfolding native_run_def by auto
  then have "k \<in> set (takeWhile ?P [i + 1..<endp])" by (simp only: takeWhile_upt [symmetric])
  then show ?thesis by (rule set_takeWhileD [THEN conjunct2])
qed simp

lemma os_protect_granted:
  assumes "env_ok E" "first + count \<le> bk_npages b"
  shows "os_protect E b first count prot =
    (fold (\<lambda>i b. upd_page (pg_os_update (\<lambda>_. prot)) b i) [first..<first + count] b, True)"
  using assms by (simp add: os_protect_def env_ok_def min_absorb1)

interpretation osp: page_op "upd_page (pg_os_update (\<lambda>_. prot))" "\<lambda>_ v. v\<lparr>v_page := (v_page v)\<lparr>pg_os := prot\<rparr>\<rparr>" for prot
  using page_op_upd [of "pg_os_update (\<lambda>_. prot)"] by simp

text \<open>A stretch of pages changed alike, and everything else kept.\<close>

definition acts_on :: "(bframe \<Rightarrow> pview \<Rightarrow> pview) \<Rightarrow> nat set \<Rightarrow> mb_block \<Rightarrow> mb_block \<Rightarrow> bool" where
  "acts_on g I b b' \<longleftrightarrow> block_ok b' \<and> frame b' = frame b \<and>
     (\<forall>j < bk_npages b. view b' j = (if j \<in> I then g (frame b) (view b j) else view b j))"

lemma acts_onD:
  assumes "acts_on g I b b'"
  shows "block_ok b'" "frame b' = frame b" "bk_npages b' = bk_npages b"
    "j < bk_npages b \<Longrightarrow> view b' j = (if j \<in> I then g (frame b) (view b j) else view b j)"
  using assms frame_eqD(1) [of b' b] by (simp_all add: acts_on_def)

lemma acts_on_fold:
  assumes "page_op op g" "block_ok b" "\<forall>i\<in>set is. i < bk_npages b" "distinct is"
  shows "acts_on g (set is) b (fold (\<lambda>i b. op b i) is b)"
  using page_op.fold_ok [OF assms(1-3)] page_op.fold_view [OF assms] by (simp add: acts_on_def)

lemma acts_on_one:
  assumes "page_op op g" "block_ok b" "i < bk_npages b"
  shows "acts_on g {i} b (op b i)"
  using acts_on_fold [OF assms(1,2), of "[i]"] assms(3) by simp

lemma acts_on_refl: "block_ok b \<Longrightarrow> acts_on g {} b b"
  by (simp add: acts_on_def)

lemma acts_on_trans:
  assumes "acts_on g1 I b b1" "acts_on g2 I b1 b2"
  shows "acts_on (\<lambda>fr v. g2 fr (g1 fr v)) I b b2"
  using assms by (simp add: acts_on_def acts_onD(3) [OF assms(1)])

lemma acts_on_union:
  assumes "acts_on g I b b1" "acts_on g J b1 b2" "I \<inter> J = {}"
  shows "acts_on g (I \<union> J) b b2"
  using assms by (auto simp: acts_on_def acts_onD(3) [OF assms(1)])

lemma acts_on_cong:
  assumes "acts_on g I b b'" "\<And>j. j < bk_npages b \<Longrightarrow> j \<in> I \<longleftrightarrow> j \<in> J"
    and "\<And>j. j \<in> I \<Longrightarrow> j < bk_npages b \<Longrightarrow> g' (frame b) (view b j) = g (frame b) (view b j)"
  shows "acts_on g' J b b'"
  using assms by (simp add: acts_on_def)

lemma refresh_from_acts:
  assumes "env_ok E" "block_ok b" "bk_swapped_in b" "endp \<le> bk_npages b"
  shows "acts_on refresh_v {i..<endp} b (refresh_from E b i endp)"
  using assms
proof (induction E b i endp rule: refresh_from.induct)
  case (1 E b i endp)
  show ?case
  proof (cases "i < endp")
    case False
    then show ?thesis using 1 by (simp add: refresh_from.simps acts_on_refl)
  next
    case True
    define prot where "prot = mb_page_native_prot (bk_pages b ! i)"
    define j where "j = native_run b i endp"
    define b1 where "b1 = fst (os_protect E b i (j - i) prot)"
    define b2 where "b2 = fold (\<lambda>k b. note_prot b k prot) [i..<j] b1"
    have j: "i < j" "j \<le> endp" using native_run_bounds [OF True] by (simp_all add: j_def)
    have b1_eq: "b1 = fold (\<lambda>i b. upd_page (pg_os_update (\<lambda>_. prot)) b i) [i..<j] b"
      using j 1 by (simp add: b1_def os_protect_granted)
    have a1: "acts_on (\<lambda>_ v. v\<lparr>v_page := (v_page v)\<lparr>pg_os := prot\<rparr>\<rparr>) {i..<j} b b1"
      using acts_on_fold [OF osp.page_op_axioms, of b "[i..<j]" prot] 1 j by (simp add: b1_eq)
    have a2: "acts_on (\<lambda>_. note_prot_v prot) {i..<j} b1 b2"
      using acts_on_fold [OF nprot.page_op_axioms, of b1 "[i..<j]" prot] acts_onD [OF a1] 1 j by (simp add: b2_def)
    have a3: "acts_on refresh_v {i..<j} b b2"
    proof (rule acts_on_cong [OF acts_on_trans [OF a1 a2]])
      show "refresh_v (frame b) (view b k) =
          note_prot_v prot ((view b k)\<lparr>v_page := (v_page (view b k))\<lparr>pg_os := prot\<rparr>\<rparr>)"
        if "k \<in> {i..<j}" "k < bk_npages b" for k
        using that 1 native_run_same [of i k b endp] by (simp add: refresh_v_def prot_def j_def)
    qed simp
    have s2: "bk_swapped_in b2" "bk_npages b2 = bk_npages b" "block_ok b2"
      using acts_onD [OF a3] frame_eqD(5) [of b2 b] 1 by simp_all
    have "acts_on refresh_v {j..<endp} b2 (refresh_from E b2 j endp)"
      using "1.IH" [OF True prot_def j_def b1_def b2_def] s2 1 by simp
    then have "acts_on refresh_v ({i..<j} \<union> {j..<endp}) b (refresh_from E b2 j endp)"
      by (rule acts_on_union [OF a3]) auto
    moreover have "{i..<j} \<union> {j..<endp} = {i..<endp}" using j by auto
    moreover have "refresh_from E b i endp = refresh_from E b2 j endp"
      using True by (subst refresh_from.simps) (simp add: Let_def prot_def j_def b1_def b2_def)
    ultimately show ?thesis by simp
  qed
qed

lemma refresh_range_acts:
  assumes "env_ok E" "block_ok b" "ps + n \<le> bk_npages b"
  shows "acts_on refresh_v {ps..<ps + n} b (refresh_range E b ps n)"
proof (cases "bk_swapped_in b")
  case True
  then show ?thesis
    using refresh_from_acts [OF assms(1,2) True assms(3)] assms(1) by (simp add: refresh_range_def env_ok_def)
next
  case False
  then show ?thesis
    using assms by (simp add: refresh_range_def acts_on_def refresh_v_def)
qed

end
