(* ===== verification/Mb_Mem.thy ===== *)
theory Mb_Mem
  imports Mb_Alloc Mb_Block_Steps Mb_Sha256
begin

text \<open>
  The memory operations of \<^verbatim>\<open>memblock.c\<close> that the guest's system calls and the
  loader use: mapping, protecting, giving back, growing and moving, marking
  invisible, copying in, sealing, opening and ending epochs, and the questions
  asked of a page. An operation answers \<open>(block', result)\<close>; a \<^verbatim>\<open>-errno\<close> is
  \<open>Inl\<close>. The tracking lock is taken around each of them and is not modelled:
  an operation is one step.
\<close>

section \<open>Mapping and giving back\<close>

definition all_pages :: "(mb_page \<Rightarrow> bool) \<Rightarrow> mb_block \<Rightarrow> nat \<Rightarrow> nat \<Rightarrow> bool" where
  "all_pages P b from to = list_all (\<lambda>i. P (bk_pages b ! i)) [from..<to]"

text \<open>Zeros over a run of pages, given back to the OS or written over: the bytes are the same.\<close>

definition zero_run :: "mb_block \<Rightarrow> nat \<Rightarrow> nat \<Rightarrow> mb_block" where
  "zero_run b start count = fold (\<lambda>i b. upd_page (\<lambda>p. p\<lparr>pg_live := zero_page\<rparr>) b i) [start..<start + count] b"

definition free_step :: "os_env \<Rightarrow> nat \<Rightarrow> mb_block \<times> nat \<times> nat \<Rightarrow> mb_block \<times> nat \<times> nat" where
  "free_step E i = (\<lambda>(b, run_start, run).
    (let b1 = mb_block_plan_capture b i;
         b2 = fst (page_snapshot E b1 i);
         b3 = epoch_note_status_change b2 i MB_ST_FREE;
         p = bk_pages b3 ! i;
         zero_already = (\<not> pg_dirty p \<and> \<not> pg_invisible p \<and> pg_snap p = MB_SNAP_ZERO);
         (b4, run_start', run') =
           (if zero_already then (zero_run b3 run_start run, run_start, 0)
            else (b3, if run = 0 then i else run_start, run + 1));
         p4 = bk_pages b4 ! i
     in (set_dirty b4 i (\<not> pg_invisible p4 \<and> pg_snap p4 \<noteq> MB_SNAP_ZERO), run_start', run')))"

definition free_pages :: "os_env \<Rightarrow> mb_block \<Rightarrow> nat \<Rightarrow> nat \<Rightarrow> bool \<Rightarrow> mb_block" where
  "free_pages E b ps pcount advise_only =
    (let (b1, run_start, run) = fold (free_step E) [ps..<ps + pcount] (b, ps, 0);
         b2 = zero_run b1 run_start run
     in if advise_only then refresh_range E b2 ps pcount else set_protections E b2 ps pcount MB_ST_FREE)"

text \<open>The stretches of a fixed mapping that overlap allocated pages, zero-filled.\<close>

definition taken_run :: "mb_block \<Rightarrow> nat \<Rightarrow> nat \<Rightarrow> nat" where
  "taken_run b i endp = i + length (takeWhile (\<lambda>j. pg_status (bk_pages b ! j) \<noteq> MB_ST_FREE) [i..<endp])"

function zero_overlap_from :: "os_env \<Rightarrow> mb_block \<Rightarrow> nat \<Rightarrow> nat \<Rightarrow> mb_block" where
  "zero_overlap_from E b i endp =
    (if i < endp then
       (if pg_status (bk_pages b ! i) = MB_ST_FREE then zero_overlap_from E b (i + 1) endp
        else
          (let j = taken_run b i endp
           in zero_overlap_from E (free_pages E b i (j - i) True) j endp))
     else b)"
  by pat_completeness auto
termination
  by (relation "measure (\<lambda>(E, b, i, endp). endp - i)") (auto simp: taken_run_def upt_conv_Cons)

declare zero_overlap_from.simps [simp del]

definition mmap_fixed_impl ::
  "os_env \<Rightarrow> mb_block \<Rightarrow> mb_range \<Rightarrow> mb_prot \<Rightarrow> bool \<Rightarrow> bool \<Rightarrow> mb_block \<times> unit res" where
  "mmap_fixed_impl E b addr prot no_replace zero_overlap =
    (case validate b addr of
       None \<Rightarrow> (b, Inl EINVAL)
     | Some (ps, pcount) \<Rightarrow>
         if no_replace \<and> \<not> all_pages (\<lambda>p. pg_status p = MB_ST_FREE) b ps (ps + pcount) then (b, Inl EEXIST)
         else
           (let b1 = (if zero_overlap then zero_overlap_from E b ps (ps + pcount) else b)
            in (set_protections E b1 ps pcount (prot_status prot), Inr ())))"

definition mb_block_mmap_fixed ::
  "os_env \<Rightarrow> mb_block \<Rightarrow> mb_range \<Rightarrow> mb_prot \<Rightarrow> bool \<Rightarrow> mb_block \<times> unit res" where
  "mb_block_mmap_fixed E b addr prot no_replace = mmap_fixed_impl E b addr prot no_replace False"

definition page_addr :: "mb_block \<Rightarrow> nat \<Rightarrow> u64" where
  "page_addr b i = rg_start (bk_addr b) + push_bit 12 (of_nat i)"

definition mb_block_mmap ::
  "os_env \<Rightarrow> mb_block \<Rightarrow> mb_range \<Rightarrow> mb_prot \<Rightarrow> mb_range \<Rightarrow> bool \<Rightarrow> bool \<Rightarrow> mb_block \<times> u64 res" where
  "mb_block_mmap E b addr prot arena no_replace zero_overlap =
    (if rg_size addr = 0 then (b, Inl EINVAL)
     else if rg_start addr = 0 then
       (if rg_size addr \<noteq> mb_align_down (rg_size addr) then (b, Inl EINVAL)
        else
          (case validate b arena of
             None \<Rightarrow> (b, Inl EINVAL)
           | Some (as, acount) \<Rightarrow>
               (let n = unat (drop_bit 12 (rg_size addr))
                in case find_free_pages b as acount n of
                     None \<Rightarrow> (b, Inl ENOMEM)
                   | Some ps \<Rightarrow> (set_protections E b ps n (prot_status prot), Inr (page_addr b ps)))))
     else
       (case mmap_fixed_impl E b addr prot no_replace zero_overlap of
          (b1, Inl e) \<Rightarrow> (b1, Inl e)
        | (b1, Inr _) \<Rightarrow> (b1, Inr (rg_start addr))))"

definition mb_block_mprotect :: "os_env \<Rightarrow> mb_block \<Rightarrow> mb_range \<Rightarrow> mb_prot \<Rightarrow> mb_block \<times> unit res" where
  "mb_block_mprotect E b addr prot =
    (case validate b addr of
       None \<Rightarrow> (b, Inl EINVAL)
     | Some (ps, pcount) \<Rightarrow>
         if \<not> all_pages (\<lambda>p. pg_status p \<noteq> MB_ST_FREE) b ps (ps + pcount) then (b, Inl ENOMEM)
         else (set_protections E b ps pcount (prot_status prot), Inr ()))"

definition munmap_impl :: "os_env \<Rightarrow> mb_block \<Rightarrow> mb_range \<Rightarrow> bool \<Rightarrow> mb_block \<times> unit res" where
  "munmap_impl E b addr advise_only =
    (case validate b addr of
       None \<Rightarrow> (b, Inl EINVAL)
     | Some (ps, pcount) \<Rightarrow>
         if \<not> all_pages (\<lambda>p. pg_status p \<noteq> MB_ST_FREE) b ps (ps + pcount) then (b, Inl EINVAL)
         else (free_pages E b ps pcount advise_only, Inr ()))"

definition mb_block_munmap :: "os_env \<Rightarrow> mb_block \<Rightarrow> mb_range \<Rightarrow> mb_block \<times> unit res" where
  "mb_block_munmap E b addr = munmap_impl E b addr False"

definition mb_block_madvise_dontneed :: "os_env \<Rightarrow> mb_block \<Rightarrow> mb_range \<Rightarrow> mb_block \<times> unit res" where
  "mb_block_madvise_dontneed E b addr = munmap_impl E b addr True"

section \<open>Growing, shrinking and moving\<close>

definition mb_block_mremap :: "os_env \<Rightarrow> mb_block \<Rightarrow> mb_range \<Rightarrow> u64 \<Rightarrow> mb_block \<times> u64 res" where
  "mb_block_mremap E b addr new_size =
    (if rg_size addr = 0 \<or> new_size = 0 then (b, Inl EINVAL)
     else if rg_start addr = 0 then (b, Inl ENOSYS)
     else
       (case validate b addr of
          None \<Rightarrow> (b, Inl EINVAL)
        | Some (ps, pcount) \<Rightarrow>
            if rg_size addr < new_size then
              (case validate b \<lparr>rg_start = rg_start addr, rg_size = new_size\<rparr> of
                 None \<Rightarrow> (b, Inl EINVAL)
               | Some (fs, fcount) \<Rightarrow>
                   if \<not> all_pages (\<lambda>p. pg_status p \<noteq> MB_ST_FREE) b ps (ps + pcount) then (b, Inl EINVAL)
                   else if \<not> all_pages (\<lambda>p. pg_status p = MB_ST_FREE) b (ps + pcount) (fs + fcount) then (b, Inl EEXIST)
                   else (set_protections E b (ps + pcount) (fcount - pcount) (pg_status (bk_pages b ! ps)),
                         Inr (rg_start addr)))
            else if \<not> all_pages (\<lambda>p. pg_status p \<noteq> MB_ST_FREE) b ps (ps + pcount) then (b, Inl EINVAL)
            else
              (case munmap_impl E b \<lparr>rg_start = rg_start addr + new_size, rg_size = rg_size addr - new_size\<rparr> False of
                 (b1, Inl e) \<Rightarrow> (b1, Inl e)
               | (b1, Inr _) \<Rightarrow> (b1, Inr (rg_start addr)))))"

definition move_page :: "os_env \<Rightarrow> nat \<Rightarrow> nat \<Rightarrow> nat \<Rightarrow> mb_block \<Rightarrow> nat \<Rightarrow> mb_block" where
  "move_page E ps pcount nps b k =
    (let si = (if k < pcount then ps + k else ps + pcount - 1);
         st = pg_status (bk_pages b ! si);
         b1 = set_protections E b (nps + k) 1 st;
         b2 = upd_page (\<lambda>p. p\<lparr>pg_invisible := pg_invisible (bk_pages b1 ! si)\<rparr>) b1 (nps + k);
         b3 = page_cool (set_dirty (mb_block_plan_capture b2 (nps + k)) (nps + k) True) (nps + k)
     in if k < pcount
        then upd_page (\<lambda>p. p\<lparr>pg_live := pg_live (bk_pages b3 ! (ps + k))\<rparr>) b3 (nps + k)
        else upd_page (\<lambda>p. p\<lparr>pg_live := zero_page\<rparr>) b3 (nps + k))"

definition mremap_move_impl :: "os_env \<Rightarrow> mb_block \<Rightarrow> mb_range \<Rightarrow> u64 \<Rightarrow> mb_range \<Rightarrow> mb_block \<times> u64 res" where
  "mremap_move_impl E b addr new_size arena =
    (case validate b addr of
       None \<Rightarrow> (b, Inl EINVAL)
     | Some (ps, pcount) \<Rightarrow>
         if rg_size addr = 0 \<or> new_size = 0 then (b, Inl EINVAL)
         else if new_size \<noteq> mb_align_down new_size then (b, Inl EINVAL)
         else if \<not> all_pages (\<lambda>p. pg_status p \<noteq> MB_ST_FREE) b ps (ps + pcount) then (b, Inl EINVAL)
         else
           (case validate b arena of
              None \<Rightarrow> (b, Inl EINVAL)
            | Some (as, acount) \<Rightarrow>
                (let n = unat (drop_bit 12 new_size)
                 in case find_free_pages b as acount n of
                      None \<Rightarrow> (b, Inl ENOMEM)
                    | Some nps \<Rightarrow>
                        (let b1 = fold (\<lambda>k b. move_page E ps pcount nps b k) [0..<n] b
                         in (fst (munmap_impl E b1 addr False), Inr (page_addr b nps))))))"

definition mb_block_mremap_maymove ::
  "os_env \<Rightarrow> mb_block \<Rightarrow> mb_range \<Rightarrow> u64 \<Rightarrow> mb_range \<Rightarrow> bool \<Rightarrow> mb_block \<times> u64 res" where
  "mb_block_mremap_maymove E b addr new_size arena maymove =
    (if \<not> maymove \<or> new_size \<le> rg_size addr then mb_block_mremap E b addr new_size
     else
       (case mb_block_mremap E b addr new_size of
          (b1, r) \<Rightarrow> if r = Inl EEXIST then mremap_move_impl E b1 addr new_size arena else (b1, r)))"

section \<open>Before the seal\<close>

definition mb_block_mark_invisible :: "os_env \<Rightarrow> mb_block \<Rightarrow> mb_range \<Rightarrow> mb_block \<times> unit res" where
  "mb_block_mark_invisible E b addr =
    (if bk_sealed b then (b, Inl EINVAL)
     else
       (case validate b addr of
          None \<Rightarrow> (b, Inl EINVAL)
        | Some (ps, pcount) \<Rightarrow>
            (let b1 = fold (\<lambda>i b. upd_page (\<lambda>p. p\<lparr>pg_invisible := True\<rparr>) (set_dirty b i True) i) [ps..<ps + pcount] b
             in (refresh_range E b1 ps pcount, Inr ()))))"

text \<open>The bytes of the whole block, as the mirror shows them, and a copy into them.\<close>

definition mirror :: "mb_block \<Rightarrow> bytes" where
  "mirror b = concat (map pg_live (bk_pages b))"

definition mirror_write :: "mb_block \<Rightarrow> nat \<Rightarrow> bytes \<Rightarrow> mb_block" where
  "mirror_write b off src =
    (let m = put_at (mirror b) off src
     in fold (\<lambda>i b. upd_page (\<lambda>p. p\<lparr>pg_live := take MB_PAGESIZE (drop (i * MB_PAGESIZE) m)\<rparr>) b i) [0..<bk_npages b] b)"

definition mb_block_copy_from_external :: "mb_block \<Rightarrow> bytes \<Rightarrow> u64 \<Rightarrow> mb_block \<times> unit res" where
  "mb_block_copy_from_external b src start =
    (case validate b (mb_range_align_expand \<lparr>rg_start = start, rg_size = of_nat (length src)\<rparr>) of
       None \<Rightarrow> (b, Inl EINVAL)
     | Some (ps, pcount) \<Rightarrow>
         (let b1 = fold (\<lambda>i b. page_cool (set_dirty (mb_block_plan_capture b i) i True) i) [ps..<ps + pcount] b
          in (mirror_write b1 (unat (start - rg_start (bk_addr b))) src, Inr ())))"

definition page_reads_back_zero :: "mb_block \<Rightarrow> nat \<Rightarrow> bool" where
  "page_reads_back_zero b i = list_all (\<lambda>x. x = 0) (pg_live (bk_pages b ! i))"

section \<open>Epochs\<close>

definition epoch_forget :: "mb_block \<Rightarrow> mb_block" where
  "epoch_forget b =
    (let b1 = fold (\<lambda>i b. upd_page (\<lambda>p. p\<lparr>pg_epoch_dirty := False\<rparr>) b i) (bits_each (bk_epoch_bits b)) b
     in b1\<lparr>bk_epoch_bits := bits_none (bk_nwords b), bk_stat_bits := bits_none (bk_nwords b),
           bk_epoch_ndirty := 0, bk_epoch_nstat := 0\<rparr>)"

definition mb_block_epoch_clear :: "mb_block \<Rightarrow> mb_block" where
  "mb_block_epoch_clear b = (epoch_forget b)\<lparr>bk_epoch_active := False\<rparr>"

definition epoch_hold :: "os_env \<Rightarrow> nat \<Rightarrow> mb_block \<times> prot_run \<Rightarrow> mb_block \<times> prot_run" where
  "epoch_hold E i = (\<lambda>(b, run).
    run_note E (if epoch_tracks (bk_pages b ! i) then upd_page (\<lambda>p. p\<lparr>pg_held := True\<rparr>) b i else b) run i)"

definition epoch_hold_word :: "os_env \<Rightarrow> nat \<Rightarrow> mb_block \<times> prot_run \<Rightarrow> mb_block \<times> prot_run" where
  "epoch_hold_word E w = (\<lambda>(b, run).
    (let m = bk_unheld_bits b ! w
     in if m = 0 then (b, run)
        else fold (epoch_hold E) (map (\<lambda>k. w * 64 + k) (bits_word m))
               (b\<lparr>bk_unheld_bits := (bk_unheld_bits b)[w := 0]\<rparr>, run)))"

definition mb_block_epoch_begin :: "os_env \<Rightarrow> mb_block \<Rightarrow> mb_block \<times> unit res" where
  "mb_block_epoch_begin E b =
    (if \<not> bk_sealed b then (b, Inl EINVAL)
     else
       (let b1 = (epoch_forget b)\<lparr>bk_epoch_active := True, bk_epoch_no := (bk_epoch_no b + 1) mod 2 ^ 16\<rparr>;
            b2 = fold (\<lambda>i b. upd_page (\<lambda>p. p\<lparr>pg_shadow := Some (pg_live p)\<rparr>) b i) (bits_each (bk_hot_bits b1)) b1;
            (b3, run) = fold (epoch_hold_word E) [0..<bk_nwords b2] (b2, None)
        in (run_close E b3 run, Inr ())))"

definition mb_block_epoch_page_count :: "mb_block \<Rightarrow> nat" where
  "mb_block_epoch_page_count b = bk_epoch_ndirty b"

section \<open>The seal\<close>

definition seal_page :: "mb_block \<Rightarrow> nat \<Rightarrow> mb_block" where
  "seal_page b i =
    (if pg_dirty (bk_pages b ! i) \<and> \<not> pg_invisible (bk_pages b ! i) then
       (let b1 = set_dirty (page_cool b i) i False;
            b2 = upd_page (\<lambda>p. p\<lparr>pg_snap := MB_SNAP_NONE\<rparr>) b1 i
        in if page_reads_back_zero b2 i then upd_page (\<lambda>p. p\<lparr>pg_snap := MB_SNAP_ZERO\<rparr>) b2 i else b2)
     else b)"

text \<open>What the machine's identity is taken over, in the pieces the hash is fed.\<close>

definition seal_chunk :: "mb_page \<Rightarrow> bytes" where
  "seal_chunk p = (case pg_snap p of
     MB_SNAP_NONE \<Rightarrow> u32_bytes 1
   | MB_SNAP_ZERO \<Rightarrow> u32_bytes 2
   | MB_SNAP_DATA d \<Rightarrow> if pg_status p = MB_ST_RWSTACK then u32_bytes 1 else d)"

definition range_bytes :: "mb_range \<Rightarrow> bytes" where
  "range_bytes r = u64_bytes (rg_start r) @ u64_bytes (rg_size r)"

definition seal_hash :: "bytes \<Rightarrow> mb_block \<Rightarrow> bytes option" where
  "seal_hash buf b =
    Option.bind
      (fold (\<lambda>p oc. Option.bind oc (\<lambda>c. mb_sha256_update c (seal_chunk p))) (bk_pages b)
        (mb_sha256_update (mb_sha256_init buf) (range_bytes (bk_addr b))))
      mb_sha256_final"

text \<open>\<open>buf\<close> is what the hash context's buffer holds before it is used.\<close>

definition mb_block_seal :: "os_env \<Rightarrow> bytes \<Rightarrow> mb_block \<Rightarrow> mb_block \<times> unit res" where
  "mb_block_seal E buf b =
    (if bk_sealed b then (b, Inl EINVAL)
     else
       (let b1 = fold (\<lambda>i b. seal_page b i) [0..<bk_npages b] (mb_block_epoch_clear b);
            b2 = (refresh_all E b1)\<lparr>bk_sealed := True\<rparr>
        in (case seal_hash buf b2 of
              Some h \<Rightarrow> (b2\<lparr>bk_hash := h\<rparr>, Inr ())
            | None \<Rightarrow> (b2, Inr ()))))"

section \<open>Questions\<close>

definition mb_block_range_is_free :: "mb_block \<Rightarrow> mb_range \<Rightarrow> bool" where
  "mb_block_range_is_free b addr =
    (case validate b addr of
       None \<Rightarrow> False
     | Some (ps, pcount) \<Rightarrow> all_pages (\<lambda>p. pg_status p = MB_ST_FREE) b ps (ps + pcount))"

definition host_can_page :: "bool \<Rightarrow> bool \<Rightarrow> mb_page \<Rightarrow> bool" where
  "host_can_page wr guest_asks p =
    (let s = pg_status p;
         can = (if wr then s = MB_ST_RW \<or> s = MB_ST_RWX \<or> s = MB_ST_RWSTACK
                else s = MB_ST_R \<or> s = MB_ST_RW \<or> s = MB_ST_RX \<or> s = MB_ST_RWX \<or> s = MB_ST_RWSTACK)
     in s \<noteq> MB_ST_FREE \<and> (can \<or> guest_asks))"

definition mb_block_host_can :: "mb_block \<Rightarrow> u64 \<Rightarrow> u64 \<Rightarrow> bool \<Rightarrow> bool \<Rightarrow> bool" where
  "mb_block_host_can b addr len wr guest_asks =
    (let ba = bk_addr b
     in if len = 0 then True
        else if addr < rg_start ba \<or> addr - rg_start ba \<ge> rg_size ba
             \<or> len > rg_size ba - (addr - rg_start ba) then False
        else
          (let first = unat (drop_bit 12 (addr - rg_start ba));
               lst = unat (drop_bit 12 (addr - rg_start ba + len - 1))
           in all_pages (host_can_page wr guest_asks) b first (lst + 1)))"

text \<open>The bytes a read view shows.\<close>

definition mb_block_read_view :: "mb_block \<Rightarrow> u64 \<Rightarrow> u64 \<Rightarrow> bytes option" where
  "mb_block_read_view b addr len =
    (let ba = bk_addr b
     in if len = 0 \<or> addr < rg_start ba \<or> addr - rg_start ba \<ge> rg_size ba
           \<or> len > rg_size ba - (addr - rg_start ba) then None
        else Some (take (unat len) (drop (unat (addr - rg_start ba)) (mirror b))))"

definition mb_block_page_info :: "mb_block \<Rightarrow> nat \<Rightarrow> byte" where
  "mb_block_page_info b i =
    (let p = bk_pages b ! i
     in pg_status p OR (if pg_dirty p then 0x80 else 0) OR (if pg_invisible p then 0x40 else 0))"

end
