(* ===== verification/Mb_State.thy ===== *)
theory Mb_State
  imports Mb_Mem Mb_Stream
begin

text \<open>
  Whole states of the memory block (\<^verbatim>\<open>memblock.c\<close>): written through a callback,
  planned and filled while the machine runs, and loaded. A save answers the
  pieces handed to the write callback, in order; a load reads a byte string.
\<close>

section \<open>Writing a state\<close>

definition MB_MAGIC :: bytes where "MB_MAGIC = chars ''ActivatedMemoryBlock''"

definition mb_block_save_state :: "mb_block \<Rightarrow> bytes list res" where
  "mb_block_save_state b =
    (if \<not> bk_sealed b then Inl EINVAL
     else Inr ([MB_MAGIC, bk_hash b, range_bytes (bk_addr b), bk_status_map b, bk_dirty_map b] @
       concat (map (\<lambda>i. let p = bk_pages b ! i
          in if \<not> pg_invisible p \<and> pg_dirty p then [pg_live p] else []) [0..<bk_npages b])))"

text \<open>Eight bytes read as one word, and the word compared.\<close>

definition word_at :: "bytes \<Rightarrow> nat \<Rightarrow> bytes" where
  "word_at m i = take 8 (drop i m)"

definition zero_word :: bytes where "zero_word = replicate 8 0"

function next_state_page :: "mb_block \<Rightarrow> nat \<Rightarrow> nat" where
  "next_state_page b i =
    (if i < bk_npages b then
       (if i mod 8 = 0 \<and> 8 \<le> bk_npages b - i \<and> word_at (bk_dirty_map b) i = zero_word
        then next_state_page b (i + 8)
        else if bk_dirty_map b ! i \<noteq> 0 \<and> \<not> pg_invisible (bk_pages b ! i) then i
        else next_state_page b (i + 1))
     else bk_npages b)"
  by pat_completeness auto
termination by (relation "measure (\<lambda>(b, i). bk_npages b - i)") auto

declare next_state_page.simps [simp del]

lemma next_state_page_ge: "i \<le> bk_npages b \<Longrightarrow> i \<le> next_state_page b i \<and> next_state_page b i \<le> bk_npages b"
proof (induction b i rule: next_state_page.induct)
  case (1 b i)
  show ?case
  proof (cases "i < bk_npages b")
    case False
    then show ?thesis using 1(3) by (simp add: next_state_page.simps)
  next
    case True
    let ?W = "i mod 8 = 0 \<and> 8 \<le> bk_npages b - i \<and> word_at (bk_dirty_map b) i = zero_word"
    let ?S = "bk_dirty_map b ! i \<noteq> 0 \<and> \<not> pg_invisible (bk_pages b ! i)"
    have eq: "next_state_page b i = (if ?W then next_state_page b (i + 8) else if ?S then i else next_state_page b (i + 1))"
      using True by (simp add: next_state_page.simps [of b i])
    show ?thesis
    proof (cases ?W)
      case w: True
      then have "i + 8 \<le> bk_npages b" using True by linarith
      then show ?thesis using "1.IH"(1) [OF True w] eq w by simp
    next
      case nw: False
      show ?thesis
      proof (cases ?S)
        case ns: False
        have "i + 1 \<le> bk_npages b" using True by simp
        then show ?thesis using "1.IH"(2) [OF True nw ns] eq nw ns by simp
      qed (use nw True eq in auto)
    qed
  qed
qed

text \<open>\<open>for (i = next_state_page (b, 0); i < npages; i = next_state_page (b, i + 1))\<close>\<close>

function state_pages_from :: "mb_block \<Rightarrow> nat \<Rightarrow> nat list" where
  "state_pages_from b i = (if i < bk_npages b then i # state_pages_from b (next_state_page b (i + 1)) else [])"
  by pat_completeness auto
termination
proof (relation "measure (\<lambda>(b, i). bk_npages b - i)")
  show "((b, next_state_page b (i + 1)), b, i) \<in> measure (\<lambda>(b, i). bk_npages b - i)" if "i < bk_npages b" for b i
    using that next_state_page_ge [of "i + 1" b] by (simp add: diff_less_mono2 Suc_le_eq)
qed simp

declare state_pages_from.simps [simp del]

definition count_state_pages :: "mb_block \<Rightarrow> nat" where
  "count_state_pages b = length (state_pages_from b (next_state_page b 0))"

definition state_header_size :: "mb_block \<Rightarrow> nat" where
  "state_header_size b = length MB_MAGIC + 32 + 16 + bk_npages b * 2"

definition mb_block_state_size :: "mb_block \<Rightarrow> nat" where
  "mb_block_state_size b =
    (if \<not> bk_sealed b then 0 else state_header_size b + count_state_pages b * MB_PAGESIZE)"

section \<open>A state planned and filled\<close>

definition plan_can_hold :: "mb_page \<Rightarrow> bool" where
  "plan_can_hold p \<longleftrightarrow> pg_status p = MB_ST_RW \<or> pg_status p = MB_ST_RWX \<or> pg_status p = MB_ST_RWSTACK"

text \<open>\<open>lst\<close> is \<^verbatim>\<open>plan_list\<close> as far as it has been written.\<close>

definition plan_page :: "os_env \<Rightarrow> nat \<Rightarrow> mb_block \<times> prot_run \<times> nat list \<Rightarrow> mb_block \<times> prot_run \<times> nat list" where
  "plan_page E i = (\<lambda>(b, run, lst).
    (let b1 = upd_page (\<lambda>p. p\<lparr>pg_plan_slot := length lst mod 2 ^ 32\<rparr>) b i;
         lst' = lst @ [i]
     in if \<not> plan_can_hold (bk_pages b1 ! i) then (plan_copy_page b1 i, run, lst')
        else
          (let b2 = upd_page (\<lambda>p. p\<lparr>pg_plan_hold := True\<rparr>) b1 i;
               b3 = (if \<not> pg_hot (bk_pages b2 ! i) then upd_page (\<lambda>p. p\<lparr>pg_held := True\<rparr>) b2 i else b2);
               (b4, run') = run_note E b3 run i
           in (b4, run', lst'))))"

function plan_from ::
  "os_env \<Rightarrow> nat \<Rightarrow> mb_block \<times> prot_run \<times> nat list \<Rightarrow> nat \<Rightarrow> mb_block \<times> prot_run \<times> nat list" where
  "plan_from E n s i =
    (if i < n then
       (let s' = plan_page E i s in plan_from E n s' (max (i + 1) (next_state_page (fst s') (i + 1))))
     else s)"
  by pat_completeness auto
termination by (relation "measure (\<lambda>(E, n, s, i). n - i)") (auto simp: Let_def)

declare plan_from.simps [simp del]

text \<open>\<open>room\<close>: the list could be allocated. The answer is the offset of the page data, or 0.\<close>

definition mb_block_state_plan_within ::
  "os_env \<Rightarrow> bool \<Rightarrow> mb_block \<Rightarrow> bytes option \<Rightarrow> nat \<Rightarrow> mb_block \<times> nat" where
  "mb_block_state_plan_within E room b dest capacity =
    (case dest of
       None \<Rightarrow> (b, 0)
     | Some d \<Rightarrow>
         if \<not> bk_sealed b \<or> bk_plan_active b then (b, 0)
         else if capacity < state_header_size b + count_state_pages b * MB_PAGESIZE then (b, 0)
         else if \<not> room then (b, 0)
         else
           (let head = MB_MAGIC @ bk_hash b @ range_bytes (bk_addr b) @ bk_status_map b @ bk_dirty_map b;
                b1 = b\<lparr>bk_plan_dest := put_at d 0 head, bk_plan_data_at := length head,
                       bk_plan_list := [], bk_plan_active := True\<rparr>;
                (b2, run, lst) = plan_from E (bk_npages b) (b1, None, []) (next_state_page b1 0)
            in ((run_close E b2 run)\<lparr>bk_plan_list := lst\<rparr>, length head)))"

definition mb_block_plan_fill :: "mb_block \<Rightarrow> nat \<Rightarrow> nat \<Rightarrow> mb_block \<times> nat" where
  "mb_block_plan_fill b from to =
    (if \<not> bk_plan_active b then (b, 0)
     else
       fold (\<lambda>k (b, done'). let (b', took) = plan_take b (bk_plan_list b ! k) in (b', if took then done' + 1 else done'))
         [from..<min to (length (bk_plan_list b))] (b, 0))"

definition mb_block_plan_count :: "mb_block \<Rightarrow> nat" where
  "mb_block_plan_count b = (if bk_plan_active b then length (bk_plan_list b) else 0)"

text \<open>The buffer is the caller's; it is answered as it is when the plan ends.\<close>

definition mb_block_plan_finish :: "os_env \<Rightarrow> mb_block \<Rightarrow> mb_block \<times> bytes res" where
  "mb_block_plan_finish E b =
    (if \<not> bk_plan_active b then (b, Inl EINVAL)
     else
       (let b1 = fold (\<lambda>k b. fst (plan_take b (bk_plan_list b ! k))) [0..<length (bk_plan_list b)] b;
            b2 = b1\<lparr>bk_plan_active := False, bk_plan_dest := []\<rparr>;
            (b3, run) = fold (\<lambda>i (b, run). run_note E b run i) (bk_plan_list b) (b2, None);
            b4 = run_close E b3 run
        in (b4\<lparr>bk_plan_list := [], bk_plan_data_at := 0\<rparr>, Inr (bk_plan_dest b1))))"

section \<open>Loading a state\<close>

text \<open>
  Reading a whole page into the mirror. When the stream ends early the page holds
  what arrived of it.
\<close>

definition read_page :: "mb_block \<Rightarrow> nat \<Rightarrow> bytes \<Rightarrow> mb_block \<times> bytes \<times> bool" where
  "read_page b i s =
    (case take_bytes MB_PAGESIZE s of
       Some (bs, s') \<Rightarrow> (upd_page (\<lambda>p. p\<lparr>pg_live := bs\<rparr>) b i, s', True)
     | None \<Rightarrow> (upd_page (\<lambda>p. p\<lparr>pg_live := put_at (pg_live p) 0 s\<rparr>) b i, [], False))"

definition load_bytes :: "os_env \<Rightarrow> byte \<Rightarrow> mb_block \<Rightarrow> bytes \<Rightarrow> nat \<Rightarrow> mb_block \<times> bytes \<times> errno option" where
  "load_bytes E d b s i =
    (let p = bk_pages b ! i; old_d = pg_dirty p; new_d = (d \<noteq> 0)
     in if \<not> old_d \<and> new_d then
          (case read_page (fst (page_snapshot E b i)) i s of
             (b1, s1, False) \<Rightarrow> (set_dirty b1 i True, s1, Some EIO)
           | (b1, s1, True) \<Rightarrow> (b1, s1, None))
        else if old_d \<and> \<not> new_d then
          (case pg_snap p of
             MB_SNAP_ZERO \<Rightarrow> (upd_page (\<lambda>p. p\<lparr>pg_live := zero_page\<rparr>) b i, s, None)
           | MB_SNAP_DATA data \<Rightarrow> (upd_page (\<lambda>p. p\<lparr>pg_live := data\<rparr>) b i, s, None)
           | MB_SNAP_NONE \<Rightarrow> (b, s, Some EINVAL))
        else if old_d \<and> new_d then
          (case read_page b i s of
             (b1, s1, False) \<Rightarrow> (b1, s1, Some EIO)
           | (b1, s1, True) \<Rightarrow> (b1, s1, None))
        else (b, s, None))"

definition load_visible :: "os_env \<Rightarrow> byte \<Rightarrow> mb_block \<Rightarrow> bytes \<Rightarrow> nat \<Rightarrow> mb_block \<times> bytes \<times> errno option" where
  "load_visible E d b s i =
    (case load_bytes E d b s i of
       (b1, s1, Some e) \<Rightarrow> (b1, s1, Some e)
     | (b1, s1, None) \<Rightarrow>
         (let new_d = (d \<noteq> 0);
              b2 = set_dirty b1 i new_d;
              b3 = (if pg_hot (bk_pages b2 ! i)
                    then (if new_d then upd_page (\<lambda>p. p\<lparr>pg_shadow := Some (pg_live p)\<rparr>) b2 i else page_cool b2 i)
                    else b2)
          in (b3, s1, None)))"

definition load_page ::
  "os_env \<Rightarrow> byte \<Rightarrow> byte \<Rightarrow> mb_block \<Rightarrow> prot_run \<Rightarrow> bytes \<Rightarrow> nat \<Rightarrow> mb_block \<times> prot_run \<times> bytes \<times> errno option" where
  "load_page E st d b run s i =
    (let before = mb_page_native_prot (bk_pages b ! i)
     in case (if pg_invisible (bk_pages b ! i) then (b, s, None) else load_visible E d b s i) of
          (b1, s1, Some e) \<Rightarrow> (b1, run, s1, Some e)
        | (b1, s1, None) \<Rightarrow>
            (let b2 = note_status b1 i st
             in if mb_page_native_prot (bk_pages b2 ! i) \<noteq> before
                then (case run_note E b2 run i of (b3, run') \<Rightarrow> (b3, run', s1, None))
                else (b2, run, s1, None)))"

definition load_skip_word :: "mb_block \<Rightarrow> bytes \<Rightarrow> bytes \<Rightarrow> nat \<Rightarrow> bool" where
  "load_skip_word b statii dirtii i \<longleftrightarrow>
     word_at dirtii i = zero_word \<and> word_at (bk_dirty_map b) i = zero_word \<and>
     word_at statii i = word_at (bk_status_map b) i"

function load_from ::
  "os_env \<Rightarrow> bytes \<Rightarrow> bytes \<Rightarrow> nat \<Rightarrow> mb_block \<Rightarrow> prot_run \<Rightarrow> bytes \<Rightarrow> nat \<Rightarrow>
     mb_block \<times> prot_run \<times> bytes \<times> errno option" where
  "load_from E statii dirtii n b run s i =
    (if i < n then
       (if i mod 8 = 0 \<and> i + 8 \<le> n \<and> load_skip_word b statii dirtii i
        then load_from E statii dirtii n b run s (i + 8)
        else if dirtii ! i = 0 \<and> bk_dirty_map b ! i = 0 \<and> statii ! i = bk_status_map b ! i
        then load_from E statii dirtii n b run s (i + 1)
        else
          (case load_page E (statii ! i) (dirtii ! i) b run s i of
             (b1, run1, s1, Some e) \<Rightarrow> (b1, run1, s1, Some e)
           | (b1, run1, s1, None) \<Rightarrow> load_from E statii dirtii n b1 run1 s1 (i + 1)))
     else (b, run, s, None))"
  by pat_completeness auto
termination by (relation "measure (\<lambda>(E, statii, dirtii, n, b, run, s, i). n - i)") auto

declare load_from.simps [simp del]

definition take_range :: "bytes \<Rightarrow> (mb_range \<times> bytes) option" where
  "take_range s = Option.bind (take_u64 s) (\<lambda>(a, s1). map_option (\<lambda>(n, s2). (\<lparr>rg_start = a, rg_size = n\<rparr>, s2)) (take_u64 s1))"

text \<open>\<open>heap\<close>: the two maps could be allocated. The rest of the stream is answered with the block.\<close>

definition load_pages :: "os_env \<Rightarrow> mb_block \<Rightarrow> bytes \<Rightarrow> bytes \<Rightarrow> bytes \<Rightarrow> mb_block \<times> bytes \<times> unit res" where
  "load_pages E b statii dirtii s =
    (case load_from E statii dirtii (bk_npages b) (b\<lparr>bk_load_touched := True\<rparr>) None s 0 of
       (b1, run, s1, e) \<Rightarrow> (run_close E b1 run, s1, case e of None \<Rightarrow> Inr () | Some e \<Rightarrow> Inl e))"

definition load_body :: "os_env \<Rightarrow> bool \<Rightarrow> mb_block \<Rightarrow> bytes \<Rightarrow> mb_block \<times> bytes \<times> unit res" where
  "load_body E heap b s =
    (case take_bytes (length MB_MAGIC) s of
       None \<Rightarrow> (b, s, Inl EIO)
     | Some (magic, s1) \<Rightarrow>
         if magic \<noteq> MB_MAGIC then (b, s1, Inl EINVAL)
         else
           (case take_bytes 32 s1 of
              None \<Rightarrow> (b, s1, Inl EIO)
            | Some (hash, s2) \<Rightarrow>
                if hash \<noteq> bk_hash b then (b, s2, Inl EINVAL)
                else
                  (case take_range s2 of
                     None \<Rightarrow> (b, s2, Inl EIO)
                   | Some (addr, s3) \<Rightarrow>
                       if addr \<noteq> bk_addr b then (b, s3, Inl EINVAL)
                       else if \<not> heap then (b, s3, Inl ENOMEM)
                       else
                         (case take_bytes (bk_npages b) s3 of
                            None \<Rightarrow> (b, s3, Inl EIO)
                          | Some (statii, s4) \<Rightarrow>
                              (case take_bytes (bk_npages b) s4 of
                                 None \<Rightarrow> (b, s4, Inl EIO)
                               | Some (dirtii, s5) \<Rightarrow> load_pages E b statii dirtii s5)))))"

definition mb_block_load_state :: "os_env \<Rightarrow> bool \<Rightarrow> mb_block \<Rightarrow> bytes \<Rightarrow> mb_block \<times> bytes \<times> unit res" where
  "mb_block_load_state E heap b s =
    (if \<not> bk_sealed b then (b, s, Inl EINVAL)
     else
       (let b1 = b\<lparr>bk_load_touched := False\<rparr>;
            b2 = (if bk_plan_active b1 then fst (mb_block_plan_finish E b1) else b1)
        in load_body E heap (mb_block_epoch_clear b2) s))"

end
