(* ===== verification/Mb_Delta.thy ===== *)
theory Mb_Delta
  imports Mb_State
begin

text \<open>
  What one epoch did, as a delta (\<^verbatim>\<open>memblock.c\<close>): written, applied, and two of
  them composed into one, from streams and in memory. A delta is a header, the
  pages whose status changed and the pages that were written, both in page order.
\<close>

section \<open>The format\<close>

definition DELTA_MAGIC :: bytes where "DELTA_MAGIC = chars ''MiniBoxDelta1''"

definition DELTA_IDX_CLEAN :: u64 where "DELTA_IDX_CLEAN = push_bit 63 1"

definition delta_page :: "u64 \<Rightarrow> u64" where "delta_page idx = idx AND NOT DELTA_IDX_CLEAN"

section \<open>Writing what the epoch did\<close>

definition status_entry :: "mb_block \<Rightarrow> nat \<Rightarrow> bytes list" where
  "status_entry b i = [u64_bytes (of_nat i), [pg_status (bk_pages b ! i)]]"

definition data_index :: "mb_block \<Rightarrow> nat \<Rightarrow> u64" where
  "data_index b i = (if \<not> pg_dirty (bk_pages b ! i) then of_nat i OR DELTA_IDX_CLEAN else of_nat i)"

definition data_entry :: "mb_block \<Rightarrow> nat \<Rightarrow> bytes list" where
  "data_entry b i = [u64_bytes (data_index b i), pg_live (bk_pages b ! i)]"

definition delta_chunks :: "mb_block \<Rightarrow> bytes list" where
  "delta_chunks b =
    [DELTA_MAGIC, u64_bytes (of_nat (bk_npages b)), u64_bytes (of_nat (bk_epoch_nstat b))] @
    concat (map (status_entry b) (bits_each (bk_stat_bits b))) @
    [u64_bytes (of_nat (bk_epoch_ndirty b))] @
    concat (map (data_entry b) (bits_each (bk_epoch_bits b)))"

text \<open>The answer is what the write callback is handed, piece by piece.\<close>

definition mb_block_delta_save :: "os_env \<Rightarrow> mb_block \<Rightarrow> bool \<Rightarrow> mb_block \<times> bytes list res" where
  "mb_block_delta_save E b forward =
    (if \<not> bk_epoch_active b then (b, Inl EINVAL)
     else
       (let b1 = get_hot_epoch b
        in if \<not> forward then (b1, Inl ENOTSUP)
           else (heat_written_pages E b1, Inr (delta_chunks b1))))"

section \<open>Reading a delta\<close>

record delta_parts =
  dp_npages :: u64
  dp_status :: "(u64 \<times> byte) list"
  dp_data :: "(u64 \<times> bytes) list"

text \<open>\<open>k\<close> entries of a list, each refused when its page is not below \<open>npages\<close>.\<close>

fun read_statii :: "u64 \<Rightarrow> nat \<Rightarrow> bytes \<Rightarrow> ((u64 \<times> byte) list \<times> bytes) res" where
  "read_statii npages 0 s = Inr ([], s)"
| "read_statii npages (Suc k) s =
    (case take_u64 s of
       None \<Rightarrow> Inl EIO
     | Some (idx, s1) \<Rightarrow>
         (case take_bytes 1 s1 of
            None \<Rightarrow> Inl EIO
          | Some (v, s2) \<Rightarrow>
              if npages \<le> idx then Inl EINVAL
              else
                (case read_statii npages k s2 of
                   Inl e \<Rightarrow> Inl e
                 | Inr (es, s3) \<Rightarrow> Inr ((idx, hd v) # es, s3))))"

fun read_data :: "u64 \<Rightarrow> nat \<Rightarrow> bytes \<Rightarrow> ((u64 \<times> bytes) list \<times> bytes) res" where
  "read_data npages 0 s = Inr ([], s)"
| "read_data npages (Suc k) s =
    (case take_u64 s of
       None \<Rightarrow> Inl EIO
     | Some (idx, s1) \<Rightarrow>
         (case take_bytes MB_PAGESIZE s1 of
            None \<Rightarrow> Inl EIO
          | Some (page, s2) \<Rightarrow>
              if npages \<le> delta_page idx then Inl EINVAL
              else
                (case read_data npages k s2 of
                   Inl e \<Rightarrow> Inl e
                 | Inr (es, s3) \<Rightarrow> Inr ((idx, page) # es, s3))))"

text \<open>\<open>heap\<close>: the arrays could be allocated. The rest of the stream is answered too.\<close>

definition parts_read :: "bool \<Rightarrow> bytes \<Rightarrow> (delta_parts \<times> bytes) res" where
  "parts_read heap s =
    (case take_bytes (length DELTA_MAGIC) s of
       None \<Rightarrow> Inl EIO
     | Some (magic, s1) \<Rightarrow>
         if magic \<noteq> DELTA_MAGIC then Inl EINVAL
         else
           (case take_u64 s1 of
              None \<Rightarrow> Inl EIO
            | Some (npages, s2) \<Rightarrow>
                if (- 1) div of_nat MB_PAGESIZE < npages then Inl EINVAL
                else
                  (case take_u64 s2 of
                     None \<Rightarrow> Inl EIO
                   | Some (nstatus, s3) \<Rightarrow>
                       if npages < nstatus then Inl EINVAL
                       else if nstatus \<noteq> 0 \<and> \<not> heap then Inl ENOMEM
                       else
                         (case read_statii npages (unat nstatus) s3 of
                            Inl e \<Rightarrow> Inl e
                          | Inr (statii, s4) \<Rightarrow>
                              (case take_u64 s4 of
                                 None \<Rightarrow> Inl EIO
                               | Some (ndata, s5) \<Rightarrow>
                                   if npages < ndata then Inl EINVAL
                                   else if ndata \<noteq> 0 \<and> \<not> heap then Inl ENOMEM
                                   else
                                     (case read_data npages (unat ndata) s5 of
                                        Inl e \<Rightarrow> Inl e
                                      | Inr (ds, s6) \<Rightarrow>
                                          Inr (\<lparr>dp_npages = npages, dp_status = statii, dp_data = ds\<rparr>, s6)))))))"

section \<open>Composing two deltas\<close>

fun merged_count :: "u64 list \<Rightarrow> u64 list \<Rightarrow> nat" where
  "merged_count (a # as) (b # bs) =
    (if delta_page a < delta_page b then merged_count as (b # bs) + 1
     else if delta_page b < delta_page a then merged_count (a # as) bs + 1
     else merged_count as bs + 1)"
| "merged_count as [] = length as"
| "merged_count [] bs = length bs"

text \<open>Two lists merged by page; where both have a page the entry of the second is taken.\<close>

fun merge_entries :: "(u64 \<Rightarrow> u64) \<Rightarrow> (u64 \<times> 'a) list \<Rightarrow> (u64 \<times> 'a) list \<Rightarrow> (u64 \<times> 'a) list" where
  "merge_entries page [] bs = bs"
| "merge_entries page as [] = as"
| "merge_entries page (a # as) (b # bs) =
    (if page (fst b) \<le> page (fst a)
     then b # merge_entries page (if page (fst a) = page (fst b) then as else a # as) bs
     else a # merge_entries page as (b # bs))"

definition mb_block_delta_compose :: "bool \<Rightarrow> bytes \<Rightarrow> bytes \<Rightarrow> bytes list res" where
  "mb_block_delta_compose heap sa sb =
    (case parts_read heap sa of
       Inl e \<Rightarrow> Inl e
     | Inr (a, _) \<Rightarrow>
         (case parts_read heap sb of
            Inl e \<Rightarrow> Inl e
          | Inr (b, _) \<Rightarrow>
              if dp_npages a \<noteq> dp_npages b then Inl EINVAL
              else Inr
                ([DELTA_MAGIC, u64_bytes (dp_npages a),
                  u64_bytes (of_nat (merged_count (map fst (dp_status a)) (map fst (dp_status b))))] @
                 concat (map (\<lambda>(idx, s). [u64_bytes idx, [s]]) (merge_entries id (dp_status a) (dp_status b))) @
                 [u64_bytes (of_nat (merged_count (map fst (dp_data a)) (map fst (dp_data b))))] @
                 concat (map (\<lambda>(idx, page). [u64_bytes idx, page]) (merge_entries delta_page (dp_data a) (dp_data b))))))"

section \<open>Composing two deltas that are in memory\<close>

record delta_view =
  vw_npages :: u64
  vw_nstatus :: u64
  vw_ndata :: u64
  vw_status :: bytes
  vw_data :: bytes

definition DELTA_STATUS_STRIDE :: nat where "DELTA_STATUS_STRIDE = 8 + 1"
definition DELTA_DATA_STRIDE :: nat where "DELTA_DATA_STRIDE = 8 + MB_PAGESIZE"

text \<open>An entry is where it lies: \<open>stride\<close> bytes at \<open>k * stride\<close>.\<close>

definition entry_at :: "nat \<Rightarrow> bytes \<Rightarrow> nat \<Rightarrow> bytes" where
  "entry_at stride es k = take stride (drop (k * stride) es)"

definition view_idx :: "bytes \<Rightarrow> u64" where
  "view_idx entry = delta_page (bytes_u64 (take 8 entry))"

definition view_open :: "bytes \<Rightarrow> delta_view res" where
  "view_open buf =
    (let head = length DELTA_MAGIC
     in if length buf < head + 3 * 8 then Inl EINVAL
        else if take head buf \<noteq> DELTA_MAGIC then Inl EINVAL
        else
          (let p = drop head buf;
               npages = bytes_u64 (take 8 p);
               nstatus = bytes_u64 (take 8 (drop 8 p));
               status = drop 16 p
           in if npages < nstatus then Inl EINVAL
              else if length status div DELTA_STATUS_STRIDE < unat nstatus then Inl EINVAL
              else
                (let p2 = drop (unat nstatus * DELTA_STATUS_STRIDE) status
                 in if length p2 < 8 then Inl EINVAL
                    else
                      (let ndata = bytes_u64 (take 8 p2); data = drop 8 p2
                       in if npages < ndata then Inl EINVAL
                          else if length data div DELTA_DATA_STRIDE < unat ndata then Inl EINVAL
                          else Inr \<lparr>vw_npages = npages, vw_nstatus = nstatus, vw_ndata = ndata,
                                    vw_status = status, vw_data = data\<rparr>))))"

function view_merged :: "nat \<Rightarrow> bytes \<Rightarrow> nat \<Rightarrow> bytes \<Rightarrow> nat \<Rightarrow> nat \<Rightarrow> nat \<Rightarrow> nat" where
  "view_merged stride a na b nb i j =
    (if i < na \<or> j < nb then
       (if na \<le> i then view_merged stride a na b nb i (j + 1)
        else if nb \<le> j then view_merged stride a na b nb (i + 1) j
        else
          (let ia = view_idx (entry_at stride a i); ib = view_idx (entry_at stride b j)
           in if ia = ib then view_merged stride a na b nb (i + 1) (j + 1)
              else if ia < ib then view_merged stride a na b nb (i + 1) j
              else view_merged stride a na b nb i (j + 1))) + 1
     else 0)"
  by pat_completeness auto
termination by (relation "measure (\<lambda>(stride, a, na, b, nb, i, j). (na - i) + (nb - j))") auto

function view_merge :: "nat \<Rightarrow> bytes \<Rightarrow> nat \<Rightarrow> bytes \<Rightarrow> nat \<Rightarrow> nat \<Rightarrow> nat \<Rightarrow> bytes list" where
  "view_merge stride a na b nb i j =
    (if i < na \<or> j < nb then
       (let takeB = (na \<le> i \<or> j < nb \<and> view_idx (entry_at stride b j) \<le> view_idx (entry_at stride a i));
            e = (if takeB then entry_at stride b j else entry_at stride a i);
            idx = view_idx e
        in if takeB
           then e # view_merge stride a na b nb
                      (if i < na \<and> view_idx (entry_at stride a i) = idx then i + 1 else i) (j + 1)
           else e # view_merge stride a na b nb (i + 1) j)
     else [])"
  by pat_completeness auto
termination by (relation "measure (\<lambda>(stride, a, na, b, nb, i, j). (na - i) + (nb - j))") (auto simp: Let_def)

declare view_merged.simps [simp del] view_merge.simps [simp del]

text \<open>The second part of the answer is \<^verbatim>\<open>b_used\<close>: where the later delta's own bytes end.\<close>

definition mb_block_delta_compose_mem :: "bytes \<Rightarrow> bytes \<Rightarrow> (bytes list \<times> nat) res" where
  "mb_block_delta_compose_mem abuf bbuf =
    (case view_open abuf of
       Inl e \<Rightarrow> Inl e
     | Inr a \<Rightarrow>
         (case view_open bbuf of
            Inl e \<Rightarrow> Inl e
          | Inr b \<Rightarrow>
              if vw_npages a \<noteq> vw_npages b then Inl EINVAL
              else
                (let ns = (\<lambda>v. unat (vw_nstatus v)); nd = (\<lambda>v. unat (vw_ndata v))
                 in Inr
                   ([DELTA_MAGIC, u64_bytes (vw_npages a),
                     u64_bytes (of_nat (view_merged DELTA_STATUS_STRIDE (vw_status a) (ns a) (vw_status b) (ns b) 0 0))] @
                    view_merge DELTA_STATUS_STRIDE (vw_status a) (ns a) (vw_status b) (ns b) 0 0 @
                    [u64_bytes (of_nat (view_merged DELTA_DATA_STRIDE (vw_data a) (nd a) (vw_data b) (nd b) 0 0))] @
                    view_merge DELTA_DATA_STRIDE (vw_data a) (nd a) (vw_data b) (nd b) 0 0,
                    length bbuf - length (vw_data b) + nd b * DELTA_DATA_STRIDE))))"

section \<open>Applying a delta\<close>

fun apply_statii ::
  "os_env \<Rightarrow> nat \<Rightarrow> mb_block \<Rightarrow> prot_run \<Rightarrow> bytes \<Rightarrow> mb_block \<times> prot_run \<times> bytes \<times> errno option" where
  "apply_statii E 0 b run s = (b, run, s, None)"
| "apply_statii E (Suc k) b run s =
    (case take_u64 s of
       None \<Rightarrow> (b, run, s, Some EIO)
     | Some (idx, s1) \<Rightarrow>
         (case take_bytes 1 s1 of
            None \<Rightarrow> (b, run, s1, Some EIO)
          | Some (v, s2) \<Rightarrow>
              if bk_npages b \<le> unat idx then (b, run, s2, Some EINVAL)
              else
                (let i = unat idx;
                     before = mb_page_native_prot (bk_pages b ! i);
                     b1 = note_status b i (hd v)
                 in if mb_page_native_prot (bk_pages b1 ! i) \<noteq> before
                    then (case run_note E b1 run i of (b2, run2) \<Rightarrow> apply_statii E k b2 run2 s2)
                    else apply_statii E k b1 run s2)))"

definition apply_page :: "os_env \<Rightarrow> mb_block \<Rightarrow> prot_run \<Rightarrow> bytes \<Rightarrow> u64 \<Rightarrow> mb_block \<times> prot_run \<times> bytes \<times> errno option" where
  "apply_page E b run s idx0 =
    (let clean = (idx0 AND DELTA_IDX_CLEAN \<noteq> 0);
         i = unat (delta_page idx0)
     in if bk_npages b \<le> i then (b, run, s, Some EINVAL)
        else
          (let before = mb_page_native_prot (bk_pages b ! i);
               b1 = fst (page_snapshot E b i);
               note = (\<lambda>b. if mb_page_native_prot (bk_pages b ! i) \<noteq> before then run_note E b run i else (b, run))
           in case read_page b1 i s of
                (b2, s2, False) \<Rightarrow>
                  (case note (set_dirty b2 i True) of (b3, run3) \<Rightarrow> (b3, run3, s2, Some EIO))
              | (b2, s2, True) \<Rightarrow>
                  (let b3 = (if clean \<and> \<not> pg_invisible (bk_pages b2 ! i)
                             then (let c = set_dirty b2 i False in if pg_hot (bk_pages c ! i) then page_cool c i else c)
                             else (let c = set_dirty b2 i True
                                   in if pg_hot (bk_pages c ! i)
                                      then upd_page (\<lambda>p. p\<lparr>pg_shadow := Some (pg_live p)\<rparr>) c i else c))
                   in case note b3 of (b4, run4) \<Rightarrow> (b4, run4, s2, None))))"

fun apply_data ::
  "os_env \<Rightarrow> nat \<Rightarrow> mb_block \<Rightarrow> prot_run \<Rightarrow> bytes \<Rightarrow> mb_block \<times> prot_run \<times> bytes \<times> errno option" where
  "apply_data E 0 b run s = (b, run, s, None)"
| "apply_data E (Suc k) b run s =
    (case take_u64 s of
       None \<Rightarrow> (b, run, s, Some EIO)
     | Some (idx, s1) \<Rightarrow>
         (case apply_page E b run s1 idx of
            (b1, run1, s2, Some e) \<Rightarrow> (b1, run1, s2, Some e)
          | (b1, run1, s2, None) \<Rightarrow> apply_data E k b1 run1 s2))"

text \<open>Both lists; the run left open by a failure is closed by the caller.\<close>

definition apply_lists :: "os_env \<Rightarrow> mb_block \<Rightarrow> nat \<Rightarrow> bytes \<Rightarrow> mb_block \<times> prot_run \<times> bytes \<times> errno option" where
  "apply_lists E b nstatus s =
    (case apply_statii E nstatus b None s of
       (b1, run1, s1, Some e) \<Rightarrow> (b1, run1, s1, Some e)
     | (b1, run1, s1, None) \<Rightarrow>
         (let b2 = run_close E b1 run1
          in case take_u64 s1 of
               None \<Rightarrow> (b2, None, s1, Some EIO)
             | Some (ndata, s2) \<Rightarrow> apply_data E (unat ndata) b2 None s2))"

definition mb_block_delta_apply :: "os_env \<Rightarrow> mb_block \<Rightarrow> bytes \<Rightarrow> mb_block \<times> bytes \<times> unit res" where
  "mb_block_delta_apply E b s =
    (if \<not> bk_sealed b then (b, s, Inl EINVAL)
     else
       (let b0 = b\<lparr>bk_load_touched := False\<rparr>
        in case take_bytes (length DELTA_MAGIC) s of
             None \<Rightarrow> (b0, s, Inl EIO)
           | Some (magic, s1) \<Rightarrow>
               if magic \<noteq> DELTA_MAGIC then (b0, s1, Inl EINVAL)
               else
                 (case take_u64 s1 of
                    None \<Rightarrow> (b0, s1, Inl EIO)
                  | Some (npages64, s2) \<Rightarrow>
                      if unat npages64 \<noteq> bk_npages b then (b0, s2, Inl EINVAL)
                      else
                        (case take_u64 s2 of
                           None \<Rightarrow> (b0, s2, Inl EIO)
                         | Some (nstatus, s3) \<Rightarrow>
                             (case apply_lists E (b0\<lparr>bk_load_touched := True\<rparr>) (unat nstatus) s3 of
                                (b1, run, s4, e) \<Rightarrow>
                                  (mb_block_epoch_clear (run_close E b1 run), s4,
                                   case e of None \<Rightarrow> Inr () | Some e \<Rightarrow> Inl e))))))"

end
