(* ===== verification/Mb_Delta_Compose.thy ===== *)
theory Mb_Delta_Compose
  imports Mb_Delta
begin

text \<open>
  A delta as a value: the two lists, how they are laid out, and that reading gets
  back what was laid out. Composing in memory and composing from streams write
  the same bytes for every pair of deltas the stream version accepts.
\<close>

section \<open>The layout\<close>

definition status_bytes :: "u64 \<times> byte \<Rightarrow> bytes" where
  "status_bytes e = u64_bytes (fst e) @ [snd e]"

definition data_bytes :: "u64 \<times> bytes \<Rightarrow> bytes" where
  "data_bytes e = u64_bytes (fst e) @ snd e"

definition delta_bytes :: "delta_parts \<Rightarrow> bytes" where
  "delta_bytes d = DELTA_MAGIC @ u64_bytes (dp_npages d) @ u64_bytes (of_nat (length (dp_status d))) @
     concat (map status_bytes (dp_status d)) @ u64_bytes (of_nat (length (dp_data d))) @
     concat (map data_bytes (dp_data d))"

definition parts_ok :: "delta_parts \<Rightarrow> bool" where
  "parts_ok d \<longleftrightarrow> dp_npages d \<le> (- 1) div of_nat MB_PAGESIZE \<and>
     length (dp_status d) \<le> unat (dp_npages d) \<and> length (dp_data d) \<le> unat (dp_npages d) \<and>
     (\<forall>e\<in>set (dp_status d). fst e < dp_npages d) \<and>
     (\<forall>e\<in>set (dp_data d). delta_page (fst e) < dp_npages d \<and> length (snd e) = MB_PAGESIZE)"

lemma u64_bytes_bytes: "length bs = 8 \<Longrightarrow> u64_bytes (bytes_u64 bs) = bs"
  using le_dec_bound [of bs] le_enc_dec [of bs]
  by (simp add: u64_bytes_def bytes_u64_def unat_of_nat)

lemma take_u64_SomeD: "take_u64 s = Some (w, s') \<Longrightarrow> s = u64_bytes w @ s'"
  by (auto simp: take_u64_def u64_bytes_bytes dest!: take_bytes_SomeD)

lemma read_statii_SomeD:
  "read_statii n k s = Inr (es, s') \<Longrightarrow>
     s = concat (map status_bytes es) @ s' \<and> length es = k \<and> (\<forall>e\<in>set es. fst e < n)"
proof (induction n k s arbitrary: es rule: read_statii.induct)
  case (2 n k s)
  from "2.prems" obtain idx s1 v s2 es2 where
    t: "take_u64 s = Some (idx, s1)" "take_bytes 1 s1 = Some (v, s2)" "idx < n"
      "read_statii n k s2 = Inr (es2, s')" "es = (idx, hd v) # es2"
    by (auto split: option.splits if_splits sum.splits simp: not_le)
  have v: "s1 = v @ s2" "length v = 1" using take_bytes_SomeD [OF t(2)] by simp_all
  then have "v = [hd v]" by (cases v) auto
  with v have "s1 = [hd v] @ s2" by metis
  then show ?case
    using "2.IH" [OF t(1) refl t(2) refl _ t(4)] t(3,5) take_u64_SomeD [OF t(1)]
    by (simp add: status_bytes_def not_le)
qed simp

lemma read_statii_bytes:
  "\<forall>e\<in>set es. fst e < n \<Longrightarrow> read_statii n (length es) (concat (map status_bytes es) @ s) = Inr (es, s)"
  by (induction es) (auto simp: status_bytes_def take_bytes_def)

lemma read_data_SomeD:
  "read_data n k s = Inr (es, s') \<Longrightarrow>
     s = concat (map data_bytes es) @ s' \<and> length es = k \<and>
     (\<forall>e\<in>set es. delta_page (fst e) < n \<and> length (snd e) = MB_PAGESIZE)"
proof (induction n k s arbitrary: es rule: read_data.induct)
  case (2 n k s)
  from "2.prems" obtain idx s1 pg s2 es2 where
    t: "take_u64 s = Some (idx, s1)" "take_bytes MB_PAGESIZE s1 = Some (pg, s2)" "delta_page idx < n"
      "read_data n k s2 = Inr (es2, s')" "es = (idx, pg) # es2"
    by (auto split: option.splits if_splits sum.splits simp: not_le)
  show ?case
    using "2.IH" [OF t(1) refl t(2) refl _ t(4)] t(3,5) take_u64_SomeD [OF t(1)] take_bytes_SomeD [OF t(2)]
    by (simp add: data_bytes_def not_le)
qed simp

lemma read_data_bytes:
  "\<forall>e\<in>set es. delta_page (fst e) < n \<and> length (snd e) = MB_PAGESIZE \<Longrightarrow>
     read_data n (length es) (concat (map data_bytes es) @ s) = Inr (es, s)"
  by (induction es) (auto simp: data_bytes_def)

lemma parts_readD:
  assumes "parts_read heap s = Inr (d, s')"
  shows "s = delta_bytes d @ s'" "parts_ok d"
proof -
  from assms obtain magic s1 n s2 ns s3 st s4 nd s5 ds where
    t: "take_bytes (length DELTA_MAGIC) s = Some (magic, s1)" "magic = DELTA_MAGIC"
      "take_u64 s1 = Some (n, s2)" "\<not> (- 1) div of_nat MB_PAGESIZE < n" "take_u64 s2 = Some (ns, s3)" "\<not> n < ns"
      "read_statii n (unat ns) s3 = Inr (st, s4)" "take_u64 s4 = Some (nd, s5)" "\<not> n < nd"
      "read_data n (unat nd) s5 = Inr (ds, s')" "d = \<lparr>dp_npages = n, dp_status = st, dp_data = ds\<rparr>"
    by (auto simp: parts_read_def split: option.splits if_splits sum.splits)
  note st = read_statii_SomeD [OF t(7)] and ds = read_data_SomeD [OF t(10)]
  have "of_nat (length st) = ns" "of_nat (length ds) = nd" using st ds by simp_all
  then show "s = delta_bytes d @ s'"
    using take_bytes_SomeD [OF t(1)] t(2,11) take_u64_SomeD [OF t(3)] take_u64_SomeD [OF t(5)]
      take_u64_SomeD [OF t(8)] st ds by (simp add: delta_bytes_def)
  show "parts_ok d"
    using t(4,6,9,11) st ds by (simp add: parts_ok_def not_less word_le_nat_alt)
qed

lemma unat_count: "parts_ok d \<Longrightarrow> length (dp_status d) < 2 ^ 64" "parts_ok d \<Longrightarrow> length (dp_data d) < 2 ^ 64"
  by (auto simp: parts_ok_def intro: le_less_trans [OF _ unat_u64_less [of "dp_npages d"]])

lemma parts_read_bytes:
  assumes "parts_ok d"
  shows "parts_read True (delta_bytes d @ s) = Inr (d, s)"
proof -
  note p = assms [unfolded parts_ok_def]
  have c: "unat (of_nat (length (dp_status d)) :: u64) = length (dp_status d)"
    "unat (of_nat (length (dp_data d)) :: u64) = length (dp_data d)"
    using unat_count [OF assms] by (simp_all add: unat_of_nat)
  have "\<not> dp_npages d < of_nat (length (dp_status d))" "\<not> dp_npages d < of_nat (length (dp_data d))"
    using p c by (simp_all add: word_less_nat_alt not_less)
  moreover have "read_statii (dp_npages d) (length (dp_status d)) (concat (map status_bytes (dp_status d)) @ r) = Inr (dp_status d, r)"
    "read_data (dp_npages d) (length (dp_data d)) (concat (map data_bytes (dp_data d)) @ r) = Inr (dp_data d, r)" for r
    using p by (simp_all add: read_statii_bytes read_data_bytes)
  ultimately show ?thesis using p c by (simp add: parts_read_def delta_bytes_def not_less)
qed

section \<open>Where the entries lie\<close>

text \<open>What the two kinds of entries share: a fixed length and the page they name.\<close>

locale entries =
  fixes enc :: "u64 \<times> 'a \<Rightarrow> bytes" and stride :: nat and good :: "u64 \<times> 'a \<Rightarrow> bool"
  assumes enc_len: "good e \<Longrightarrow> length (enc e) = stride"
    and enc_idx: "good e \<Longrightarrow> view_idx (enc e) = delta_page (fst e)"
begin

lemma entry_at_enc:
  "\<forall>e\<in>set es. good e \<Longrightarrow> k < length es \<Longrightarrow> entry_at stride (concat (map enc es) @ r) k = enc (es ! k)"
proof (induction es arbitrary: k)
  case (Cons e es)
  have l: "length (enc e) = stride" using Cons.prems(1) enc_len by simp
  show ?case
  proof (cases k)
    case (Suc m)
    have "drop (Suc m * stride) (enc e @ concat (map enc es) @ r) = drop (m * stride) (concat (map enc es) @ r)"
      using l by simp
    then show ?thesis using Cons Suc by (simp add: entry_at_def)
  qed (use l in \<open>simp add: entry_at_def\<close>)
qed simp

lemma length_entries: "\<forall>e\<in>set es. good e \<Longrightarrow> length (concat (map enc es)) = length es * stride"
  by (induction es) (simp_all add: enc_len)

lemma merge_nil: "merge_entries page as [] = as"
  by (cases as) simp_all

lemma view_merge_enc:
  assumes "\<forall>e\<in>set as. good e" "\<forall>e\<in>set bs. good e" "i \<le> length as" "j \<le> length bs"
  shows "view_merge stride (concat (map enc as) @ ra) (length as) (concat (map enc bs) @ rb) (length bs) i j =
    map enc (merge_entries delta_page (drop i as) (drop j bs))"
  using assms
proof (induction "(length as - i) + (length bs - j)" arbitrary: i j rule: less_induct)
  case less
  let ?V = "view_merge stride (concat (map enc as) @ ra) (length as) (concat (map enc bs) @ rb) (length bs)"
  consider (none) "i = length as" "j = length bs" | (a) "i < length as" "j = length bs"
    | (b) "i = length as" "j < length bs" | (ab) "i < length as" "j < length bs"
    using less.prems(3,4) by linarith
  then show ?case
  proof cases
    case none
    then show ?thesis by (simp add: view_merge.simps)
  next
    case a
    have "?V i j = enc (as ! i) # ?V (i + 1) j"
      using a less.prems by (subst view_merge.simps) (simp add: entry_at_enc Let_def)
    moreover have "?V (i + 1) j = map enc (merge_entries delta_page (drop (i + 1) as) (drop j bs))"
      using a less.prems by (intro less.hyps) simp_all
    ultimately show ?thesis using a by (simp add: merge_nil Cons_nth_drop_Suc [symmetric])
  next
    case b
    have "?V i j = enc (bs ! j) # ?V i (j + 1)"
      using b less.prems by (subst view_merge.simps) (simp add: entry_at_enc Let_def)
    moreover have "?V i (j + 1) = map enc (merge_entries delta_page (drop i as) (drop (j + 1) bs))"
      using b less.prems by (intro less.hyps) simp_all
    ultimately show ?thesis using b by (simp add: Cons_nth_drop_Suc [symmetric])
  next
    case ab
    have g: "good (as ! i)" "good (bs ! j)" using ab less.prems(1,2) by simp_all
    have d: "drop i as = as ! i # drop (i + 1) as" "drop j bs = bs ! j # drop (j + 1) bs"
      using ab by (simp_all add: Cons_nth_drop_Suc)
    let ?T = "delta_page (fst (bs ! j)) \<le> delta_page (fst (as ! i))"
    show ?thesis
    proof (cases ?T)
      case True
      define i' where "i' = (if delta_page (fst (as ! i)) = delta_page (fst (bs ! j)) then i + 1 else i)"
      have "?V i j = enc (bs ! j) # ?V i' (j + 1)"
        using ab less.prems True g by (subst view_merge.simps) (simp add: entry_at_enc enc_idx i'_def Let_def)
      moreover have "?V i' (j + 1) = map enc (merge_entries delta_page (drop i' as) (drop (j + 1) bs))"
        using ab less.prems by (intro less.hyps) (auto simp: i'_def)
      ultimately show ?thesis using True d by (simp add: i'_def)
    next
      case False
      have "?V i j = enc (as ! i) # ?V (i + 1) j"
        using ab less.prems False g by (subst view_merge.simps) (simp add: entry_at_enc enc_idx Let_def)
      moreover have "?V (i + 1) j = map enc (merge_entries delta_page (drop (i + 1) as) (drop j bs))"
        using ab less.prems by (intro less.hyps) simp_all
      ultimately show ?thesis using False d by simp
    qed
  qed
qed

end

interpretation st: entries status_bytes DELTA_STATUS_STRIDE "\<lambda>_. True"
  by unfold_locales (simp_all add: status_bytes_def DELTA_STATUS_STRIDE_def view_idx_def)

interpretation dt: entries data_bytes DELTA_DATA_STRIDE "\<lambda>e. length (snd e) = MB_PAGESIZE"
  by unfold_locales (simp_all add: data_bytes_def DELTA_DATA_STRIDE_def view_idx_def)

lemma view_merged_length: "view_merged stride a na b nb i j = length (view_merge stride a na b nb i j)"
proof (induction stride a na b nb i j rule: view_merged.induct)
  case (1 stride a na b nb i j)
  then show ?case
    by (subst view_merged.simps, subst view_merge.simps) (auto simp: Let_def not_le)
qed

lemma merged_count_length: "merged_count (map fst as) (map fst bs) = length (merge_entries delta_page as bs)"
proof (induction delta_page as bs rule: merge_entries.induct)
  case (3 a as b bs)
  then show ?case by (auto simp: not_le)
qed (simp_all, metis list.exhaust merged_count.simps(2,3) length_map map_is_Nil_conv)

lemma merge_cong: "\<forall>e \<in> set as \<union> set bs. page (fst e) = page' (fst e) \<Longrightarrow> merge_entries page as bs = merge_entries page' as bs"
  by (induction page as bs rule: merge_entries.induct) auto

lemma high_bit_clear: "unat w < 2 ^ 63 \<Longrightarrow> \<not> bit w 63" for w :: u64
proof -
  assume "unat w < 2 ^ 63"
  then have "\<not> bit (unat w) 63" by (simp add: bit_iff_odd)
  then show ?thesis by (simp add: bit_unsigned_iff)
qed

lemma bit_clean: "n < 64 \<Longrightarrow> bit DELTA_IDX_CLEAN n \<longleftrightarrow> n = 63"
  unfolding DELTA_IDX_CLEAN_def by (simp only: bit_push_bit_iff bit_1_iff) auto

lemma delta_page_eq: "unat idx < 2 ^ 63 \<Longrightarrow> delta_page idx = idx"
  using high_bit_clear [of idx]
  by (auto simp: delta_page_def bit_and_iff bit_not_iff bit_clean intro!: bit_word_eqI)

lemma delta_page_small: "n \<le> (- 1) div of_nat MB_PAGESIZE \<Longrightarrow> idx < n \<Longrightarrow> delta_page idx = idx"
proof -
  assume n: "n \<le> (- 1) div of_nat MB_PAGESIZE" "idx < n"
  have "unat ((- 1) div of_nat MB_PAGESIZE :: u64) < 2 ^ 63"
    by (simp add: MB_PAGESIZE_def unat_div)
  then have "unat idx < 2 ^ 63" using n by (simp add: word_less_nat_alt word_le_nat_alt)
  then show ?thesis by (rule delta_page_eq)
qed

lemma view_open_bytes:
  assumes "parts_ok d"
  shows "view_open (delta_bytes d @ s) = Inr \<lparr>vw_npages = dp_npages d, vw_nstatus = of_nat (length (dp_status d)),
    vw_ndata = of_nat (length (dp_data d)),
    vw_status = concat (map status_bytes (dp_status d)) @ u64_bytes (of_nat (length (dp_data d))) @ concat (map data_bytes (dp_data d)) @ s,
    vw_data = concat (map data_bytes (dp_data d)) @ s\<rparr>"
proof -
  note p = assms [unfolded parts_ok_def]
  have c: "unat (of_nat (length (dp_status d)) :: u64) = length (dp_status d)"
    "unat (of_nat (length (dp_data d)) :: u64) = length (dp_data d)"
    using unat_count [OF assms] by (simp_all add: unat_of_nat)
  have n: "\<not> dp_npages d < of_nat (length (dp_status d))" "\<not> dp_npages d < of_nat (length (dp_data d))"
    using p c by (simp_all add: word_less_nat_alt not_less)
  have l: "length (concat (map status_bytes (dp_status d))) = length (dp_status d) * DELTA_STATUS_STRIDE"
    "length (concat (map data_bytes (dp_data d))) = length (dp_data d) * DELTA_DATA_STRIDE"
    using p st.length_entries [of "dp_status d"] dt.length_entries [of "dp_data d"] by simp_all
  have q: "a \<le> (a * DELTA_STATUS_STRIDE + r) div DELTA_STATUS_STRIDE" "a \<le> (a * DELTA_DATA_STRIDE + r) div DELTA_DATA_STRIDE" for a r
    by (simp_all add: DELTA_STATUS_STRIDE_def DELTA_DATA_STRIDE_def)
  show ?thesis
    using n c l by (simp add: view_open_def delta_bytes_def Let_def not_less q)
qed

lemma compose_mem_writes:
  assumes "mb_block_delta_compose True sa sb = Inr cs"
  shows "\<exists>cs' b rest. mb_block_delta_compose_mem sa sb = Inr (cs', length sb - length rest) \<and>
    concat cs' = concat cs \<and> parts_read True sb = Inr (b, rest) \<and> sb = delta_bytes b @ rest"
proof -
  from assms obtain a ra b rb where
    r: "parts_read True sa = Inr (a, ra)" "parts_read True sb = Inr (b, rb)" "dp_npages a = dp_npages b"
    by (auto simp: mb_block_delta_compose_def split: sum.splits if_splits)
  note a = parts_readD [OF r(1)] and b = parts_readD [OF r(2)]
  have c: "unat (of_nat (length (dp_status d)) :: u64) = length (dp_status d)"
    "unat (of_nat (length (dp_data d)) :: u64) = length (dp_data d)" if "parts_ok d" for d
    using unat_count [OF that] by (simp_all add: unat_of_nat)
  have s: "\<forall>e \<in> set (dp_status a) \<union> set (dp_status b). id (fst e) = delta_page (fst e)"
    using a(2) b(2) r(3) delta_page_small by (auto simp: parts_ok_def)
  have cs: "cs = [DELTA_MAGIC, u64_bytes (dp_npages a),
          u64_bytes (of_nat (length (merge_entries delta_page (dp_status a) (dp_status b))))] @
        concat (map (\<lambda>(idx, s). [u64_bytes idx, [s]]) (merge_entries delta_page (dp_status a) (dp_status b))) @
        [u64_bytes (of_nat (length (merge_entries delta_page (dp_data a) (dp_data b))))] @
        concat (map (\<lambda>(idx, page). [u64_bytes idx, page]) (merge_entries delta_page (dp_data a) (dp_data b)))"
    using assms r merge_cong [OF s] by (simp add: mb_block_delta_compose_def merged_count_length)
  have flat: "concat (concat (map (\<lambda>(idx, s). [u64_bytes idx, [s]]) es)) = concat (map status_bytes es)"
    "concat (concat (map (\<lambda>(idx, page). [u64_bytes idx, page]) ds)) = concat (map data_bytes ds)" for es ds
    by (induction es) (auto simp: status_bytes_def, induction ds, auto simp: data_bytes_def)
  have u: "length sb - length (concat (map data_bytes (dp_data b)) @ rb) + length (dp_data b) * DELTA_DATA_STRIDE =
      length sb - length rb"
    using b(2) dt.length_entries [of "dp_data b"] by (simp add: b(1) delta_bytes_def parts_ok_def)
  have "\<exists>cs'. mb_block_delta_compose_mem sa sb = Inr (cs', length sb - length rb) \<and> concat cs' = concat cs"
    unfolding cs u [symmetric] using a(2) b(2) r(3) view_open_bytes [OF a(2), of ra] view_open_bytes [OF b(2), of rb]
    by (simp add: mb_block_delta_compose_mem_def a(1) b(1) c st.view_merge_enc dt.view_merge_enc
        view_merged_length flat parts_ok_def Let_def)
  then show ?thesis using r(2) b(1) by blast
qed

text \<open>
  C12: Composing two deltas that lie in memory writes the bytes the streaming
  version writes, for every pair of deltas the streaming version accepts (what
  follows a delta in its buffer included); the third answer is where the second
  delta's own bytes end.
\<close>

theorem delta_compose_mem_equiv:
  assumes "mb_block_delta_compose True sa sb = Inr cs"
  shows "\<exists>cs' b rest. mb_block_delta_compose_mem sa sb = Inr (cs', length sb - length rest) \<and>
    concat cs' = concat cs \<and> parts_read True sb = Inr (b, rest)"
  using compose_mem_writes [OF assms] by blast

definition sample_delta :: "u64 \<Rightarrow> byte \<Rightarrow> delta_parts" where
  "sample_delta i st = \<lparr>dp_npages = 4, dp_status = [(i, st)], dp_data = []\<rparr>"

lemma sample_ok: "i < 4 \<Longrightarrow> parts_ok (sample_delta i st)"
  by (simp add: parts_ok_def sample_delta_def MB_PAGESIZE_def word_le_nat_alt unat_div)

lemma sample_read:
  "i < 4 \<Longrightarrow> parts_read True (delta_bytes (sample_delta i st)) = Inr (sample_delta i st, [])"
  using parts_read_bytes [OF sample_ok, of i st "[]"] by simp

theorem delta_compose_mem_equiv_witness:
  "\<exists>cs' b rest. mb_block_delta_compose_mem (delta_bytes (sample_delta 1 3)) (delta_bytes (sample_delta 2 5)) =
      Inr (cs', length (delta_bytes (sample_delta 2 5)) - length rest) \<and>
    concat cs' = DELTA_MAGIC @ u64_bytes 4 @ u64_bytes 2 @ u64_bytes 1 @ [3] @ u64_bytes 2 @ [5] @ u64_bytes 0 \<and>
    parts_read True (delta_bytes (sample_delta 2 5)) = Inr (b, rest)"
proof -
  have "mb_block_delta_compose True (delta_bytes (sample_delta 1 3)) (delta_bytes (sample_delta 2 5)) =
      Inr [DELTA_MAGIC, u64_bytes 4, u64_bytes 2, u64_bytes 1, [3], u64_bytes 2, [5], u64_bytes 0]"
    by (simp add: mb_block_delta_compose_def sample_read)
       (simp add: sample_delta_def delta_page_eq word_le_nat_alt)
  from delta_compose_mem_equiv [OF this] show ?thesis by simp
qed

end
