(* ===== verification/Mb_Mem_Views.thy ===== *)
theory Mb_Mem_Views
  imports Mb_Mem
begin

text \<open>
  What the memory operations do to each page: a range's status change, giving
  pages back, the zero-filled overlap of a fixed mapping, the fault handler, and
  the runs of pages a loop collects before it refreshes them.
\<close>

lemma acts_on_empty: "block_ok b \<Longrightarrow> {..<bk_npages b} \<inter> I = {} \<Longrightarrow> acts_on g I b b"
  by (auto simp: acts_on_def)

section \<open>A status for a range\<close>

definition protect_v :: "byte \<Rightarrow> bframe \<Rightarrow> pview \<Rightarrow> pview" where
  "protect_v st fr v = refresh_v fr (status_v st (estat_v st fr v))"

lemma set_protections_acts:
  assumes "env_ok E" "block_ok b" "ps + n \<le> bk_npages b"
  shows "acts_on (protect_v st) {ps..<ps + n} b (set_protections E b ps n st)"
proof -
  let ?is = "[ps..<ps + n]"
  define b1 where "b1 = fold (\<lambda>i b. epoch_note_status_change b i st) ?is b"
  define b2 where "b2 = fold (\<lambda>i b. note_status b i st) ?is b1"
  have r: "\<forall>i\<in>set ?is. i < bk_npages b" using assms(3) by simp
  have a1: "acts_on (estat_v st) {ps..<ps + n} b b1"
    using acts_on_fold [OF estat.page_op_axioms assms(2) r] by (simp add: b1_def)
  have a2: "acts_on (\<lambda>_. status_v st) {ps..<ps + n} b1 b2"
    using acts_on_fold [OF stat.page_op_axioms acts_onD(1) [OF a1], of ?is] r acts_onD(3) [OF a1] by (simp add: b2_def)
  have a3: "acts_on refresh_v {ps..<ps + n} b2 (refresh_range E b2 ps n)"
    using refresh_range_acts [OF assms(1) acts_onD(1) [OF a2]] assms(3) acts_onD(3) [OF a1] acts_onD(3) [OF a2] by simp
  show ?thesis
    using acts_on_trans [OF acts_on_trans [OF a1 a2] a3]
    by (simp add: set_protections_def b1_def b2_def protect_v_def [abs_def] Let_def)
qed

section \<open>Giving pages back\<close>

definition zero_v :: "pview \<Rightarrow> pview" where
  "zero_v v = v\<lparr>v_page := (v_page v)\<lparr>pg_live := zero_page\<rparr>\<rparr>"

interpretation zero: page_op "upd_page (pg_live_update (\<lambda>_. zero_page))" "\<lambda>_. zero_v"
  by (rule page_op_cong [OF page_op_upd]) (simp_all add: zero_v_def)

lemma zero_run_acts:
  assumes "block_ok b" "start + count \<le> bk_npages b"
  shows "acts_on (\<lambda>_. zero_v) {start..<start + count} b (zero_run b start count)"
  using acts_on_fold [OF zero.page_op_axioms assms(1), of "[start..<start + count]"] assms(2)
  by (simp add: zero_run_def)

lemma zero_run_0 [simp]: "zero_run b start 0 = b"
  by (simp add: zero_run_def)

definition given_v :: "bframe \<Rightarrow> pview \<Rightarrow> pview" where
  "given_v fr v = estat_v MB_ST_FREE fr (snap_v True (plan_v fr v))"

definition zero_already_v :: "pview \<Rightarrow> bool" where
  "zero_already_v v \<longleftrightarrow> \<not> pg_dirty (v_page v) \<and> \<not> pg_invisible (v_page v) \<and> pg_snap (v_page v) = MB_SNAP_ZERO"

definition dirty_after :: "pview \<Rightarrow> bool" where
  "dirty_after v \<longleftrightarrow> \<not> pg_invisible (v_page v) \<and> pg_snap (v_page v) \<noteq> MB_SNAP_ZERO"

definition give_v :: "bframe \<Rightarrow> pview \<Rightarrow> pview" where
  "give_v fr v =
    (let v3 = given_v fr v
     in dirty_v (dirty_after v3) (if zero_already_v v3 then v3 else zero_v v3))"

definition given :: "os_env \<Rightarrow> mb_block \<Rightarrow> nat \<Rightarrow> mb_block" where
  "given E b i = epoch_note_status_change (fst (page_snapshot E (mb_block_plan_capture b i) i)) i MB_ST_FREE"

lemma given_op: "env_ok E \<Longrightarrow> page_op (given E) given_v"
  by (rule page_op_cong [OF page_op_comp [OF page_op_comp [OF plan.page_op_axioms snap.page_op_axioms [of True]]
          estat.page_op_axioms [of MB_ST_FREE]]])
     (simp_all add: given_def given_v_def page_snapshot_eq env_ok_def)

lemma dirty_zero_v: "dirty_v d (zero_v v) = zero_v (dirty_v d v)"
  by (simp add: dirty_v_def zero_v_def cool_v_def Let_def)

lemma free_step_unfold:
  "free_step E i (b, rs, run) =
    (let b3 = given E b i
     in if zero_already_v (view b3 i)
        then (let b4 = zero_run b3 rs run in (set_dirty b4 i (dirty_after (view b4 i)), rs, 0))
        else (set_dirty b3 i (dirty_after (view b3 i)), if run = 0 then i else rs, run + 1))"
  by (simp add: free_step_def given_def zero_already_v_def dirty_after_def Let_def)

text \<open>The zeroing a loop still owes is the same as zeroing at once.\<close>

lemma free_step_acts:
  assumes E: "env_ok E" and b: "block_ok b" and i: "i < bk_npages b" and rs: "rs \<le> i" "0 < run \<Longrightarrow> rs + run = i"
    and st: "free_step E i (b, rs, run) = (b', rs', run')"
  shows "acts_on give_v {i} (zero_run b rs run) (zero_run b' rs' run')"
    "block_ok b'" "frame b' = frame b" "rs' \<le> Suc i" "0 < run' \<Longrightarrow> rs' + run' = Suc i"
proof -
  let ?P = "{rs..<rs + run}"
  have iP: "i \<notin> ?P" "rs + run \<le> bk_npages b" using rs i by (cases "run = 0"; auto)+
  define b3 where "b3 = given E b i"
  have a3: "acts_on given_v {i} b b3" using acts_on_one [OF given_op [OF E] b i] by (simp add: b3_def)
  note d3 = acts_onD [OF a3]
  have z0: "acts_on (\<lambda>_. zero_v) ?P b (zero_run b rs run)" using zero_run_acts [OF b iP(2)] .
  have v3: "view b3 i = given_v (frame b) (view b i)" using d3(4) [OF i] by simp
  have z3: "acts_on (\<lambda>_. zero_v) ?P b3 (zero_run b3 rs run)" using zero_run_acts [OF d3(1), of rs run] iP(2) d3(3) by simp
  have "acts_on give_v {i} (zero_run b rs run) (zero_run b' rs' run') \<and> block_ok b' \<and> frame b' = frame b
        \<and> rs' \<le> Suc i \<and> (0 < run' \<longrightarrow> rs' + run' = Suc i)"
  proof (cases "zero_already_v (view b3 i)")
    case True
    define b4 where "b4 = zero_run b3 rs run"
    note d4 = acts_onD [OF z3 [folded b4_def]]
    have v4: "view b4 i = view b3 i" using d4(4) iP i d3(3) by auto
    have r: "b' = set_dirty b4 i (dirty_after (view b3 i))" "rs' = rs" "run' = 0"
      using st True by (simp_all add: free_step_unfold Let_def v4 flip: b3_def b4_def)
    have a5: "acts_on (\<lambda>_. dirty_v (dirty_after (view b3 i))) {i} b4 b'"
      using acts_on_one [OF dirt.page_op_axioms d4(1)] i d3(3) d4(3) by (simp add: r)
    note d5 = acts_onD [OF a5]
    have "view b' j = (if j \<in> {i} then give_v (frame (zero_run b rs run)) (view (zero_run b rs run) j)
        else view (zero_run b rs run) j)" if "j < bk_npages b" for j
      using that d5(4) [of j] d4(4) [of j] d3(4) [of j] d3(3) d4(3) acts_onD(2,4) [OF z0] iP v3 True
      by (auto simp: give_v_def Let_def)
    then show ?thesis
      unfolding acts_on_def r(2,3) zero_run_0
      using d5(1-3) d4(2,3) d3(2,3) acts_onD(2,3) [OF z0] rs(1) by simp
  next
    case False
    have r: "b' = set_dirty b3 i (dirty_after (view b3 i))" "rs' = (if run = 0 then i else rs)" "run' = Suc run"
      using st False by (simp_all add: free_step_unfold Let_def flip: b3_def)
    have Q: "{rs'..<rs' + run'} = insert i ?P" "rs' + run' = Suc i" using rs r by (cases "run = 0"; auto)+
    have a5: "acts_on (\<lambda>_. dirty_v (dirty_after (view b3 i))) {i} b3 b'"
      using acts_on_one [OF dirt.page_op_axioms d3(1)] i d3(3) by (simp add: r)
    note d5 = acts_onD [OF a5]
    have z6: "acts_on (\<lambda>_. zero_v) (insert i ?P) b' (zero_run b' rs' run')"
      using zero_run_acts [OF d5(1), of rs' run'] Q i d5(3) d3(3) by simp
    note d6 = acts_onD [OF z6]
    have "view (zero_run b' rs' run') j = (if j \<in> {i} then give_v (frame (zero_run b rs run)) (view (zero_run b rs run) j)
        else view (zero_run b rs run) j)" if "j < bk_npages b" for j
      using that d6(4) [of j] d5(4) [of j] d3(4) [of j] d3(3) d5(3) acts_onD(2,4) [OF z0] iP v3 False
      by (auto simp: give_v_def Let_def dirty_zero_v)
    then show ?thesis
      unfolding acts_on_def using d6(1-3) d5(1-3) d3(2,3) acts_onD(2,3) [OF z0] Q(2) by simp
  qed
  then show "acts_on give_v {i} (zero_run b rs run) (zero_run b' rs' run')"
    "block_ok b'" "frame b' = frame b" "rs' \<le> Suc i" "0 < run' \<Longrightarrow> rs' + run' = Suc i"
    by simp_all
qed

lemma acts_on_append:
  assumes "acts_on g I b b1" "acts_on g {i} b1 b2" "i \<notin> I"
  shows "acts_on g (insert i I) b b2"
  using acts_on_union [OF assms(1,2)] assms(3) by simp

lemma free_loop_acts:
  assumes E: "env_ok E" and b: "block_ok b" and n: "ps + m \<le> bk_npages b"
    and r: "fold (free_step E) [ps..<ps + m] (b, ps, 0) = (b', rs', run')"
  shows "acts_on give_v {ps..<ps + m} b (zero_run b' rs' run') \<and> block_ok b' \<and> frame b' = frame b \<and>
     rs' \<le> ps + m \<and> (0 < run' \<longrightarrow> rs' + run' = ps + m)"
  using n r
proof (induction m arbitrary: b' rs' run')
  case 0
  then show ?case using b by (auto simp: zero_run_def acts_on_empty)
next
  case (Suc m)
  obtain b1 rs1 run1 where 1: "fold (free_step E) [ps..<ps + m] (b, ps, 0) = (b1, rs1, run1)"
    by (cases "fold (free_step E) [ps..<ps + m] (b, ps, 0)") auto
  have IH: "acts_on give_v {ps..<ps + m} b (zero_run b1 rs1 run1)" "block_ok b1" "frame b1 = frame b"
      "rs1 \<le> ps + m" "0 < run1 \<Longrightarrow> rs1 + run1 = ps + m"
    using Suc.IH [OF _ 1] Suc.prems(1) by simp_all
  have st: "free_step E (ps + m) (b1, rs1, run1) = (b', rs', run')"
    using Suc.prems(2) 1 by simp
  note s = free_step_acts [OF E IH(2) _ IH(4,5) st]
  have i: "ps + m < bk_npages b1" using Suc.prems(1) frame_eqD(1) [OF IH(3)] by simp
  have "acts_on give_v (insert (ps + m) {ps..<ps + m}) b (zero_run b' rs' run')"
    using acts_on_append [OF IH(1) s(1) [OF i]] by simp
  then show ?case using s(2-5) [OF i] IH(3) by (simp add: atLeastLessThanSuc)
qed

definition free_v :: "bool \<Rightarrow> bframe \<Rightarrow> pview \<Rightarrow> pview" where
  "free_v advise_only fr v = (if advise_only then refresh_v fr (give_v fr v) else protect_v MB_ST_FREE fr (give_v fr v))"

lemma free_pages_acts:
  assumes E: "env_ok E" and b: "block_ok b" and n: "ps + m \<le> bk_npages b"
  shows "acts_on (free_v advise_only) {ps..<ps + m} b (free_pages E b ps m advise_only)"
proof -
  obtain b' rs' run' where r: "fold (free_step E) [ps..<ps + m] (b, ps, 0) = (b', rs', run')"
    by (cases "fold (free_step E) [ps..<ps + m] (b, ps, 0)") auto
  define b2 where "b2 = zero_run b' rs' run'"
  have a: "acts_on give_v {ps..<ps + m} b b2"
    using free_loop_acts [OF E b n r] by (simp add: b2_def)
  have n2: "ps + m \<le> bk_npages b2" using n acts_onD(3) [OF a] by simp
  show ?thesis
    using acts_on_trans [OF a refresh_range_acts [OF E acts_onD(1) [OF a] n2]]
      acts_on_trans [OF a set_protections_acts [OF E acts_onD(1) [OF a] n2, of MB_ST_FREE]]
    by (simp add: free_pages_def r b2_def [symmetric] free_v_def [abs_def])
qed

section \<open>The overlap of a fixed mapping\<close>

lemma acts_on_guard:
  assumes "acts_on g I b b'"
    and "\<And>j. j < bk_npages b \<Longrightarrow> j \<in> J \<Longrightarrow> j \<in> I \<longleftrightarrow> P (view b j)" "I \<subseteq> J"
  shows "acts_on (\<lambda>fr v. if P v then g fr v else v) J b b'"
  using assms by (auto simp: acts_on_def)

definition overlap_v :: "bframe \<Rightarrow> pview \<Rightarrow> pview" where
  "overlap_v fr v = (if pg_status (v_page v) \<noteq> MB_ST_FREE then free_v True fr v else v)"

lemma taken_run_bounds: "i < endp \<Longrightarrow> pg_status (bk_pages b ! i) \<noteq> MB_ST_FREE \<Longrightarrow> i < taken_run b i endp \<and> taken_run b i endp \<le> endp"
  using length_takeWhile_le [of "\<lambda>j. pg_status (bk_pages b ! j) \<noteq> MB_ST_FREE" "[i..<endp]"]
  by (simp add: taken_run_def upt_conv_Cons)

lemma taken_run_taken:
  assumes "i \<le> k" "k < taken_run b i endp"
  shows "pg_status (bk_pages b ! k) \<noteq> MB_ST_FREE"
proof -
  let ?P = "\<lambda>j. pg_status (bk_pages b ! j) \<noteq> MB_ST_FREE"
  have "k \<in> set [i..<i + length (takeWhile ?P [i..<endp])]"
    using assms unfolding taken_run_def by auto
  then have "k \<in> set (takeWhile ?P [i..<endp])" by (simp only: takeWhile_upt [symmetric])
  then show ?thesis by (rule set_takeWhileD [THEN conjunct2])
qed

lemma zero_overlap_acts:
  assumes "env_ok E" "block_ok b" "endp \<le> bk_npages b"
  shows "acts_on overlap_v {i..<endp} b (zero_overlap_from E b i endp)"
  using assms
proof (induction E b i endp rule: zero_overlap_from.induct)
  case (1 E b i endp)
  consider (stop) "\<not> i < endp" | (free) "i < endp" "pg_status (bk_pages b ! i) = MB_ST_FREE"
    | (taken) "i < endp" "pg_status (bk_pages b ! i) \<noteq> MB_ST_FREE" by blast
  then show ?case
  proof cases
    case stop
    then show ?thesis using 1 by (simp add: zero_overlap_from.simps acts_on_refl)
  next
    case free
    have "acts_on overlap_v {Suc i..<endp} b (zero_overlap_from E b (Suc i) endp)"
      using "1.IH"(1) free 1 by simp
    moreover have "acts_on overlap_v {i} b b" using 1 free by (auto simp: acts_on_def overlap_v_def)
    ultimately have "acts_on overlap_v ({i} \<union> {Suc i..<endp}) b (zero_overlap_from E b (Suc i) endp)"
      by (intro acts_on_union) auto
    moreover have "{i} \<union> {Suc i..<endp} = {i..<endp}" using free by auto
    ultimately show ?thesis using free by (simp add: zero_overlap_from.simps [of E b i])
  next
    case taken
    define j where "j = taken_run b i endp"
    have j: "i < j" "j \<le> endp" using taken_run_bounds taken by (simp_all add: j_def)
    define b1 where "b1 = free_pages E b i (j - i) True"
    have "acts_on (free_v True) {i..<i + (j - i)} b b1"
      using free_pages_acts [of E b i "j - i"] 1 j by (simp add: b1_def)
    then have a: "acts_on overlap_v {i..<j} b b1"
      using j taken_run_taken [of i _ b endp] by (auto simp: acts_on_def overlap_v_def j_def)
    have "acts_on overlap_v {j..<endp} b1 (zero_overlap_from E b1 j endp)"
      using "1.IH"(2) [OF taken j_def] acts_onD [OF a] 1 by (simp add: b1_def j_def)
    then have "acts_on overlap_v ({i..<j} \<union> {j..<endp}) b (zero_overlap_from E b1 j endp)"
      by (rule acts_on_union [OF a]) auto
    moreover have "{i..<j} \<union> {j..<endp} = {i..<endp}" using j by auto
    ultimately show ?thesis using taken by (simp add: zero_overlap_from.simps [of E b i] Let_def b1_def j_def)
  qed
qed

section \<open>The fault handler\<close>

definition os_native_v :: "pview \<Rightarrow> pview" where
  "os_native_v v = v\<lparr>v_page := (v_page v)\<lparr>pg_os := mb_page_native_prot (v_page v)\<rparr>\<rparr>"

definition release_v :: "bframe \<Rightarrow> pview \<Rightarrow> pview" where
  "release_v fr v = dirty_v True (plan_v fr (capture_v fr v))"

definition trip_v :: "bframe \<Rightarrow> pview \<Rightarrow> pview" where
  "trip_v fr v = unheld_v (os_native_v (release_v fr (snap_v True v)))"

lemma release_op: "page_op trip_release release_v"
  by (rule page_op_cong [OF page_op_comp [OF page_op_comp [OF capt.page_op_axioms plan.page_op_axioms]
          dirt.page_op_axioms [of True]]])
     (simp_all add: trip_release_def release_v_def)

lemma os_native_op: "page_op (upd_page (\<lambda>p. p\<lparr>pg_os := mb_page_native_prot p\<rparr>)) (\<lambda>_. os_native_v)"
  by (rule page_op_cong [OF page_op_upd]) (simp_all add: os_native_v_def keeps_mapped_def)

lemma snapshot_granted:
  "env_ok E \<Longrightarrow> page_snapshot E b i = (upd_page (\<lambda>p. fst (mb_page_maybe_snapshot True p)) b i, True)"
  by (simp add: page_snapshot_def env_ok_def mb_page_maybe_snapshot_def upd_page_def Let_def)

lemma trip_acts:
  assumes E: "env_ok E" and b: "block_ok b" and i: "i < bk_npages b"
    and t: "status_tracked (pg_status (bk_pages b ! i))"
  shows "\<exists>b'. trip E b i = (b', True) \<and> acts_on trip_v {i} b b'"
proof -
  have g1: "os_group E = 1" using E by (simp add: env_ok_def)
  define b1 where "b1 = upd_page (\<lambda>p. fst (mb_page_maybe_snapshot True p)) b i"
  have a1: "acts_on (\<lambda>_. snap_v True) {i} b b1"
    using acts_on_one [OF snap.page_op_axioms [of True] b i] by (simp add: b1_def)
  note d1 = acts_onD [OF a1]
  have t1: "status_tracked (pg_status (bk_pages b1 ! i))"
    using t i by (simp add: b1_def mb_page_maybe_snapshot_def)
  define b2 where "b2 = trip_release b1 i"
  have a2: "acts_on release_v {i} b1 b2"
    using acts_on_one [OF release_op d1(1)] i d1(3) by (simp add: b2_def)
  note d2 = acts_onD [OF a2]
  define b3 where "b3 = upd_page (\<lambda>p. p\<lparr>pg_os := mb_page_native_prot p\<rparr>) b2 i"
  have a3: "acts_on (\<lambda>_. os_native_v) {i} b2 b3"
    using acts_on_one [OF os_native_op d2(1)] i d1(3) d2(3) by (simp add: b3_def)
  note d3 = acts_onD [OF a3]
  define b4 where "b4 = mb_block_note_unheld b3 i"
  have a4: "acts_on (\<lambda>_. unheld_v) {i} b3 b4"
    using acts_on_one [OF unheld.page_op_axioms d3(1)] i d1(3) d2(3) d3(3) by (simp add: b4_def)
  have "acts_on trip_v {i} b b4"
    using acts_on_trans [OF acts_on_trans [OF acts_on_trans [OF a1 a2] a3] a4] by (simp add: trip_v_def [abs_def])
  moreover have "trip E b i = (b4, True)"
  proof -
    have q: "[i..<min (Suc i) (bk_npages b)] = [i]" using i by (simp add: min_def)
    have s: "trip_snapshots E b i [i] = (b1, True)"
      using t by (simp add: trip_snapshots_def group_page_held_def snapshot_granted [OF E] b1_def)
    have p: "trip_pages b1 i [i] = (b2, [i])"
      using t1 by (simp add: trip_pages_def group_page_held_def b2_def)
    have o: "mb_block_protect_group E b2 i = (b3, True)"
      using E i d1(3) d2(3) g1
      by (simp add: mb_block_protect_group_def os_protect_granted group_native_prot_def b3_def upd_page_def)
    show ?thesis
      using t by (simp add: trip_def g1 q s p o b4_def Let_def del: upt_Suc)
  qed
  ultimately show ?thesis by blast
qed

lemma trip_refused:
  "\<not> status_tracked (pg_status (bk_pages b ! i)) \<Longrightarrow> trip E b i = (b, False)"
  by (simp add: trip_def)

definition store_v :: "nat \<Rightarrow> bytes \<Rightarrow> pview \<Rightarrow> pview" where
  "store_v off xs v = v\<lparr>v_page := (v_page v)\<lparr>pg_live := put_at (pg_live (v_page v)) off xs\<rparr>\<rparr>"

interpretation stor: page_op "\<lambda>b i. store b i off xs" "\<lambda>_. store_v off xs" for off xs
  by (rule page_op_cong [OF page_op_upd [of "\<lambda>p. p\<lparr>pg_live := put_at (pg_live p) off xs\<rparr>"]])
     (simp_all add: store_v_def store_def keeps_mapped_def)

definition write_v :: "nat \<Rightarrow> bytes \<Rightarrow> bframe \<Rightarrow> pview \<Rightarrow> pview" where
  "write_v off xs fr v =
    (if prot_writable (pg_os (v_page v)) then store_v off xs v
     else if status_tracked (pg_status (v_page v)) then store_v off xs (trip_v fr v)
     else v)"

lemma guest_write_acts:
  assumes E: "env_ok E" and b: "block_ok b" and i: "i < bk_npages b"
  shows "acts_on (write_v off xs) {i} b (fst (guest_write E b i off xs))"
    "snd (guest_write E b i off xs) \<longleftrightarrow>
       prot_writable (pg_os (bk_pages b ! i)) \<or> status_tracked (pg_status (bk_pages b ! i))"
proof -
  consider (w) "prot_writable (pg_os (bk_pages b ! i))"
    | (t) "\<not> prot_writable (pg_os (bk_pages b ! i))" "status_tracked (pg_status (bk_pages b ! i))"
    | (n) "\<not> prot_writable (pg_os (bk_pages b ! i))" "\<not> status_tracked (pg_status (bk_pages b ! i))" by blast
  then have "acts_on (write_v off xs) {i} b (fst (guest_write E b i off xs)) \<and> (snd (guest_write E b i off xs) \<longleftrightarrow>
       prot_writable (pg_os (bk_pages b ! i)) \<or> status_tracked (pg_status (bk_pages b ! i)))"
  proof cases
    case w
    then show ?thesis
      using acts_on_cong [OF acts_on_one [OF stor.page_op_axioms b i], of "{i}" "write_v off xs" off xs]
      by (simp add: guest_write_def write_v_def)
  next
    case t
    obtain b' where tr: "trip E b i = (b', True)" and a: "acts_on trip_v {i} b b'"
      using trip_acts [OF E b i t(2)] by blast
    have "acts_on (\<lambda>_. store_v off xs) {i} b' (store b' i off xs)"
      using acts_on_one [OF stor.page_op_axioms acts_onD(1) [OF a]] i acts_onD(3) [OF a] by simp
    then have "acts_on (\<lambda>fr v. store_v off xs (trip_v fr v)) {i} b (store b' i off xs)"
      by (rule acts_on_trans [OF a])
    then have "acts_on (write_v off xs) {i} b (store b' i off xs)"
      using t by (elim acts_on_cong) (simp_all add: write_v_def)
    then show ?thesis using t tr by (simp add: guest_write_def)
  next
    case n
    then show ?thesis
      using b by (simp add: guest_write_def trip_refused acts_on_def write_v_def)
  qed
  then show "acts_on (write_v off xs) {i} b (fst (guest_write E b i off xs))"
    "snd (guest_write E b i off xs) \<longleftrightarrow>
       prot_writable (pg_os (bk_pages b ! i)) \<or> status_tracked (pg_status (bk_pages b ! i))" by simp_all
qed

section \<open>Runs refreshed late\<close>

fun run_pages :: "prot_run \<Rightarrow> nat set" where
  "run_pages None = {}"
| "run_pages (Some (s, l)) = {s..<Suc l}"

fun run_ok :: "prot_run \<Rightarrow> nat \<Rightarrow> bool" where
  "run_ok None i = True"
| "run_ok (Some (s, l)) i = (s \<le> l \<and> l < i)"

lemma run_ok_mono: "run_ok run i \<Longrightarrow> i \<le> j \<Longrightarrow> run_ok run j"
  by (cases run) auto

lemma run_ok_pages: "run_ok run i \<Longrightarrow> k \<in> run_pages run \<Longrightarrow> k < i"
  by (cases run) auto

lemma run_close_acts:
  assumes "env_ok E" "block_ok b" "run_ok run (bk_npages b)"
  shows "acts_on refresh_v (run_pages run) b (run_close E b run)"
proof (cases run)
  case None
  then show ?thesis using assms by (simp add: run_close_def acts_on_refl)
next
  case (Some r)
  obtain s l where r: "r = (s, l)" by (cases r)
  then have "s \<le> l" "l < bk_npages b" using assms Some by auto
  then have "acts_on refresh_v {s..<s + (l - s + 1)} b (refresh_range E b s (l - s + 1))"
    by (intro refresh_range_acts assms) simp
  moreover have "s + (l - s + 1) = Suc l" using \<open>s \<le> l\<close> by simp
  ultimately show ?thesis using Some r by (simp add: run_close_def)
qed

lemma acts_on_close:
  assumes "acts_on g1 I b b1" "acts_on g2 J b1 b2" "I \<inter> J = {}"
  shows "block_ok b2" "frame b2 = frame b"
    "j < bk_npages b \<Longrightarrow> view b2 j = (if j \<in> I then g1 (frame b) (view b j) else if j \<in> J then g2 (frame b) (view b j) else view b j)"
  using assms by (auto simp: acts_on_def acts_onD(3) [OF assms(1)])

lemma run_note_cases:
  assumes "run_ok run i" "run_note E b run i = (b', run')"
  obtains (extend) "b' = b" "run_pages run' = insert i (run_pages run)" "run_ok run' (Suc i)"
  | (flush) "b' = run_close E b run" "run' = Some (i, i)"
proof (cases run)
  case None
  then show ?thesis using assms extend by (auto simp: run_note_def)
next
  case (Some r)
  obtain s l where r: "r = (s, l)" by (cases r)
  show ?thesis
  proof (cases "i = Suc l")
    case True
    then show ?thesis using assms Some r extend by (auto simp: run_note_def atLeastLessThanSuc)
  next
    case False
    then show ?thesis using assms Some r flush by (auto simp: run_note_def run_close_def)
  qed
qed

lemma run_step:
  assumes E: "env_ok E" and b: "block_ok b" and i: "i < bk_npages b" and ro: "run_ok run i"
    and h: "acts_on h {i} b b1"
    and st: "(b2, run2) = (if c then run_note E b1 run i else (b1, run))"
  shows "acts_on (\<lambda>fr v. if c then refresh_v fr (h fr v) else h fr v) {i} (run_close E b run) (run_close E b2 run2)"
    "block_ok b2" "frame b2 = frame b" "run_ok run2 (Suc i)"
proof -
  note d1 = acts_onD [OF h]
  have iR: "i \<notin> run_pages run" using run_ok_pages [OF ro] by blast
  have cl: "acts_on refresh_v (run_pages run) b (run_close E b run)"
    using run_close_acts [OF E b] run_ok_mono [OF ro] i by simp
  note dc = acts_onD [OF cl]
  have cl1: "acts_on refresh_v (run_pages run) b1 (run_close E b1 run)"
    using run_close_acts [OF E d1(1)] run_ok_mono [OF ro] i d1(3) by simp
  have two: "acts_on (\<lambda>fr v. if c then refresh_v fr (h fr v) else h fr v) {i} (run_close E b run) (run_close E b2 run2)
      \<and> block_ok b2 \<and> frame b2 = frame b \<and> run_ok run2 (Suc i)"
  proof (cases c)
    case False
    then have "b2 = b1" "run2 = run" using st by simp_all
    then show ?thesis
      using False acts_on_close [OF h cl1] iR dc d1 run_ok_mono [OF ro, of "Suc i"] by (auto simp: acts_on_def)
  next
    case True
    then have "run_note E b1 run i = (b2, run2)" using st by simp
    with ro show ?thesis
    proof (cases rule: run_note_cases)
      case extend
      have "acts_on refresh_v (insert i (run_pages run)) b1 (run_close E b2 run2)"
        using run_close_acts [OF E d1(1), of run2] extend run_ok_mono [of run2 "Suc i" "bk_npages b"] i d1(3) by simp
      then show ?thesis
        using True extend iR dc d1 by (auto simp: acts_on_def)
    next
      case flush
      note d2 = acts_onD [OF cl1]
      have "acts_on refresh_v {i} b2 (run_close E b2 run2)"
        using run_close_acts [OF E, of b2 run2] flush d2 i d1(3) by simp
      then show ?thesis
        using True flush iR dc d1 d2 by (auto simp: acts_on_def)
    qed
  qed
  then show "acts_on (\<lambda>fr v. if c then refresh_v fr (h fr v) else h fr v) {i} (run_close E b run) (run_close E b2 run2)"
    "block_ok b2" "frame b2 = frame b" "run_ok run2 (Suc i)" by simp_all
qed

end
