(* ===== verification/Mb_Mem_Inv.thy ===== *)
theory Mb_Mem_Inv
  imports Mb_Mem_Views
begin

text \<open>
  The invariant of the memory block. \<open>track_v\<close> is what keeps every write of the
  guest recorded: a page the operating system lets the guest write is one the
  bookkeeping knows to be writable, and every such page is in the set the next
  epoch protects again. \<open>snap_v_ok\<close> is what keeps the sealed baseline: a clean
  page holds it, and a dirty one has a copy of it. Both are about one page, so
  an operation that acts on pages one by one keeps them when its page function
  does.
\<close>

definition track_v :: "bframe \<Rightarrow> pview \<Rightarrow> bool" where
  "track_v fr v \<longleftrightarrow>
    (let p = v_page v
     in (pg_hot p \<longrightarrow> pg_dirty p \<and> pg_shadow p \<noteq> None \<and> \<not> v_unheld v \<and> \<not> pg_held p \<and> \<not> pg_invisible p
            \<and> status_tracked (pg_status p) \<and> fr_swapped fr \<and> fr_sealed fr)
      \<and> (\<not> pg_hot p \<longrightarrow> pg_shadow p = None)
      \<and> (pg_held p \<longrightarrow> \<not> v_unheld v)
      \<and> (prot_writable (pg_os p) \<longrightarrow> prot_writable (mb_page_native_prot p) \<and> fr_swapped fr)
      \<and> (fr_swapped fr \<longrightarrow> prot_writable (mb_page_native_prot p) \<longrightarrow> \<not> pg_hot p \<longrightarrow> \<not> pg_invisible p \<longrightarrow> v_unheld v)
      \<and> (v_unheld v \<longrightarrow> fr_swapped fr)
      \<and> (pg_plan_hold p \<longrightarrow> fr_plan fr)
      \<and> (pg_epoch_dirty p \<or> v_stat v \<longrightarrow> fr_epoch fr)
      \<and> (fr_epoch fr \<longrightarrow> fr_sealed fr))"

definition snap_ok :: "mb_page \<Rightarrow> bool" where
  "snap_ok p \<longleftrightarrow> length (pg_live p) = MB_PAGESIZE \<and> (\<forall>d. pg_snap p = MB_SNAP_DATA d \<longrightarrow> length d = MB_PAGESIZE)
     \<and> (\<not> pg_invisible p \<longrightarrow> (if pg_dirty p then pg_snap p \<noteq> MB_SNAP_NONE else pg_live p = page_baseline p))"

definition page_ok :: "bframe \<Rightarrow> pview \<Rightarrow> bool" where
  "page_ok fr v \<longleftrightarrow> view_ok v \<and> track_v fr v \<and> snap_ok (v_page v)"

definition plan_ok :: "mb_block \<Rightarrow> bool" where
  "plan_ok b \<longleftrightarrow> sorted_wrt (<) (bk_plan_list b) \<and> (\<forall>i\<in>set (bk_plan_list b). i < bk_npages b) \<and>
     (\<forall>i < bk_npages b. pg_plan_hold (bk_pages b ! i) \<longrightarrow> i \<in> set (bk_plan_list b))"

definition block_inv :: "mb_block \<Rightarrow> bool" where
  "block_inv b \<longleftrightarrow> block_ok b \<and> (\<forall>i < bk_npages b. page_ok (frame b) (view b i)) \<and> plan_ok b"

lemma block_invD:
  "block_inv b \<Longrightarrow> block_ok b" "block_inv b \<Longrightarrow> i < bk_npages b \<Longrightarrow> page_ok (frame b) (view b i)"
  "block_inv b \<Longrightarrow> plan_ok b"
  by (simp_all add: block_inv_def)

text \<open>What an operation on pages may do to a page: keep it well, and not make it owed.\<close>

definition safe_v :: "bframe \<Rightarrow> (bframe \<Rightarrow> pview \<Rightarrow> pview) \<Rightarrow> bool" where
  "safe_v fr g \<longleftrightarrow> (\<forall>v. page_ok fr v \<longrightarrow> page_ok fr (g fr v) \<and> (pg_plan_hold (v_page (g fr v)) \<longrightarrow> pg_plan_hold (v_page v)))"

lemma plan_ok_frame:
  assumes "plan_ok b" "bk_npages b' = bk_npages b" "bk_plan_list b' = bk_plan_list b"
    "\<And>j. j < bk_npages b \<Longrightarrow> pg_plan_hold (v_page (view b' j)) \<Longrightarrow> pg_plan_hold (v_page (view b j))"
  shows "plan_ok b'"
  using assms by (auto simp: plan_ok_def)

lemma block_invI:
  assumes "block_inv b" "block_ok b'" "bk_npages b' = bk_npages b" "bk_plan_list b' = bk_plan_list b"
    "\<And>j. j < bk_npages b \<Longrightarrow> page_ok (frame b') (view b' j)"
    "\<And>j. j < bk_npages b \<Longrightarrow> pg_plan_hold (v_page (view b' j)) \<Longrightarrow> pg_plan_hold (v_page (view b j))"
  shows "block_inv b'"
  using assms plan_ok_frame [OF block_invD(3) [OF assms(1)] assms(3,4,6)] by (simp add: block_inv_def)

lemma block_inv_acts:
  assumes b: "block_inv b" and a: "acts_on g I b b'" and g: "safe_v (frame b) g"
  shows "block_inv b'"
proof (rule block_invI [OF b])
  note d = acts_onD [OF a]
  show "block_ok b'" "bk_npages b' = bk_npages b" "bk_plan_list b' = bk_plan_list b"
    using d(1) frame_eqD [OF d(2)] by simp_all
  fix j assume j: "j < bk_npages b"
  show "page_ok (frame b') (view b' j)"
    using d(2) d(4) [OF j] block_invD(2) [OF b j] g by (simp add: safe_v_def)
  show "pg_plan_hold (v_page (view b j))" if "pg_plan_hold (v_page (view b' j))"
    using d(4) [OF j] that block_invD(2) [OF b j] g unfolding safe_v_def by metis
qed

section \<open>The baseline, one page at a time\<close>

lemma page_baseline_upd [simp]:
  "page_baseline (pg_status_update st p) = page_baseline p" "page_baseline (pg_dirty_update h p) = page_baseline p"
  "page_baseline (pg_invisible_update h p) = page_baseline p" "page_baseline (pg_held_update h p) = page_baseline p"
  "page_baseline (pg_epoch_dirty_update h p) = page_baseline p" "page_baseline (pg_hot_update h p) = page_baseline p"
  "page_baseline (pg_heat_update k p) = page_baseline p" "page_baseline (pg_seen_update k p) = page_baseline p"
  "page_baseline (pg_shadow_update sh p) = page_baseline p" "page_baseline (pg_plan_hold_update h p) = page_baseline p"
  "page_baseline (pg_plan_slot_update k p) = page_baseline p" "page_baseline (pg_os_update r p) = page_baseline p"
  by (simp_all add: page_baseline_def cong: mb_snap.case_cong)

lemma snap_ok_upd [simp]:
  "snap_ok (pg_status_update st p) = snap_ok p" "snap_ok (pg_held_update h p) = snap_ok p"
  "snap_ok (pg_epoch_dirty_update h p) = snap_ok p" "snap_ok (pg_hot_update h p) = snap_ok p"
  "snap_ok (pg_heat_update k p) = snap_ok p" "snap_ok (pg_seen_update k p) = snap_ok p"
  "snap_ok (pg_shadow_update sh p) = snap_ok p" "snap_ok (pg_plan_hold_update h p) = snap_ok p"
  "snap_ok (pg_plan_slot_update k p) = snap_ok p" "snap_ok (pg_os_update r p) = snap_ok p"
  by (simp_all add: snap_ok_def)

lemma snap_cool [simp]: "snap_ok (v_page (cool_v v)) = snap_ok (v_page v)"
  by (simp add: cool_v_def)

lemma snap_refresh [simp]: "snap_ok (v_page (refresh_v fr v)) = snap_ok (v_page v)"
  by (simp add: refresh_v_def note_prot_v_def Let_def)

lemma snap_status [simp]: "snap_ok (v_page (status_v s v)) = snap_ok (v_page v)"
  by (simp add: status_v_def Let_def)

lemma snap_capture [simp]: "snap_ok (v_page (capture_v fr v)) = snap_ok (v_page v)"
  by (simp add: capture_v_def written_v_def Let_def)

lemma snap_estat [simp]: "snap_ok (v_page (estat_v s fr v)) = snap_ok (v_page v)"
  by (simp add: estat_v_def written_v_def Let_def)

lemma snap_plan [simp]: "snap_ok (v_page (plan_v fr v)) = snap_ok (v_page v)"
  by (simp add: plan_v_def)

lemma snap_unheld [simp]: "snap_ok (v_page (unheld_v v)) = snap_ok (v_page v)"
  by (simp add: unheld_v_def)

lemma snap_os_native [simp]: "snap_ok (v_page (os_native_v v)) = snap_ok (v_page v)"
  by (simp add: os_native_v_def)

lemma snap_snap: "snap_ok (v_page v) \<Longrightarrow> snap_ok (v_page (snap_v room v))"
proof -
  assume s: "snap_ok (v_page v)"
  then have "length (pg_live (v_page v)) = MB_PAGESIZE" by (simp add: snap_ok_def)
  then have "snap_ok ((v_page v)\<lparr>pg_snap := MB_SNAP_DATA (pg_live (v_page v))\<rparr>)"
    by (simp add: snap_ok_def page_baseline_def)
  then show ?thesis using s by (simp add: snap_v_def mb_page_maybe_snapshot_def)
qed

lemma snap_taken_v: "pg_snap (v_page (snap_v True v)) \<noteq> MB_SNAP_NONE"
  by (simp add: snap_v_def mb_page_maybe_snapshot_def)

lemma estat_snap [simp]: "pg_snap (v_page (estat_v s fr v)) = pg_snap (v_page v)"
  by (simp add: estat_v_def capture_v_def written_v_def Let_def)

lemma snap_given: "pg_snap (v_page (given_v fr v)) \<noteq> MB_SNAP_NONE"
  by (simp add: given_v_def snap_taken_v)

lemma snap_ok_given: "snap_ok (v_page v) \<Longrightarrow> snap_ok (v_page (given_v fr v))"
  by (simp add: given_v_def snap_snap)

lemma snap_dirty: "snap_ok (v_page v) \<Longrightarrow> pg_snap (v_page v) \<noteq> MB_SNAP_NONE \<Longrightarrow> snap_ok (v_page (dirty_v True v))"
  by (simp add: dirty_v_def snap_ok_def Let_def)

lemma snap_give:
  assumes "snap_ok (v_page v)"
  shows "snap_ok (v_page (give_v fr v))"
proof -
  define v3 where "v3 = given_v fr v"
  have 3: "snap_ok (v_page v3)" "pg_snap (v_page v3) \<noteq> MB_SNAP_NONE"
    using assms by (simp_all add: v3_def snap_ok_given snap_given)
  then show ?thesis
    unfolding give_v_def v3_def [symmetric] Let_def
    by (cases "pg_snap (v_page v3)")
       (auto simp: snap_ok_def dirty_v_def cool_v_def zero_v_def zero_already_v_def dirty_after_def page_baseline_def Let_def)
qed

lemma snap_trip: "snap_ok (v_page v) \<Longrightarrow> snap_ok (v_page (trip_v fr v))"
proof -
  assume s: "snap_ok (v_page v)"
  have "pg_snap (v_page (plan_v fr (capture_v fr (snap_v True v)))) \<noteq> MB_SNAP_NONE"
    using snap_taken_v [of v] by (simp add: plan_v_def capture_v_def written_v_def Let_def)
  then show ?thesis
    using s by (simp add: trip_v_def release_v_def snap_dirty snap_snap)
qed

section \<open>The tracking, one page at a time\<close>

text \<open>A page between its status change and the refresh: everything but the protection.\<close>

definition track_loose :: "bframe \<Rightarrow> pview \<Rightarrow> bool" where
  "track_loose fr v \<longleftrightarrow>
    (let p = v_page v
     in (pg_hot p \<longrightarrow> pg_dirty p \<and> pg_shadow p \<noteq> None \<and> \<not> pg_held p \<and> \<not> pg_invisible p
            \<and> status_tracked (pg_status p) \<and> fr_swapped fr \<and> fr_sealed fr)
      \<and> (\<not> pg_hot p \<longrightarrow> pg_shadow p = None)
      \<and> (\<not> fr_swapped fr \<longrightarrow> \<not> prot_writable (pg_os p) \<and> \<not> v_unheld v)
      \<and> (pg_plan_hold p \<longrightarrow> fr_plan fr)
      \<and> (pg_epoch_dirty p \<or> v_stat v \<longrightarrow> fr_epoch fr)
      \<and> (fr_epoch fr \<longrightarrow> fr_sealed fr))"

definition page_loose :: "bframe \<Rightarrow> pview \<Rightarrow> bool" where
  "page_loose fr v \<longleftrightarrow> view_ok v \<and> track_loose fr v \<and> snap_ok (v_page v)"

lemma page_ok_loose: "page_ok fr v \<Longrightarrow> page_loose fr v"
  unfolding page_ok_def page_loose_def track_v_def track_loose_def Let_def by blast

lemma track_refresh: "track_loose fr v \<Longrightarrow> track_v fr (refresh_v fr v)"
  by (cases "fr_swapped fr"; cases "pg_hot (v_page v)"; cases "prot_writable (mb_page_native_prot (v_page v))")
     (auto simp: track_v_def track_loose_def refresh_v_def note_prot_v_def native_writable Let_def)

lemma view_refresh: "view_ok v \<Longrightarrow> view_ok (refresh_v fr v)"
  by (simp add: view_ok_def refresh_v_def note_prot_v_def Let_def)

lemma page_loose_refresh: "page_loose fr v \<Longrightarrow> page_ok fr (refresh_v fr v)"
  by (simp add: page_ok_def page_loose_def track_refresh view_refresh)

lemma page_ok_refresh: "page_ok fr v \<Longrightarrow> page_ok fr (refresh_v fr v)"
  by (simp add: page_ok_loose page_loose_refresh)

lemma page_loose_status: "page_loose fr v \<Longrightarrow> page_loose fr (status_v s v)"
  by (cases "pg_hot (v_page v)"; cases "pg_status (v_page v) = s"; cases "fr_swapped fr")
     (auto simp: page_loose_def view_ok_def track_loose_def status_v_def cool_v_def Let_def)

lemma page_loose_capture: "page_loose fr v \<Longrightarrow> page_loose fr (capture_v fr v)"
  by (auto simp: page_loose_def view_ok_def track_loose_def capture_v_def written_v_def Let_def)

lemma page_loose_written: "page_loose fr v \<Longrightarrow> fr_epoch fr \<Longrightarrow> page_loose fr (written_v v)"
  by (simp add: page_loose_def view_ok_def track_loose_def written_v_def Let_def)

lemma page_loose_stat: "page_loose fr v \<Longrightarrow> fr_epoch fr \<Longrightarrow> page_loose fr (v\<lparr>v_stat := True\<rparr>)"
  by (simp add: page_loose_def view_ok_def track_loose_def Let_def)

lemma page_loose_estat: "page_loose fr v \<Longrightarrow> page_loose fr (estat_v s fr v)"
  by (simp add: estat_v_def Let_def page_loose_capture page_loose_written page_loose_stat)

lemma page_ok_protect: "page_ok fr v \<Longrightarrow> page_ok fr (protect_v s fr v)"
  by (simp add: protect_v_def page_loose_refresh page_loose_status page_loose_estat page_ok_loose)

lemma page_loose_plan: "page_loose fr v \<Longrightarrow> page_loose fr (plan_v fr v)"
  by (auto simp: page_loose_def view_ok_def track_loose_def plan_v_def Let_def)

lemma page_loose_snap: "page_loose fr v \<Longrightarrow> page_loose fr (snap_v room v)"
  using snap_snap [of v room]
  by (simp add: page_loose_def view_ok_def track_loose_def snap_v_def mb_page_maybe_snapshot_def Let_def split: if_splits)

lemma page_loose_given: "page_loose fr v \<Longrightarrow> page_loose fr (given_v fr v)"
  by (simp add: given_v_def page_loose_estat page_loose_snap page_loose_plan)

lemma view_dirty_zero: "view_ok v \<Longrightarrow> view_ok (dirty_v d v)" "view_ok v \<Longrightarrow> view_ok (zero_v v)"
  by (simp_all add: view_ok_def dirty_v_def cool_v_def zero_v_def Let_def)

lemma track_dirty_zero: "track_loose fr v \<Longrightarrow> track_loose fr (dirty_v d v)" "track_loose fr v \<Longrightarrow> track_loose fr (zero_v v)"
  by (cases d; cases "pg_hot (v_page v)"; cases "fr_swapped fr";
      auto simp: track_loose_def dirty_v_def cool_v_def zero_v_def Let_def)+

lemma page_loose_give: "page_loose fr v \<Longrightarrow> page_loose fr (give_v fr v)"
  using page_loose_given [of fr v] snap_give [of v fr]
  by (simp add: page_loose_def give_v_def Let_def view_dirty_zero track_dirty_zero)

lemma page_ok_free: "page_ok fr v \<Longrightarrow> page_ok fr (free_v advise_only fr v)"
  by (simp add: free_v_def protect_v_def page_loose_refresh page_loose_give page_ok_loose page_loose_status page_loose_estat)

lemma page_ok_overlap: "page_ok fr v \<Longrightarrow> page_ok fr (overlap_v fr v)"
  by (simp add: overlap_v_def page_ok_free)

lemma page_loose_dirty: "page_loose fr v \<Longrightarrow> pg_snap (v_page v) \<noteq> MB_SNAP_NONE \<Longrightarrow> page_loose fr (dirty_v True v)"
  by (simp add: page_loose_def view_dirty_zero track_dirty_zero snap_dirty)

text \<open>The handler gives the page the protection its record asks for, by hand.\<close>

lemma page_loose_handler:
  "page_loose fr v \<Longrightarrow> fr_swapped fr \<Longrightarrow> \<not> pg_held (v_page v) \<Longrightarrow> pg_hot (v_page v) \<longrightarrow> \<not> v_unheld v \<Longrightarrow>
     page_ok fr (unheld_v (os_native_v v))"
  by (cases "pg_hot (v_page v)")
     (auto simp: page_loose_def page_ok_def view_ok_def track_loose_def track_v_def unheld_v_def os_native_v_def
      native_writable Let_def)

lemma page_ok_trip:
  assumes "page_ok fr v" "fr_swapped fr"
  shows "page_ok fr (trip_v fr v)"
proof -
  have hot: "pg_hot (v_page v) \<longrightarrow> \<not> v_unheld v" using assms(1) by (simp add: page_ok_def track_v_def Let_def)
  define w where "w = plan_v fr (capture_v fr (snap_v True v))"
  have w: "page_loose fr w" "pg_snap (v_page w) \<noteq> MB_SNAP_NONE" "\<not> pg_held (v_page w)" "pg_hot (v_page w) \<longrightarrow> \<not> v_unheld w"
    using assms(1) snap_taken_v [of v] hot
    by (simp_all add: w_def page_loose_plan page_loose_capture page_loose_snap page_ok_loose)
       (simp_all add: plan_v_def capture_v_def written_v_def snap_v_def mb_page_maybe_snapshot_def Let_def)
  then have "page_loose fr (dirty_v True w)" by (simp add: page_loose_dirty)
  then show ?thesis
    using w(3,4) assms(2) unfolding trip_v_def release_v_def w_def [symmetric]
    by (intro page_loose_handler) (simp_all add: dirty_v_def Let_def)
qed

lemma page_ok_store:
  "page_ok fr v \<Longrightarrow> pg_dirty (v_page v) \<Longrightarrow> off + length xs \<le> MB_PAGESIZE \<Longrightarrow> page_ok fr (store_v off xs v)"
  by (auto simp: page_ok_def view_ok_def track_v_def snap_ok_def store_v_def native_writable Let_def)

section \<open>Owed pages\<close>

lemma hold_simps [simp]:
  "pg_plan_hold (v_page (cool_v v)) = pg_plan_hold (v_page v)"
  "pg_plan_hold (v_page (note_prot_v prot v)) = pg_plan_hold (v_page v)"
  "pg_plan_hold (v_page (unheld_v v)) = pg_plan_hold (v_page v)"
  "pg_plan_hold (v_page (written_v v)) = pg_plan_hold (v_page v)"
  "pg_plan_hold (v_page (os_native_v v)) = pg_plan_hold (v_page v)"
  "pg_plan_hold (v_page (zero_v v)) = pg_plan_hold (v_page v)"
  "pg_plan_hold (v_page (store_v off xs v)) = pg_plan_hold (v_page v)"
  "pg_plan_hold (v_page (snap_v room v)) = pg_plan_hold (v_page v)"
  by (simp_all add: cool_v_def note_prot_v_def unheld_v_def written_v_def os_native_v_def zero_v_def store_v_def
      snap_v_def mb_page_maybe_snapshot_def Let_def)

lemma hold_simps2 [simp]:
  "pg_plan_hold (v_page (status_v s v)) = pg_plan_hold (v_page v)"
  "pg_plan_hold (v_page (dirty_v d v)) = pg_plan_hold (v_page v)"
  "pg_plan_hold (v_page (capture_v fr v)) = pg_plan_hold (v_page v)"
  "pg_plan_hold (v_page (refresh_v fr v)) = pg_plan_hold (v_page v)"
  by (simp_all add: status_v_def dirty_v_def capture_v_def refresh_v_def Let_def)

lemma hold_simps3 [simp]:
  "pg_plan_hold (v_page (estat_v s fr v)) = pg_plan_hold (v_page v)"
  by (simp add: estat_v_def Let_def)

lemma hold_plan: "pg_plan_hold (v_page (plan_v fr v)) = (pg_plan_hold (v_page v) \<and> \<not> fr_plan fr)"
  by (simp add: plan_v_def)

lemma hold_protect [simp]: "pg_plan_hold (v_page (protect_v s fr v)) = pg_plan_hold (v_page v)"
  by (simp add: protect_v_def)

lemma hold_give: "pg_plan_hold (v_page (give_v fr v)) = (pg_plan_hold (v_page v) \<and> \<not> fr_plan fr)"
  by (simp add: give_v_def given_v_def hold_plan Let_def)

lemma hold_trip: "pg_plan_hold (v_page (trip_v fr v)) = (pg_plan_hold (v_page v) \<and> \<not> fr_plan fr)"
  by (simp add: trip_v_def release_v_def hold_plan)

lemma safe_protect: "safe_v fr (protect_v s)"
  by (simp add: safe_v_def page_ok_protect)

lemma safe_refresh: "safe_v fr refresh_v"
  by (simp add: safe_v_def page_ok_refresh)

lemma safe_free: "safe_v fr (free_v advise_only)"
  by (auto simp: safe_v_def page_ok_free) (auto simp: free_v_def hold_give split: if_splits)

lemma safe_overlap: "safe_v fr overlap_v"
  using safe_free [of fr True] by (simp add: safe_v_def overlap_v_def)

lemma safe_write: "fr_swapped fr \<Longrightarrow> off + length xs \<le> MB_PAGESIZE \<Longrightarrow> safe_v fr (write_v off xs)"
proof -
  assume sw: "fr_swapped fr" and l: "off + length xs \<le> MB_PAGESIZE"
  have "page_ok fr (write_v off xs fr v)" if v: "page_ok fr v" for v
  proof -
    have "pg_dirty (v_page v)" if "prot_writable (pg_os (v_page v))"
      using v that by (auto simp: page_ok_def track_v_def native_writable Let_def)
    moreover have "pg_dirty (v_page (trip_v fr v))"
      by (simp add: trip_v_def unheld_v_def os_native_v_def release_v_def dirty_v_def Let_def)
    ultimately show ?thesis
      using v sw l by (simp add: write_v_def page_ok_store page_ok_trip)
  qed
  then show ?thesis by (auto simp: safe_v_def) (auto simp: write_v_def hold_trip split: if_splits)
qed

section \<open>Every memory operation keeps the invariant\<close>

lemma validate_bounds:
  assumes "validate b addr = Some (ps, pcount)" "unat (rg_size (bk_addr b)) = bk_npages b * MB_PAGESIZE"
  shows "ps + pcount \<le> bk_npages b" "0 < pcount"
proof -
  let ?o = "rg_start addr - rg_start (bk_addr b)"
  have c: "rg_size addr \<noteq> 0" "?o \<le> rg_size (bk_addr b)" "rg_size addr \<le> rg_size (bk_addr b) - ?o"
      "rg_start addr = mb_align_down (rg_start addr)" "rg_size addr = mb_align_down (rg_size addr)"
      "ps = unat (drop_bit 12 ?o)" "pcount = unat (drop_bit 12 (rg_size addr))"
    using assms(1) by (auto simp: validate_def Let_def not_less split: if_splits)
  have p: "ps = unat ?o div MB_PAGESIZE" "pcount = unat (rg_size addr) div MB_PAGESIZE"
    unfolding c(6,7) by (simp_all add: unat_div drop_bit_eq_div MB_PAGESIZE_def)
  have sz: "unat (rg_size addr) = pcount * MB_PAGESIZE"
    using arg_cong [OF c(5), of unat] p(2) by (simp add: unat_mb_align_down)
  have "unat ?o + unat (rg_size addr) \<le> bk_npages b * MB_PAGESIZE"
    using c(2,3) assms(2) by (simp add: word_le_nat_alt unat_sub)
  then have "ps * MB_PAGESIZE + pcount * MB_PAGESIZE \<le> bk_npages b * MB_PAGESIZE"
    using p(1) sz by (metis add_le_mono1 div_times_less_eq_dividend le_trans)
  then have "(ps + pcount) * MB_PAGESIZE \<le> bk_npages b * MB_PAGESIZE" by (simp add: add_mult_distrib)
  then show "ps + pcount \<le> bk_npages b" by (simp add: MB_PAGESIZE_def)
  show "0 < pcount" using c(1) sz by (metis gr0I mult_0 unat_eq_zero)
qed

end
