(* ===== verification/Mb_Epoch.thy ===== *)
theory Mb_Epoch
  imports Mb_Mem_Inv
begin

text \<open>
  Opening and forgetting an epoch, page by page. Forgetting visits only the
  pages in \<open>epoch_bits\<close> and clears every page's flag; opening holds exactly the
  pages in \<open>unheld_bits\<close>, although it takes the bitmap a word at a time and
  refreshes the pages in runs.
\<close>

section \<open>Forgetting\<close>

lemma fold_upd_page:
  assumes "\<forall>i\<in>set is. i < bk_npages b" "distinct is"
  shows "fold (\<lambda>i b. upd_page f b i) is b =
    b\<lparr>bk_pages := map (\<lambda>j. if j \<in> set is then f (bk_pages b ! j) else bk_pages b ! j) [0..<bk_npages b]\<rparr>"
  using assms
proof (induction "is" arbitrary: b)
  case Nil
  then show ?case by (simp add: bk_npages_def map_nth)
next
  case (Cons i "is")
  have "fold (\<lambda>i b. upd_page f b i) is (upd_page f b i) =
      (upd_page f b i)\<lparr>bk_pages := map (\<lambda>j. if j \<in> set is then f (bk_pages (upd_page f b i) ! j)
         else bk_pages (upd_page f b i) ! j) [0..<bk_npages b]\<rparr>"
    using Cons by simp
  also have "\<dots> = b\<lparr>bk_pages := map (\<lambda>j. if j \<in> set (i # is) then f (bk_pages b ! j) else bk_pages b ! j) [0..<bk_npages b]\<rparr>"
    using Cons.prems by (auto simp: upd_page_def bk_npages_def nth_list_update)
  finally show ?case by simp
qed

definition forget_v :: "pview \<Rightarrow> pview" where
  "forget_v v = v\<lparr>v_page := (v_page v)\<lparr>pg_epoch_dirty := False\<rparr>, v_epoch := False, v_stat := False\<rparr>"

lemma bits_none_get: "bits_fit n w \<Longrightarrow> j < n \<Longrightarrow> \<not> bits_get (bits_none ((n + 63) div 64)) j"
  by (simp add: bits_get_none)

lemma epoch_forget_eq:
  assumes "block_ok b"
  shows "block_ok (epoch_forget b)" "frame (epoch_forget b) = frame b"
    "j < bk_npages b \<Longrightarrow> view (epoch_forget b) j = forget_v (view b j)"
proof -
  note l = block_ok_lens [OF assms]
  have s: "set (bits_each (bk_epoch_bits b)) = {i. i < bk_npages b \<and> pg_epoch_dirty (bk_pages b ! i)}"
    using set_bits_each [OF bits_b(1) [OF l]] block_ok_view [OF assms] by (auto simp: view_ok_def)
  define ps where "ps = map (\<lambda>j. (bk_pages b ! j)\<lparr>pg_epoch_dirty := False\<rparr>) [0..<bk_npages b]"
  have e: "epoch_forget b = b\<lparr>bk_pages := ps, bk_epoch_bits := bits_none (bk_nwords b),
      bk_stat_bits := bits_none (bk_nwords b), bk_epoch_ndirty := 0, bk_epoch_nstat := 0\<rparr>"
  proof -
    have "map (\<lambda>j. if j \<in> set (bits_each (bk_epoch_bits b)) then (bk_pages b ! j)\<lparr>pg_epoch_dirty := False\<rparr>
        else bk_pages b ! j) [0..<bk_npages b] = ps"
      unfolding ps_def s by (rule map_cong) auto
    then show ?thesis
      unfolding epoch_forget_def Let_def using s by (subst fold_upd_page) (auto simp: distinct_bits_each)
  qed
  have n: "bk_npages (epoch_forget b) = bk_npages b" by (simp add: e bk_npages_def ps_def)
  show "frame (epoch_forget b) = frame b" using n by (simp add: frame_def e)
  have none: "\<not> bits_get (bits_none (bk_nwords b)) j" if "j < bk_npages b" for j
    using that by (simp add: bits_get_none bk_nwords_def)
  show v: "view (epoch_forget b) j = forget_v (view b j)" if "j < bk_npages b" for j
    using that none [OF that] by (simp add: view_def e forget_v_def ps_def)
  have pages: "bk_pages (epoch_forget b) ! j = (bk_pages b ! j)\<lparr>pg_epoch_dirty := False\<rparr>" if "j < bk_npages b" for j
    using that by (simp add: e ps_def)
  have cnt: "page_count (epoch_forget b) pg_hot = page_count b pg_hot"
      "page_count (epoch_forget b) pg_epoch_dirty = 0" "group_count (epoch_forget b) g = group_count b g" for g
    unfolding page_count_def group_count_def n using pages by (auto intro!: arg_cong [where f = card])
  have lens: "block_lens (epoch_forget b)"
    using l n unfolding block_lens_def by (simp add: e bits_none_def bk_nwords_def)
  have views: "view_ok (view (epoch_forget b) j)" if "j < bk_npages b" for j
    using v [OF that] block_ok_view [OF assms that] by (simp add: forget_v_def view_ok_def)
  have st: "{i. i < bk_npages b \<and> bits_get (bk_stat_bits (epoch_forget b)) i} = {}"
    using none by (auto simp: e)
  show "block_ok (epoch_forget b)"
    unfolding block_ok_def n st using lens views cnt assms by (simp add: block_ok_def) (simp add: e)
qed

section \<open>Holding what is writable\<close>

definition hold_v :: "pview \<Rightarrow> pview" where
  "hold_v v = (if epoch_tracks (v_page v) then v\<lparr>v_page := (v_page v)\<lparr>pg_held := True\<rparr>\<rparr> else v)"

definition rehold_v :: "bframe \<Rightarrow> pview \<Rightarrow> pview" where
  "rehold_v fr v = (if v_unheld v then refresh_v fr (hold_v v) else v)"

lemma hold_op: "page_op (\<lambda>b i. if epoch_tracks (bk_pages b ! i) then upd_page (pg_held_update (\<lambda>_. True)) b i else b) (\<lambda>_. hold_v)"
  by (rule page_op_cong [OF page_op_if [OF page_op_upd [of "pg_held_update (\<lambda>_. True)"] page_op_skip,
        of "\<lambda>b i. epoch_tracks (bk_pages b ! i)" "\<lambda>fr v. epoch_tracks (v_page v)"]])
     (simp_all add: hold_v_def)

text \<open>
  Where the loop is: pages below \<open>i\<close> are done, the words below \<open>w\<close> are taken.
\<close>

definition hold_target :: "mb_block \<Rightarrow> nat \<Rightarrow> nat \<Rightarrow> nat \<Rightarrow> pview" where
  "hold_target b0 i w j =
    (if j < i then rehold_v (frame b0) (view b0 j)
     else if j < 64 * w then (view b0 j)\<lparr>v_unheld := False\<rparr> else view b0 j)"

definition hold_at :: "os_env \<Rightarrow> mb_block \<Rightarrow> nat \<Rightarrow> nat \<Rightarrow> mb_block \<times> prot_run \<Rightarrow> bool" where
  "hold_at E b0 i w = (\<lambda>(b, run). block_ok b \<and> frame b = frame b0 \<and> run_ok run i \<and> run_ok run (bk_npages b) \<and>
     (\<forall>j < bk_npages b0. view (run_close E b run) j = hold_target b0 i w j))"

lemma hold_target_skip:
  assumes "i \<le> i'" "\<And>k. i \<le> k \<Longrightarrow> k < i' \<Longrightarrow> k < bk_npages b0 \<Longrightarrow> \<not> v_unheld (view b0 k)" "j < bk_npages b0"
  shows "hold_target b0 i' w j = hold_target b0 i w j"
proof -
  have "(view b0 j)\<lparr>v_unheld := False\<rparr> = view b0 j" if "\<not> v_unheld (view b0 j)"
    using that by (simp add: view_def)
  then show ?thesis using assms by (auto simp: hold_target_def rehold_v_def)
qed

lemma hold_at_skip:
  assumes "hold_at E b0 i w s" "i \<le> i'" "\<And>k. i \<le> k \<Longrightarrow> k < i' \<Longrightarrow> k < bk_npages b0 \<Longrightarrow> \<not> v_unheld (view b0 k)"
  shows "hold_at E b0 i' w s"
  using assms hold_target_skip [OF assms(2,3)] by (auto simp: hold_at_def intro: run_ok_mono)

lemma refresh_unheld_irrelevant: "fr_swapped fr \<Longrightarrow> refresh_v fr (hold_v (v\<lparr>v_unheld := u\<rparr>)) = refresh_v fr (hold_v v)"
  by (simp add: refresh_v_def hold_v_def note_prot_v_def Let_def)

lemma epoch_hold_at:
  assumes E: "env_ok E" and s: "hold_at E b0 i w s" and sw: "bk_swapped_in b0"
    and j: "i \<le> j" "j < 64 * w" "j < bk_npages b0" "v_unheld (view b0 j)"
    and none: "\<And>k. i \<le> k \<Longrightarrow> k < j \<Longrightarrow> \<not> v_unheld (view b0 k)"
  shows "hold_at E b0 (Suc j) w (epoch_hold E j s)"
proof -
  obtain b run where sb: "s = (b, run)" by (cases s)
  have sj: "hold_at E b0 j w (b, run)" using hold_at_skip [OF s j(1)] none sb by blast
  then have b: "block_ok b" "frame b = frame b0" "run_ok run j" and n: "bk_npages b = bk_npages b0"
    and v: "\<And>k. k < bk_npages b0 \<Longrightarrow> view (run_close E b run) k = hold_target b0 j w k"
    using frame_eqD(1) [of b b0] by (auto simp: hold_at_def)
  define b1 where "b1 = (if epoch_tracks (bk_pages b ! j) then upd_page (pg_held_update (\<lambda>_. True)) b j else b)"
  have h: "acts_on (\<lambda>_. hold_v) {j} b b1"
    using acts_on_one [OF hold_op b(1)] j n by (simp add: b1_def)
  obtain b2 run2 where st: "epoch_hold E j s = (b2, run2)" by (cases "epoch_hold E j s")
  then have "(b2, run2) = (if True then run_note E b1 run j else (b1, run))"
    by (simp add: epoch_hold_def sb b1_def)
  note r = run_step [OF E b(1) _ b(3) h this]
  have jn: "j < bk_npages b" using j n by simp
  have cl: "frame (run_close E b run) = frame b" "bk_npages (run_close E b run) = bk_npages b"
    using acts_onD(2,3) [OF run_close_acts [OF E b(1), of run]] run_ok_mono [OF b(3)] jn by simp_all
  have "view (run_close E b2 run2) k = hold_target b0 (Suc j) w k" if "k < bk_npages b0" for k
    using acts_onD(4) [OF r(1) [OF jn], of k] that v [OF that] cl n b(2) j sw refresh_unheld_irrelevant
    by (auto simp: hold_target_def rehold_v_def)
  then show ?thesis
    using r(2-4) [OF jn] b(2) st n j frame_eqD(1) [of b2 b] run_ok_mono [of run2 "Suc j" "bk_npages b2"]
    by (simp add: hold_at_def)
qed

lemma epoch_hold_list:
  assumes E: "env_ok E" and sw: "bk_swapped_in b0"
  shows "hold_at E b0 i w s \<Longrightarrow> sorted_wrt (<) js \<Longrightarrow> i \<le> 64 * w \<Longrightarrow>
    set js = {j. i \<le> j \<and> j < 64 * w \<and> j < bk_npages b0 \<and> v_unheld (view b0 j)} \<Longrightarrow>
    hold_at E b0 (64 * w) w (fold (epoch_hold E) js s)"
proof (induction js arbitrary: i s)
  case Nil
  then show ?case using hold_at_skip [of E b0 i w s "64 * w"] by auto
next
  case (Cons j js)
  have j: "i \<le> j" "j < 64 * w" "j < bk_npages b0" "v_unheld (view b0 j)" using Cons.prems(4) by auto
  have none: "\<not> v_unheld (view b0 k)" if "i \<le> k" "k < j" for k
  proof
    assume "v_unheld (view b0 k)"
    then have "k \<in> set (j # js)" using that j Cons.prems(4) by auto
    then show False using that Cons.prems(2) by auto
  qed
  have "hold_at E b0 (Suc j) w (epoch_hold E j s)"
    using epoch_hold_at [OF E Cons.prems(1) sw j none] .
  moreover have "set js = {k. Suc j \<le> k \<and> k < 64 * w \<and> k < bk_npages b0 \<and> v_unheld (view b0 k)}"
  proof (rule set_eqI)
    fix k
    have "k \<in> set js \<longleftrightarrow> k \<in> set (j # js) \<and> j < k" using Cons.prems(2) by auto
    also have "\<dots> \<longleftrightarrow> (i \<le> k \<and> k < 64 * w \<and> k < bk_npages b0 \<and> v_unheld (view b0 k)) \<and> j < k"
      unfolding Cons.prems(4) by simp
    also have "\<dots> \<longleftrightarrow> Suc j \<le> k \<and> k < 64 * w \<and> k < bk_npages b0 \<and> v_unheld (view b0 k)"
      using j(1) by (metis Suc_le_eq le_trans less_imp_le)
    finally show "k \<in> set js \<longleftrightarrow> k \<in> {k. Suc j \<le> k \<and> k < 64 * w \<and> k < bk_npages b0 \<and> v_unheld (view b0 k)}"
      by simp
  qed
  ultimately show ?case using Cons.IH [of "Suc j" "epoch_hold E j s"] Cons.prems(2) j by simp
qed

lemma bits_word_pages:
  assumes "bits_fit n ws" "w < length ws"
  shows "set (map (\<lambda>k. w * 64 + k) (bits_word (ws ! w))) = {j. 64 * w \<le> j \<and> j < 64 * Suc w \<and> j < n \<and> bits_get ws j}"
    "sorted_wrt (<) (map (\<lambda>k. w * 64 + k) (bits_word (ws ! w)))"
proof -
  have bit: "bit (ws ! w) k \<longleftrightarrow> bits_get ws (w * 64 + k)" if "k < 64" for k
    using that by (simp add: bits_get_bit)
  show "set (map (\<lambda>k. w * 64 + k) (bits_word (ws ! w))) = {j. 64 * w \<le> j \<and> j < 64 * Suc w \<and> j < n \<and> bits_get ws j}"
  proof (rule set_eqI)
    fix j
    have "j \<in> set (map (\<lambda>k. w * 64 + k) (bits_word (ws ! w))) \<longleftrightarrow> (\<exists>k < 64. bit (ws ! w) k \<and> j = w * 64 + k)"
      by (auto simp: bits_word_filter)
    also have "\<dots> \<longleftrightarrow> 64 * w \<le> j \<and> j < 64 * Suc w \<and> bits_get ws j"
    proof
      assume "64 * w \<le> j \<and> j < 64 * Suc w \<and> bits_get ws j"
      then have "j - 64 * w < 64" "j = w * 64 + (j - 64 * w)" "bits_get ws j" by auto
      then have "j - 64 * w < 64 \<and> bit (ws ! w) (j - 64 * w) \<and> j = w * 64 + (j - 64 * w)"
        using bit [of "j - 64 * w"] by metis
      then show "\<exists>k < 64. bit (ws ! w) k \<and> j = w * 64 + k" by blast
    qed (use bit in auto)
    also have "\<dots> \<longleftrightarrow> 64 * w \<le> j \<and> j < 64 * Suc w \<and> j < n \<and> bits_get ws j"
    proof -
      have "j < 64 * length ws" if "j < 64 * Suc w" using that assms(2) by simp
      moreover have "j < n" if "j < 64 * length ws" "bits_get ws j"
        using assms(1) that by (meson bits_below_def bits_fit_def not_less)
      ultimately show ?thesis by blast
    qed
    finally show "j \<in> set (map (\<lambda>k. w * 64 + k) (bits_word (ws ! w))) \<longleftrightarrow>
        j \<in> {j. 64 * w \<le> j \<and> j < 64 * Suc w \<and> j < n \<and> bits_get ws j}" by simp
  qed
  show "sorted_wrt (<) (map (\<lambda>k. w * 64 + k) (bits_word (ws ! w)))"
    by (simp add: bits_word_filter sorted_wrt_map sorted_wrt_filter sorted_wrt_upt)
qed

lemma bits_get_word_clear:
  "w < length ws \<Longrightarrow> j < 64 * length ws \<Longrightarrow> bits_get (ws[w := 0]) j \<longleftrightarrow> j div 64 \<noteq> w \<and> bits_get ws j"
  by (auto simp: bits_get_bit nth_list_update)

lemma bits_fit_word_clear: "bits_fit n ws \<Longrightarrow> w < length ws \<Longrightarrow> bits_fit n (ws[w := 0])"
  by (auto simp: bits_fit_def bits_below_def bits_get_word_clear)

lemma hold_at_word:
  assumes E: "env_ok E" and sw: "bk_swapped_in b0" and w: "w < bk_nwords b0"
    and s: "hold_at E b0 (64 * w) w s"
  shows "hold_at E b0 (64 * Suc w) (Suc w) (epoch_hold_word E w s)"
proof -
  obtain b run where sb: "s = (b, run)" by (cases s)
  have b: "block_ok b" "frame b = frame b0" "run_ok run (64 * w)" "run_ok run (bk_npages b)"
    and v: "\<And>k. k < bk_npages b0 \<Longrightarrow> view (run_close E b run) k = hold_target b0 (64 * w) w k"
    using s sb by (auto simp: hold_at_def)
  note l = block_ok_lens [OF b(1)]
  have n: "bk_npages b = bk_npages b0" using frame_eqD(1) [OF b(2)] .
  have len: "w < length (bk_unheld_bits b)" using bits_b(3) [OF l] w n by (simp add: bits_fit_def bk_nwords_def)
  have cl: "acts_on refresh_v (run_pages run) b (run_close E b run)" using run_close_acts [OF E b(1,4)] .
  have vb: "view b k = view b0 k" if "64 * w \<le> k" "k < bk_npages b0" for k
    using acts_onD(4) [OF cl, of k] run_ok_pages [OF b(3), of k] v [of k] that n
    by (auto simp: hold_target_def)
  let ?js = "map (\<lambda>k. w * 64 + k) (bits_word (bk_unheld_bits b ! w))"
  have js: "set ?js = {j. 64 * w \<le> j \<and> j < 64 * Suc w \<and> j < bk_npages b0 \<and> v_unheld (view b0 j)}"
  proof -
    have "bits_get (bk_unheld_bits b) j = v_unheld (view b0 j)" if "64 * w \<le> j" "j < bk_npages b0" for j
      using vb [OF that] by (metis view_sel(4))
    then show ?thesis using bits_word_pages(1) [OF bits_b(3) [OF l] len] n by auto
  qed
  define b' where "b' = b\<lparr>bk_unheld_bits := (bk_unheld_bits b)[w := 0]\<rparr>"
  have bok: "block_ok b'" using block_ok_unheld [OF b(1) bits_fit_word_clear [OF bits_b(3) [OF l] len]] by (simp add: b'_def)
  have fb: "frame b' = frame b" by (simp add: b'_def)
  have nb: "bk_npages b' = bk_npages b" by (simp add: b'_def)
  have cl': "acts_on refresh_v (run_pages run) b' (run_close E b' run)"
    using run_close_acts [OF E bok] b(4) nb by simp
  have vb': "view b' k = (if k div 64 = w then (view b k)\<lparr>v_unheld := False\<rparr> else view b k)" if "k < bk_npages b" for k
  proof -
    have "k < 64 * length (bk_unheld_bits b)" using that bits_fit_room [OF bits_b(3) [OF l]] by simp
    then show ?thesis using len by (simp add: b'_def bits_get_word_clear view_def)
  qed
  have at: "hold_at E b0 (64 * w) (Suc w) (b', run)"
  proof -
    have "view (run_close E b' run) k = hold_target b0 (64 * w) (Suc w) k" if k: "k < bk_npages b0" for k
    proof (cases "k < 64 * w")
      case True
      then have "k div 64 \<noteq> w" by simp
      then have "view b' k = view b k" using vb' k n by simp
      then have "view (run_close E b' run) k = view (run_close E b run) k"
        using acts_onD(4) [OF cl, of k] acts_onD(4) [OF cl', of k] k n nb fb by simp
      then show ?thesis using v [OF k] True by (simp add: hold_target_def)
    next
      case False
      then have "k \<notin> run_pages run" using run_ok_pages [OF b(3)] by blast
      then have "view (run_close E b' run) k = view b' k" using acts_onD(4) [OF cl', of k] k n nb by simp
      moreover have "k div 64 = w \<longleftrightarrow> k < 64 * Suc w" using False by auto
      ultimately show ?thesis using vb' [of k] vb [of k] k n False by (simp add: hold_target_def)
    qed
    then show ?thesis using bok fb b nb by (simp add: hold_at_def)
  qed
  have "hold_at E b0 (64 * Suc w) (Suc w) (fold (epoch_hold E) ?js (b', run))"
    using epoch_hold_list [OF E sw at bits_word_pages(2) [OF bits_b(3) [OF l] len] _ js] by simp
  moreover have "epoch_hold_word E w s = fold (epoch_hold E) ?js (b', run)"
  proof (cases "bk_unheld_bits b ! w = 0")
    case True
    then have "(bk_unheld_bits b)[w := 0] = bk_unheld_bits b" by (metis list_update_id)
    then show ?thesis using True by (simp add: epoch_hold_word_def sb b'_def bits_word.simps)
  qed (simp add: epoch_hold_word_def sb b'_def Let_def)
  ultimately show ?thesis by simp
qed

lemma hold_words:
  assumes E: "env_ok E" and sw: "bk_swapped_in b0" and b0: "block_ok b0" and m: "m \<le> bk_nwords b0"
  shows "hold_at E b0 (64 * m) m (fold (epoch_hold_word E) [0..<m] (b0, None))"
  using m
proof (induction m)
  case 0
  then show ?case using b0 by (simp add: hold_at_def hold_target_def run_close_def)
next
  case (Suc m)
  then show ?case using hold_at_word [OF E sw, of m] by simp
qed

lemma epoch_hold_all:
  assumes E: "env_ok E" and b: "block_ok b" and u: "\<And>i. i < bk_npages b \<Longrightarrow> v_unheld (view b i) \<Longrightarrow> bk_swapped_in b"
    and r: "fold (epoch_hold_word E) [0..<bk_nwords b] (b, None) = (b3, run)"
  shows "acts_on rehold_v {..<bk_npages b} b (run_close E b3 run)"
proof (cases "bk_swapped_in b")
  case True
  have h: "hold_at E b (64 * bk_nwords b) (bk_nwords b) (b3, run)"
    using hold_words [OF E True b, of "bk_nwords b"] r by simp
  have lt: "j < 64 * bk_nwords b" if "j < bk_npages b" for j using that by (simp add: bk_nwords_def)
  have b3: "block_ok b3" "frame b3 = frame b" "run_ok run (bk_npages b3)"
    and v: "\<And>j. j < bk_npages b \<Longrightarrow> view (run_close E b3 run) j = hold_target b (64 * bk_nwords b) (bk_nwords b) j"
    using h by (simp_all add: hold_at_def)
  have v': "view (run_close E b3 run) j = rehold_v (frame b) (view b j)" if "j < bk_npages b" for j
    using v [OF that] lt [OF that] by (simp only: hold_target_def if_True)
  note c = acts_onD [OF run_close_acts [OF E b3(1,3)]]
  show ?thesis
    unfolding acts_on_def using c(1,2) b3(2) v' by simp
next
  case False
  have z: "bk_unheld_bits b ! w = 0" if "w < bk_nwords b" for w
  proof -
    note l = bits_b(3) [OF block_ok_lens [OF b]]
    have len: "w < length (bk_unheld_bits b)" using that l by (simp add: bits_fit_def bk_nwords_def)
    have nu: "\<not> bits_get (bk_unheld_bits b) j" if "j < bk_npages b" for j using u [OF that] False by auto
    have "{j. 64 * w \<le> j \<and> j < 64 * Suc w \<and> j < bk_npages b \<and> bits_get (bk_unheld_bits b) j} = {}"
      using nu by blast
    then have "set (map (\<lambda>k. w * 64 + k) (bits_word (bk_unheld_bits b ! w))) = {}"
      using bits_word_pages(1) [OF l len] by (rule trans [rotated])
    then have "set (bits_word (bk_unheld_bits b ! w)) = {}" by simp
    then have "\<And>k. \<not> bit (bk_unheld_bits b ! w) k" by (simp add: set_bits_word)
    then show ?thesis by (simp add: bit_eq_iff)
  qed
  have "fold (epoch_hold_word E) [0..<m] (b, None) = (b, None)" if "m \<le> bk_nwords b" for m
    using that z by (induction m) (simp_all add: epoch_hold_word_def)
  then have "b3 = b" "run = None" using r by simp_all
  then show ?thesis using b u False by (auto simp: run_close_def acts_on_def rehold_v_def)
qed

section \<open>Opening an epoch\<close>

definition shadow_v :: "pview \<Rightarrow> pview" where
  "shadow_v v = (if pg_hot (v_page v) then v\<lparr>v_page := (v_page v)\<lparr>pg_shadow := Some (pg_live (v_page v))\<rparr>\<rparr> else v)"

definition begin_v :: "bframe \<Rightarrow> pview \<Rightarrow> pview" where
  "begin_v fr v = rehold_v fr (shadow_v (forget_v v))"

lemma scalar_upds [simp]:
  "view (b\<lparr>bk_epoch_active := q\<rparr>) j = view b j" "view (b\<lparr>bk_epoch_no := k\<rparr>) j = view b j"
  "view (b\<lparr>bk_sealed := q\<rparr>) j = view b j" "view (b\<lparr>bk_swapped_in := q\<rparr>) j = view b j"
  "view (b\<lparr>bk_active := q\<rparr>) j = view b j" "view (b\<lparr>bk_hash := h\<rparr>) j = view b j"
  "view (b\<lparr>bk_load_touched := q\<rparr>) j = view b j" "view (b\<lparr>bk_plan_active := q\<rparr>) j = view b j"
  "view (b\<lparr>bk_plan_data_at := k\<rparr>) j = view b j" "view (b\<lparr>bk_plan_list := l\<rparr>) j = view b j"
  "block_ok (b\<lparr>bk_epoch_active := q\<rparr>) = block_ok b" "block_ok (b\<lparr>bk_epoch_no := k\<rparr>) = block_ok b"
  "block_ok (b\<lparr>bk_sealed := q\<rparr>) = block_ok b" "block_ok (b\<lparr>bk_swapped_in := q\<rparr>) = block_ok b"
  "block_ok (b\<lparr>bk_active := q\<rparr>) = block_ok b" "block_ok (b\<lparr>bk_hash := h\<rparr>) = block_ok b"
  "block_ok (b\<lparr>bk_load_touched := q\<rparr>) = block_ok b" "block_ok (b\<lparr>bk_plan_active := q\<rparr>) = block_ok b"
  "block_ok (b\<lparr>bk_plan_data_at := k\<rparr>) = block_ok b" "block_ok (b\<lparr>bk_plan_list := l\<rparr>) = block_ok b"
  by (simp_all add: view_def block_ok_def block_lens_def page_count_def group_count_def)

lemma frame_upds [simp]:
  "frame (b\<lparr>bk_epoch_active := q\<rparr>) = (frame b)\<lparr>fr_epoch := q\<rparr>" "frame (b\<lparr>bk_epoch_no := k\<rparr>) = (frame b)\<lparr>fr_epoch_no := k\<rparr>"
  "frame (b\<lparr>bk_sealed := q\<rparr>) = (frame b)\<lparr>fr_sealed := q\<rparr>" "frame (b\<lparr>bk_swapped_in := q\<rparr>) = (frame b)\<lparr>fr_swapped := q\<rparr>"
  "frame (b\<lparr>bk_active := q\<rparr>) = (frame b)\<lparr>fr_active := q\<rparr>" "frame (b\<lparr>bk_hash := h\<rparr>) = (frame b)\<lparr>fr_hash := h\<rparr>"
  "frame (b\<lparr>bk_load_touched := q\<rparr>) = (frame b)\<lparr>fr_touched := q\<rparr>" "frame (b\<lparr>bk_plan_active := q\<rparr>) = (frame b)\<lparr>fr_plan := q\<rparr>"
  "frame (b\<lparr>bk_plan_data_at := k\<rparr>) = (frame b)\<lparr>fr_plan_at := k\<rparr>"
  "frame (b\<lparr>bk_plan_list := l\<rparr>) = (frame b)\<lparr>fr_plan_list := l\<rparr>"
  by (simp_all add: frame_def)

definition epoch_frame :: "bframe \<Rightarrow> bframe" where
  "epoch_frame fr = fr\<lparr>fr_epoch := True, fr_epoch_no := (fr_epoch_no fr + 1) mod 2 ^ 16\<rparr>"

lemma shadow_acts:
  assumes "block_ok b"
  shows "acts_on (\<lambda>_. shadow_v) {..<bk_npages b} b
    (fold (\<lambda>i b. upd_page (\<lambda>p. p\<lparr>pg_shadow := Some (pg_live p)\<rparr>) b i) (bits_each (bk_hot_bits b)) b)"
proof -
  let ?f = "\<lambda>p. p\<lparr>pg_shadow := Some (pg_live p)\<rparr>"
  have s: "set (bits_each (bk_hot_bits b)) = {i. i < bk_npages b \<and> pg_hot (bk_pages b ! i)}"
    using set_bits_each [OF bits_b(4) [OF block_ok_lens [OF assms]]] block_ok_view [OF assms] by (auto simp: view_ok_def)
  have "page_op (upd_page ?f) (\<lambda>_ v. v\<lparr>v_page := ?f (v_page v)\<rparr>)"
    by (rule page_op_upd) (simp add: keeps_mapped_def)
  from acts_on_fold [OF this assms, of "bits_each (bk_hot_bits b)"]
  have "acts_on (\<lambda>_ v. v\<lparr>v_page := ?f (v_page v)\<rparr>) {i. i < bk_npages b \<and> pg_hot (bk_pages b ! i)} b
     (fold (\<lambda>i b. upd_page ?f b i) (bits_each (bk_hot_bits b)) b)"
    using s by (simp add: distinct_bits_each)
  then show ?thesis by (auto simp: acts_on_def shadow_v_def)
qed

lemma epoch_begin_views:
  assumes E: "env_ok E" and bo: "block_ok b" and u: "\<forall>i < bk_npages b. v_unheld (view b i) \<longrightarrow> bk_swapped_in b"
    and s: "bk_sealed b"
  shows "snd (mb_block_epoch_begin E b) = Inr ()" "block_ok (fst (mb_block_epoch_begin E b))"
    "frame (fst (mb_block_epoch_begin E b)) = epoch_frame (frame b)"
    "j < bk_npages b \<Longrightarrow> view (fst (mb_block_epoch_begin E b)) j = begin_v (epoch_frame (frame b)) (view b j)"
proof -
  note f = epoch_forget_eq [OF bo]
  define b1 where "b1 = (epoch_forget b)\<lparr>bk_epoch_active := True, bk_epoch_no := (bk_epoch_no b + 1) mod 2 ^ 16\<rparr>"
  have b1: "block_ok b1" "frame b1 = epoch_frame (frame b)" "bk_npages b1 = bk_npages b"
      "\<And>j. j < bk_npages b \<Longrightarrow> view b1 j = forget_v (view b j)"
    using f frame_eqD(1) [OF f(2)] by (simp_all add: b1_def epoch_frame_def)
  define b2 where "b2 = fold (\<lambda>i b. upd_page (\<lambda>p. p\<lparr>pg_shadow := Some (pg_live p)\<rparr>) b i) (bits_each (bk_hot_bits b1)) b1"
  have a2: "acts_on (\<lambda>_. shadow_v) {..<bk_npages b1} b1 b2" using shadow_acts [OF b1(1)] by (simp add: b2_def)
  note d2 = acts_onD [OF a2]
  obtain b3 run where r: "fold (epoch_hold_word E) [0..<bk_nwords b2] (b2, None) = (b3, run)"
    by (cases "fold (epoch_hold_word E) [0..<bk_nwords b2] (b2, None)")
  have "bk_swapped_in b2" if i: "i < bk_npages b2" and v: "v_unheld (view b2 i)" for i
  proof -
    have i': "i < bk_npages b" using i d2(3) b1(3) by simp
    have "v_unheld (view b i)" using v d2(4) [of i] b1(3,4) i' by (simp add: shadow_v_def forget_v_def split: if_splits)
    then have "fr_swapped (frame b)" using u i' by simp
    then show ?thesis using d2(2) b1(2) by (metis epoch_frame_def frame_sel(5) bframe.simps(5) bframe.update_convs(8,9) bframe.surjective)
  qed
  then have a3: "acts_on rehold_v {..<bk_npages b2} b2 (run_close E b3 run)"
    by (rule epoch_hold_all [OF E d2(1) _ r])
  note d3 = acts_onD [OF a3]
  have e: "mb_block_epoch_begin E b = (run_close E b3 run, Inr ())"
    unfolding mb_block_epoch_begin_def Let_def b1_def [symmetric] b2_def [symmetric] r using s by simp
  show "snd (mb_block_epoch_begin E b) = Inr ()" "block_ok (fst (mb_block_epoch_begin E b))"
    "frame (fst (mb_block_epoch_begin E b)) = epoch_frame (frame b)"
    using e d3(1,2) d2(2) b1(2) by simp_all
  show "view (fst (mb_block_epoch_begin E b)) j = begin_v (epoch_frame (frame b)) (view b j)" if "j < bk_npages b"
    using e d3(4) [of j] d2(3) d2(4) [of j] b1 d2(2) that by (simp add: begin_v_def)
qed

lemma epoch_begin_eq:
  assumes E: "env_ok E" and b: "block_inv b" and s: "bk_sealed b"
  shows "snd (mb_block_epoch_begin E b) = Inr ()" "block_ok (fst (mb_block_epoch_begin E b))"
    "frame (fst (mb_block_epoch_begin E b)) = epoch_frame (frame b)"
    "j < bk_npages b \<Longrightarrow> view (fst (mb_block_epoch_begin E b)) j = begin_v (epoch_frame (frame b)) (view b j)"
proof -
  have u: "\<forall>i < bk_npages b. v_unheld (view b i) \<longrightarrow> bk_swapped_in b"
    using block_invD(2) [OF b] by (auto simp: page_ok_def track_v_def Let_def)
  note v = epoch_begin_views [OF E block_invD(1) [OF b] u s]
  show "snd (mb_block_epoch_begin E b) = Inr ()" "block_ok (fst (mb_block_epoch_begin E b))"
    "frame (fst (mb_block_epoch_begin E b)) = epoch_frame (frame b)"
    "j < bk_npages b \<Longrightarrow> view (fst (mb_block_epoch_begin E b)) j = begin_v (epoch_frame (frame b)) (view b j)"
    using v by blast+
qed

lemma page_ok_begin:
  assumes "page_ok fr v" "fr_sealed fr"
  shows "page_ok (epoch_frame fr) (begin_v (epoch_frame fr) v)"
proof -
  define w where "w = shadow_v (forget_v v)"
  have w: "page_ok (epoch_frame fr) w"
    using assms
    by (auto simp: page_ok_def view_ok_def track_v_def snap_ok_def w_def shadow_v_def forget_v_def epoch_frame_def
        native_writable Let_def)
  show ?thesis
  proof (cases "v_unheld w")
    case True
    then have "page_loose (epoch_frame fr) (hold_v w)"
      using w by (auto simp: page_loose_def page_ok_def view_ok_def track_v_def track_loose_def hold_v_def Let_def)
    then show ?thesis using True by (simp add: begin_v_def rehold_v_def w_def page_loose_refresh)
  next
    case False
    then show ?thesis using w by (simp add: begin_v_def rehold_v_def w_def)
  qed
qed

lemma hold_forget: "pg_plan_hold (v_page (forget_v v)) = pg_plan_hold (v_page v)"
  by (simp add: forget_v_def)

lemma hold_begin: "pg_plan_hold (v_page (begin_v fr v)) = pg_plan_hold (v_page v)"
  by (simp add: begin_v_def rehold_v_def hold_v_def shadow_v_def forget_v_def)

lemma epoch_begin_inv: "env_ok E \<Longrightarrow> block_inv b \<Longrightarrow> block_inv (fst (mb_block_epoch_begin E b))"
proof (cases "bk_sealed b")
  case True
  assume E: "env_ok E" and b: "block_inv b"
  note e = epoch_begin_eq [OF E b True]
  have "bk_npages (fst (mb_block_epoch_begin E b)) = bk_npages b"
    using e(3) by (metis epoch_frame_def frame_sel(1) bframe.simps(1) bframe.update_convs(8,9) bframe.surjective)
  moreover have "bk_plan_list (fst (mb_block_epoch_begin E b)) = bk_plan_list b"
    using arg_cong [OF e(3), of fr_plan_list] by (simp add: epoch_frame_def)
  ultimately show ?thesis
    using e True block_invD(2) [OF b] by (intro block_invI [OF b]) (simp_all add: page_ok_begin hold_begin)
qed (simp add: mb_block_epoch_begin_def)

lemma epoch_clear_inv:
  assumes "block_inv b"
  shows "block_inv (mb_block_epoch_clear b)"
    "frame (mb_block_epoch_clear b) = (frame b)\<lparr>fr_epoch := False\<rparr>"
    "j < bk_npages b \<Longrightarrow> view (mb_block_epoch_clear b) j = forget_v (view b j)"
proof -
  note f = epoch_forget_eq [OF block_invD(1) [OF assms]]
  show fr: "frame (mb_block_epoch_clear b) = (frame b)\<lparr>fr_epoch := False\<rparr>"
    "j < bk_npages b \<Longrightarrow> view (mb_block_epoch_clear b) j = forget_v (view b j)" for j
    using f by (simp_all add: mb_block_epoch_clear_def)
  have "page_ok (fr\<lparr>fr_epoch := False\<rparr>) (forget_v v)" if "page_ok fr v" for fr v
    using that by (auto simp: page_ok_def view_ok_def track_v_def snap_ok_def forget_v_def native_writable Let_def)
  then show "block_inv (mb_block_epoch_clear b)"
    using f frame_eqD(1,12) [OF f(2)] block_invD(2) [OF assms]
    by (intro block_invI [OF assms]) (simp_all add: mb_block_epoch_clear_def hold_forget)
qed

end
