(* ===== verification/Mb_State_Views.thy ===== *)
theory Mb_State_Views
  imports Mb_State Mb_Epoch
begin

text \<open>
  Loading a state, page by page: the loop that skips eight equal pages at a time
  and refreshes the pages whose protection moved leaves every page as the state
  says, and keeps the invariant.
\<close>

section \<open>The pages a state carries\<close>

lemma word_at_nth: "i + 8 \<le> length m \<Longrightarrow> k < 8 \<Longrightarrow> word_at m i ! k = m ! (i + k)"
  by (simp add: word_at_def)

lemma zero_word_at:
  assumes "word_at m i = zero_word" "i + 8 \<le> length m" "i \<le> j" "j < i + 8"
  shows "m ! j = 0"
  using word_at_nth [OF assms(2), of "j - i"] assms by (simp add: zero_word_def)

lemma same_word_at:
  assumes "word_at m i = word_at m' i" "i + 8 \<le> length m" "i + 8 \<le> length m'" "i \<le> j" "j < i + 8"
  shows "m ! j = m' ! j"
  using word_at_nth [OF assms(2), of "j - i"] word_at_nth [OF assms(3), of "j - i"] assms by simp

definition carried :: "mb_block \<Rightarrow> nat \<Rightarrow> bool" where
  "carried b i \<longleftrightarrow> pg_dirty (bk_pages b ! i) \<and> \<not> pg_invisible (bk_pages b ! i)"

lemma carried_map:
  "block_ok b \<Longrightarrow> i < bk_npages b \<Longrightarrow> bk_dirty_map b ! i \<noteq> 0 \<and> \<not> pg_invisible (bk_pages b ! i) \<longleftrightarrow> carried b i"
  using block_ok_view [of b i] by (auto simp: view_ok_def carried_def)

lemma filter_upt_skip: "i \<le> j \<Longrightarrow> (\<And>k. i \<le> k \<Longrightarrow> k < j \<Longrightarrow> \<not> P k) \<Longrightarrow> j \<le> n \<Longrightarrow> filter P [i..<n] = filter P [j..<n]"
proof -
  assume a: "i \<le> j" "\<And>k. i \<le> k \<Longrightarrow> k < j \<Longrightarrow> \<not> P k" "j \<le> n"
  have "[i..<n] = [i..<j] @ [j..<n]" using a upt_add_eq_append [of i j "n - j"] by simp
  moreover have "filter P [i..<j] = []" using a(2) by (simp add: filter_empty_conv)
  ultimately show ?thesis by simp
qed

lemma next_state_page_spec:
  assumes "block_ok b"
  shows "i \<le> bk_npages b \<Longrightarrow> filter (carried b) [i..<bk_npages b] =
    (if next_state_page b i < bk_npages b
     then next_state_page b i # filter (carried b) [Suc (next_state_page b i)..<bk_npages b] else [])"
  using assms
proof (induction b i rule: next_state_page.induct)
  case (1 b i)
  let ?n = "bk_npages b"
  let ?W = "i mod 8 = 0 \<and> 8 \<le> ?n - i \<and> word_at (bk_dirty_map b) i = zero_word"
  let ?S = "bk_dirty_map b ! i \<noteq> 0 \<and> \<not> pg_invisible (bk_pages b ! i)"
  show ?case
  proof (cases "i < ?n")
    case False
    then show ?thesis by (simp add: next_state_page.simps)
  next
    case True
    show ?thesis
    proof (cases ?W)
      case w: True
      have i8: "i + 8 \<le> ?n" using w True by linarith
      have len: "length (bk_dirty_map b) = ?n" using bits_b(7) [OF block_ok_lens [OF "1.prems"(2)]] .
      have "\<not> carried b k" if "i \<le> k" "k < i + 8" for k
        using zero_word_at [of "bk_dirty_map b" i k] w i8 len that carried_map [OF "1.prems"(2), of k] by auto
      then have "filter (carried b) [i..<?n] = filter (carried b) [i + 8..<?n]"
        using i8 by (intro filter_upt_skip) auto
      moreover have "next_state_page b i = next_state_page b (i + 8)"
        using True w by (subst next_state_page.simps) simp
      ultimately show ?thesis using "1.IH"(1) [OF True w i8 "1.prems"(2)] by simp
    next
      case nw: False
      show ?thesis
      proof (cases ?S)
        case s: True
        have "next_state_page b i = i" using True nw s by (subst next_state_page.simps) auto
        moreover have "carried b i" using s carried_map [OF "1.prems"(2) True] by simp
        ultimately show ?thesis using True by (simp add: upt_conv_Cons)
      next
        case ns: False
        have "next_state_page b i = next_state_page b (i + 1)"
          using True nw ns by (subst next_state_page.simps) auto
        moreover have "\<not> carried b i" using ns carried_map [OF "1.prems"(2) True] by simp
        ultimately show ?thesis
          using "1.IH"(2) [OF True nw ns _ "1.prems"(2)] True by (simp add: upt_conv_Cons)
      qed
    qed
  qed
qed

lemma state_pages_eq:
  assumes "block_ok b" "i \<le> bk_npages b"
  shows "state_pages_from b (next_state_page b i) = filter (carried b) [i..<bk_npages b]"
  using assms(2)
proof (induction "bk_npages b - i" arbitrary: i rule: less_induct)
  case less
  let ?j = "next_state_page b i"
  have j: "i \<le> ?j" "?j \<le> bk_npages b" using next_state_page_ge less.prems by simp_all
  show ?case
  proof (cases "?j < bk_npages b")
    case True
    then have "state_pages_from b (next_state_page b (Suc ?j)) = filter (carried b) [Suc ?j..<bk_npages b]"
      using j by (intro less.hyps) simp_all
    then show ?thesis
      using next_state_page_spec [OF assms(1) less.prems] True by (simp add: state_pages_from.simps [of b ?j])
  next
    case False
    then show ?thesis
      using next_state_page_spec [OF assms(1) less.prems] by (simp add: state_pages_from.simps [of b ?j])
  qed
qed

section \<open>What loading does to a page\<close>

definition put_live_v :: "bytes \<Rightarrow> pview \<Rightarrow> pview" where
  "put_live_v bs v = v\<lparr>v_page := (v_page v)\<lparr>pg_live := bs\<rparr>\<rparr>"

definition bytes_v :: "bool \<Rightarrow> bytes \<Rightarrow> pview \<Rightarrow> pview" where
  "bytes_v d bs v =
    (if \<not> pg_dirty (v_page v) \<and> d then put_live_v bs (snap_v True v)
     else if pg_dirty (v_page v) \<and> \<not> d then put_live_v (page_baseline (v_page v)) v
     else if pg_dirty (v_page v) \<and> d then put_live_v bs v
     else v)"

definition visible_v :: "bool \<Rightarrow> bytes \<Rightarrow> pview \<Rightarrow> pview" where
  "visible_v d bs v = shadow_v (dirty_v d (bytes_v d bs v))"

definition load_v :: "byte \<Rightarrow> bool \<Rightarrow> bytes \<Rightarrow> pview \<Rightarrow> pview" where
  "load_v st d bs v = status_v st (if pg_invisible (v_page v) then v else visible_v d bs v)"

definition moved_v :: "pview \<Rightarrow> pview \<Rightarrow> bool" where
  "moved_v v v' \<longleftrightarrow> mb_page_native_prot (v_page v') \<noteq> mb_page_native_prot (v_page v)"

definition loaded_v :: "byte \<Rightarrow> bool \<Rightarrow> bytes \<Rightarrow> bframe \<Rightarrow> pview \<Rightarrow> pview" where
  "loaded_v st d bs fr v = (let v' = load_v st d bs v in if moved_v v v' then refresh_v fr v' else v')"

interpretation putl: page_op "upd_page (pg_live_update (\<lambda>_. bs))" "\<lambda>_. put_live_v bs" for bs
  by (rule page_op_cong [OF page_op_upd]) (simp_all add: put_live_v_def)

lemma hot_dirty_v: "view_ok v \<Longrightarrow> \<not> pg_hot (v_page (dirty_v False v))"
  by (simp add: dirty_v_def cool_v_def Let_def)

lemma load_bytes_acts:
  assumes E: "env_ok E" and b: "block_ok b" and i: "i < bk_npages b"
    and so: "snap_ok (bk_pages b ! i)" and vis: "\<not> pg_invisible (bk_pages b ! i)"
    and s: "d \<noteq> 0 \<Longrightarrow> s = bs @ s' \<and> length bs = MB_PAGESIZE" "d = 0 \<Longrightarrow> s' = s"
  shows "\<exists>b1. load_bytes E d b s i = (b1, s', None) \<and> acts_on (\<lambda>_. bytes_v (d \<noteq> 0) bs) {i} b b1"
proof -
  let ?p = "bk_pages b ! i"
  have rd: "read_page c i s = (upd_page (pg_live_update (\<lambda>_. bs)) c i, s', True)" if "d \<noteq> 0" for c
    using s(1) [OF that] by (simp add: read_page_def)
  have pl: "acts_on (\<lambda>_. put_live_v x) {i} c (upd_page (pg_live_update (\<lambda>_. x)) c i)" if "block_ok c" "i < bk_npages c" for c x
    using acts_on_one [OF putl.page_op_axioms that] by simp
  have sn: "acts_on (\<lambda>_. snap_v True) {i} b (fst (page_snapshot E b i))"
    using acts_on_one [OF snap.page_op_axioms [of True] b i] E by (simp add: page_snapshot_eq env_ok_def)
  consider (new) "\<not> pg_dirty ?p" "d \<noteq> 0" | (gone) "pg_dirty ?p" "d = 0" | (both) "pg_dirty ?p" "d \<noteq> 0"
    | (none) "\<not> pg_dirty ?p" "d = 0" by blast
  then show ?thesis
  proof cases
    case new
    let ?b1 = "upd_page (pg_live_update (\<lambda>_. bs)) (fst (page_snapshot E b i)) i"
    have "acts_on (\<lambda>_ v. put_live_v bs (snap_v True v)) {i} b ?b1"
      using acts_on_trans [OF sn pl] acts_onD [OF sn] i by simp
    then have "acts_on (\<lambda>_. bytes_v (d \<noteq> 0) bs) {i} b ?b1"
      using new by (elim acts_on_cong) (simp_all add: bytes_v_def)
    then show ?thesis using new rd by (simp add: load_bytes_def)
  next
    case gone
    let ?b1 = "upd_page (pg_live_update (\<lambda>_. page_baseline ?p)) b i"
    have "acts_on (\<lambda>_. bytes_v (d \<noteq> 0) bs) {i} b ?b1"
      using pl [OF b i, of "page_baseline ?p"] gone by (elim acts_on_cong) (simp_all add: bytes_v_def)
    moreover have "load_bytes E d b s i = (?b1, s', None)"
      using gone so vis s(2) by (cases "pg_snap ?p") (simp_all add: load_bytes_def snap_ok_def page_baseline_def)
    ultimately show ?thesis by blast
  next
    case both
    have "acts_on (\<lambda>_. bytes_v (d \<noteq> 0) bs) {i} b (upd_page (pg_live_update (\<lambda>_. bs)) b i)"
      using pl [OF b i, of bs] both by (elim acts_on_cong) (simp_all add: bytes_v_def)
    then show ?thesis using both rd by (simp add: load_bytes_def)
  next
    case none
    have "acts_on (\<lambda>_. bytes_v (d \<noteq> 0) bs) {i} b b"
      using b none by (simp add: acts_on_def bytes_v_def)
    then show ?thesis using none s(2) by (simp add: load_bytes_def)
  qed
qed

lemma load_visible_acts:
  assumes E: "env_ok E" and b: "block_ok b" and i: "i < bk_npages b"
    and so: "snap_ok (bk_pages b ! i)" and vis: "\<not> pg_invisible (bk_pages b ! i)"
    and s: "d \<noteq> 0 \<Longrightarrow> s = bs @ s' \<and> length bs = MB_PAGESIZE" "d = 0 \<Longrightarrow> s' = s"
  shows "\<exists>b1. load_visible E d b s i = (b1, s', None) \<and> acts_on (\<lambda>_. visible_v (d \<noteq> 0) bs) {i} b b1"
proof -
  obtain b1 where r1: "load_bytes E d b s i = (b1, s', None)" and a1: "acts_on (\<lambda>_. bytes_v (d \<noteq> 0) bs) {i} b b1"
    using load_bytes_acts [OF assms] by blast
  define b2 where "b2 = set_dirty b1 i (d \<noteq> 0)"
  have i1: "i < bk_npages b1" using i acts_onD(3) [OF a1] by simp
  have a2: "acts_on (\<lambda>_. dirty_v (d \<noteq> 0)) {i} b1 b2"
    using acts_on_one [OF dirt.page_op_axioms acts_onD(1) [OF a1] i1] by (simp add: b2_def)
  note d2 = acts_onD [OF a2]
  have i2: "i < bk_npages b2" using i1 d2(3) by simp
  have cold: "\<not> pg_hot (bk_pages b2 ! i)" if "d = 0"
  proof -
    have "view b2 i = dirty_v False (view b1 i)" using d2(4) [OF i1] that by simp
    then have "v_page (view b2 i) = v_page (dirty_v False (view b1 i))" by simp
    then show ?thesis using hot_dirty_v [OF block_ok_view [OF acts_onD(1) [OF a1] i1]] by simp
  qed
  define b3 where "b3 = (if pg_hot (bk_pages b2 ! i) then upd_page (\<lambda>p. p\<lparr>pg_shadow := Some (pg_live p)\<rparr>) b2 i else b2)"
  have "page_op (\<lambda>b i. if pg_hot (bk_pages b ! i) then upd_page (\<lambda>p. p\<lparr>pg_shadow := Some (pg_live p)\<rparr>) b i else b) (\<lambda>_. shadow_v)"
    by (rule page_op_cong [OF page_op_if [OF page_op_upd [of "\<lambda>p. p\<lparr>pg_shadow := Some (pg_live p)\<rparr>"] page_op_skip,
          of "\<lambda>b i. pg_hot (bk_pages b ! i)" "\<lambda>fr v. pg_hot (v_page v)"]])
       (simp_all add: keeps_mapped_def shadow_v_def)
  from acts_on_one [OF this d2(1) i2] have a3: "acts_on (\<lambda>_. shadow_v) {i} b2 b3" by (simp add: b3_def)
  have "acts_on (\<lambda>_. visible_v (d \<noteq> 0) bs) {i} b b3"
    using acts_on_trans [OF acts_on_trans [OF a1 a2] a3] by (simp add: visible_v_def [abs_def])
  moreover have "load_visible E d b s i = (b3, s', None)"
    using r1 cold by (cases "d = 0") (simp_all add: load_visible_def Let_def b2_def b3_def)
  ultimately show ?thesis by blast
qed

lemma view_run_close_ge:
  assumes "env_ok E" "block_ok b" "run_ok run i" "i \<le> j" "j < bk_npages b"
  shows "view (run_close E b run) j = view b j"
proof -
  have "run_ok run (bk_npages b)" using run_ok_mono [OF assms(3)] assms(4,5) by simp
  moreover have "j \<notin> run_pages run" using run_ok_pages [OF assms(3)] assms(4) by fastforce
  ultimately show ?thesis using acts_onD(4) [OF run_close_acts [OF assms(1,2)]] assms(5) by simp
qed

lemma load_page_acts:
  assumes E: "env_ok E" and b: "block_ok b" and i: "i < bk_npages b" and ro: "run_ok run i"
    and so: "snap_ok (bk_pages b ! i)"
    and s: "\<not> pg_invisible (bk_pages b ! i) \<and> d \<noteq> 0 \<Longrightarrow> s = bs @ s' \<and> length bs = MB_PAGESIZE"
      "pg_invisible (bk_pages b ! i) \<or> d = 0 \<Longrightarrow> s' = s"
  shows "\<exists>b2 run2. load_page E st d b run s i = (b2, run2, s', None) \<and> block_ok b2 \<and> frame b2 = frame b \<and>
    run_ok run2 (Suc i) \<and> acts_on (loaded_v st (d \<noteq> 0) bs) {i} (run_close E b run) (run_close E b2 run2)"
proof -
  let ?inv = "pg_invisible (bk_pages b ! i)"
  obtain b1 where r1: "(if ?inv then (b, s, None) else load_visible E d b s i) = (b1, s', None)"
    and a1: "acts_on (\<lambda>_ v. if pg_invisible (v_page v) then v else visible_v (d \<noteq> 0) bs v) {i} b b1"
  proof (cases ?inv)
    case True
    then show ?thesis using that [of b] s b by (simp add: acts_on_def)
  next
    case False
    then obtain b1 where "load_visible E d b s i = (b1, s', None)" "acts_on (\<lambda>_. visible_v (d \<noteq> 0) bs) {i} b b1"
      using load_visible_acts [OF E b i so] s by blast
    then show ?thesis using that [of b1] False by (simp add: acts_on_def)
  qed
  have i1: "i < bk_npages b1" using i acts_onD(3) [OF a1] by simp
  define b2 where "b2 = note_status b1 i st"
  have a2: "acts_on (\<lambda>_. status_v st) {i} b1 b2"
    using acts_on_one [OF stat.page_op_axioms acts_onD(1) [OF a1] i1] by (simp add: b2_def)
  have h: "acts_on (\<lambda>_. load_v st (d \<noteq> 0) bs) {i} b b2"
    using acts_on_trans [OF a1 a2] by (simp add: load_v_def [abs_def])
  let ?c = "mb_page_native_prot (bk_pages b2 ! i) \<noteq> mb_page_native_prot (bk_pages b ! i)"
  obtain b3 run3 where st3: "(b3, run3) = (if ?c then run_note E b2 run i else (b2, run))"
    by (metis surj_pair)
  note r = run_step [OF E b i ro h st3]
  have pv: "v_page (load_v st (d \<noteq> 0) bs (view b i)) = bk_pages b2 ! i"
  proof -
    have "view b2 i = load_v st (d \<noteq> 0) bs (view b i)" using acts_onD(4) [OF h i] by simp
    then show ?thesis by (metis view_sel(1))
  qed
  have vi: "view (run_close E b run) i = view b i" using view_run_close_ge [OF E b ro _ i] by simp
  have "acts_on (loaded_v st (d \<noteq> 0) bs) {i} (run_close E b run) (run_close E b3 run3)"
    by (rule acts_on_cong [OF r(1)]) (simp_all add: loaded_v_def moved_v_def vi pv Let_def)
  moreover have "load_page E st d b run s i = (b3, run3, s', None)"
    using r1 st3 by (auto simp: load_page_def Let_def b2_def split: if_splits prod.splits)
  ultimately show ?thesis using r(2-4) by blast
qed

lemma loaded_skip:
  assumes "page_ok fr v" "v_dmap v = 0" "st = v_smap v"
  shows "loaded_v st False bs fr v = v"
proof -
  have d: "\<not> pg_dirty (v_page v)" "\<not> pg_hot (v_page v)" "pg_status (v_page v) = st"
    using assms by (auto simp: page_ok_def view_ok_def track_v_def Let_def of_bool_def split: if_splits)
  have "load_v st False bs v = v"
    using d assms(2,3) by (simp add: load_v_def visible_v_def bytes_v_def dirty_v_def cool_v_def shadow_v_def status_v_def Let_def)
  then show ?thesis by (simp add: loaded_v_def moved_v_def)
qed

lemma load_from_acts:
  assumes E: "env_ok E" and len: "length statii = n" "length dirtii = n"
    and bsl: "\<And>j. length (bs j) = MB_PAGESIZE"
  shows "block_ok b \<Longrightarrow> bk_npages b = n \<Longrightarrow> i \<le> n \<Longrightarrow> (\<And>j. i \<le> j \<Longrightarrow> j < n \<Longrightarrow> page_ok (frame b) (view b j)) \<Longrightarrow> run_ok run i \<Longrightarrow>
    s = concat (map bs (filter (\<lambda>j. \<not> pg_invisible (bk_pages b ! j) \<and> dirtii ! j \<noteq> 0) [i..<n])) @ rest \<Longrightarrow>
    \<exists>b' run'. load_from E statii dirtii n b run s i = (b', run', rest, None) \<and> block_ok b' \<and> frame b' = frame b \<and>
      run_ok run' n \<and> (\<forall>j < n. view (run_close E b' run') j =
        (if i \<le> j then loaded_v (statii ! j) (dirtii ! j \<noteq> 0) (bs j) (frame b) (view b j) else view (run_close E b run) j))"
proof (induction "n - i" arbitrary: i b run s rule: less_induct)
  case less
  note b = less.prems(1) and n = less.prems(2) and pok = less.prems(4) and ro = less.prems(5) and s = less.prems(6)
  have lens: "length (bk_dirty_map b) = n" "length (bk_status_map b) = n"
    using bits_b(6,7) [OF block_ok_lens [OF b]] n by simp_all
  let ?need = "\<lambda>j. \<not> pg_invisible (bk_pages b ! j) \<and> dirtii ! j \<noteq> 0"
  let ?goal = "\<lambda>b' run'. load_from E statii dirtii n b run s i = (b', run', rest, None) \<and> block_ok b' \<and> frame b' = frame b \<and>
      run_ok run' n \<and> (\<forall>j < n. view (run_close E b' run') j =
        (if i \<le> j then loaded_v (statii ! j) (dirtii ! j \<noteq> 0) (bs j) (frame b) (view b j) else view (run_close E b run) j))"
  have skip: "\<exists>b' run'. ?goal b' run'"
    if m: "0 < m" "i + m \<le> n" and same: "\<And>j. i \<le> j \<Longrightarrow> j < i + m \<Longrightarrow> dirtii ! j = 0 \<and> bk_dirty_map b ! j = 0 \<and> statii ! j = bk_status_map b ! j"
      and go: "load_from E statii dirtii n b run s i = load_from E statii dirtii n b run s (i + m)" for m
  proof -
    have dec: "n - (i + m) < n - i" using m by linarith
    have "filter ?need [i..<n] = filter ?need [i + m..<n]"
      using same m by (intro filter_upt_skip) auto
    then obtain b' run' where r: "load_from E statii dirtii n b run s (i + m) = (b', run', rest, None)" "block_ok b'"
        "frame b' = frame b" "run_ok run' n" "\<forall>j < n. view (run_close E b' run') j =
          (if i + m \<le> j then loaded_v (statii ! j) (dirtii ! j \<noteq> 0) (bs j) (frame b) (view b j) else view (run_close E b run) j)"
      using less.hyps [OF dec b n, of run s] less.prems m run_ok_mono [OF ro, of "i + m"] by auto
    have id: "loaded_v (statii ! j) (dirtii ! j \<noteq> 0) (bs j) (frame b) (view b j) = view (run_close E b run) j"
      if "i \<le> j" "j < i + m" for j
      using loaded_skip [OF pok, of j "statii ! j" "bs j"] same [OF that] that m view_run_close_ge [OF E b ro that(1)] n by simp
    have "view (run_close E b' run') j = (if i \<le> j then loaded_v (statii ! j) (dirtii ! j \<noteq> 0) (bs j) (frame b) (view b j)
        else view (run_close E b run) j)" if "j < n" for j
      using r(5) that id [of j] by (cases "i + m \<le> j"; cases "i \<le> j") simp_all
    then show ?thesis using go r(1-4) by auto
  qed
  show ?case
  proof (cases "i < n")
    case False
    then have "i = n" using less.prems(3) by simp
    then show ?thesis using b ro s by (simp add: load_from.simps)
  next
    case True
    consider (word) "i mod 8 = 0 \<and> i + 8 \<le> n \<and> load_skip_word b statii dirtii i"
      | (page) "\<not> (i mod 8 = 0 \<and> i + 8 \<le> n \<and> load_skip_word b statii dirtii i)"
        "dirtii ! i = 0 \<and> bk_dirty_map b ! i = 0 \<and> statii ! i = bk_status_map b ! i"
      | (load) "\<not> (i mod 8 = 0 \<and> i + 8 \<le> n \<and> load_skip_word b statii dirtii i)"
        "\<not> (dirtii ! i = 0 \<and> bk_dirty_map b ! i = 0 \<and> statii ! i = bk_status_map b ! i)" by blast
    then show ?thesis
    proof cases
      case word
      show ?thesis
      proof (rule skip [of 8])
        show "dirtii ! j = 0 \<and> bk_dirty_map b ! j = 0 \<and> statii ! j = bk_status_map b ! j" if "i \<le> j" "j < i + 8" for j
          using word that zero_word_at [of dirtii i j] zero_word_at [of "bk_dirty_map b" i j]
            same_word_at [of statii i "bk_status_map b" j] len lens by (simp add: load_skip_word_def)
        show "load_from E statii dirtii n b run s i = load_from E statii dirtii n b run s (i + 8)"
          using True word by (subst load_from.simps) simp
      qed (use word in auto)
    next
      case page
      show ?thesis
      proof (rule skip [of 1])
        show "load_from E statii dirtii n b run s i = load_from E statii dirtii n b run s (i + 1)"
          using True page by (subst load_from.simps) auto
      qed (use page True in \<open>auto simp: le_less_Suc_eq\<close>)
    next
      case load
      define s' where "s' = concat (map bs (filter ?need [Suc i..<n])) @ rest"
      have ss: "s = (if ?need i then bs i @ s' else s')" using s True by (simp add: s'_def upt_conv_Cons)
      have so: "snap_ok (bk_pages b ! i)" using pok [of i] True by (simp add: page_ok_def)
      obtain b2 run2 where r2: "load_page E (statii ! i) (dirtii ! i) b run s i = (b2, run2, s', None)" "block_ok b2"
          "frame b2 = frame b" "run_ok run2 (Suc i)"
          "acts_on (loaded_v (statii ! i) (dirtii ! i \<noteq> 0) (bs i)) {i} (run_close E b run) (run_close E b2 run2)"
        using load_page_acts [OF E b _ ro so, of "dirtii ! i" s "bs i" s' "statii ! i"] ss bsl True n
        by (cases "?need i") auto
      have n2: "bk_npages b2 = n" using frame_eqD(1) [OF r2(3)] n by simp
      have cl: "bk_npages (run_close E b run) = n" "frame (run_close E b run) = frame b"
        using acts_onD(2,3) [OF run_close_acts [OF E b, of run]] run_ok_mono [OF ro] n True by simp_all
      have later: "view b2 j = view b j" if "Suc i \<le> j" "j < n" for j
        using acts_onD(4) [OF r2(5), of j] view_run_close_ge [OF E r2(2,4) that(1)] view_run_close_ge [OF E b ro, of j]
          cl n n2 that by simp
      have need2: "filter (\<lambda>j. \<not> pg_invisible (bk_pages b2 ! j) \<and> dirtii ! j \<noteq> 0) [Suc i..<n] = filter ?need [Suc i..<n]"
        using later by (intro filter_cong) (auto, metis view_sel(1), metis view_sel(1))
      have "\<exists>b' run'. load_from E statii dirtii n b2 run2 s' (Suc i) = (b', run', rest, None) \<and> block_ok b' \<and> frame b' = frame b2 \<and>
        run_ok run' n \<and> (\<forall>j < n. view (run_close E b' run') j =
          (if Suc i \<le> j then loaded_v (statii ! j) (dirtii ! j \<noteq> 0) (bs j) (frame b2) (view b2 j) else view (run_close E b2 run2) j))"
        using True n2 r2 pok later need2 by (intro less.hyps) (simp_all add: s'_def)
      then obtain b' run' where r3: "load_from E statii dirtii n b2 run2 s' (Suc i) = (b', run', rest, None)" "block_ok b'"
          "frame b' = frame b2" "run_ok run' n" "\<And>j. j < n \<Longrightarrow> view (run_close E b' run') j =
          (if Suc i \<le> j then loaded_v (statii ! j) (dirtii ! j \<noteq> 0) (bs j) (frame b2) (view b2 j) else view (run_close E b2 run2) j)"
        by blast
      have "view (run_close E b' run') j = (if i \<le> j then loaded_v (statii ! j) (dirtii ! j \<noteq> 0) (bs j) (frame b) (view b j)
          else view (run_close E b run) j)" if "j < n" for j
        using r3(5) [OF that] later [of j] acts_onD(4) [OF r2(5), of j] view_run_close_ge [OF E b ro, of j] cl n r2(3) that
        by (cases "j = i"; cases "Suc i \<le> j") simp_all
      moreover have "load_from E statii dirtii n b run s i = (b', run', rest, None)"
        using True load r2(1) r3(1) by (subst load_from.simps) auto
      ultimately show ?thesis using r3(2-4) r2(3) by auto
    qed
  qed
qed

section \<open>A loaded page\<close>

lemma snap_bytes:
  assumes so: "snap_ok (v_page v)" and vis: "\<not> pg_invisible (v_page v)" and l: "length bs = MB_PAGESIZE"
  shows "snap_ok (v_page (dirty_v d (bytes_v d bs v)))"
    "page_baseline (v_page (dirty_v d (bytes_v d bs v))) = page_baseline (v_page v)"
    "pg_live (v_page (dirty_v d (bytes_v d bs v))) = (if d then bs else page_baseline (v_page v))"
proof -
  let ?p = "v_page v"
  have lb: "length (page_baseline ?p) = MB_PAGESIZE"
    using so by (auto simp: snap_ok_def page_baseline_def split: mb_snap.splits)
  have c: "v_page (dirty_v d w) = (v_page (if d then w else cool_v w))\<lparr>pg_dirty := d\<rparr>" for w
    by (simp add: dirty_v_def Let_def)
  have k: "pg_live (v_page (cool_v w)) = pg_live (v_page w)" "pg_snap (v_page (cool_v w)) = pg_snap (v_page w)"
      "pg_invisible (v_page (cool_v w)) = pg_invisible (v_page w)"
      "page_baseline (v_page (cool_v w)) = page_baseline (v_page w)" for w
    by (simp_all add: cool_v_def)
  consider (a) "\<not> pg_dirty ?p" "d" | (b) "pg_dirty ?p" "\<not> d" | (c) "pg_dirty ?p" "d" | (d) "\<not> pg_dirty ?p" "\<not> d" by blast
  then have "snap_ok (v_page (dirty_v d (bytes_v d bs v))) \<and>
    page_baseline (v_page (dirty_v d (bytes_v d bs v))) = page_baseline ?p \<and>
    pg_live (v_page (dirty_v d (bytes_v d bs v))) = (if d then bs else page_baseline ?p)"
  proof cases
    case a
    have s1: "snap_ok (v_page (snap_v True v))" "pg_snap (v_page (snap_v True v)) \<noteq> MB_SNAP_NONE"
        "page_baseline (v_page (snap_v True v)) = page_baseline ?p" "\<not> pg_invisible (v_page (snap_v True v))"
      using snap_snap [OF so] snap_taken_v vis snapshot_baseline [of True ?p]
      by (simp_all add: snap_v_def) (simp add: mb_page_maybe_snapshot_def)
    show ?thesis
      using a s1 l unfolding c bytes_v_def put_live_v_def
      by (cases "pg_snap (v_page (snap_v True v))") (simp_all add: snap_ok_def page_baseline_def)
  next
    case b
    then show ?thesis
      using so vis lb unfolding c bytes_v_def put_live_v_def
      by (cases "pg_snap ?p") (simp_all add: snap_ok_def page_baseline_def k)
  next
    case c': c
    then show ?thesis
      using so vis l unfolding c bytes_v_def put_live_v_def
      by (cases "pg_snap ?p") (simp_all add: snap_ok_def page_baseline_def)
  next
    case d
    then show ?thesis using so vis lb unfolding c bytes_v_def by (simp add: snap_ok_def k)
  qed
  then show "snap_ok (v_page (dirty_v d (bytes_v d bs v)))"
    "page_baseline (v_page (dirty_v d (bytes_v d bs v))) = page_baseline ?p"
    "pg_live (v_page (dirty_v d (bytes_v d bs v))) = (if d then bs else page_baseline ?p)" by simp_all
qed

lemma load_v_fields:
  assumes "snap_ok (v_page v)" "length bs = MB_PAGESIZE"
  shows "pg_status (v_page (load_v st d bs v)) = st"
    "pg_invisible (v_page (load_v st d bs v)) = pg_invisible (v_page v)"
    "pg_dirty (v_page (load_v st d bs v)) = (if pg_invisible (v_page v) then pg_dirty (v_page v) else d)"
    "pg_live (v_page (load_v st d bs v)) = (if pg_invisible (v_page v) then pg_live (v_page v)
       else if d then bs else page_baseline (v_page v))"
    "page_baseline (v_page (load_v st d bs v)) = page_baseline (v_page v)"
    "snap_ok (v_page (load_v st d bs v))"
proof -
  have s: "pg_status (v_page (status_v st w)) = st" "pg_dirty (v_page (status_v st w)) = pg_dirty (v_page w)"
      "pg_invisible (v_page (status_v st w)) = pg_invisible (v_page w)" "pg_live (v_page (status_v st w)) = pg_live (v_page w)"
      "page_baseline (v_page (status_v st w)) = page_baseline (v_page w)" for w
    by (simp_all add: status_v_def cool_v_def Let_def)
  have h: "pg_dirty (v_page (shadow_v w)) = pg_dirty (v_page w)" "pg_invisible (v_page (shadow_v w)) = pg_invisible (v_page w)"
      "pg_live (v_page (shadow_v w)) = pg_live (v_page w)" "page_baseline (v_page (shadow_v w)) = page_baseline (v_page w)"
      "snap_ok (v_page (shadow_v w)) = snap_ok (v_page w)" for w
    by (simp_all add: shadow_v_def)
  have d: "pg_dirty (v_page (dirty_v d w)) = d" "pg_invisible (v_page (dirty_v d w)) = pg_invisible (v_page w)" for w
    by (simp_all add: dirty_v_def cool_v_def Let_def)
  have i: "pg_invisible (v_page (bytes_v d bs v)) = pg_invisible (v_page v)"
    by (simp add: bytes_v_def put_live_v_def snap_v_def mb_page_maybe_snapshot_def)
  show "pg_status (v_page (load_v st d bs v)) = st"
    "pg_invisible (v_page (load_v st d bs v)) = pg_invisible (v_page v)"
    "pg_dirty (v_page (load_v st d bs v)) = (if pg_invisible (v_page v) then pg_dirty (v_page v) else d)"
    "pg_live (v_page (load_v st d bs v)) = (if pg_invisible (v_page v) then pg_live (v_page v)
       else if d then bs else page_baseline (v_page v))"
    "page_baseline (v_page (load_v st d bs v)) = page_baseline (v_page v)"
    "snap_ok (v_page (load_v st d bs v))"
    using snap_bytes [OF assms(1) _ assms(2), of d] assms(1)
    by (simp_all add: load_v_def visible_v_def s h d i)
qed

lemma track_bytes: "track_loose fr (bytes_v d bs v) = track_loose fr v" "view_ok (bytes_v d bs v) = view_ok v"
  by (simp_all add: track_loose_def view_ok_def bytes_v_def put_live_v_def snap_v_def mb_page_maybe_snapshot_def Let_def)

lemma track_shadow: "track_loose fr v \<Longrightarrow> track_loose fr (shadow_v v)" "view_ok v \<Longrightarrow> view_ok (shadow_v v)"
  by (simp_all add: track_loose_def view_ok_def shadow_v_def Let_def)

lemma loose_load:
  assumes "page_ok fr v" "length bs = MB_PAGESIZE"
  shows "page_loose fr (load_v st d bs v)"
proof (cases "pg_invisible (v_page v)")
  case True
  then show ?thesis using assms by (simp add: load_v_def page_loose_status page_ok_loose)
next
  case False
  have "page_loose fr v" using assms by (simp add: page_ok_loose)
  then have "view_ok (visible_v d bs v)" "track_loose fr (visible_v d bs v)"
    by (simp_all add: page_loose_def visible_v_def track_shadow track_dirty_zero view_dirty_zero track_bytes)
  moreover have "snap_ok (v_page (visible_v d bs v))"
    using snap_bytes(1) [OF _ False assms(2)] assms(1) by (simp add: visible_v_def shadow_v_def page_ok_def)
  ultimately have "page_loose fr (visible_v d bs v)" by (simp add: page_loose_def)
  then show ?thesis using False by (simp add: load_v_def page_loose_status)
qed

lemma load_v_track:
  assumes "view_ok v"
  shows "v_unheld (load_v st d bs v) = (v_unheld v \<or> pg_hot (v_page v) \<and> \<not> pg_hot (v_page (load_v st d bs v)))"
    "pg_held (v_page (load_v st d bs v)) = pg_held (v_page v)" "pg_os (v_page (load_v st d bs v)) = pg_os (v_page v)"
    "pg_hot (v_page (load_v st d bs v)) \<Longrightarrow> pg_hot (v_page v)"
  using assms
  by (auto simp: load_v_def status_v_def visible_v_def shadow_v_def dirty_v_def cool_v_def bytes_v_def put_live_v_def
      snap_v_def mb_page_maybe_snapshot_def Let_def split: if_splits)

text \<open>A page that was changed and refreshed when its protection moved; otherwise only its
  marks moved, and the same way.\<close>

lemma page_ok_moved:
  assumes v: "page_ok fr v" and lo: "page_loose fr w"
    and t: "v_unheld w = (v_unheld v \<or> pg_hot (v_page v) \<and> \<not> pg_hot (v_page w))"
      "pg_held (v_page w) = pg_held (v_page v)" "pg_os (v_page w) = pg_os (v_page v)"
      "pg_hot (v_page w) \<Longrightarrow> pg_hot (v_page v)" "pg_invisible (v_page w) = pg_invisible (v_page v)"
  shows "page_ok fr (if moved_v v w then refresh_v fr w else w)"
proof (cases "moved_v v w")
  case True
  then show ?thesis using lo by (simp add: page_loose_refresh)
next
  case False
  have nat: "prot_writable (mb_page_native_prot (v_page w)) = prot_writable (mb_page_native_prot (v_page v))"
    using False by (simp add: moved_v_def)
  have tv: "track_v fr v" using v by (simp add: page_ok_def)
  have tl: "track_loose fr w" using lo by (simp add: page_loose_def)
  have hot: "pg_hot (v_page v) \<longrightarrow> \<not> v_unheld v \<and> \<not> pg_held (v_page v) \<and> fr_swapped fr"
    and held: "pg_held (v_page v) \<longrightarrow> \<not> v_unheld v"
    and os: "prot_writable (pg_os (v_page v)) \<longrightarrow> prot_writable (mb_page_native_prot (v_page v)) \<and> fr_swapped fr"
    and un: "fr_swapped fr \<longrightarrow> prot_writable (mb_page_native_prot (v_page v)) \<longrightarrow> \<not> pg_hot (v_page v) \<longrightarrow>
        \<not> pg_invisible (v_page v) \<longrightarrow> v_unheld v"
    and sw: "v_unheld v \<longrightarrow> fr_swapped fr"
    using tv by (simp_all add: track_v_def Let_def)
  have "pg_hot (v_page w) \<longrightarrow> \<not> v_unheld w" "pg_held (v_page w) \<longrightarrow> \<not> v_unheld w" "v_unheld w \<longrightarrow> fr_swapped fr"
    using hot held sw t by blast+
  moreover have "prot_writable (pg_os (v_page w)) \<longrightarrow> prot_writable (mb_page_native_prot (v_page w)) \<and> fr_swapped fr"
    using os t(3) nat by simp
  moreover have "fr_swapped fr \<longrightarrow> prot_writable (mb_page_native_prot (v_page w)) \<longrightarrow> \<not> pg_hot (v_page w) \<longrightarrow>
        \<not> pg_invisible (v_page w) \<longrightarrow> v_unheld w"
    using un t(1,5) nat by blast
  ultimately have "track_v fr w"
    using tl unfolding track_v_def track_loose_def Let_def by blast
  then show ?thesis using lo False by (simp add: page_ok_def page_loose_def)
qed

lemma page_ok_loaded:
  assumes v: "page_ok fr v" and l: "length bs = MB_PAGESIZE"
  shows "page_ok fr (loaded_v st d bs fr v)"
proof -
  have vk: "view_ok v" "snap_ok (v_page v)" using v by (simp_all add: page_ok_def)
  show ?thesis
    using page_ok_moved [OF v loose_load [OF v l] load_v_track [OF vk(1)]] load_v_fields(2) [OF vk(2) l]
    by (simp add: loaded_v_def Let_def)
qed

lemma loaded_v_fields:
  assumes "snap_ok (v_page v)" "length bs = MB_PAGESIZE"
  shows "pg_status (v_page (loaded_v st d bs fr v)) = st"
    "pg_invisible (v_page (loaded_v st d bs fr v)) = pg_invisible (v_page v)"
    "pg_dirty (v_page (loaded_v st d bs fr v)) = (if pg_invisible (v_page v) then pg_dirty (v_page v) else d)"
    "pg_live (v_page (loaded_v st d bs fr v)) = (if pg_invisible (v_page v) then pg_live (v_page v)
       else if d then bs else page_baseline (v_page v))"
    "page_baseline (v_page (loaded_v st d bs fr v)) = page_baseline (v_page v)"
proof -
  have "pg_status (v_page (refresh_v fr w)) = pg_status (v_page w)" "pg_dirty (v_page (refresh_v fr w)) = pg_dirty (v_page w)"
    "pg_invisible (v_page (refresh_v fr w)) = pg_invisible (v_page w)" "pg_live (v_page (refresh_v fr w)) = pg_live (v_page w)"
    "page_baseline (v_page (refresh_v fr w)) = page_baseline (v_page w)" for w
    by (simp_all add: refresh_v_def note_prot_v_def Let_def)
  then show "pg_status (v_page (loaded_v st d bs fr v)) = st"
    "pg_invisible (v_page (loaded_v st d bs fr v)) = pg_invisible (v_page v)"
    "pg_dirty (v_page (loaded_v st d bs fr v)) = (if pg_invisible (v_page v) then pg_dirty (v_page v) else d)"
    "pg_live (v_page (loaded_v st d bs fr v)) = (if pg_invisible (v_page v) then pg_live (v_page v)
       else if d then bs else page_baseline (v_page v))"
    "page_baseline (v_page (loaded_v st d bs fr v)) = page_baseline (v_page v)"
    using load_v_fields [OF assms, of st d] unfolding loaded_v_def Let_def
    by (cases "moved_v v (load_v st d bs v)"; simp only: if_True if_False)+
qed

end
