(* ===== verification/Mb_Delta_Views.thy ===== *)
theory Mb_Delta_Views
  imports Mb_Delta_Compose Mb_State_Views
begin

text \<open>
  Applying a delta, page by page: each entry is one operation on its page, and
  the page's protection is refreshed when the entry moved it.
\<close>

section \<open>A loop over entries that refreshes what moved\<close>

definition moved_op :: "(bframe \<Rightarrow> pview \<Rightarrow> pview) \<Rightarrow> bframe \<Rightarrow> pview \<Rightarrow> pview" where
  "moved_op h fr v = (if moved_v v (h fr v) then refresh_v fr (h fr v) else h fr v)"

text \<open>One entry: the operation on its page, and the page added to the run when its protection moved.\<close>

definition entry_step :: "os_env \<Rightarrow> ('a \<Rightarrow> mb_block \<Rightarrow> nat \<Rightarrow> mb_block) \<Rightarrow> nat \<times> 'a \<Rightarrow> mb_block \<times> prot_run \<Rightarrow> mb_block \<times> prot_run" where
  "entry_step E op e = (\<lambda>(b, run).
    (let b1 = op (snd e) b (fst e)
     in if mb_page_native_prot (bk_pages b1 ! fst e) \<noteq> mb_page_native_prot (bk_pages b ! fst e)
        then run_note E b1 run (fst e) else (b1, run)))"

lemma entry_step_acts:
  assumes E: "env_ok E" and b: "block_ok b" and i: "i < bk_npages b" and ro: "run_ok run i"
    and op: "page_op (op x) (h x)" and st: "entry_step E op (i, x) (b, run) = (b2, run2)"
  shows "acts_on (moved_op (h x)) {i} (run_close E b run) (run_close E b2 run2)"
    "block_ok b2" "frame b2 = frame b" "run_ok run2 (Suc i)"
proof -
  define b1 where "b1 = op x b i"
  have a1: "acts_on (h x) {i} b b1" using acts_on_one [OF op b i] by (simp add: b1_def)
  define c where "c \<longleftrightarrow> mb_page_native_prot (bk_pages b1 ! i) \<noteq> mb_page_native_prot (bk_pages b ! i)"
  have st': "(b2, run2) = (if c then run_note E b1 run i else (b1, run))"
    using st by (simp add: entry_step_def c_def b1_def Let_def split: if_splits)
  note r = run_step [OF E b i ro a1 st']
  have v: "view (run_close E b run) i = view b i"
    using view_run_close_ge [OF E b ro order_refl i] .
  have c: "c = moved_v (view b i) (h x (frame b) (view b i))"
    using acts_onD(4) [OF a1 i] by (simp add: c_def moved_v_def) (metis view_sel(1))
  have f: "frame (run_close E b run) = frame b"
    by (rule acts_onD(2) [OF run_close_acts [OF E b run_ok_mono [OF ro less_imp_le [OF i]]]])
  show "acts_on (moved_op (h x)) {i} (run_close E b run) (run_close E b2 run2)"
    by (rule acts_on_cong [OF r(1)]) (simp_all add: moved_op_def c v f)
  show "block_ok b2" "frame b2 = frame b" "run_ok run2 (Suc i)" using r by simp_all
qed

lemma entry_loop_acts:
  assumes E: "env_ok E" and op: "\<And>x. page_op (op x) (h x)"
  shows "block_ok b \<Longrightarrow> sorted_wrt (<) (map fst es) \<Longrightarrow> \<forall>e\<in>set es. fst e < bk_npages b \<Longrightarrow>
    run_ok run (if es = [] then bk_npages b else fst (hd es)) \<Longrightarrow>
    fold (entry_step E op) es (b, run) = (b2, run2) \<Longrightarrow>
    block_ok b2 \<and> frame b2 = frame b \<and> run_ok run2 (bk_npages b) \<and>
    (\<forall>j < bk_npages b. view (run_close E b2 run2) j =
       (case map_of es j of None \<Rightarrow> view (run_close E b run) j
        | Some x \<Rightarrow> moved_op (h x) (frame b) (view (run_close E b run) j)))"
proof (induction es arbitrary: b run)
  case (Cons e es)
  obtain i x where e: "e = (i, x)" by (cases e)
  have i: "i < bk_npages b" and ro: "run_ok run i" using Cons.prems e by simp_all
  obtain b1 run1 where s: "entry_step E op (i, x) (b, run) = (b1, run1)" by (cases "entry_step E op (i, x) (b, run)")
  note a = entry_step_acts [where op = op and h = h, OF E Cons.prems(1) i ro op s]
  have n: "bk_npages b1 = bk_npages b" using frame_eqD(1) [OF a(3)] .
  have ro1: "run_ok run1 (if es = [] then bk_npages b1 else fst (hd es))"
    using run_ok_mono [OF a(4)] Cons.prems(2) e i n by (cases es) simp_all
  have ih: "block_ok b2 \<and> frame b2 = frame b1 \<and> run_ok run2 (bk_npages b1) \<and>
    (\<forall>j < bk_npages b1. view (run_close E b2 run2) j =
       (case map_of es j of None \<Rightarrow> view (run_close E b1 run1) j
        | Some x \<Rightarrow> moved_op (h x) (frame b1) (view (run_close E b1 run1) j)))"
    using Cons.IH [OF a(2) _ _ ro1] Cons.prems(2,3,5) e s n by simp
  have nb: "bk_npages (run_close E b run) = bk_npages b" "frame (run_close E b run) = frame b"
    using run_close_acts [OF E Cons.prems(1) run_ok_mono [OF ro]] i acts_onD(2,3) by auto
  have ni: "map_of es i = None" using Cons.prems(2) e by (auto simp: map_of_eq_None_iff)
  show ?case
    using ih a(3) n acts_onD(4) [OF a(1)] nb ni e by (auto split: option.split)
qed simp

section \<open>The two lists\<close>

definition status_key :: "u64 \<times> byte \<Rightarrow> nat \<times> byte" where
  "status_key e = (unat (fst e), snd e)"

definition data_key :: "u64 \<times> bytes \<Rightarrow> nat \<times> bool \<times> bytes" where
  "data_key e = (unat (delta_page (fst e)), fst e AND DELTA_IDX_CLEAN \<noteq> 0, snd e)"

lemma apply_statii_fold:
  assumes "env_ok E"
  shows "block_ok b \<Longrightarrow> sorted_wrt (<) (map (fst \<circ> status_key) es) \<Longrightarrow> \<forall>e\<in>set es. unat (fst e) < bk_npages b \<Longrightarrow>
    run_ok run (if es = [] then bk_npages b else unat (fst (hd es))) \<Longrightarrow>
    apply_statii E (length es) b run (concat (map status_bytes es) @ s) =
      (case fold (entry_step E (\<lambda>st b i. note_status b i st)) (map status_key es) (b, run) of
         (b', run') \<Rightarrow> (b', run', s, None))"
proof (induction es arbitrary: b run)
  case (Cons e es)
  obtain b1 run1 where st: "entry_step E (\<lambda>st b i. note_status b i st) (status_key e) (b, run) = (b1, run1)"
    by (cases "entry_step E (\<lambda>st b i. note_status b i st) (status_key e) (b, run)")
  have i: "unat (fst e) < bk_npages b" "run_ok run (unat (fst e))" using Cons.prems by simp_all
  have op: "page_op (\<lambda>b i. note_status b i x) (\<lambda>_. status_v x)" for x by (rule stat.page_op_axioms)
  note a = entry_step_acts [where op = "\<lambda>st b i. note_status b i st" and h = "\<lambda>st _. status_v st",
      OF assms Cons.prems(1) i op st [unfolded status_key_def]]
  have "apply_statii E (length (e # es)) b run (concat (map status_bytes (e # es)) @ s) =
      apply_statii E (length es) b1 run1 (concat (map status_bytes es) @ s)"
    using i st by (auto simp: status_bytes_def take_bytes_def entry_step_def status_key_def Let_def split: if_splits)
  also have "\<dots> = (case fold (entry_step E (\<lambda>st b i. note_status b i st)) (map status_key es) (b1, run1) of
         (b', run') \<Rightarrow> (b', run', s, None))"
    using Cons.prems a frame_eqD(1) [OF a(3)]
    by (intro Cons.IH) (auto simp: status_key_def intro: run_ok_mono [OF a(4)] split: if_splits, cases es, auto intro: run_ok_mono [OF a(4)])
  finally show ?case using st by simp
qed simp

text \<open>A page's data.\<close>

definition data_op :: "bool \<times> bytes \<Rightarrow> mb_block \<Rightarrow> nat \<Rightarrow> mb_block" where
  "data_op x b i =
    (let b2 = upd_page (pg_live_update (\<lambda>_. snd x)) (upd_page (\<lambda>p. fst (mb_page_maybe_snapshot True p)) b i) i
     in if fst x \<and> \<not> pg_invisible (bk_pages b2 ! i) then set_dirty b2 i False
        else (let c = set_dirty b2 i True
              in if pg_hot (bk_pages c ! i) then upd_page (\<lambda>p. p\<lparr>pg_shadow := Some (pg_live p)\<rparr>) c i else c))"

definition data_v :: "bool \<times> bytes \<Rightarrow> pview \<Rightarrow> pview" where
  "data_v x v =
    (let w = put_live_v (snd x) (snap_v True v)
     in if fst x \<and> \<not> pg_invisible (v_page v) then dirty_v False w else shadow_v (dirty_v True w))"

lemma shadow_op:
  "page_op (\<lambda>b i. if pg_hot (bk_pages b ! i) then upd_page (\<lambda>p. p\<lparr>pg_shadow := Some (pg_live p)\<rparr>) b i else b) (\<lambda>_. shadow_v)"
  by (rule page_op_cong [OF page_op_if [OF page_op_upd [of "\<lambda>p. p\<lparr>pg_shadow := Some (pg_live p)\<rparr>"] page_op_skip,
      of "\<lambda>b i. pg_hot (bk_pages b ! i)" "\<lambda>fr v. pg_hot (v_page v)"]])
     (simp_all add: keeps_mapped_def shadow_v_def)

lemma data_page_op: "page_op (data_op x) (\<lambda>_. data_v x)"
proof (rule page_op_cong [OF page_op_comp [OF page_op_comp [OF snap.page_op_axioms [of True] putl.page_op_axioms [of "snd x"]]
    page_op_if [OF dirt.page_op_axioms [of False] page_op_comp [OF dirt.page_op_axioms [of True] shadow_op],
      of "\<lambda>b i. fst x \<and> \<not> pg_invisible (bk_pages b ! i)" "\<lambda>fr v. fst x \<and> \<not> pg_invisible (v_page v)"]]])
  show "data_v x v = (if fst x \<and> \<not> pg_invisible (v_page (put_live_v (snd x) (snap_v True v)))
       then dirty_v False (put_live_v (snd x) (snap_v True v))
       else shadow_v (dirty_v True (put_live_v (snd x) (snap_v True v))))" for v
    by (auto simp: data_v_def put_live_v_def snap_v_def mb_page_maybe_snapshot_def Let_def)
qed (simp_all add: data_op_def Let_def)

lemma clean_not_hot:
  assumes "block_ok b" "i < bk_npages b"
  shows "\<not> pg_hot (bk_pages (set_dirty b i False) ! i)"
  using dirt.op_view [OF assms assms(2), of False] hot_dirty_v [OF block_ok_view [OF assms]]
  by simp (metis view_sel(1))

lemma apply_page_step:
  assumes E: "env_ok E" and b: "block_ok b" and i: "unat (delta_page idx) < bk_npages b" and l: "length bs = MB_PAGESIZE"
  shows "apply_page E b run (bs @ s) idx =
    (case entry_step E data_op (data_key (idx, bs)) (b, run) of (b', run') \<Rightarrow> (b', run', s, None))"
proof -
  let ?i = "unat (delta_page idx)"
  define b1 where "b1 = upd_page (\<lambda>p. fst (mb_page_maybe_snapshot True p)) b ?i"
  define b2 where "b2 = upd_page (pg_live_update (\<lambda>_. bs)) b1 ?i"
  have b1: "block_ok b1" "?i < bk_npages b1" using snap.op_ok [OF b i] i by (simp_all add: b1_def)
  have b2: "block_ok b2" "?i < bk_npages b2" using putl.op_ok [OF b1] b1(2) by (simp_all add: b2_def)
  have r: "read_page (fst (page_snapshot E b ?i)) ?i (bs @ s) = (b2, s, True)"
    using E l by (simp add: read_page_def snapshot_granted b1_def b2_def)
  show ?thesis
    using clean_not_hot [OF b2] i
    unfolding apply_page_def Let_def r
    by (auto simp: entry_step_def data_key_def data_op_def b1_def [symmetric] b2_def [symmetric] Let_def
        split: prod.splits)
qed

lemma apply_data_fold:
  assumes E: "env_ok E"
  shows "block_ok b \<Longrightarrow> sorted_wrt (<) (map (fst \<circ> data_key) es) \<Longrightarrow>
    \<forall>e\<in>set es. unat (delta_page (fst e)) < bk_npages b \<and> length (snd e) = MB_PAGESIZE \<Longrightarrow>
    run_ok run (if es = [] then bk_npages b else unat (delta_page (fst (hd es)))) \<Longrightarrow>
    apply_data E (length es) b run (concat (map data_bytes es) @ s) =
      (case fold (entry_step E data_op) (map data_key es) (b, run) of (b', run') \<Rightarrow> (b', run', s, None))"
proof (induction es arbitrary: b run)
  case (Cons e es)
  obtain b1 run1 where st: "entry_step E data_op (data_key e) (b, run) = (b1, run1)"
    by (cases "entry_step E data_op (data_key e) (b, run)")
  have i: "unat (delta_page (fst e)) < bk_npages b" "run_ok run (unat (delta_page (fst e)))" "length (snd e) = MB_PAGESIZE"
    using Cons.prems by simp_all
  note a = entry_step_acts [where op = data_op and h = "\<lambda>x _. data_v x",
      OF E Cons.prems(1) i(1,2) data_page_op st [unfolded data_key_def]]
  have "apply_data E (length (e # es)) b run (concat (map data_bytes (e # es)) @ s) =
      apply_data E (length es) b1 run1 (concat (map data_bytes es) @ s)"
    using apply_page_step [OF E Cons.prems(1) i(1,3), of run "concat (map data_bytes es) @ s"] st
    by (simp add: data_bytes_def)
  also have "\<dots> = (case fold (entry_step E data_op) (map data_key es) (b1, run1) of (b', run') \<Rightarrow> (b', run', s, None))"
    using Cons.prems a frame_eqD(1) [OF a(3)]
    by (intro Cons.IH) (auto simp: data_key_def intro: run_ok_mono [OF a(4)] split: if_splits, cases es, auto intro: run_ok_mono [OF a(4)])
  finally show ?case using st by simp
qed simp

section \<open>The whole delta\<close>

definition parts_sorted :: "delta_parts \<Rightarrow> bool" where
  "parts_sorted d \<longleftrightarrow> parts_ok d \<and> sorted_wrt (<) (map (fst \<circ> status_key) (dp_status d)) \<and>
     sorted_wrt (<) (map (fst \<circ> data_key) (dp_data d))"

definition entry_v :: "(nat \<times> 'a) list \<Rightarrow> ('a \<Rightarrow> pview \<Rightarrow> pview) \<Rightarrow> bframe \<Rightarrow> nat \<Rightarrow> pview \<Rightarrow> pview" where
  "entry_v es h fr j v = (case map_of es j of None \<Rightarrow> v | Some x \<Rightarrow> moved_op (\<lambda>_. h x) fr v)"

definition applied_v :: "delta_parts \<Rightarrow> bframe \<Rightarrow> nat \<Rightarrow> pview \<Rightarrow> pview" where
  "applied_v d fr j v =
    entry_v (map data_key (dp_data d)) data_v fr j (entry_v (map status_key (dp_status d)) status_v fr j v)"

lemma run_ok_None: "run_ok None i" by simp

lemma entry_list_acts:
  assumes E: "env_ok E" and b: "block_ok b" and op: "\<And>x. page_op (op x) (\<lambda>_. h x)"
    and s: "sorted_wrt (<) (map fst es)" and n: "\<forall>e\<in>set es. fst e < bk_npages b"
    and r: "fold (entry_step E op) es (b, None) = (b2, run2)"
  shows "block_ok (run_close E b2 run2)" "frame (run_close E b2 run2) = frame b"
    "j < bk_npages b \<Longrightarrow> view (run_close E b2 run2) j = entry_v es h (frame b) j (view b j)"
proof -
  have l: "block_ok b2 \<and> frame b2 = frame b \<and> run_ok run2 (bk_npages b) \<and>
    (\<forall>j < bk_npages b. view (run_close E b2 run2) j =
       (case map_of es j of None \<Rightarrow> view (run_close E b None) j
        | Some x \<Rightarrow> moved_op (\<lambda>_. h x) (frame b) (view (run_close E b None) j)))"
    using entry_loop_acts [where h = "\<lambda>x _. h x", OF E op b s n run_ok_None r] .
  then have "acts_on refresh_v (run_pages run2) b2 (run_close E b2 run2)"
    using run_close_acts [OF E] frame_eqD(1) [of b2 b] by simp
  then show "block_ok (run_close E b2 run2)" "frame (run_close E b2 run2) = frame b" using l by (simp_all add: acts_on_def)
  show "view (run_close E b2 run2) j = entry_v es h (frame b) j (view b j)" if "j < bk_npages b"
    using l that by (simp add: entry_v_def run_close_def split: option.split)
qed

lemma apply_lists_acts:
  assumes E: "env_ok E" and b: "block_ok b" and d: "parts_sorted d" and n: "unat (dp_npages d) = bk_npages b"
  obtains b2 run2 where
    "apply_lists E b (length (dp_status d)) (concat (map status_bytes (dp_status d)) @
       u64_bytes (of_nat (length (dp_data d))) @ concat (map data_bytes (dp_data d)) @ s) = (b2, run2, s, None)"
    "block_ok (run_close E b2 run2)" "frame (run_close E b2 run2) = frame b"
    "\<And>j. j < bk_npages b \<Longrightarrow> view (run_close E b2 run2) j = applied_v d (frame b) j (view b j)"
proof -
  note p = d [unfolded parts_sorted_def]
  have k: "\<forall>e\<in>set (dp_status d). unat (fst e) < bk_npages b"
      "\<forall>e\<in>set (dp_data d). unat (delta_page (fst e)) < bk_npages b \<and> length (snd e) = MB_PAGESIZE"
    using p n by (auto simp: parts_ok_def word_less_nat_alt)
  obtain b1 run1 where 1: "fold (entry_step E (\<lambda>st b i. note_status b i st)) (map status_key (dp_status d)) (b, None) = (b1, run1)"
    by (cases "fold (entry_step E (\<lambda>st b i. note_status b i st)) (map status_key (dp_status d)) (b, None)")
  define c where "c = run_close E b1 run1"
  have op: "page_op (\<lambda>b i. note_status b i x) (\<lambda>_. status_v x)" for x by (rule stat.page_op_axioms)
  have c: "block_ok c" "frame c = frame b"
      "\<And>j. j < bk_npages b \<Longrightarrow> view c j = entry_v (map status_key (dp_status d)) status_v (frame b) j (view b j)"
    unfolding c_def using entry_list_acts [where h = status_v, OF E b op _ _ 1] p k(1) by (auto simp: status_key_def o_def)
  have nc: "bk_npages c = bk_npages b" using frame_eqD(1) [OF c(2)] .
  obtain b2 run2 where 2: "fold (entry_step E data_op) (map data_key (dp_data d)) (c, None) = (b2, run2)"
    by (cases "fold (entry_step E data_op) (map data_key (dp_data d)) (c, None)")
  have f: "block_ok (run_close E b2 run2)" "frame (run_close E b2 run2) = frame c"
      "\<And>j. j < bk_npages c \<Longrightarrow> view (run_close E b2 run2) j = entry_v (map data_key (dp_data d)) data_v (frame c) j (view c j)"
    using entry_list_acts [where h = data_v, OF E c(1) data_page_op _ _ 2] p k(2) nc by (auto simp: data_key_def o_def)
  have u: "unat (of_nat (length (dp_data d)) :: u64) = length (dp_data d)"
    using unat_count(2) p by (simp add: unat_of_nat)
  have "apply_lists E b (length (dp_status d)) (concat (map status_bytes (dp_status d)) @
       u64_bytes (of_nat (length (dp_data d))) @ concat (map data_bytes (dp_data d)) @ s) = (b2, run2, s, None)"
    using apply_statii_fold [OF E b, of "dp_status d" None] apply_data_fold [OF E c(1), of "dp_data d" None s] p k nc 1 2 u
    by (simp add: apply_lists_def c_def Let_def o_def)
  then show ?thesis using that f c(2,3) nc by (simp add: applied_v_def)
qed

lemma delta_apply_acts:
  assumes E: "env_ok E" and b: "block_ok b" and sealed: "bk_sealed b"
    and d: "parts_sorted d" and n: "unat (dp_npages d) = bk_npages b"
  obtains b' where "mb_block_delta_apply E b (delta_bytes d @ s) = (b', s, Inr ())"
    "block_ok b'" "frame b' = (frame b)\<lparr>fr_touched := True, fr_epoch := False\<rparr>"
    "\<And>j. j < bk_npages b \<Longrightarrow> view b' j = forget_v (applied_v d ((frame b)\<lparr>fr_touched := True\<rparr>) j (view b j))"
proof -
  define b1 where "b1 = b\<lparr>bk_load_touched := True\<rparr>"
  have b1: "block_ok b1" "bk_npages b1 = bk_npages b" "frame b1 = (frame b)\<lparr>fr_touched := True\<rparr>" "\<And>j. view b1 j = view b j"
    using b by (simp_all add: b1_def)
  obtain b2 run2 where r: "apply_lists E b1 (length (dp_status d)) (concat (map status_bytes (dp_status d)) @
       u64_bytes (of_nat (length (dp_data d))) @ concat (map data_bytes (dp_data d)) @ s) = (b2, run2, s, None)"
    and c: "block_ok (run_close E b2 run2)" "frame (run_close E b2 run2) = frame b1"
    and v: "\<And>j. j < bk_npages b1 \<Longrightarrow> view (run_close E b2 run2) j = applied_v d (frame b1) j (view b1 j)"
    by (rule apply_lists_acts [OF E b1(1) d]) (use n b1 in auto)
  have u: "unat (of_nat (length (dp_status d)) :: u64) = length (dp_status d)"
    using unat_count(1) d by (simp add: unat_of_nat parts_sorted_def)
  note f = epoch_forget_eq [OF c(1)]
  have n2: "bk_npages (run_close E b2 run2) = bk_npages b" using frame_eqD(1) [OF c(2)] b1 by simp
  have "mb_block_delta_apply E b (delta_bytes d @ s) = (mb_block_epoch_clear (run_close E b2 run2), s, Inr ())"
    using sealed n u r by (simp add: mb_block_delta_apply_def delta_bytes_def b1_def Let_def)
  then show ?thesis
    using that f c b1 v n2 by (simp add: mb_block_epoch_clear_def)
qed

end
