(* ===== verification/Mb_Mem_Ops.thy ===== *)
theory Mb_Mem_Ops
  imports Mb_Epoch
begin

text \<open>
  Every memory operation keeps the block's invariant, on every branch: an
  operation that answers an error leaves the block as it was, the others act on
  pages one by one.
\<close>

definition block_wf :: "mb_block \<Rightarrow> bool" where
  "block_wf b \<longleftrightarrow> block_inv b \<and> unat (rg_size (bk_addr b)) = bk_npages b * MB_PAGESIZE"

lemma block_wfD: "block_wf b \<Longrightarrow> block_inv b" "block_wf b \<Longrightarrow> block_ok b"
  "block_wf b \<Longrightarrow> unat (rg_size (bk_addr b)) = bk_npages b * MB_PAGESIZE"
  by (simp_all add: block_wf_def block_inv_def)

lemma block_wf_acts:
  assumes "block_wf b" "acts_on g I b b'" "safe_v (frame b) g"
  shows "block_wf b'"
  using assms block_inv_acts [of b g I b'] frame_eqD(1,2) [OF acts_onD(2) [OF assms(2)]]
  by (simp add: block_wf_def)

lemma block_wf_same:
  assumes "block_wf b" "block_inv b'" "bk_addr b' = bk_addr b" "bk_npages b' = bk_npages b"
  shows "block_wf b'"
  using assms by (simp add: block_wf_def)

lemma wf_bounds: "block_wf b \<Longrightarrow> validate b addr = Some (ps, pcount) \<Longrightarrow> ps + pcount \<le> bk_npages b"
  using validate_bounds(1) by (simp add: block_wf_def)

section \<open>Protections and statuses\<close>

lemma set_protections_wf:
  "env_ok E \<Longrightarrow> block_wf b \<Longrightarrow> ps + n \<le> bk_npages b \<Longrightarrow> block_wf (set_protections E b ps n st)"
  by (rule block_wf_acts [OF _ set_protections_acts]) (simp_all add: block_wfD safe_protect)

lemma free_pages_wf:
  "env_ok E \<Longrightarrow> block_wf b \<Longrightarrow> ps + n \<le> bk_npages b \<Longrightarrow> block_wf (free_pages E b ps n advise_only)"
  by (rule block_wf_acts [OF _ free_pages_acts]) (simp_all add: block_wfD safe_free)

lemma overlap_wf:
  "env_ok E \<Longrightarrow> block_wf b \<Longrightarrow> endp \<le> bk_npages b \<Longrightarrow>
     block_wf (zero_overlap_from E b i endp) \<and> bk_npages (zero_overlap_from E b i endp) = bk_npages b"
  using zero_overlap_acts [of E b endp i] block_wf_acts [of b overlap_v "{i..<endp}"]
  by (auto simp: block_wfD safe_overlap dest: acts_onD(3))

lemma mmap_fixed_wf:
  assumes "env_ok E" "block_wf b"
  shows "block_wf (fst (mmap_fixed_impl E b addr prot no_replace zero_overlap))"
  using assms wf_bounds [OF assms(2), of addr] overlap_wf [OF assms, of _]
  by (auto simp: mmap_fixed_impl_def Let_def set_protections_wf split: option.split)

lemma find_free_run:
  assumes "block_ok b" "as + acount \<le> bk_npages b" "find_free_pages b as acount n = Some ps" "0 < n"
  shows "free_run (page_free b) as (as + acount) n ps"
  using assms walk_free_spec [of n "page_free b" as acount] find_free_walk [of b as acount n] by simp

lemma find_free_bounds:
  assumes "block_ok b" "as + acount \<le> bk_npages b" "find_free_pages b as acount n = Some ps" "0 < n"
  shows "ps + n \<le> bk_npages b"
  using find_free_run [OF assms] assms(2) by (simp add: free_run_def)

lemma pages_pos: "sz \<noteq> 0 \<Longrightarrow> sz = mb_align_down sz \<Longrightarrow> 0 < unat (drop_bit 12 sz)" for sz :: u64
proof -
  assume "sz \<noteq> 0" "sz = mb_align_down sz"
  then have "unat sz = unat sz div MB_PAGESIZE * MB_PAGESIZE" "0 < unat sz"
    using unat_mb_align_down [of sz] by (simp_all add: unat_gt_0)
  then have "0 < unat sz div MB_PAGESIZE" by (metis gr0I less_irrefl mult_0)
  then show ?thesis by (simp add: unat_div drop_bit_eq_div MB_PAGESIZE_def)
qed

lemma mmap_wf:
  assumes E: "env_ok E" and b: "block_wf b"
  shows "block_wf (fst (mb_block_mmap E b addr prot arena no_replace zero_overlap))"
proof (cases "rg_size addr = 0 \<or> rg_start addr \<noteq> 0 \<or> rg_size addr \<noteq> mb_align_down (rg_size addr)")
  case True
  then show ?thesis
    using mmap_fixed_wf [OF assms, of addr prot no_replace zero_overlap] b
    by (auto simp: mb_block_mmap_def split: prod.split sum.split)
next
  case False
  then have "0 < unat (drop_bit 12 (rg_size addr))" using pages_pos by simp
  then show ?thesis
    using False b find_free_bounds [OF block_wfD(2) [OF b] wf_bounds [OF b]]
    by (auto simp: mb_block_mmap_def Let_def E intro!: set_protections_wf split: option.split)
qed

lemma mprotect_wf: "env_ok E \<Longrightarrow> block_wf b \<Longrightarrow> block_wf (fst (mb_block_mprotect E b addr prot))"
  using wf_bounds [of b addr] by (auto simp: mb_block_mprotect_def set_protections_wf split: option.split)

lemma munmap_impl_wf: "env_ok E \<Longrightarrow> block_wf b \<Longrightarrow> block_wf (fst (munmap_impl E b addr advise_only))"
  using wf_bounds [of b addr] by (auto simp: munmap_impl_def free_pages_wf split: option.split)

lemma validate_eq: "validate b addr = Some (ps, pcount) \<Longrightarrow>
    ps = unat (drop_bit 12 (rg_start addr - rg_start (bk_addr b))) \<and> pcount = unat (drop_bit 12 (rg_size addr))"
  by (auto simp: validate_def Let_def split: if_splits)

lemma grow_same:
  assumes "validate b addr = Some (ps, pcount)" "rg_size addr < new_size"
    "validate b \<lparr>rg_start = rg_start addr, rg_size = new_size\<rparr> = Some (fs, fcount)"
  shows "fs = ps" "pcount \<le> fcount"
  using validate_eq [OF assms(1)] validate_eq [OF assms(3)] assms(2)
  by (simp_all add: drop_bit_eq_div unat_div word_less_nat_alt div_le_mono)

lemma mremap_grow:
  assumes "block_wf b" "validate b addr = Some (ps, pcount)" "rg_size addr < new_size"
    "validate b \<lparr>rg_start = rg_start addr, rg_size = new_size\<rparr> = Some (fs, fcount)"
  shows "fs = ps" "pcount \<le> fcount" "ps + pcount + (fcount - pcount) \<le> bk_npages b"
  using grow_same [OF assms(2-4)] wf_bounds [OF assms(1,4)] by simp_all

lemma mremap_wf:
  assumes E: "env_ok E" and b: "block_wf b"
  shows "block_wf (fst (mb_block_mremap E b addr new_size))"
proof (cases "validate b addr")
  case None
  then show ?thesis using b by (simp add: mb_block_mremap_def)
next
  case (Some r)
  then obtain ps pcount where v: "validate b addr = Some (ps, pcount)" by (cases r) simp
  show ?thesis
  proof (cases "rg_size addr < new_size")
    case True
    have "block_wf (set_protections E b (ps + pcount) (fcount - pcount) st)"
      if "validate b \<lparr>rg_start = rg_start addr, rg_size = new_size\<rparr> = Some (fs, fcount)" for fs fcount st
      using set_protections_wf [OF E b mremap_grow(3) [OF b v True that]] .
    then show ?thesis using v True b by (simp add: mb_block_mremap_def split: option.split)
  next
    case False
    then show ?thesis
      using v b munmap_impl_wf [OF E b, of "\<lparr>rg_start = rg_start addr + new_size, rg_size = rg_size addr - new_size\<rparr>" False]
      by (auto simp: mb_block_mremap_def split: prod.split sum.split)
  qed
qed

section \<open>Writes of the guest\<close>

lemma guest_write_wf:
  "env_ok E \<Longrightarrow> block_wf b \<Longrightarrow> bk_swapped_in b \<Longrightarrow> i < bk_npages b \<Longrightarrow> off + length xs \<le> MB_PAGESIZE \<Longrightarrow>
     block_wf (fst (guest_write E b i off xs))"
  by (rule block_wf_acts [OF _ guest_write_acts(1)]) (simp_all add: block_wfD safe_write)

section \<open>Marking invisible, activation\<close>

definition invis_v :: "pview \<Rightarrow> pview" where
  "invis_v v = (let w = dirty_v True v in w\<lparr>v_page := (v_page w)\<lparr>pg_invisible := True\<rparr>\<rparr>)"

lemma invis_op: "page_op (\<lambda>b i. upd_page (\<lambda>p. p\<lparr>pg_invisible := True\<rparr>) (set_dirty b i True) i) (\<lambda>_. invis_v)"
  by (rule page_op_cong [OF page_op_comp [OF dirt.page_op_axioms page_op_upd [of "pg_invisible_update (\<lambda>_. True)"]]])
     (simp_all add: invis_v_def Let_def)

lemma page_loose_invis: "\<not> fr_sealed fr \<Longrightarrow> page_ok fr v \<Longrightarrow> page_loose fr (invis_v v)"
  using page_ok_loose [of fr v] view_dirty_zero(1) [of v True] track_dirty_zero(1) [of fr v True]
  by (auto simp: page_loose_def invis_v_def view_ok_def track_loose_def snap_ok_def dirty_v_def Let_def)

lemma mark_invisible_wf:
  assumes E: "env_ok E" and b: "block_wf b"
  shows "block_wf (fst (mb_block_mark_invisible E b addr))"
proof (cases "bk_sealed b \<or> validate b addr = None")
  case True
  then show ?thesis using b by (auto simp: mb_block_mark_invisible_def)
next
  case False
  then obtain ps n where v: "validate b addr = Some (ps, n)" by auto
  note n = wf_bounds [OF b v]
  define b1 where "b1 = fold (\<lambda>i b. upd_page (\<lambda>p. p\<lparr>pg_invisible := True\<rparr>) (set_dirty b i True) i) [ps..<ps + n] b"
  have a1: "acts_on (\<lambda>_. invis_v) {ps..<ps + n} b b1"
    using acts_on_fold [OF invis_op block_wfD(2) [OF b], of "[ps..<ps + n]"] n by (simp add: b1_def)
  note d = acts_onD [OF a1]
  have "acts_on refresh_v {ps..<ps + n} b1 (refresh_range E b1 ps n)"
    using refresh_range_acts [OF E d(1)] d(3) n by simp
  with a1 have "acts_on (\<lambda>fr v. refresh_v fr (invis_v v)) {ps..<ps + n} b (refresh_range E b1 ps n)"
    by (rule acts_on_trans)
  moreover have "safe_v (frame b) (\<lambda>fr v. refresh_v fr (invis_v v))"
    using False page_loose_invis page_loose_refresh by (simp add: safe_v_def) (simp add: invis_v_def Let_def)
  ultimately show ?thesis
    using block_wf_acts [OF b] False v by (simp add: mb_block_mark_invisible_def b1_def)
qed

lemma page_loose_swap:
  "page_ok fr v \<Longrightarrow> \<not> fr_swapped fr \<Longrightarrow> page_loose (fr\<lparr>fr_swapped := True\<rparr>) v"
  by (auto simp: page_ok_def page_loose_def track_v_def track_loose_def Let_def)

lemma active_upd: "block_inv (b\<lparr>bk_active := q\<rparr>) = block_inv b"
  by (simp add: block_inv_def plan_ok_def page_ok_def track_v_def)

lemma activate_wf:
  assumes E: "env_ok E" and b: "block_wf b" and r: "mb_block_activate E mapped b = Some b'"
  shows "block_wf b'"
proof (cases "bk_active b \<or> bk_swapped_in b")
  case True
  then show ?thesis using b r by (auto simp: mb_block_activate_def block_wf_def active_upd split: if_splits)
next
  case False
  define b1 where "b1 = b\<lparr>bk_swapped_in := True\<rparr>"
  have n: "bk_npages b1 = bk_npages b" "bk_plan_list b1 = bk_plan_list b" "block_ok b1"
    using block_wfD(2) [OF b] by (simp_all add: b1_def)
  define b2 where "b2 = refresh_all E b1"
  have a: "acts_on refresh_v {..<bk_npages b} b1 b2"
    using refresh_range_acts [OF E n(3), of 0 "bk_npages b1"] n(1)
    by (simp add: b2_def refresh_all_def lessThan_atLeast0)
  note d = acts_onD [OF a]
  have "block_inv b2"
  proof (rule block_invI [OF block_wfD(1) [OF b] d(1)])
    show "bk_npages b2 = bk_npages b" "bk_plan_list b2 = bk_plan_list b"
      using frame_eqD(1,12) [OF d(2)] n by simp_all
    fix j assume j: "j < bk_npages b"
    have v: "view b2 j = refresh_v (frame b1) (view b j)" using d(4) [of j] n j by (simp add: b1_def)
    have f1: "frame b1 = (frame b)\<lparr>fr_swapped := True\<rparr>" by (simp add: b1_def)
    have "page_loose (frame b1) (view b j)"
      unfolding f1 using block_invD(2) [OF block_wfD(1) [OF b] j] False by (intro page_loose_swap) simp_all
    then show "page_ok (frame b2) (view b2 j)" unfolding v d(2) by (rule page_loose_refresh)
    show "pg_plan_hold (v_page (view b2 j)) \<Longrightarrow> pg_plan_hold (v_page (view b j))" unfolding v by simp
  qed
  moreover have "b' = b2\<lparr>bk_active := True\<rparr>"
    using r False by (simp add: mb_block_activate_def b2_def b1_def split: if_splits)
  ultimately show ?thesis
    using b frame_eqD(1,2) [OF d(2)] n by (simp add: block_wf_def active_upd b1_def)
qed

lemma deactivate_wf: "block_wf b \<Longrightarrow> block_wf (mb_block_deactivate b)"
  by (simp add: mb_block_deactivate_def block_wf_def active_upd)

section \<open>The seal\<close>

definition baseline_now :: "mb_page \<Rightarrow> mb_page" where
  "baseline_now p = p\<lparr>pg_snap := if list_all (\<lambda>x. x = 0) (pg_live p) then MB_SNAP_ZERO else MB_SNAP_NONE\<rparr>"

definition seal_v :: "pview \<Rightarrow> pview" where
  "seal_v v =
    (if pg_dirty (v_page v) \<and> \<not> pg_invisible (v_page v)
     then (let w = dirty_v False (cool_v v) in w\<lparr>v_page := baseline_now (v_page w)\<rparr>)
     else v)"

lemma upd_page_upd: "i < bk_npages b \<Longrightarrow> upd_page f (upd_page g b i) i = upd_page (\<lambda>p. f (g p)) b i"
  by (simp add: upd_page_def bk_npages_def)

lemma seal_page_eq:
  assumes "block_ok b" "i < bk_npages b"
  shows "seal_page b i =
    (if pg_dirty (bk_pages b ! i) \<and> \<not> pg_invisible (bk_pages b ! i)
     then upd_page baseline_now (set_dirty (page_cool b i) i False) i else b)"
proof -
  let ?b = "set_dirty (page_cool b i) i False"
  have c: "block_ok (page_cool b i)" "i < bk_npages (page_cool b i)"
    using cool.op_ok [OF assms] cool.op_npages [OF assms] assms(2) by simp_all
  have i: "i < bk_npages ?b" using dirt.op_npages [OF c] c(2) by simp
  have "upd_page (\<lambda>p. p\<lparr>pg_snap := MB_SNAP_ZERO\<rparr>) (upd_page (\<lambda>p. p\<lparr>pg_snap := MB_SNAP_NONE\<rparr>) ?b i) i =
      upd_page (\<lambda>p. p\<lparr>pg_snap := MB_SNAP_ZERO\<rparr>) ?b i"
    using upd_page_upd [OF i, of "\<lambda>p. p\<lparr>pg_snap := MB_SNAP_ZERO\<rparr>" "\<lambda>p. p\<lparr>pg_snap := MB_SNAP_NONE\<rparr>"] by simp
  moreover have "upd_page baseline_now ?b i =
      (if list_all (\<lambda>x. x = 0) (pg_live (bk_pages ?b ! i)) then upd_page (\<lambda>p. p\<lparr>pg_snap := MB_SNAP_ZERO\<rparr>) ?b i
       else upd_page (\<lambda>p. p\<lparr>pg_snap := MB_SNAP_NONE\<rparr>) ?b i)"
    by (simp add: upd_page_def baseline_now_def)
  ultimately show ?thesis using i by (simp add: seal_page_def page_reads_back_zero_def Let_def)
qed

lemma page_op_cong_ok:
  assumes "page_op op g" "\<And>b i. block_ok b \<Longrightarrow> i < bk_npages b \<Longrightarrow> op' b i = op b i"
    and "\<And>fr v. g' fr v = g fr v"
  shows "page_op op' g'"
  using assms(1) unfolding page_op_def assms(3) by (simp add: assms(2))

lemma keeps_baseline: "keeps_mapped baseline_now"
  by (simp add: keeps_mapped_def baseline_now_def)

lemma seal_op: "page_op seal_page (\<lambda>_. seal_v)"
  by (rule page_op_cong_ok [OF page_op_if [OF
        page_op_comp [OF page_op_comp [OF cool.page_op_axioms dirt.page_op_axioms] page_op_upd [OF keeps_baseline]]
        page_op_skip,
      of "\<lambda>b i. pg_dirty (bk_pages b ! i) \<and> \<not> pg_invisible (bk_pages b ! i)"
         "\<lambda>fr v. pg_dirty (v_page v) \<and> \<not> pg_invisible (v_page v)"]])
     (auto simp: seal_page_eq seal_v_def Let_def)

lemma zero_pageI: "list_all (\<lambda>x. x = 0) xs \<Longrightarrow> length xs = MB_PAGESIZE \<Longrightarrow> xs = zero_page"
  by (simp add: zero_page_def list_eq_iff_nth_eq list_all_length)

lemma snap_baseline_now: "length (pg_live p) = MB_PAGESIZE \<Longrightarrow> \<not> pg_dirty p \<Longrightarrow> snap_ok (baseline_now p)"
  using zero_pageI [of "pg_live p"] by (simp add: snap_ok_def baseline_now_def page_baseline_def)

lemma page_loose_seal: "page_loose fr v \<Longrightarrow> page_loose fr (seal_v v)"
proof -
  assume v: "page_loose fr v"
  define w where "w = dirty_v False (cool_v v)"
  have w: "view_ok w" "track_loose fr w" "length (pg_live (v_page w)) = MB_PAGESIZE" "\<not> pg_dirty (v_page w)"
    using v by (auto simp: page_loose_def w_def view_ok_def track_loose_def snap_ok_def dirty_v_def cool_v_def Let_def)
  have "view_ok (w\<lparr>v_page := baseline_now (v_page w)\<rparr>)" "track_loose fr (w\<lparr>v_page := baseline_now (v_page w)\<rparr>)"
    using w(1,2) by (simp_all add: view_ok_def track_loose_def baseline_now_def Let_def)
  then show ?thesis using v snap_baseline_now [OF w(3,4)] by (simp add: seal_v_def page_loose_def w_def [symmetric] Let_def)
qed

lemma hold_seal: "pg_plan_hold (v_page (seal_v v)) = pg_plan_hold (v_page v)"
  by (simp add: seal_v_def baseline_now_def Let_def)

lemma sealed_upd:
  "block_inv b \<Longrightarrow> block_inv (b\<lparr>bk_sealed := True\<rparr>)" "block_inv (b\<lparr>bk_hash := h\<rparr>) = block_inv b"
  by (simp_all add: block_inv_def plan_ok_def page_ok_def track_v_def Let_def)

lemma seal_pages:
  assumes E: "env_ok E" and b: "block_inv b"
  defines "b2 \<equiv> refresh_all E (fold (\<lambda>i b. seal_page b i) [0..<bk_npages b] b)"
  shows "acts_on (\<lambda>fr v. refresh_v fr (seal_v v)) {..<bk_npages b} b b2" "block_inv b2"
proof -
  define b1 where "b1 = fold (\<lambda>i b. seal_page b i) [0..<bk_npages b] b"
  have a1: "acts_on (\<lambda>_. seal_v) {..<bk_npages b} b b1"
    using acts_on_fold [OF seal_op block_invD(1) [OF b], of "[0..<bk_npages b]"] by (simp add: b1_def lessThan_atLeast0)
  note d = acts_onD [OF a1]
  have "acts_on refresh_v {..<bk_npages b} b1 b2"
    using refresh_range_acts [OF E d(1), of 0 "bk_npages b1"] d(3)
    by (simp add: b2_def b1_def [symmetric] refresh_all_def lessThan_atLeast0)
  with a1 show a: "acts_on (\<lambda>fr v. refresh_v fr (seal_v v)) {..<bk_npages b} b b2" by (rule acts_on_trans)
  have "safe_v (frame b) (\<lambda>fr v. refresh_v fr (seal_v v))"
    by (simp add: safe_v_def page_loose_refresh page_loose_seal page_ok_loose hold_seal)
  then show "block_inv b2" by (rule block_inv_acts [OF b a])
qed

lemma seal_wf:
  assumes E: "env_ok E" and b: "block_wf b"
  shows "block_wf (fst (mb_block_seal E buf b))"
proof (cases "bk_sealed b")
  case False
  note c = epoch_clear_inv [OF block_wfD(1) [OF b]]
  have n: "bk_npages (mb_block_epoch_clear b) = bk_npages b" "bk_addr (mb_block_epoch_clear b) = bk_addr b"
    using arg_cong [OF c(2), of fr_n] arg_cong [OF c(2), of fr_addr] by simp_all
  note s = seal_pages [OF E c(1)]
  have "block_wf (refresh_all E (fold (\<lambda>i b. seal_page b i) [0..<bk_npages b] (mb_block_epoch_clear b)))"
    using s(2) frame_eqD(1,2) [OF acts_onD(2) [OF s(1)]] n b by (simp add: block_wf_def)
  then show ?thesis
    using False by (simp add: mb_block_seal_def block_wf_def sealed_upd Let_def split: option.split)
qed (use b in \<open>simp add: mb_block_seal_def\<close>)

section \<open>The new block\<close>

lemma new_block:
  assumes "mb_block_new room addr = Some b"
  shows "bk_pages b = replicate (unat (drop_bit 12 (rg_size addr))) new_page" "bk_addr b = addr"
    "rg_size addr = mb_align_down (rg_size addr)" "bk_plan_list b = []"
  using assms by (auto simp: mb_block_new_def Let_def split: if_splits)

lemma card_group:
  assumes "g * MB_GROUP_PAGES < n"
  shows "card {i. i < n \<and> i div MB_GROUP_PAGES = g} = min (n - g * MB_GROUP_PAGES) MB_GROUP_PAGES"
proof -
  have "{i. i < n \<and> i div MB_GROUP_PAGES = g} = {g * MB_GROUP_PAGES..<min n (g * MB_GROUP_PAGES + MB_GROUP_PAGES)}"
    by (auto simp: MB_GROUP_PAGES_def)
  then show ?thesis by simp
qed

lemma bits_get_zeros: "i < n \<Longrightarrow> \<not> bits_get (replicate ((n + 63) div 64) 0) i"
  using bits_get_none [of i "(n + 63) div 64"] by (simp add: bits_none_def)

lemma new_ok:
  assumes "mb_block_new room addr = Some b"
  shows "block_ok b"
proof -
  let ?n = "unat (drop_bit 12 (rg_size addr))"
  have b: "bk_epoch_bits b = replicate ((?n + 63) div 64) 0" "bk_stat_bits b = replicate ((?n + 63) div 64) 0"
      "bk_unheld_bits b = replicate ((?n + 63) div 64) 0" "bk_hot_bits b = replicate ((?n + 63) div 64) 0"
      "bk_epoch_status b = replicate ?n 0" "bk_status_map b = replicate ?n 0" "bk_dirty_map b = replicate ?n 0"
      "bk_nhot b = 0" "bk_epoch_ndirty b = 0" "bk_epoch_nstat b = 0"
      "bk_group_free b = map (\<lambda>g. let first = g * MB_GROUP_PAGES
          in if ?n - first < MB_GROUP_PAGES then ?n - first else MB_GROUP_PAGES)
        [0..<(?n + MB_GROUP_PAGES - 1) div MB_GROUP_PAGES]"
    using assms by (auto simp: mb_block_new_def Let_def split: if_splits)
  note p = new_block(1) [OF assms]
  have n: "bk_npages b = ?n" using p by (simp add: bk_npages_def)
  note z = bits_get_zeros [of _ ?n]
  have g: "bk_group_free b ! g = group_count b g" if "g < length (bk_group_free b)" for g
  proof -
    have "g < (?n + MB_GROUP_PAGES - 1) div MB_GROUP_PAGES" using that b(11) by simp
    then have lt: "g * MB_GROUP_PAGES < ?n" by (simp add: MB_GROUP_PAGES_def)
    have "{i. i < ?n \<and> i div MB_GROUP_PAGES = g \<and> pg_status (bk_pages b ! i) = MB_ST_FREE} =
        {i. i < ?n \<and> i div MB_GROUP_PAGES = g}" using p by (auto simp: new_page_def)
    then show ?thesis using that b(11) card_group [OF lt] n by (simp add: group_count_def min_def Let_def)
  qed
  show ?thesis
    unfolding block_ok_def block_lens_def page_count_def n
    using b z g p by (simp add: view_ok_def view_def new_page_def MB_ST_FREE_def)
qed

lemma new_wf:
  assumes "mb_block_new room addr = Some b"
  shows "block_wf b" "\<not> bk_sealed b" "\<not> bk_plan_active b"
proof -
  note p = new_block [OF assms]
  have fr: "\<not> fr_swapped (frame b)" "\<not> fr_epoch (frame b)" "\<not> bk_sealed b" "\<not> bk_plan_active b"
    using assms by (auto simp: mb_block_new_def Let_def split: if_splits)
  then show "\<not> bk_sealed b" "\<not> bk_plan_active b" by simp_all
  have u: "\<not> v_unheld (view b i)" "\<not> v_stat (view b i)" if "i < bk_npages b" for i
    using assms that bits_get_zeros [of i "bk_npages b"] p(1)
    by (auto simp: mb_block_new_def Let_def bk_npages_def split: if_splits)
  have "page_ok (frame b) (view b i)" if "i < bk_npages b" for i
    using block_ok_view [OF new_ok [OF assms] that] fr u [OF that] p(1) that
    by (simp add: page_ok_def track_v_def snap_ok_def new_page_def page_baseline_def zero_page_def Let_def bk_npages_def)
  then have "block_inv b"
    using new_ok [OF assms] p(1,4) by (simp add: block_inv_def plan_ok_def new_page_def bk_npages_def)
  moreover have "unat (rg_size addr) = unat (drop_bit 12 (rg_size addr)) * MB_PAGESIZE"
    using arg_cong [OF p(3), of unat] by (simp add: unat_mb_align_down unat_div drop_bit_eq_div MB_PAGESIZE_def)
  ultimately show "block_wf b" using p by (simp add: block_wf_def bk_npages_def)
qed

end
