(* ===== verification/Mb_Frame.thy ===== *)
theory Mb_Frame
  imports Mb_Mem_Ops
begin

text \<open>
  What the guest can do to its memory between two saves, as a step relation, and
  the interface its proofs share: every memory operation is made of protecting a
  stretch, giving a stretch back and storing bytes, so a relation between blocks
  that these three keep is kept by all of them and by every run.
\<close>

inductive frame_step :: "os_env \<Rightarrow> mb_block \<Rightarrow> mb_block \<Rightarrow> bool" for E where
  fr_write: "i < bk_npages b \<Longrightarrow> off + length xs \<le> MB_PAGESIZE \<Longrightarrow> frame_step E b (fst (guest_write E b i off xs))"
| fr_mmap: "frame_step E b (fst (mb_block_mmap E b addr prot arena no_replace zero_overlap))"
| fr_mmap_fixed: "frame_step E b (fst (mb_block_mmap_fixed E b addr prot no_replace))"
| fr_mprotect: "frame_step E b (fst (mb_block_mprotect E b addr prot))"
| fr_munmap: "frame_step E b (fst (mb_block_munmap E b addr))"
| fr_madvise: "frame_step E b (fst (mb_block_madvise_dontneed E b addr))"
| fr_mremap: "frame_step E b (fst (mb_block_mremap E b addr new_size))"

inductive_cases frame_stepE: "frame_step E b b'"

text \<open>
  The interface: \<open>ready\<close> is what an operation may rely on, \<open>keeps\<close> what it leaves
  true between the block it is given and the block it answers.
\<close>

locale guest_memory =
  fixes ready :: "os_env \<Rightarrow> mb_block \<Rightarrow> bool" and keeps :: "mb_block \<Rightarrow> mb_block \<Rightarrow> bool"
  assumes ready_ok: "ready E b \<Longrightarrow> block_ok b \<and> unat (rg_size (bk_addr b)) = bk_npages b * MB_PAGESIZE"
    and keeps_self: "ready E b \<Longrightarrow> keeps b b"
    and keeps_then: "keeps b b1 \<Longrightarrow> keeps b1 b2 \<Longrightarrow> keeps b b2"
    and keeps_ready: "ready E b \<Longrightarrow> keeps b b' \<Longrightarrow> ready E b' \<and> bk_npages b' = bk_npages b"
    and protect_keeps: "ready E b \<Longrightarrow> ps + n \<le> bk_npages b \<Longrightarrow> keeps b (set_protections E b ps n st)"
    and free_keeps: "ready E b \<Longrightarrow> ps + n \<le> bk_npages b \<Longrightarrow>
      all_pages (\<lambda>p. pg_status p \<noteq> MB_ST_FREE) b ps (ps + n) \<Longrightarrow> keeps b (free_pages E b ps n advise_only)"
    and write_keeps: "ready E b \<Longrightarrow> i < bk_npages b \<Longrightarrow> off + length xs \<le> MB_PAGESIZE \<Longrightarrow>
      keeps b (fst (guest_write E b i off xs))"
begin

lemma valid_bounds: "ready E b \<Longrightarrow> validate b addr = Some (ps, n) \<Longrightarrow> ps + n \<le> bk_npages b"
  using ready_ok validate_bounds(1) by blast

lemma overlap_keeps: "ready E b \<Longrightarrow> endp \<le> bk_npages b \<Longrightarrow> keeps b (zero_overlap_from E b i endp)"
proof (induction E b i endp rule: zero_overlap_from.induct)
  case (1 E b i endp)
  show ?case
  proof (cases "i < endp \<and> pg_status (bk_pages b ! i) \<noteq> MB_ST_FREE")
    case True
    let ?j = "taken_run b i endp" and ?b = "free_pages E b i (taken_run b i endp - i) True"
    have j: "i < ?j" "?j \<le> endp" using taken_run_bounds True by simp_all
    have k: "keeps b ?b"
      using j "1.prems" taken_run_taken [of i _ b endp] by (intro free_keeps) (auto simp: all_pages_def list_all_iff)
    then have "keeps ?b (zero_overlap_from E ?b ?j endp)"
      using keeps_ready [OF "1.prems"(1)] "1.prems"(2) True by (intro "1.IH"(2)) simp_all
    then show ?thesis using keeps_then [OF k] True by (subst zero_overlap_from.simps) (simp add: Let_def)
  next
    case False
    then show ?thesis
      using "1.IH"(1) "1.prems" keeps_self by (subst zero_overlap_from.simps) auto
  qed
qed

lemma munmap_keeps: "ready E b \<Longrightarrow> keeps b (fst (munmap_impl E b addr advise_only))"
  using valid_bounds [of E b addr] by (auto simp: munmap_impl_def free_keeps keeps_self split: option.split)

lemma mprotect_keeps: "ready E b \<Longrightarrow> keeps b (fst (mb_block_mprotect E b addr prot))"
  using valid_bounds [of E b addr] by (auto simp: mb_block_mprotect_def protect_keeps keeps_self split: option.split)

lemma mmap_fixed_keeps:
  assumes f: "ready E b"
  shows "keeps b (fst (mmap_fixed_impl E b addr prot no_replace zero_overlap))"
proof (cases "validate b addr")
  case (Some r)
  then obtain ps n where v: "validate b addr = Some (ps, n)" by (cases r) simp
  note n = valid_bounds [OF f v]
  define b1 where "b1 = (if zero_overlap then zero_overlap_from E b ps (ps + n) else b)"
  have 1: "keeps b b1" using overlap_keeps [OF f n] keeps_self [OF f] by (simp add: b1_def)
  have "keeps b1 (set_protections E b1 ps n (prot_status prot))"
    using keeps_ready [OF f 1] n by (simp add: protect_keeps)
  then show ?thesis
    using keeps_then [OF 1] keeps_self [OF f] v by (simp add: mmap_fixed_impl_def b1_def)
qed (use f in \<open>simp add: mmap_fixed_impl_def keeps_self\<close>)

lemma mmap_keeps:
  assumes f: "ready E b"
  shows "keeps b (fst (mb_block_mmap E b addr prot arena no_replace zero_overlap))"
proof (cases "rg_size addr = 0 \<or> rg_start addr \<noteq> 0 \<or> rg_size addr \<noteq> mb_align_down (rg_size addr)")
  case True
  then show ?thesis
    using mmap_fixed_keeps [OF f, of addr prot no_replace zero_overlap] keeps_self [OF f]
    by (auto simp: mb_block_mmap_def split: prod.split sum.split)
next
  case False
  then have "0 < unat (drop_bit 12 (rg_size addr))" using pages_pos by simp
  then show ?thesis
    using False keeps_self [OF f] find_free_bounds [OF conjunct1 [OF ready_ok [OF f]] valid_bounds [OF f]]
    by (auto simp: mb_block_mmap_def Let_def intro!: protect_keeps [OF f] split: option.split)
qed

lemma mremap_keeps:
  assumes f: "ready E b"
  shows "keeps b (fst (mb_block_mremap E b addr new_size))"
proof (cases "validate b addr")
  case (Some r)
  then obtain ps pcount where v: "validate b addr = Some (ps, pcount)" by (cases r) simp
  show ?thesis
  proof (cases "rg_size addr < new_size")
    case True
    have "keeps b (set_protections E b (ps + pcount) (fcount - pcount) st)"
      if "validate b \<lparr>rg_start = rg_start addr, rg_size = new_size\<rparr> = Some (fs, fcount)" for fs fcount st
      using protect_keeps [OF f] valid_bounds [OF f that] grow_same [OF v True that] by simp
    then show ?thesis using v True keeps_self [OF f] by (simp add: mb_block_mremap_def split: option.split)
  next
    case False
    then show ?thesis
      using v keeps_self [OF f] munmap_keeps [OF f, of "\<lparr>rg_start = rg_start addr + new_size, rg_size = rg_size addr - new_size\<rparr>" False]
      by (auto simp: mb_block_mremap_def split: prod.split sum.split)
  qed
qed (use f in \<open>simp add: mb_block_mremap_def keeps_self\<close>)

lemma step_keeps: "frame_step E b b' \<Longrightarrow> ready E b \<Longrightarrow> keeps b b'"
  by (cases rule: frame_step.cases)
     (auto simp: write_keeps mmap_keeps mmap_fixed_keeps mprotect_keeps munmap_keeps mremap_keeps
       mb_block_mmap_fixed_def mb_block_munmap_def mb_block_madvise_dontneed_def)

lemma run_keeps:
  assumes "(frame_step E)\<^sup>*\<^sup>* b b'" "ready E b"
  shows "keeps b b'"
  using assms(1)
proof induction
  case (step c d)
  then show ?case using keeps_then [OF step.IH] step_keeps [OF step.hyps(2)] keeps_ready [OF assms(2) step.IH] by blast
qed (rule keeps_self [OF assms(2)])

end

text \<open>Well-formedness itself, with the frame: the first thing every run keeps.\<close>

definition run_ready :: "os_env \<Rightarrow> mb_block \<Rightarrow> bool" where
  "run_ready E b \<longleftrightarrow> env_ok E \<and> block_wf b \<and> bk_swapped_in b"

definition stays_wf :: "mb_block \<Rightarrow> mb_block \<Rightarrow> bool" where
  "stays_wf b b' \<longleftrightarrow> block_wf b' \<and> frame b' = frame b"

interpretation wfm: guest_memory run_ready stays_wf
proof unfold_locales
  fix E b ps n st advise_only i off and xs :: bytes
  assume r: "run_ready E b"
  then have E: "env_ok E" and b: "block_wf b" "block_ok b" "bk_swapped_in b" by (simp_all add: run_ready_def block_wfD)
  show "block_ok b \<and> unat (rg_size (bk_addr b)) = bk_npages b * MB_PAGESIZE" "stays_wf b b"
    using E b by (simp_all add: stays_wf_def block_wf_def)
  show "stays_wf b (set_protections E b ps n st)" if "ps + n \<le> bk_npages b"
    using set_protections_wf [OF E b(1) that] acts_onD(2) [OF set_protections_acts [OF E b(2) that]] by (simp add: stays_wf_def)
  show "stays_wf b (free_pages E b ps n advise_only)" if "ps + n \<le> bk_npages b"
    using free_pages_wf [OF E b(1) that] acts_onD(2) [OF free_pages_acts [OF E b(2) that]] by (simp add: stays_wf_def)
  show "stays_wf b (fst (guest_write E b i off xs))" if "i < bk_npages b" "off + length xs \<le> MB_PAGESIZE"
    using guest_write_wf [OF E b(1,3) that] acts_onD(2) [OF guest_write_acts(1) [OF E b(2) that(1)]] by (simp add: stays_wf_def)
next
  show "run_ready E b' \<and> bk_npages b' = bk_npages b" if "run_ready E b" "stays_wf b b'" for E b b'
    using that frame_eqD(1,5) [of b' b] by (simp add: run_ready_def stays_wf_def)
qed (simp_all add: stays_wf_def)

text \<open>
  A relation on single pages that the three page functions keep is one the runs
  keep: \<open>P fr v w\<close> relates the page before and after.
\<close>

locale page_kept =
  fixes P :: "bframe \<Rightarrow> pview \<Rightarrow> pview \<Rightarrow> bool" and allowed :: "bframe \<Rightarrow> bool"
  assumes P_self: "page_ok fr v \<Longrightarrow> P fr v v"
    and P_then: "P fr v w \<Longrightarrow> P fr w x \<Longrightarrow> P fr v x"
    and P_protect: "allowed fr \<Longrightarrow> page_ok fr v \<Longrightarrow> P fr v (protect_v st fr v)"
    and P_free: "allowed fr \<Longrightarrow> page_ok fr v \<Longrightarrow> pg_status (v_page v) \<noteq> MB_ST_FREE \<Longrightarrow> P fr v (free_v advise_only fr v)"
    and P_write: "allowed fr \<Longrightarrow> page_ok fr v \<Longrightarrow> P fr v (write_v off xs fr v)"
begin

definition pages_ready :: "os_env \<Rightarrow> mb_block \<Rightarrow> bool" where
  "pages_ready E b \<longleftrightarrow> run_ready E b \<and> allowed (frame b)"

definition pages_kept :: "mb_block \<Rightarrow> mb_block \<Rightarrow> bool" where
  "pages_kept b b' \<longleftrightarrow> stays_wf b b' \<and> (\<forall>j < bk_npages b. P (frame b) (view b j) (view b' j))"

lemma pages_kept_acts:
  assumes "stays_wf b b'" "block_wf b" "acts_on g I b b'"
    "\<And>j. j \<in> I \<Longrightarrow> j < bk_npages b \<Longrightarrow> page_ok (frame b) (view b j) \<Longrightarrow> P (frame b) (view b j) (g (frame b) (view b j))"
  shows "pages_kept b b'"
  using assms acts_onD(4) [OF assms(3)] P_self block_invD(2) [OF block_wfD(1) [OF assms(2)]] by (simp add: pages_kept_def)

end

sublocale page_kept \<subseteq> guest_memory pages_ready pages_kept
proof unfold_locales
  fix E b ps n st advise_only i off and xs :: bytes
  assume r: "pages_ready E b"
  then have E: "env_ok E" and b: "block_wf b" "block_ok b" and w: "run_ready E b" and al: "allowed (frame b)"
    by (simp_all add: pages_ready_def run_ready_def block_wfD)
  show "block_ok b \<and> unat (rg_size (bk_addr b)) = bk_npages b * MB_PAGESIZE" using b by (simp add: block_wf_def)
  show "pages_kept b b"
    using b P_self block_invD(2) [OF block_wfD(1) [OF b(1)]] by (simp add: pages_kept_def stays_wf_def)
  show "pages_kept b (set_protections E b ps n st)" if "ps + n \<le> bk_npages b"
    by (rule pages_kept_acts [OF wfm.protect_keeps [OF w that] b(1) set_protections_acts [OF E b(2) that]])
       (rule P_protect [OF al])
  show "pages_kept b (free_pages E b ps n advise_only)"
    if "ps + n \<le> bk_npages b" "all_pages (\<lambda>p. pg_status p \<noteq> MB_ST_FREE) b ps (ps + n)"
    by (rule pages_kept_acts [OF wfm.free_keeps [OF w that] b(1) free_pages_acts [OF E b(2) that(1)]])
       (use that(2) in \<open>auto simp: all_pages_def list_all_iff intro!: P_free [OF al]\<close>)
  show "pages_kept b (fst (guest_write E b i off xs))" if "i < bk_npages b" "off + length xs \<le> MB_PAGESIZE"
    by (rule pages_kept_acts [OF wfm.write_keeps [OF w that] b(1) guest_write_acts(1) [OF E b(2) that(1)]])
       (rule P_write [OF al])
next
  show "pages_kept b b2" if "pages_kept b b1" "pages_kept b1 b2" for b b1 b2
    using that frame_eqD(1) [of b1 b] wfm.keeps_then [of b b1 b2] P_then unfolding pages_kept_def stays_wf_def by metis
  show "pages_ready E b' \<and> bk_npages b' = bk_npages b" if "pages_ready E b" "pages_kept b b'" for E b b'
    using that wfm.keeps_ready [of E b b'] by (simp add: pages_ready_def pages_kept_def stays_wf_def)
qed

end
