(* ===== verification/Mb_Since.thy ===== *)
theory Mb_Since
  imports Mb_Delta_Views Mb_Frame
begin

text \<open>
  What an open epoch knows of a page: everything that changed since the epoch
  began. \<open>p0\<close> is the page as the epoch found it. A page that is neither marked
  written nor hot is as it was; a hot page's shadow is what it was; a page whose
  status change is not noted has the status it had; and a page that could be
  written without a fault is marked already, or hot.
\<close>

definition since_v :: "mb_page \<Rightarrow> pview \<Rightarrow> bool" where
  "since_v p0 v \<longleftrightarrow>
    (let p = v_page v
     in pg_invisible p = pg_invisible p0
      \<and> (\<not> v_stat v \<longrightarrow> pg_status p = pg_status p0)
      \<and> (pg_epoch_dirty p \<longrightarrow> \<not> pg_invisible p)
      \<and> (\<not> pg_invisible p \<longrightarrow> page_baseline p = page_baseline p0)
      \<and> (\<not> pg_invisible p \<longrightarrow> \<not> pg_epoch_dirty p \<longrightarrow> pg_dirty p = pg_dirty p0
            \<and> (if pg_hot p then pg_shadow p = Some (pg_live p0) else pg_live p = pg_live p0)
            \<and> (status_tracked (pg_status p) \<longrightarrow> \<not> pg_hot p \<longrightarrow> pg_dirty p \<longrightarrow> pg_held p)))"

definition marked_v :: "pview \<Rightarrow> bool" where
  "marked_v v \<longleftrightarrow> v_stat v \<and> (pg_invisible (v_page v) \<or> pg_epoch_dirty (v_page v))"

lemma since_marked:
  "marked_v v \<Longrightarrow> since_v p0 v \<longleftrightarrow>
     pg_invisible (v_page v) = pg_invisible p0 \<and> (pg_epoch_dirty (v_page v) \<longrightarrow> \<not> pg_invisible (v_page v)) \<and>
     (\<not> pg_invisible (v_page v) \<longrightarrow> page_baseline (v_page v) = page_baseline p0)"
  by (auto simp: since_v_def marked_v_def Let_def)

section \<open>The page operations\<close>

definition same_since :: "pview \<Rightarrow> pview \<Rightarrow> bool" where
  "same_since v w \<longleftrightarrow> pg_invisible (v_page w) = pg_invisible (v_page v) \<and> v_stat w = v_stat v \<and>
     pg_status (v_page w) = pg_status (v_page v) \<and> pg_epoch_dirty (v_page w) = pg_epoch_dirty (v_page v) \<and>
     page_baseline (v_page w) = page_baseline (v_page v) \<and> pg_dirty (v_page w) = pg_dirty (v_page v) \<and>
     pg_hot (v_page w) = pg_hot (v_page v) \<and> pg_shadow (v_page w) = pg_shadow (v_page v) \<and>
     pg_live (v_page w) = pg_live (v_page v)"

lemma since_same:
  assumes "since_v p0 v" "same_since v w"
    and "status_tracked (pg_status (v_page v)) \<Longrightarrow> \<not> pg_hot (v_page v) \<Longrightarrow> pg_dirty (v_page v) \<Longrightarrow> pg_held (v_page v) \<Longrightarrow> pg_held (v_page w)"
  shows "since_v p0 w"
  using assms(1,3) assms(2)[unfolded same_since_def] unfolding since_v_def Let_def by metis

lemma snap_base [simp]: "page_baseline (v_page (snap_v room v)) = page_baseline (v_page v)"
  by (simp add: snap_v_def snapshot_baseline)

lemma estat_same: "pg_status (v_page v) = st \<Longrightarrow> estat_v st fr v = v"
  by (simp add: estat_v_def)

lemma estat_fields:
  assumes "fr_epoch fr" "pg_status (v_page v) \<noteq> st"
  shows "marked_v (estat_v st fr v)" "pg_invisible (v_page (estat_v st fr v)) = pg_invisible (v_page v)"
    "page_baseline (v_page (estat_v st fr v)) = page_baseline (v_page v)"
    "pg_epoch_dirty (v_page (estat_v st fr v)) = (pg_epoch_dirty (v_page v) \<or> \<not> pg_invisible (v_page v))"
  using assms by (simp_all add: estat_v_def capture_v_def written_v_def marked_v_def epoch_tracks_def Let_def)

lemma estat_status [simp]: "pg_status (v_page (estat_v st fr v)) = pg_status (v_page v)"
  by (simp add: estat_v_def capture_v_def written_v_def Let_def)

lemma since_facts:
  assumes "since_v p0 v"
  shows "pg_invisible (v_page v) = pg_invisible p0" "pg_epoch_dirty (v_page v) \<Longrightarrow> \<not> pg_invisible (v_page v)"
    "\<not> pg_invisible (v_page v) \<Longrightarrow> page_baseline (v_page v) = page_baseline p0"
    "\<not> v_stat v \<Longrightarrow> pg_status (v_page v) = pg_status p0"
  using assms by (auto simp: since_v_def Let_def)

lemma since_estat:
  assumes "since_v p0 v" "fr_epoch fr"
  shows "since_v p0 (estat_v st fr v)"
proof (cases "pg_status (v_page v) = st")
  case False
  note f = estat_fields [OF assms(2) False]
  show ?thesis using f since_facts [OF assms(1)] by (simp add: since_marked)
qed (use assms in \<open>simp add: estat_same\<close>)

lemma marked_status: "marked_v v \<Longrightarrow> marked_v (status_v st v)"
  by (simp add: marked_v_def status_v_def cool_v_def Let_def)

lemma status_fields [simp]:
  "pg_invisible (v_page (status_v st v)) = pg_invisible (v_page v)"
  "pg_epoch_dirty (v_page (status_v st v)) = pg_epoch_dirty (v_page v)"
  "page_baseline (v_page (status_v st v)) = page_baseline (v_page v)"
  by (simp_all add: status_v_def cool_v_def Let_def)

lemma since_status:
  assumes "since_v p0 v" "pg_status (v_page v) = st \<or> marked_v v"
  shows "since_v p0 (status_v st v)"
proof (cases "pg_status (v_page v) = st")
  case True
  then show ?thesis by (intro since_same [OF assms(1)]) (simp_all add: same_since_def status_v_def Let_def)
next
  case False
  then have "marked_v v" using assms(2) by simp
  from marked_status [OF this] show ?thesis using since_facts [OF assms(1)] by (simp add: since_marked)
qed

lemma refresh_same: "same_since v (refresh_v fr v)"
  by (simp add: same_since_def refresh_v_def note_prot_v_def Let_def)

lemma since_refresh: "since_v p0 v \<Longrightarrow> since_v p0 (refresh_v fr v)"
  by (rule since_same [OF _ refresh_same]) (auto simp: refresh_v_def note_prot_v_def native_writable Let_def)

lemma since_protect: "since_v p0 v \<Longrightarrow> fr_epoch fr \<Longrightarrow> since_v p0 (protect_v st fr v)"
  unfolding protect_v_def using since_estat [of p0 v fr st] estat_fields(1) [of fr v st]
  by (intro since_refresh since_status) auto

lemma plan_same: "same_since v (plan_v fr v)" "pg_held (v_page (plan_v fr v)) = pg_held (v_page v)"
  by (simp_all add: same_since_def plan_v_def)

lemma since_plan: "since_v p0 v \<Longrightarrow> since_v p0 (plan_v fr v)"
  by (rule since_same [OF _ plan_same(1)]) (simp_all add: plan_same)

lemma snap_same: "same_since v (snap_v True v)" "pg_held (v_page (snap_v room v)) = pg_held (v_page v)"
  using snap_base [of True v]
  by (simp_all add: same_since_def) (simp_all add: snap_v_def mb_page_maybe_snapshot_def)

lemma since_snap: "since_v p0 v \<Longrightarrow> since_v p0 (snap_v True v)"
  by (rule since_same [OF _ snap_same(1)]) (simp_all add: snap_same)

lemma since_given: "since_v p0 v \<Longrightarrow> fr_epoch fr \<Longrightarrow> since_v p0 (given_v fr v)"
  by (simp add: given_v_def since_estat since_snap since_plan)

lemma marked_given:
  assumes "fr_epoch fr" "pg_status (v_page v) \<noteq> MB_ST_FREE"
  shows "marked_v (given_v fr v)"
  using snap_same(1) [of "plan_v fr v"] plan_same(1) [of v fr] assms
  by (simp add: given_v_def same_since_def estat_fields(1))

lemma zero_dirty_fields:
  "pg_invisible (v_page (dirty_v d v)) = pg_invisible (v_page v)" "pg_epoch_dirty (v_page (dirty_v d v)) = pg_epoch_dirty (v_page v)"
  "page_baseline (v_page (dirty_v d v)) = page_baseline (v_page v)" "v_stat (dirty_v d v) = v_stat v"
  "pg_invisible (v_page (zero_v v)) = pg_invisible (v_page v)" "pg_epoch_dirty (v_page (zero_v v)) = pg_epoch_dirty (v_page v)"
  "v_stat (zero_v v) = v_stat v"
  by (simp_all add: dirty_v_def zero_v_def cool_v_def Let_def)

lemma zero_base: "pg_snap (v_page v) \<noteq> MB_SNAP_NONE \<Longrightarrow> page_baseline (v_page (zero_v v)) = page_baseline (v_page v)"
  by (simp add: zero_v_def page_baseline_def split: mb_snap.split)

lemma since_give:
  assumes "since_v p0 v" "fr_epoch fr" "pg_status (v_page v) \<noteq> MB_ST_FREE"
  shows "since_v p0 (give_v fr v)" "marked_v (give_v fr v)"
proof -
  define w where "w = given_v fr v"
  have w: "since_v p0 w" "marked_v w" "pg_snap (v_page w) \<noteq> MB_SNAP_NONE"
    using assms by (simp_all add: w_def since_given marked_given snap_given)
  show m: "marked_v (give_v fr v)"
    using w(2) by (simp add: give_v_def w_def [symmetric] marked_v_def zero_dirty_fields Let_def)
  show "since_v p0 (give_v fr v)"
    using since_facts [OF w(1)] w(3) m
    by (simp add: since_marked) (simp add: give_v_def w_def [symmetric] zero_dirty_fields zero_base Let_def)
qed

lemma since_free:
  assumes "since_v p0 v" "fr_epoch fr" "pg_status (v_page v) \<noteq> MB_ST_FREE"
  shows "since_v p0 (free_v advise_only fr v)"
  using since_give [OF assms] assms(2) by (simp add: free_v_def since_refresh since_protect)

lemma since_overlap: "since_v p0 v \<Longrightarrow> fr_epoch fr \<Longrightarrow> since_v p0 (overlap_v fr v)"
  by (simp add: overlap_v_def since_free)

section \<open>Writes of the guest\<close>

lemma store_fields [simp]:
  "pg_invisible (v_page (store_v off xs v)) = pg_invisible (v_page v)" "v_stat (store_v off xs v) = v_stat v"
  "pg_status (v_page (store_v off xs v)) = pg_status (v_page v)" "pg_epoch_dirty (v_page (store_v off xs v)) = pg_epoch_dirty (v_page v)"
  "pg_dirty (v_page (store_v off xs v)) = pg_dirty (v_page v)" "pg_hot (v_page (store_v off xs v)) = pg_hot (v_page v)"
  "pg_shadow (v_page (store_v off xs v)) = pg_shadow (v_page v)" "pg_held (v_page (store_v off xs v)) = pg_held (v_page v)"
  by (simp_all add: store_v_def)

lemma store_base: "pg_snap (v_page v) \<noteq> MB_SNAP_NONE \<Longrightarrow> page_baseline (v_page (store_v off xs v)) = page_baseline (v_page v)"
  by (simp add: store_v_def page_baseline_def split: mb_snap.split)

text \<open>A write needs a page that is marked or hot, with a copy of its baseline.\<close>

lemma since_store:
  assumes "since_v p0 v" "\<not> pg_invisible (v_page v) \<Longrightarrow> (pg_epoch_dirty (v_page v) \<or> pg_hot (v_page v)) \<and> pg_snap (v_page v) \<noteq> MB_SNAP_NONE"
  shows "since_v p0 (store_v off xs v)"
  using assms store_base [of v off xs] unfolding since_v_def Let_def by (cases "pg_invisible (v_page v)") auto

lemma trip_fields:
  assumes "status_tracked (pg_status (v_page v))" "fr_epoch fr"
  shows "pg_invisible (v_page (trip_v fr v)) = pg_invisible (v_page v)" "v_stat (trip_v fr v) = v_stat v"
    "pg_status (v_page (trip_v fr v)) = pg_status (v_page v)"
    "pg_epoch_dirty (v_page (trip_v fr v)) = (pg_epoch_dirty (v_page v) \<or> \<not> pg_invisible (v_page v))"
    "page_baseline (v_page (trip_v fr v)) = page_baseline (v_page v)" "pg_snap (v_page (trip_v fr v)) \<noteq> MB_SNAP_NONE"
proof -
  define w where "w = snap_v True v"
  have w: "pg_invisible (v_page w) = pg_invisible (v_page v)" "v_stat w = v_stat v" "pg_status (v_page w) = pg_status (v_page v)"
      "pg_epoch_dirty (v_page w) = pg_epoch_dirty (v_page v)" "page_baseline (v_page w) = page_baseline (v_page v)"
      "pg_snap (v_page w) \<noteq> MB_SNAP_NONE"
    using snap_same(1) [of v] snap_taken_v [of v] by (simp_all add: w_def same_since_def)
  show "pg_invisible (v_page (trip_v fr v)) = pg_invisible (v_page v)" "v_stat (trip_v fr v) = v_stat v"
    "pg_status (v_page (trip_v fr v)) = pg_status (v_page v)"
    "pg_epoch_dirty (v_page (trip_v fr v)) = (pg_epoch_dirty (v_page v) \<or> \<not> pg_invisible (v_page v))"
    "page_baseline (v_page (trip_v fr v)) = page_baseline (v_page v)" "pg_snap (v_page (trip_v fr v)) \<noteq> MB_SNAP_NONE"
    using w assms unfolding trip_v_def w_def [symmetric]
    by (simp_all add: unheld_v_def os_native_v_def release_v_def dirty_v_def plan_v_def capture_v_def written_v_def
        epoch_tracks_def status_tracked_def Let_def)
qed

lemma since_trip:
  assumes s: "since_v p0 v" and t: "status_tracked (pg_status (v_page v))" "fr_epoch fr"
  shows "since_v p0 (trip_v fr v)"
proof -
  note f = trip_fields [OF t]
  show ?thesis
    using since_facts [OF s] f unfolding since_v_def Let_def by auto
qed

lemma since_write:
  assumes s: "since_v p0 v" and ok: "page_ok fr v" and e: "fr_epoch fr"
  shows "since_v p0 (write_v off xs fr v)"
proof (cases "prot_writable (pg_os (v_page v))")
  case True
  have n: "prot_writable (mb_page_native_prot (v_page v))" "snap_ok (v_page v)" "pg_hot (v_page v) \<longrightarrow> pg_dirty (v_page v)"
    using True ok by (simp_all add: page_ok_def track_v_def Let_def)
  have "(pg_epoch_dirty (v_page v) \<or> pg_hot (v_page v)) \<and> pg_snap (v_page v) \<noteq> MB_SNAP_NONE"
    if vis: "\<not> pg_invisible (v_page v)"
  proof -
    have "pg_dirty (v_page v)" using n by (auto simp: native_writable)
    then have "pg_snap (v_page v) \<noteq> MB_SNAP_NONE" using n(2) vis by (simp add: snap_ok_def)
    moreover have "pg_epoch_dirty (v_page v) \<or> pg_hot (v_page v)"
      using n(1) s vis unfolding native_writable since_v_def Let_def by blast
    ultimately show ?thesis by simp
  qed
  from since_store [OF s this] show ?thesis using True by (simp add: write_v_def)
next
  case False
  show ?thesis
  proof (cases "status_tracked (pg_status (v_page v))")
    case True
    note f = trip_fields [OF True e]
    have "since_v p0 (store_v off xs (trip_v fr v))"
      by (rule since_store [OF since_trip [OF s True e]]) (use f in simp_all)
    then show ?thesis using True False by (simp add: write_v_def)
  qed (use s False in \<open>simp add: write_v_def\<close>)
qed

section \<open>Opening the epoch\<close>

lemma since_begin:
  assumes ok: "page_ok fr v" and fr: "fr_swapped fr" "\<not> fr_plan fr" "fr_swapped fr'"
  shows "since_v (v_page (begin_v fr' v)) (begin_v fr' v)"
proof -
  define w where "w = shadow_v (forget_v v)"
  have w: "\<not> v_stat w" "\<not> pg_epoch_dirty (v_page w)" "pg_hot (v_page w) \<longrightarrow> pg_shadow (v_page w) = Some (pg_live (v_page w))"
    by (simp_all add: w_def shadow_v_def forget_v_def)
  have f: "v_unheld w = v_unheld v" "pg_held (v_page w) = pg_held (v_page v)" "pg_dirty (v_page w) = pg_dirty (v_page v)"
      "pg_hot (v_page w) = pg_hot (v_page v)" "pg_status (v_page w) = pg_status (v_page v)"
      "pg_invisible (v_page w) = pg_invisible (v_page v)"
    by (simp_all add: w_def shadow_v_def forget_v_def)
  have nw: "pg_held (v_page w)"
    if "status_tracked (pg_status (v_page w))" "\<not> pg_hot (v_page w)" "pg_dirty (v_page w)" "\<not> pg_invisible (v_page w)" "\<not> v_unheld w"
    using ok fr that f by (auto simp: page_ok_def track_v_def native_writable Let_def)
  have sw: "since_v (v_page w) w" if "\<not> v_unheld w"
    using w nw that by (simp add: since_v_def Let_def)
  show ?thesis
  proof (cases "v_unheld w")
    case False
    then show ?thesis using sw by (simp add: begin_v_def rehold_v_def w_def)
  next
    case True
    define u where "u = hold_v w"
    have u: "\<not> v_stat u" "\<not> pg_epoch_dirty (v_page u)" "pg_hot (v_page u) \<longrightarrow> pg_shadow (v_page u) = Some (pg_live (v_page u))"
        "\<not> pg_invisible (v_page u) \<longrightarrow> status_tracked (pg_status (v_page u)) \<longrightarrow> pg_held (v_page u)"
      using w by (simp_all add: u_def hold_v_def epoch_tracks_def status_tracked_def)
    then have su: "since_v (v_page u) u" by (simp add: since_v_def Let_def)
    have r: "same_since u (refresh_v fr' u)" by (rule refresh_same)
    have "since_v (v_page (refresh_v fr' u)) (refresh_v fr' u)"
      using since_refresh [OF su, of fr'] r unfolding since_v_def same_since_def Let_def by metis
    then show ?thesis using True by (simp add: begin_v_def rehold_v_def w_def u_def)
  qed
qed

section \<open>The operations of a frame\<close>

definition keeps_since :: "mb_block \<Rightarrow> mb_block \<Rightarrow> bool" where
  "keeps_since b b' \<longleftrightarrow> block_wf b' \<and> frame b' = frame b \<and>
     (\<forall>j < bk_npages b. \<forall>p0. since_v p0 (view b j) \<longrightarrow> since_v p0 (view b' j))"

text \<open>Every operation of a frame keeps what the epoch knows of each page.\<close>

interpretation snc: page_kept "\<lambda>_ v w. \<forall>p0. since_v p0 v \<longrightarrow> since_v p0 w" fr_epoch
  by unfold_locales (simp_all add: since_protect since_free since_write)

definition frame_op :: "os_env \<Rightarrow> mb_block \<Rightarrow> bool" where
  "frame_op E b \<longleftrightarrow> env_ok E \<and> block_wf b \<and> bk_epoch_active b"

lemma frame_opD: "frame_op E b \<Longrightarrow> env_ok E" "frame_op E b \<Longrightarrow> block_wf b" "frame_op E b \<Longrightarrow> bk_epoch_active b"
  by (simp_all add: frame_op_def)

lemma frame_op_ready: "frame_op E b \<Longrightarrow> bk_swapped_in b \<Longrightarrow> snc.pages_ready E b"
  by (simp add: frame_op_def snc.pages_ready_def run_ready_def)

lemma keeps_since_eq: "keeps_since b b' \<longleftrightarrow> snc.pages_kept b b'"
  by (auto simp: keeps_since_def snc.pages_kept_def stays_wf_def)

lemma keeps_frame_op: "frame_op E b \<Longrightarrow> keeps_since b b' \<Longrightarrow> frame_op E b' \<and> bk_npages b' = bk_npages b"
  using frame_eqD(1,8) [of b' b] by (simp add: frame_op_def keeps_since_def)

lemma frame_step_since: "frame_step E b b' \<Longrightarrow> frame_op E b \<Longrightarrow> bk_swapped_in b \<Longrightarrow> keeps_since b b'"
  by (simp add: keeps_since_eq snc.step_keeps frame_op_ready)

lemma frame_run_since: "(frame_step E)\<^sup>*\<^sup>* b b' \<Longrightarrow> frame_op E b \<Longrightarrow> bk_swapped_in b \<Longrightarrow> keeps_since b b'"
  by (simp add: keeps_since_eq snc.run_keeps frame_op_ready)

end
