(* ===== verification/Mb_Delta_Props.thy ===== *)
theory Mb_Delta_Props
  imports Mb_Since
begin

text \<open>
  Saving a delta: the hot pages are compared, the two lists are written, and the
  pages written in a row become hot. A delta taken at the end of an epoch turns
  a machine that was the same when the epoch began into the same machine again.
\<close>

section \<open>Comparing the hot pages\<close>

definition hot_v :: "pview \<Rightarrow> pview" where
  "hot_v v =
    (if pg_shadow (v_page v) = Some (pg_live (v_page v))
     then (let w = v\<lparr>v_page := (v_page v)\<lparr>pg_heat := (pg_heat (v_page v) + 1) mod 256\<rparr>\<rparr>
           in if COLD_AFTER \<le> pg_heat (v_page w) then cool_v w else w)
     else written_v (v\<lparr>v_page := (v_page v)\<lparr>pg_heat := 0\<rparr>\<rparr>))"

lemma hot_epoch_eq:
  assumes "i < bk_npages b"
  shows "hot_epoch_page b i =
    (if pg_shadow (bk_pages b ! i) = Some (pg_live (bk_pages b ! i))
     then (let b1 = upd_page (\<lambda>p. p\<lparr>pg_heat := (pg_heat p + 1) mod 256\<rparr>) b i
           in if COLD_AFTER \<le> pg_heat (bk_pages b1 ! i) then page_cool b1 i else b1)
     else put_written (upd_page (\<lambda>p. p\<lparr>pg_heat := 0\<rparr>) b i) i)"
  using assms by (simp add: hot_epoch_page_def put_written_def Let_def)

lemma hot_op: "page_op hot_epoch_page (\<lambda>_. hot_v)"
proof (rule page_op_cong [OF page_op_if [OF
      page_op_comp [OF page_op_upd [of "\<lambda>p. p\<lparr>pg_heat := (pg_heat p + 1) mod 256\<rparr>"]
        page_op_if [OF cool.page_op_axioms page_op_skip,
          of "\<lambda>b i. COLD_AFTER \<le> pg_heat (bk_pages b ! i)" "\<lambda>fr v. COLD_AFTER \<le> pg_heat (v_page v)"]]
      page_op_comp [OF page_op_upd [of "\<lambda>p. p\<lparr>pg_heat := 0\<rparr>"] written.page_op_axioms],
    of "\<lambda>b i. pg_shadow (bk_pages b ! i) = Some (pg_live (bk_pages b ! i))"
       "\<lambda>fr v. pg_shadow (v_page v) = Some (pg_live (v_page v))"]])
qed (simp_all add: keeps_mapped_def hot_epoch_eq hot_v_def Let_def)

definition compared_v :: "pview \<Rightarrow> pview" where
  "compared_v v = (if pg_hot (v_page v) then hot_v v else v)"

lemma get_hot_acts:
  assumes b: "block_ok b"
  shows "acts_on (\<lambda>_. compared_v) {..<bk_npages b} b (get_hot_epoch b)"
proof -
  have s: "set (bits_each (bk_hot_bits b)) = {i. i < bk_npages b \<and> pg_hot (bk_pages b ! i)}"
    using set_bits_each [OF bits_b(4) [OF block_ok_lens [OF b]]] block_ok_view [OF b] by (auto simp: view_ok_def)
  have "acts_on (\<lambda>_. hot_v) {i. i < bk_npages b \<and> pg_hot (bk_pages b ! i)} b (get_hot_epoch b)"
    using acts_on_fold [OF hot_op b, of "bits_each (bk_hot_bits b)"] s
    by (simp add: get_hot_epoch_def distinct_bits_each)
  then show ?thesis by (auto simp: acts_on_def compared_v_def)
qed

lemma page_ok_heat [simp]: "page_ok fr (v\<lparr>v_page := (v_page v)\<lparr>pg_heat := k\<rparr>\<rparr>) = page_ok fr v"
  by (simp add: page_ok_def view_ok_def track_v_def native_writable Let_def)

lemma page_ok_seen [simp]: "page_ok fr (v\<lparr>v_page := (v_page v)\<lparr>pg_seen := k\<rparr>\<rparr>) = page_ok fr v"
  by (simp add: page_ok_def view_ok_def track_v_def native_writable Let_def)

lemma page_ok_written: "page_ok fr v \<Longrightarrow> fr_epoch fr \<Longrightarrow> page_ok fr (written_v v)"
  by (auto simp: page_ok_def view_ok_def track_v_def native_writable written_v_def Let_def)

lemma page_ok_cool: "page_ok fr v \<Longrightarrow> page_ok fr (cool_v v)"
  by (cases "pg_hot (v_page v)")
     (simp_all add: page_ok_def view_ok_def track_v_def native_writable cool_v_def Let_def)

lemma page_ok_compared:
  assumes "page_ok fr v" "fr_epoch fr"
  shows "page_ok fr (compared_v v)"
  using assms by (simp add: compared_v_def hot_v_def Let_def page_ok_cool page_ok_written)

section \<open>Pages written in a row become hot\<close>

definition hotten :: "mb_block \<Rightarrow> nat \<Rightarrow> mb_block" where
  "hotten b i =
    (let p = bk_pages b ! i
     in if \<not> pg_hot p \<and> \<not> pg_invisible p \<and> pg_dirty p \<and> (pg_status p = MB_ST_RW \<or> pg_status p = MB_ST_RWX)
           \<and> bits_get (bk_unheld_bits b) i
        then (let b1 = upd_page (\<lambda>p. p\<lparr>pg_shadow := Some (pg_live p), pg_hot := True, pg_heat := 0\<rparr>) b i
              in b1\<lparr>bk_hot_bits := bits_set (bk_hot_bits b1) i,
                    bk_unheld_bits := bits_clr (bk_unheld_bits b1) i,
                    bk_nhot := bk_nhot b1 + 1\<rparr>)
        else b)"

definition hotten_v :: "pview \<Rightarrow> pview" where
  "hotten_v v =
    (let p = v_page v
     in if \<not> pg_hot p \<and> \<not> pg_invisible p \<and> pg_dirty p \<and> (pg_status p = MB_ST_RW \<or> pg_status p = MB_ST_RWX) \<and> v_unheld v
        then v\<lparr>v_page := p\<lparr>pg_shadow := Some (pg_live p), pg_hot := True, pg_heat := 0\<rparr>, v_hot := True, v_unheld := False\<rparr>
        else v)"

interpretation hott: page_op hotten "\<lambda>_. hotten_v"
proof
  fix b i j
  assume b: "block_ok b" "i < bk_npages b"
  note l = block_ok_lens [OF b(1)]
  show fr: "frame (hotten b i) = frame b"
    by (simp add: hotten_def Let_def frame_def)
  show v: "view (hotten b i) j = (if j = i then hotten_v (view b i) else view b j)" if "j < bk_npages b" for j
    using b l that by (auto simp: hotten_def hotten_v_def Let_def view_def)
  show "block_ok (hotten b i)"
  proof (rule block_ok_change [OF b])
    show "view_ok (view (hotten b i) i)"
      using v [OF b(2)] block_ok_view [OF b] by (simp add: hotten_v_def view_ok_def Let_def)
    show "block_lens (hotten b i)"
      using l b bits_b [OF l] by (simp add: hotten_def Let_def block_lens_def)
    show "bk_epoch_nstat (hotten b i) + of_bool (v_stat (view b i)) = bk_epoch_nstat b + of_bool (v_stat (view (hotten b i) i))"
      by (simp add: hotten_def Let_def)
  qed (use b v in \<open>simp_all add: hotten_def Let_def frame_eqD [OF fr]\<close>)
qed

definition heat_op :: "bool \<Rightarrow> mb_block \<Rightarrow> nat \<Rightarrow> mb_block" where
  "heat_op h b i =
    (if pg_hot (bk_pages b ! i) then b
     else
       (let b2 = upd_page (\<lambda>p. p\<lparr>pg_heat :=
                  (if pg_seen p = (bk_epoch_no b + 2 ^ 16 - 1) mod 2 ^ 16
                   then (if pg_heat p < 255 then pg_heat p + 1 else pg_heat p) else 1), pg_seen := bk_epoch_no b\<rparr>) b i
        in if HOT_AFTER \<le> pg_heat (bk_pages b2 ! i) \<and> h then hotten b2 i else b2))"

definition heat_upd :: "bframe \<Rightarrow> pview \<Rightarrow> pview" where
  "heat_upd fr v = v\<lparr>v_page := (v_page v)\<lparr>pg_heat :=
      (if pg_seen (v_page v) = (fr_epoch_no fr + 2 ^ 16 - 1) mod 2 ^ 16
       then (if pg_heat (v_page v) < 255 then pg_heat (v_page v) + 1 else pg_heat (v_page v)) else 1),
      pg_seen := fr_epoch_no fr\<rparr>\<rparr>"

definition heat_v :: "bool \<Rightarrow> bframe \<Rightarrow> pview \<Rightarrow> pview" where
  "heat_v h fr v =
    (if pg_hot (v_page v) then v
     else if HOT_AFTER \<le> pg_heat (v_page (heat_upd fr v)) \<and> h then hotten_v (heat_upd fr v)
     else heat_upd fr v)"

lemma heat_page_eq:
  assumes "i < bk_npages b"
  shows "heat_page E b i = heat_op (bk_nhot b < HOT_MOST \<and> os_room E i) b i"
proof -
  let ?f = "\<lambda>p. p\<lparr>pg_heat := (if pg_seen p = (bk_epoch_no b + 2 ^ 16 - 1) mod 2 ^ 16
                   then (if pg_heat p < 255 then pg_heat p + 1 else pg_heat p) else 1)\<rparr>"
  define b2 where "b2 = upd_page (\<lambda>p. (?f p)\<lparr>pg_seen := bk_epoch_no b\<rparr>) b i"
  have b2: "upd_page (\<lambda>p. p\<lparr>pg_seen := bk_epoch_no b\<rparr>) (upd_page ?f b i) i = b2"
    using assms by (simp only: upd_page_upd b2_def)
  have h: "page_heat E b2 i = (if bk_nhot b < HOT_MOST \<and> os_room E i then hotten b2 i else b2)"
  proof -
    have n: "bk_nhot b2 = bk_nhot b" by (simp add: b2_def)
    show ?thesis unfolding page_heat_def hotten_def Let_def n not_le [symmetric] by (simp split: if_splits)
  qed
  show ?thesis
    unfolding heat_page_def heat_op_def Let_def b2 b2_def [symmetric] h by simp
qed

lemma heat_acts:
  assumes b: "block_ok b" "i < bk_npages b"
  shows "acts_on (heat_v h) {i} b (heat_op h b i)"
proof (cases "pg_hot (bk_pages b ! i)")
  case True
  then show ?thesis using b by (auto simp: acts_on_def heat_op_def heat_v_def)
next
  case False
  let ?f = "\<lambda>p. p\<lparr>pg_heat := (if pg_seen p = (bk_epoch_no b + 2 ^ 16 - 1) mod 2 ^ 16
                   then (if pg_heat p < 255 then pg_heat p + 1 else pg_heat p) else 1), pg_seen := bk_epoch_no b\<rparr>"
  define b2 where "b2 = upd_page ?f b i"
  have a2: "acts_on (\<lambda>_ v. v\<lparr>v_page := ?f (v_page v)\<rparr>) {i} b b2"
    unfolding b2_def by (rule acts_on_one [OF page_op_upd b]) (simp add: keeps_mapped_def)
  note d = acts_onD [OF a2]
  have a3: "acts_on (\<lambda>_. hotten_v) {i} b2 (hotten b2 i)"
    by (rule acts_on_one [OF hott.page_op_axioms d(1)]) (simp add: d(3) b(2))
  define c where "c \<longleftrightarrow> HOT_AFTER \<le> pg_heat (bk_pages b2 ! i) \<and> h"
  have r: "heat_op h b i = (if c then hotten b2 i else b2)"
    using False by (simp add: heat_op_def c_def b2_def Let_def)
  have v: "view b2 i = (view b i)\<lparr>v_page := ?f (v_page (view b i))\<rparr>" using d(4) [OF b(2)] by simp
  have p: "bk_pages b2 ! i = v_page (view b2 i)" by simp
  have e: "heat_v h (frame b) (view b i) = (if c then hotten_v (view b2 i) else view b2 i)"
    using False unfolding c_def p v by (simp add: heat_v_def heat_upd_def)
  show ?thesis
    using a2 a3 d(3) b(2) unfolding r
    by (cases c) (auto simp: acts_on_def e, (simp_all add: v)?)
qed

lemma heat_written_acts:
  assumes b: "block_ok b"
  obtains H where "block_ok (heat_written_pages E b)" "frame (heat_written_pages E b) = frame b"
    "\<And>j. j < bk_npages b \<Longrightarrow> view (heat_written_pages E b) j =
       (if pg_epoch_dirty (bk_pages b ! j) then heat_v (H j) (frame b) (view b j) else view b j)"
proof -
  have "\<exists>H. block_ok (fold (\<lambda>i b. heat_page E b i) is b) \<and> frame (fold (\<lambda>i b. heat_page E b i) is b) = frame b \<and>
      (\<forall>j < bk_npages b. view (fold (\<lambda>i b. heat_page E b i) is b) j =
        (if j \<in> set is then heat_v (H j) (frame b) (view b j) else view b j))"
    if "distinct is" "\<forall>i\<in>set is. i < bk_npages b" for "is"
    using that
  proof (induction "is" rule: rev_induct)
    case (snoc i "is")
    then obtain H where H: "block_ok (fold (\<lambda>i b. heat_page E b i) is b)" "frame (fold (\<lambda>i b. heat_page E b i) is b) = frame b"
      "\<And>j. j < bk_npages b \<Longrightarrow> view (fold (\<lambda>i b. heat_page E b i) is b) j =
        (if j \<in> set is then heat_v (H j) (frame b) (view b j) else view b j)" by auto
    define c where "c = fold (\<lambda>i b. heat_page E b i) is b"
    have n: "bk_npages c = bk_npages b" "i < bk_npages c" using H(2) frame_eqD(1) [of c b] snoc.prems by (simp_all add: c_def)
    define h where "h \<longleftrightarrow> bk_nhot c < HOT_MOST \<and> os_room E i"
    have a: "acts_on (heat_v h) {i} c (heat_page E c i)"
      using heat_acts [OF _ n(2), of h] H(1) heat_page_eq [OF n(2)] by (simp add: c_def h_def)
    show ?case
      using acts_onD [OF a] H snoc.prems n
      by (intro exI [of _ "H(i := h)"]) (auto simp: c_def)
  qed (use b in simp)
  moreover have "set (bits_each (bk_epoch_bits b)) = {i. i < bk_npages b \<and> pg_epoch_dirty (bk_pages b ! i)}"
    using set_bits_each [OF bits_b(1) [OF block_ok_lens [OF b]]] block_ok_view [OF b] by (auto simp: view_ok_def)
  ultimately obtain H where "block_ok (heat_written_pages E b)" "frame (heat_written_pages E b) = frame b"
    "\<And>j. j < bk_npages b \<Longrightarrow> view (heat_written_pages E b) j =
       (if pg_epoch_dirty (bk_pages b ! j) then heat_v (H j) (frame b) (view b j) else view b j)"
    using distinct_bits_each [of "bk_epoch_bits b"] by (force simp: heat_written_pages_def)
  then show ?thesis by (rule that)
qed

lemma page_ok_hotten: "page_ok fr v \<Longrightarrow> fr_epoch fr \<Longrightarrow> page_ok fr (hotten_v v)"
  by (auto simp: page_ok_def view_ok_def track_v_def native_writable hotten_v_def status_tracked_def Let_def)

lemma page_ok_heat_upd: "page_ok fr (heat_upd fr' v) = page_ok fr v"
  by (simp add: heat_upd_def page_ok_def view_ok_def track_v_def native_writable Let_def)

lemma page_ok_heated: "page_ok fr v \<Longrightarrow> fr_epoch fr \<Longrightarrow> page_ok fr (heat_v h fr v)"
  by (simp add: heat_v_def page_ok_hotten page_ok_heat_upd)

section \<open>The same machine\<close>

definition same_page :: "mb_page \<Rightarrow> mb_page \<Rightarrow> bool" where
  "same_page p q \<longleftrightarrow> pg_status p = pg_status q \<and> pg_invisible p = pg_invisible q \<and>
     (\<not> pg_invisible p \<longrightarrow> pg_live p = pg_live q \<and> pg_dirty p = pg_dirty q \<and> page_baseline p = page_baseline q)"

definition same_machine :: "mb_block \<Rightarrow> mb_block \<Rightarrow> bool" where
  "same_machine b c \<longleftrightarrow> bk_npages b = bk_npages c \<and>
     list_all (\<lambda>i. same_page (bk_pages b ! i) (bk_pages c ! i)) [0..<bk_npages b]"

lemma same_page_refl [simp]: "same_page p p"
  by (simp add: same_page_def)

lemma same_page_trans: "same_page p q \<Longrightarrow> same_page q r \<Longrightarrow> same_page p r"
  by (simp add: same_page_def)

lemma same_page_sym: "same_page p q \<Longrightarrow> same_page q p"
  by (simp add: same_page_def)

lemma same_machineD: "same_machine b c \<Longrightarrow> bk_npages c = bk_npages b"
  "same_machine b c \<Longrightarrow> i < bk_npages b \<Longrightarrow> same_page (bk_pages b ! i) (bk_pages c ! i)"
  by (simp_all add: same_machine_def list_all_iff)

lemma same_machineI:
  "bk_npages b = bk_npages c \<Longrightarrow> (\<And>i. i < bk_npages b \<Longrightarrow> same_page (bk_pages b ! i) (bk_pages c ! i)) \<Longrightarrow> same_machine b c"
  by (simp add: same_machine_def list_all_iff)

lemma same_hotten: "same_page (v_page v) (v_page (hotten_v v))"
  by (simp add: same_page_def hotten_v_def page_baseline_def Let_def cong: mb_snap.case_cong)

lemma same_heat: "same_page (v_page v) (v_page (heat_v h fr v))"
proof -
  have "same_page (v_page v) (v_page (heat_upd fr v))" by (simp add: same_page_def heat_upd_def)
  then show ?thesis using same_page_trans [OF _ same_hotten] by (simp add: heat_v_def)
qed

lemma same_refresh: "same_page (v_page v) (v_page (refresh_v fr v))"
  using refresh_same [of v fr] by (simp add: same_page_def same_since_def)

text \<open>What the delta has to carry of a page whose beginning was \<open>p0\<close>.\<close>

definition ended_v :: "mb_page \<Rightarrow> pview \<Rightarrow> bool" where
  "ended_v p0 v \<longleftrightarrow>
    (let p = v_page v
     in pg_invisible p = pg_invisible p0 \<and> (\<not> v_stat v \<longrightarrow> pg_status p = pg_status p0)
      \<and> (pg_epoch_dirty p \<longrightarrow> \<not> pg_invisible p) \<and> (\<not> pg_invisible p \<longrightarrow> page_baseline p = page_baseline p0)
      \<and> (\<not> pg_invisible p \<longrightarrow> \<not> pg_epoch_dirty p \<longrightarrow> pg_dirty p = pg_dirty p0 \<and> pg_live p = pg_live p0))"

lemma hot_v_fields:
  "pg_invisible (v_page (hot_v v)) = pg_invisible (v_page v)" "v_stat (hot_v v) = v_stat v"
  "pg_status (v_page (hot_v v)) = pg_status (v_page v)" "page_baseline (v_page (hot_v v)) = page_baseline (v_page v)"
  "pg_dirty (v_page (hot_v v)) = pg_dirty (v_page v)" "pg_live (v_page (hot_v v)) = pg_live (v_page v)"
  "pg_epoch_dirty (v_page (hot_v v)) = (pg_epoch_dirty (v_page v) \<or> pg_shadow (v_page v) \<noteq> Some (pg_live (v_page v)))"
  by (simp_all add: hot_v_def cool_v_def written_v_def Let_def)

lemma ended_compared:
  assumes "since_v p0 v" "page_ok fr v"
  shows "ended_v p0 (compared_v v)"
proof (cases "pg_hot (v_page v)")
  case True
  then have "\<not> pg_invisible (v_page v)" using assms(2) by (simp add: page_ok_def track_v_def Let_def)
  then show ?thesis
    using True assms(1) by (auto simp: ended_v_def since_v_def compared_v_def hot_v_fields Let_def)
next
  case False
  then show ?thesis using assms(1) by (simp add: ended_v_def since_v_def compared_v_def Let_def) blast
qed

section \<open>The lists of a delta\<close>

definition delta_of :: "mb_block \<Rightarrow> delta_parts" where
  "delta_of b = \<lparr>dp_npages = of_nat (bk_npages b),
     dp_status = map (\<lambda>i. (of_nat i, pg_status (bk_pages b ! i))) (bits_each (bk_stat_bits b)),
     dp_data = map (\<lambda>i. (data_index b i, pg_live (bk_pages b ! i))) (bits_each (bk_epoch_bits b))\<rparr>"

lemma length_bits_each:
  assumes "bits_fit n w"
  shows "length (bits_each w) = card {i. i < n \<and> bits_get w i}"
  using set_bits_each [OF assms] distinct_card [OF distinct_bits_each [of w]] by simp

lemma delta_chunks_bytes:
  assumes "block_ok b"
  shows "concat (delta_chunks b) = delta_bytes (delta_of b)"
proof -
  note l = bits_b [OF block_ok_lens [OF assms]]
  have "{i. i < bk_npages b \<and> bits_get (bk_epoch_bits b) i} = {i. i < bk_npages b \<and> pg_epoch_dirty (bk_pages b ! i)}"
    using block_ok_view [OF assms] by (auto simp: view_ok_def)
  then have n: "length (bits_each (bk_epoch_bits b)) = bk_epoch_ndirty b" "length (bits_each (bk_stat_bits b)) = bk_epoch_nstat b"
    using assms length_bits_each [OF l(1)] length_bits_each [OF l(2)] by (simp_all add: block_ok_def page_count_def)
  have c: "concat (concat (map f xs)) = concat (map (\<lambda>x. concat (f x)) xs)" for f :: "nat \<Rightarrow> bytes list" and xs
    by (induction xs) simp_all
  show ?thesis
    by (simp add: delta_chunks_def delta_bytes_def delta_of_def n c o_def status_entry_def data_entry_def
        status_bytes_def data_bytes_def)
qed

lemma delta_page_index:
  assumes "i < 2 ^ 63"
  shows "unat (delta_page (data_index b i)) = i" "(data_index b i AND DELTA_IDX_CLEAN \<noteq> 0) = (\<not> pg_dirty (bk_pages b ! i))"
proof -
  let ?w = "of_nat i :: u64"
  have u: "unat ?w = i" using assms by (simp add: unat_of_nat)
  have h: "\<not> bit ?w 63" using high_bit_clear [of ?w] assms u by simp
  have c: "delta_page (?w OR DELTA_IDX_CLEAN) = delta_page ?w"
    by (auto simp: delta_page_def bit_and_iff bit_or_iff bit_not_iff intro!: bit_word_eqI)
  have z: "?w AND DELTA_IDX_CLEAN = 0"
    using h by (auto simp: bit_and_iff bit_clean intro!: bit_word_eqI)
  have "bit ((?w OR DELTA_IDX_CLEAN) AND DELTA_IDX_CLEAN) 63"
    by (simp add: bit_and_iff bit_or_iff bit_clean)
  then have nz: "(?w OR DELTA_IDX_CLEAN) AND DELTA_IDX_CLEAN \<noteq> 0" by (metis bit_0_eq bot_apply bot_bool_def)
  show "unat (delta_page (data_index b i)) = i" "(data_index b i AND DELTA_IDX_CLEAN \<noteq> 0) = (\<not> pg_dirty (bk_pages b ! i))"
    using c z nz u delta_page_eq [of ?w] assms by (simp_all add: data_index_def)
qed

end
