(* ===== verification/Mb_Demo.thy ===== *)
theory Mb_Demo
  imports Mb_Mem_Ops
begin

text \<open>
  A machine of two pages, made, activated and sealed by the code's own
  operations: what the properties of the block are applied to.
\<close>

definition demo_env :: os_env where
  "demo_env = \<lparr>os_group = 1, os_grants = (\<lambda>_ _ _. True), os_room = (\<lambda>_. True)\<rparr>"

definition demo_range :: mb_range where
  "demo_range = \<lparr>rg_start = 0x100000000, rg_size = 0x2000\<rparr>"

definition demo_new :: mb_block where
  "demo_new = the (mb_block_new True demo_range)"

definition demo_active :: mb_block where
  "demo_active = the (mb_block_activate demo_env True demo_new)"

definition demo_sealed :: mb_block where
  "demo_sealed = fst (mb_block_seal demo_env (replicate 64 0) demo_active)"

lemma demo_env_ok [simp]: "env_ok demo_env"
  by (simp add: demo_env_def env_ok_def)

lemma demo_range_size: "unat (drop_bit 12 (rg_size demo_range)) = 2"
  by (simp add: demo_range_def)

lemma demo_aligned: "mb_align_down (rg_start demo_range) = rg_start demo_range" "mb_align_down (rg_size demo_range) = rg_size demo_range"
    "rg_start demo_range AND 0xffffffff = 0"
  by (simp_all add: demo_range_def mb_align_down_def MB_PAGEMASK_def MB_PAGESIZE_def)

lemma demo_new_eq: "mb_block_new True demo_range = Some demo_new"
  using demo_aligned by (simp add: demo_new_def mb_block_new_def Let_def)

lemma new_inactive: "mb_block_new room addr = Some b \<Longrightarrow> \<not> bk_active b \<and> \<not> bk_swapped_in b"
  by (auto simp: mb_block_new_def Let_def split: if_splits)

lemma demo_new_facts: "block_wf demo_new" "\<not> bk_active demo_new" "\<not> bk_swapped_in demo_new" "bk_npages demo_new = 2"
    "\<not> bk_sealed demo_new" "\<not> bk_plan_active demo_new" "bk_addr demo_new = demo_range"
proof -
  show "bk_npages demo_new = 2" using new_block(1) [OF demo_new_eq] demo_range_size by (simp add: bk_npages_def)
  show "\<not> bk_active demo_new" "\<not> bk_swapped_in demo_new" using new_inactive [OF demo_new_eq] by simp_all
qed (use new_wf [OF demo_new_eq] new_block(2) [OF demo_new_eq] in simp_all)

lemma refresh_all_frame: "env_ok E \<Longrightarrow> block_ok b \<Longrightarrow> frame (refresh_all E b) = frame b"
  unfolding refresh_all_def by (rule acts_onD(2) [OF refresh_range_acts]) simp_all

lemma activate_facts:
  assumes E: "env_ok E" and b: "block_wf b" "\<not> bk_active b" "\<not> bk_swapped_in b"
  obtains b' where "mb_block_activate E True b = Some b'" "block_wf b'" "bk_swapped_in b'" "bk_npages b' = bk_npages b"
    "bk_sealed b' = bk_sealed b" "bk_plan_active b' = bk_plan_active b" "bk_addr b' = bk_addr b" "bk_active b'"
proof -
  define b' where "b' = (refresh_all E (b\<lparr>bk_swapped_in := True\<rparr>))\<lparr>bk_active := True\<rparr>"
  have r: "mb_block_activate E True b = Some b'" using b by (simp add: mb_block_activate_def b'_def)
  have f: "frame (refresh_all E (b\<lparr>bk_swapped_in := True\<rparr>)) = (frame b)\<lparr>fr_swapped := True\<rparr>"
    using refresh_all_frame [OF E, of "b\<lparr>bk_swapped_in := True\<rparr>"] block_wfD(2) [OF b(1)] by simp
  then have fb: "frame b' = (frame b)\<lparr>fr_swapped := True, fr_active := True\<rparr>" by (simp add: b'_def)
  have "bk_swapped_in b'" "bk_npages b' = bk_npages b" "bk_sealed b' = bk_sealed b" "bk_plan_active b' = bk_plan_active b"
      "bk_addr b' = bk_addr b" "bk_active b'"
    using arg_cong [OF fb, of fr_swapped] arg_cong [OF fb, of fr_n] arg_cong [OF fb, of fr_sealed] arg_cong [OF fb, of fr_plan]
      arg_cong [OF fb, of fr_addr] arg_cong [OF fb, of fr_active] by simp_all
  then show ?thesis using that [OF r activate_wf [OF E b(1) r]] by blast
qed

lemma seal_facts:
  fixes buf
  assumes E: "env_ok E" and b: "block_wf b" "\<not> bk_sealed b"
  defines "b' \<equiv> fst (mb_block_seal E buf b)"
  shows "block_wf b'" "bk_sealed b'" "bk_swapped_in b' = bk_swapped_in b" "bk_npages b' = bk_npages b"
    "bk_plan_active b' = bk_plan_active b" "bk_addr b' = bk_addr b"
proof -
  show "block_wf b'" unfolding b'_def by (rule seal_wf [OF E b(1)])
  define c where "c = mb_block_epoch_clear b"
  note cl = epoch_clear_inv [OF block_wfD(1) [OF b(1)], folded c_def]
  have n: "bk_npages c = bk_npages b" using arg_cong [OF cl(2), of fr_n] by simp
  define d where "d = refresh_all E (fold (\<lambda>i b. seal_page b i) [0..<bk_npages b] c)"
  have fd: "frame d = (frame b)\<lparr>fr_epoch := False\<rparr>"
    using acts_onD(2) [OF seal_pages(1) [OF E cl(1)]] cl(2) n by (simp add: d_def)
  have b': "b' = d\<lparr>bk_sealed := True\<rparr> \<or> (\<exists>h. b' = d\<lparr>bk_sealed := True, bk_hash := h\<rparr>)"
    using b(2) by (auto simp: b'_def mb_block_seal_def d_def c_def Let_def split: option.split)
  have "bk_sealed b' \<and> bk_swapped_in b' = bk_swapped_in d \<and> bk_npages b' = bk_npages d \<and>
      bk_plan_active b' = bk_plan_active d \<and> bk_addr b' = bk_addr d"
    using b' by auto
  then show "bk_sealed b'" "bk_swapped_in b' = bk_swapped_in b" "bk_npages b' = bk_npages b"
    "bk_plan_active b' = bk_plan_active b" "bk_addr b' = bk_addr b"
    using arg_cong [OF fd, of fr_swapped] arg_cong [OF fd, of fr_n] arg_cong [OF fd, of fr_plan] arg_cong [OF fd, of fr_addr]
    by simp_all
qed

lemma demo_active_facts: "block_wf demo_active" "bk_swapped_in demo_active" "bk_npages demo_active = 2" "\<not> bk_sealed demo_active"
    "\<not> bk_plan_active demo_active" "bk_addr demo_active = demo_range" "bk_active demo_active"
proof -
  obtain b' where b': "mb_block_activate demo_env True demo_new = Some b'" "block_wf b'" "bk_swapped_in b'"
    "bk_npages b' = bk_npages demo_new" "bk_sealed b' = bk_sealed demo_new" "bk_plan_active b' = bk_plan_active demo_new"
    "bk_addr b' = bk_addr demo_new" "bk_active b'"
    by (rule activate_facts [OF demo_env_ok demo_new_facts(1-3)])
  then have "demo_active = b'" by (simp add: demo_active_def)
  then show "block_wf demo_active" "bk_swapped_in demo_active" "bk_npages demo_active = 2" "\<not> bk_sealed demo_active"
    "\<not> bk_plan_active demo_active" "bk_addr demo_active = demo_range" "bk_active demo_active"
    using b' demo_new_facts by simp_all
qed

lemma demo_sealed_facts: "block_wf demo_sealed" "bk_swapped_in demo_sealed" "bk_npages demo_sealed = 2" "bk_sealed demo_sealed"
    "\<not> bk_plan_active demo_sealed" "bk_addr demo_sealed = demo_range"
  using seal_facts [OF demo_env_ok demo_active_facts(1,4), of "replicate 64 0"] demo_active_facts by (simp_all add: demo_sealed_def)

end
