(* ===== verification/Mb_Delta_Trip.thy ===== *)
theory Mb_Delta_Trip
  imports Mb_Delta_Props Mb_Demo
begin

text \<open>
  The round trip of a delta, and deltas applied one after the other: a machine
  that was the same when an epoch began is the same again after the delta taken
  at its end has been applied.
\<close>

section \<open>The lists as the applier reads them\<close>

lemma npages_small: "block_wf b \<Longrightarrow> bk_npages b \<le> (2 ^ 64 - 1) div MB_PAGESIZE"
proof -
  assume "block_wf b"
  then have "bk_npages b * MB_PAGESIZE \<le> 2 ^ 64 - 1"
    using unat_u64_less [of "rg_size (bk_addr b)"] by (simp add: block_wf_def del: unat_u64_less)
  then show ?thesis by (simp add: MB_PAGESIZE_def)
qed

lemma stat_list: "block_ok b \<Longrightarrow> set (bits_each (bk_stat_bits b)) = {i. i < bk_npages b \<and> v_stat (view b i)}"
  using set_bits_each [OF bits_b(2) [OF block_ok_lens]] by simp

lemma epoch_list: "block_ok b \<Longrightarrow> set (bits_each (bk_epoch_bits b)) = {i. i < bk_npages b \<and> pg_epoch_dirty (bk_pages b ! i)}"
  using set_bits_each [OF bits_b(1) [OF block_ok_lens]] block_ok_view [of b] by (auto simp: view_ok_def)

lemma delta_keys:
  assumes b: "block_ok b" and n: "bk_npages b < 2 ^ 63"
  shows "map status_key (dp_status (delta_of b)) = map (\<lambda>i. (i, pg_status (bk_pages b ! i))) (bits_each (bk_stat_bits b))"
    "map data_key (dp_data (delta_of b)) =
       map (\<lambda>i. (i, \<not> pg_dirty (bk_pages b ! i), pg_live (bk_pages b ! i))) (bits_each (bk_epoch_bits b))"
proof -
  have "unat (of_nat i :: u64) = i" if "i \<in> set (bits_each (bk_stat_bits b))" for i
    using that stat_list [OF b] n by (auto simp: unat_of_nat)
  then show "map status_key (dp_status (delta_of b)) = map (\<lambda>i. (i, pg_status (bk_pages b ! i))) (bits_each (bk_stat_bits b))"
    by (simp add: delta_of_def status_key_def)
  have "unat (delta_page (data_index b i)) = i \<and> (data_index b i AND DELTA_IDX_CLEAN \<noteq> 0) = (\<not> pg_dirty (bk_pages b ! i))"
    if "i \<in> set (bits_each (bk_epoch_bits b))" for i
    using that epoch_list [OF b] n delta_page_index [of i b] by auto
  then show "map data_key (dp_data (delta_of b)) =
       map (\<lambda>i. (i, \<not> pg_dirty (bk_pages b ! i), pg_live (bk_pages b ! i))) (bits_each (bk_epoch_bits b))"
    by (simp add: delta_of_def data_key_def)
qed

lemma map_of_keys: "map_of (map (\<lambda>i. (i, f i)) xs) j = (if j \<in> set xs then Some (f j) else None)"
  by (induction xs) auto

lemma strict_sorted_bits: "sorted_wrt (<) (bits_each w)"
  using sorted_bits_each [of w] distinct_bits_each [of w] by (simp add: strict_sorted_iff)

lemma delta_of_sorted:
  assumes b: "block_wf b"
  shows "parts_sorted (delta_of b)" "unat (dp_npages (delta_of b)) = bk_npages b"
proof -
  note bo = block_wfD(2) [OF b] and n = npages_small [OF b]
  have n63: "bk_npages b < 2 ^ 63" using n by (simp add: MB_PAGESIZE_def)
  show u: "unat (dp_npages (delta_of b)) = bk_npages b" using n63 by (simp add: delta_of_def unat_of_nat)
  note k = delta_keys [OF bo n63]
  have fs: "map (fst \<circ> status_key) (dp_status (delta_of b)) = bits_each (bk_stat_bits b)"
      "map (fst \<circ> data_key) (dp_data (delta_of b)) = bits_each (bk_epoch_bits b)"
    using arg_cong [OF k(1), of "map fst"] arg_cong [OF k(2), of "map fst"] by (simp_all add: o_def)
  have card: "length (bits_each w) \<le> bk_npages b" if "bits_fit (bk_npages b) w" for w
    unfolding length_bits_each [OF that] using card_mono [of "{..<bk_npages b}" "{i. i < bk_npages b \<and> bits_get w i}"] by auto
  note l = bits_b [OF block_ok_lens [OF bo]]
  have live: "length (pg_live (bk_pages b ! i)) = MB_PAGESIZE" if "i < bk_npages b" for i
    using block_invD(2) [OF block_wfD(1) [OF b] that] by (simp add: page_ok_def snap_ok_def)
  have "parts_ok (delta_of b)"
    unfolding parts_ok_def
  proof (intro conjI)
    show "dp_npages (delta_of b) \<le> (- 1) div of_nat MB_PAGESIZE"
      using n u by (simp add: word_le_nat_alt unat_div MB_PAGESIZE_def)
    show "length (dp_status (delta_of b)) \<le> unat (dp_npages (delta_of b))" "length (dp_data (delta_of b)) \<le> unat (dp_npages (delta_of b))"
      using card [OF l(2)] card [OF l(1)] unfolding u by (simp_all add: delta_of_def)
    show "\<forall>e\<in>set (dp_status (delta_of b)). fst e < dp_npages (delta_of b)"
      using stat_list [OF bo] n63 by (auto simp: delta_of_def word_less_nat_alt unat_of_nat)
    show "\<forall>e\<in>set (dp_data (delta_of b)). delta_page (fst e) < dp_npages (delta_of b) \<and> length (snd e) = MB_PAGESIZE"
      using epoch_list [OF bo] n63 live delta_page_index(1) [of _ b] unfolding word_less_nat_alt u by (auto simp: delta_of_def)
  qed
  then show "parts_sorted (delta_of b)"
    unfolding parts_sorted_def fs by (simp add: strict_sorted_bits)
qed

lemma applied_delta_of:
  assumes "block_ok b" "bk_npages b < 2 ^ 63" "j < bk_npages b"
  shows "applied_v (delta_of b) fr j x =
    (let w = view b j;
         y = (if v_stat w then moved_op (\<lambda>_. status_v (pg_status (v_page w))) fr x else x)
     in if pg_epoch_dirty (v_page w) then moved_op (\<lambda>_. data_v (\<not> pg_dirty (v_page w), pg_live (v_page w))) fr y else y)"
  using assms by (simp add: applied_v_def entry_v_def delta_keys map_of_keys stat_list epoch_list Let_def)

section \<open>One page\<close>

lemma same_moved: "same_page (v_page (h fr v)) (v_page (moved_op h fr v))"
  by (simp add: moved_op_def same_refresh)

lemma same_page_of:
  "same_page p (v_page (h fr v)) \<Longrightarrow> same_page p (v_page (moved_op h fr v))"
  using same_page_trans [OF _ same_moved] .

lemma status_v_page:
  "pg_status (v_page (status_v st v)) = st" "pg_live (v_page (status_v st v)) = pg_live (v_page v)"
  "pg_dirty (v_page (status_v st v)) = pg_dirty (v_page v)"
  by (simp_all add: status_v_def cool_v_def Let_def)

lemma data_v_page:
  assumes "\<not> pg_invisible (v_page v)"
  shows "pg_status (v_page (data_v (cl, bs) v)) = pg_status (v_page v)" "pg_invisible (v_page (data_v (cl, bs) v)) = pg_invisible (v_page v)"
    "pg_live (v_page (data_v (cl, bs) v)) = bs" "pg_dirty (v_page (data_v (cl, bs) v)) = (\<not> cl)"
    "page_baseline (v_page (data_v (cl, bs) v)) = page_baseline (v_page v)"
proof -
  have "pg_snap (v_page (snap_v True v)) \<noteq> MB_SNAP_NONE" by (rule snap_taken_v)
  then have "page_baseline (v_page (put_live_v bs (snap_v True v))) = page_baseline (v_page (snap_v True v))"
    by (simp add: put_live_v_def page_baseline_def split: mb_snap.split)
  then show "page_baseline (v_page (data_v (cl, bs) v)) = page_baseline (v_page v)"
    by (simp add: data_v_def Let_def shadow_v_def zero_dirty_fields)
  show "pg_status (v_page (data_v (cl, bs) v)) = pg_status (v_page v)" "pg_invisible (v_page (data_v (cl, bs) v)) = pg_invisible (v_page v)"
    "pg_live (v_page (data_v (cl, bs) v)) = bs" "pg_dirty (v_page (data_v (cl, bs) v)) = (\<not> cl)"
    using assms by (simp_all add: data_v_def shadow_v_def dirty_v_def cool_v_def put_live_v_def snap_v_def
      mb_page_maybe_snapshot_def Let_def)
qed

lemma applied_same:
  assumes w: "ended_v p0 w" and x: "same_page p0 (v_page x)"
    and y: "y = (if v_stat w then moved_op (\<lambda>_. status_v (pg_status (v_page w))) fr x else x)"
    and z: "z = (if pg_epoch_dirty (v_page w) then moved_op (\<lambda>_. data_v (\<not> pg_dirty (v_page w), pg_live (v_page w))) fr y else y)"
  shows "same_page (v_page w) (v_page z)" "page_baseline (v_page y) = page_baseline (v_page x)"
    "pg_invisible (v_page y) = pg_invisible (v_page x)"
proof -
  have yf: "pg_status (v_page y) = (if v_stat w then pg_status (v_page w) else pg_status (v_page x))"
      "pg_invisible (v_page y) = pg_invisible (v_page x)" "pg_live (v_page y) = pg_live (v_page x)"
      "pg_dirty (v_page y) = pg_dirty (v_page x)" "page_baseline (v_page y) = page_baseline (v_page x)"
    using refresh_same [of "status_v (pg_status (v_page w)) x" fr]
    by (auto simp: y moved_op_def same_since_def status_v_page)
  show "page_baseline (v_page y) = page_baseline (v_page x)" "pg_invisible (v_page y) = pg_invisible (v_page x)" by (fact yf)+
  have xw: "same_page (v_page w) (v_page y)" if "\<not> pg_epoch_dirty (v_page w)"
    using w x yf that by (auto simp: same_page_def ended_v_def Let_def)
  have "same_page (v_page w) (v_page (data_v (\<not> pg_dirty (v_page w), pg_live (v_page w)) y))"
    if ed: "pg_epoch_dirty (v_page w)"
  proof -
    have vis: "\<not> pg_invisible (v_page w)" "\<not> pg_invisible (v_page y)"
      using ed w x yf by (auto simp: same_page_def ended_v_def Let_def)
    show ?thesis
      using data_v_page [OF vis(2)] w x yf vis by (auto simp: same_page_def ended_v_def Let_def)
  qed
  then show "same_page (v_page w) (v_page z)" using z xw same_page_of by simp
qed

lemma page_ok_status_moved: "page_ok fr v \<Longrightarrow> page_ok fr (moved_op (\<lambda>_. status_v st) fr v)"
proof -
  assume v: "page_ok fr v"
  show ?thesis
    unfolding moved_op_def
    by (rule page_ok_moved [OF v page_loose_status [OF page_ok_loose [OF v]]])
       (simp_all add: status_v_def cool_v_def Let_def split: if_splits)
qed

lemma loose_data:
  assumes v: "page_ok fr v" and l: "length bs = MB_PAGESIZE" and vis: "\<not> pg_invisible (v_page v)"
    and cl: "cl \<Longrightarrow> bs = page_baseline (v_page v)"
  shows "page_loose fr (data_v (cl, bs) v)"
proof -
  define u where "u = put_live_v bs (snap_v True v)"
  have lo: "page_loose fr (snap_v True v)" by (rule page_loose_snap [OF page_ok_loose [OF v]])
  have uv: "view_ok u" "track_loose fr u"
    using lo by (simp_all add: u_def page_loose_def put_live_v_def view_ok_def track_loose_def Let_def)
  have t: "view_ok (data_v (cl, bs) v)" "track_loose fr (data_v (cl, bs) v)"
    using uv by (simp_all add: data_v_def u_def [symmetric] view_dirty_zero track_dirty_zero track_shadow Let_def)
  have sn: "pg_snap (v_page (data_v (cl, bs) v)) = pg_snap (v_page (snap_v True v))"
    by (simp add: data_v_def shadow_v_def dirty_v_def cool_v_def put_live_v_def Let_def)
  define p where "p = v_page (data_v (cl, bs) v)"
  have "snap_ok (v_page (snap_v True v))" using lo by (simp add: page_loose_def)
  then have "snap_ok p"
    using data_v_page [OF vis, of cl bs, folded p_def] l sn [folded p_def] cl snap_taken_v [of v] by (simp add: snap_ok_def)
  then show ?thesis using t by (simp add: page_loose_def p_def)
qed

lemma page_ok_data_moved:
  assumes v: "page_ok fr v" and l: "length bs = MB_PAGESIZE" and vis: "\<not> pg_invisible (v_page v)"
    and cl: "cl \<Longrightarrow> bs = page_baseline (v_page v)"
  shows "page_ok fr (moved_op (\<lambda>_. data_v (cl, bs)) fr v)"
  unfolding moved_op_def
  by (rule page_ok_moved [OF v loose_data [OF assms]])
     (use vis in \<open>auto simp: data_v_def shadow_v_def dirty_v_def cool_v_def put_live_v_def snap_v_def
      mb_page_maybe_snapshot_def Let_def split: if_splits\<close>)

lemma page_ok_forget: "page_ok fr v \<Longrightarrow> page_ok (fr\<lparr>fr_epoch := False\<rparr>) (forget_v v)"
  by (auto simp: page_ok_def view_ok_def track_v_def snap_ok_def forget_v_def native_writable Let_def)

lemma hold_data: "pg_plan_hold (v_page (moved_op (\<lambda>_. data_v x) fr v)) = pg_plan_hold (v_page v)"
  "pg_plan_hold (v_page (moved_op (\<lambda>_. status_v st) fr v)) = pg_plan_hold (v_page v)"
  by (simp_all add: moved_op_def data_v_def shadow_v_def put_live_v_def Let_def)

lemma page_ok_touched: "page_ok (fr\<lparr>fr_touched := t\<rparr>) v = page_ok fr v"
  by (simp add: page_ok_def track_v_def)

section \<open>The round trip\<close>

lemma same_forget: "same_page p (v_page (forget_v v)) = same_page p (v_page v)"
  by (simp add: same_page_def forget_v_def)

lemma delta_apply_same:
  assumes E: "env_ok E" and b: "block_wf b" and c: "block_wf c" "bk_sealed c" and n: "bk_npages c = bk_npages b"
    and e: "\<And>j. j < bk_npages b \<Longrightarrow> ended_v (p0 j) (view b j)"
    and s: "\<And>j. j < bk_npages b \<Longrightarrow> same_page (p0 j) (bk_pages c ! j)"
  obtains c' where "mb_block_delta_apply E c (delta_bytes (delta_of b) @ r) = (c', r, Inr ())"
    "block_wf c'" "bk_sealed c'" "same_machine b c'" "bk_swapped_in c' = bk_swapped_in c" "bk_plan_active c' = bk_plan_active c"
proof -
  note d = delta_of_sorted [OF b]
  have n63: "bk_npages b < 2 ^ 63" using npages_small [OF b] by (simp add: MB_PAGESIZE_def)
  obtain c' where r: "mb_block_delta_apply E c (delta_bytes (delta_of b) @ r) = (c', r, Inr ())"
    and c': "block_ok c'" "frame c' = (frame c)\<lparr>fr_touched := True, fr_epoch := False\<rparr>"
    and v: "\<And>j. j < bk_npages c \<Longrightarrow> view c' j = forget_v (applied_v (delta_of b) ((frame c)\<lparr>fr_touched := True\<rparr>) j (view c j))"
    by (rule delta_apply_acts [OF E block_wfD(2) [OF c(1)] c(2) d(1), of r]) (use d(2) n in auto)
  define fr where "fr = (frame c)\<lparr>fr_touched := True\<rparr>"
  have n': "bk_npages c' = bk_npages b" "bk_sealed c'" "bk_swapped_in c' = bk_swapped_in c" "bk_plan_active c' = bk_plan_active c"
      "bk_addr c' = bk_addr c" "bk_plan_list c' = bk_plan_list c"
    using arg_cong [OF c'(2), of fr_n] arg_cong [OF c'(2), of fr_sealed] arg_cong [OF c'(2), of fr_swapped]
      arg_cong [OF c'(2), of fr_plan] arg_cong [OF c'(2), of fr_addr] arg_cong [OF c'(2), of fr_plan_list] n c(2) by simp_all
  have pg: "same_page (bk_pages b ! j) (bk_pages c' ! j)" "page_ok (frame c') (view c' j)"
    "pg_plan_hold (v_page (view c' j)) = pg_plan_hold (v_page (view c j))" if j: "j < bk_npages b" for j
  proof -
    define w where "w = view b j"
    define x where "x = view c j"
    define y where "y = (if v_stat w then moved_op (\<lambda>_. status_v (pg_status (v_page w))) fr x else x)"
    define z where "z = (if pg_epoch_dirty (v_page w) then moved_op (\<lambda>_. data_v (\<not> pg_dirty (v_page w), pg_live (v_page w))) fr y else y)"
    have vz: "view c' j = forget_v z"
      using v [of j] j n applied_delta_of [OF block_wfD(2) [OF b] n63 j] by (simp add: fr_def w_def x_def y_def z_def Let_def)
    have ew: "ended_v (p0 j) w" and sx: "same_page (p0 j) (v_page x)" using e [OF j] s [OF j] by (simp_all add: w_def x_def)
    note sm = applied_same [OF ew sx y_def z_def]
    have "same_page (v_page w) (v_page (view c' j))" using sm(1) vz by (simp add: same_forget)
    then show "same_page (bk_pages b ! j) (bk_pages c' ! j)" by (simp add: w_def)
    have okx: "page_ok fr x" and okw: "page_ok (frame b) w"
      using block_invD(2) [OF block_wfD(1) [OF c(1)]] block_invD(2) [OF block_wfD(1) [OF b]] j n
      by (simp_all add: fr_def x_def w_def page_ok_touched)
    have oky: "page_ok fr y" using okx by (simp add: y_def page_ok_status_moved)
    have lw: "length (pg_live (v_page w)) = MB_PAGESIZE" using okw by (simp add: page_ok_def snap_ok_def)
    have vis: "\<not> pg_invisible (v_page w)" "\<not> pg_invisible (v_page y)" if "pg_epoch_dirty (v_page w)"
      using that ew sx sm(3) by (auto simp: ended_v_def same_page_def Let_def)
    have base: "pg_live (v_page w) = page_baseline (v_page y)" if "\<not> pg_dirty (v_page w)" "pg_epoch_dirty (v_page w)"
      using that okw vis [OF that(2)] ew sx sm(2,3) by (auto simp: page_ok_def snap_ok_def ended_v_def same_page_def Let_def)
    have okz: "page_ok fr z" using oky page_ok_data_moved [OF oky lw] vis base by (auto simp: z_def)
    have f2: "frame c' = fr\<lparr>fr_epoch := False\<rparr>" using c'(2) by (simp add: fr_def)
    show "page_ok (frame c') (view c' j)" unfolding vz f2 by (rule page_ok_forget [OF okz])
    show "pg_plan_hold (v_page (view c' j)) = pg_plan_hold (v_page (view c j))"
      unfolding vz by (simp add: hold_forget z_def y_def hold_data x_def)
  qed
  have "block_inv c'"
    using pg(2,3) n n' by (intro block_invI [OF block_wfD(1) [OF c(1)] c'(1)]) simp_all
  then have "block_wf c'" using c(1) n n' by (simp add: block_wf_def)
  moreover have "same_machine b c'" using pg(1) n' by (simp add: same_machineI)
  ultimately show ?thesis using that r n' by blast
qed

section \<open>Saving\<close>

lemma delta_save_facts:
  assumes E: "env_ok E" and b: "block_wf b" "bk_epoch_active b"
  obtains b2 where "mb_block_delta_save E b True = (b2, Inr (delta_chunks (get_hot_epoch b)))"
    "concat (delta_chunks (get_hot_epoch b)) = delta_bytes (delta_of (get_hot_epoch b))"
    "block_wf (get_hot_epoch b)" "block_wf b2" "frame b2 = frame b" "same_machine (get_hot_epoch b) b2"
proof -
  define b1 where "b1 = get_hot_epoch b"
  define b2 where "b2 = heat_written_pages E b1"
  have a: "acts_on (\<lambda>_. compared_v) {..<bk_npages b} b b1"
    using get_hot_acts [OF block_wfD(2) [OF b(1)]] by (simp add: b1_def)
  have h1: "pg_plan_hold (v_page (compared_v v)) = pg_plan_hold (v_page v)" for v
    by (simp add: compared_v_def hot_v_def Let_def)
  have "safe_v (frame b) (\<lambda>_. compared_v)" using b(2) by (simp add: safe_v_def page_ok_compared h1)
  then have w1: "block_wf b1" by (rule block_wf_acts [OF b(1) a])
  have f1: "frame b1 = frame b" using acts_onD(2) [OF a] .
  obtain H where H: "block_ok b2" "frame b2 = frame b1"
    "\<And>j. j < bk_npages b1 \<Longrightarrow> view b2 j =
       (if pg_epoch_dirty (bk_pages b1 ! j) then heat_v (H j) (frame b1) (view b1 j) else view b1 j)"
    by (rule heat_written_acts [OF block_wfD(2) [OF w1], of E]) (simp add: b2_def)
  have n: "bk_npages b2 = bk_npages b1" "bk_addr b2 = bk_addr b1" "bk_plan_list b2 = bk_plan_list b1"
    using frame_eqD [OF H(2)] by simp_all
  have h2: "pg_plan_hold (v_page (heat_v h fr v)) = pg_plan_hold (v_page v)" for h fr v
    by (simp add: heat_v_def heat_upd_def hotten_v_def Let_def)
  have ph: "pg_plan_hold (v_page (view b1 j))" if "j < bk_npages b1" "pg_plan_hold (v_page (view b2 j))" for j
    using H(3) [OF that(1)] that(2) h2 by (simp del: view_sel split: if_splits)
  have "block_inv b2"
    by (rule block_invI [OF block_wfD(1) [OF w1] H(1) n(1,3) _ ph])
       (use H(2,3) block_invD(2) [OF block_wfD(1) [OF w1]] b(2) f1 in \<open>simp_all add: page_ok_heated\<close>)
  then have w2: "block_wf b2" using w1 n by (simp add: block_wf_def)
  have "same_page (v_page (view b1 j)) (v_page (view b2 j))" if "j < bk_npages b1" for j
    unfolding H(3) [OF that] using same_heat [of "view b1 j"] by (simp only: same_page_refl split: if_split) blast
  then have "same_machine b1 b2" using n by (intro same_machineI) simp_all
  moreover have "mb_block_delta_save E b True = (b2, Inr (delta_chunks b1))"
    using b(2) by (simp add: mb_block_delta_save_def b1_def b2_def Let_def)
  ultimately show ?thesis
    using that delta_chunks_bytes [OF block_wfD(2) [OF w1]] w1 w2 H(2) f1 by (simp add: b1_def)
qed

section \<open>Frame after frame\<close>

text \<open>
  A run that opens an epoch for each frame, lets the guest do what it does, and
  saves the frame's delta; and the deltas applied one after the other.
\<close>

inductive frames :: "os_env \<Rightarrow> mb_block \<Rightarrow> bytes list \<Rightarrow> mb_block \<Rightarrow> bool" for E where
  no_frame: "frames E b [] b"
| one_frame: "mb_block_epoch_begin E b = (b0, Inr ()) \<Longrightarrow> (frame_step E)\<^sup>*\<^sup>* b0 b1 \<Longrightarrow>
     mb_block_delta_save E b1 True = (b2, Inr chunks) \<Longrightarrow> frames E b2 ds b' \<Longrightarrow> frames E b (concat chunks # ds) b'"

fun replay :: "os_env \<Rightarrow> mb_block \<Rightarrow> bytes list \<Rightarrow> mb_block option" where
  "replay E c [] = Some c"
| "replay E c (d # ds) = (case mb_block_delta_apply E c d of (c', _, Inr _) \<Rightarrow> replay E c' ds | _ \<Rightarrow> None)"

definition frame_ready :: "mb_block \<Rightarrow> bool" where
  "frame_ready b \<longleftrightarrow> block_wf b \<and> bk_sealed b \<and> bk_swapped_in b \<and> \<not> bk_plan_active b"

lemma same_begin: "same_page (v_page v) (v_page (begin_v fr v))"
proof -
  have "same_page (v_page v) (v_page (shadow_v (forget_v v)))" by (simp add: same_page_def shadow_v_def forget_v_def)
  moreover have "same_page (v_page w) (v_page (rehold_v fr w))" for w
  proof -
    have "same_page (v_page w) (v_page (hold_v w))" by (simp add: hold_v_def same_page_def)
    then show ?thesis using same_page_trans [OF _ same_refresh] by (simp add: rehold_v_def)
  qed
  ultimately show ?thesis unfolding begin_v_def by (rule same_page_trans)
qed

lemma frame_runs:
  assumes E: "env_ok E" and b: "frame_ready b" and bg: "mb_block_epoch_begin E b = (b0, Inr ())"
    and run: "(frame_step E)\<^sup>*\<^sup>* b0 b1"
  shows "bk_npages b0 = bk_npages b" "keeps_since b0 b1" "block_wf b1" "bk_npages b1 = bk_npages b" "bk_epoch_active b1"
    "bk_swapped_in b1" "bk_sealed b1" "\<not> bk_plan_active b1" "bk_hash b1 = bk_hash b"
    "\<And>j. j < bk_npages b \<Longrightarrow> view b0 j = begin_v (epoch_frame (frame b)) (view b j)"
proof -
  note br = b [unfolded frame_ready_def]
  note e = epoch_begin_eq [OF E block_wfD(1) [OF conjunct1 [OF br]] conjunct1 [OF conjunct2 [OF br]], unfolded bg fst_conv]
  have f0: "bk_npages b0 = bk_npages b" "bk_addr b0 = bk_addr b" "bk_epoch_active b0" "bk_swapped_in b0" "bk_sealed b0"
      "\<not> bk_plan_active b0" "bk_hash b0 = bk_hash b"
    using arg_cong [OF e(3), of fr_n] arg_cong [OF e(3), of fr_addr] arg_cong [OF e(3), of fr_epoch] arg_cong [OF e(3), of fr_swapped]
      arg_cong [OF e(3), of fr_sealed] arg_cong [OF e(3), of fr_plan] arg_cong [OF e(3), of fr_hash] br by (simp_all add: epoch_frame_def)
  have w0: "block_wf b0"
    using epoch_begin_inv [OF E block_wfD(1) [OF conjunct1 [OF br]]] bg f0 br by (simp add: block_wf_def)
  have fo: "frame_op E b0" using E w0 f0 by (simp add: frame_op_def)
  show k: "keeps_since b0 b1" by (rule frame_run_since [OF run fo f0(4)])
  show w1: "block_wf b1" using k by (simp add: keeps_since_def)
  have "frame b1 = frame b0" using k by (simp add: keeps_since_def)
  note f1 = frame_eqD [OF this]
  show "bk_npages b0 = bk_npages b" "bk_npages b1 = bk_npages b" "bk_epoch_active b1" "bk_swapped_in b1" "bk_sealed b1"
    "\<not> bk_plan_active b1" "bk_hash b1 = bk_hash b"
    using f0 f1 by simp_all
  show "\<And>j. j < bk_npages b \<Longrightarrow> view b0 j = begin_v (epoch_frame (frame b)) (view b j)" by (rule e(4))
qed

lemma frame_trip:
  assumes E: "env_ok E" and b: "frame_ready b" and bg: "mb_block_epoch_begin E b = (b0, Inr ())"
    and run: "(frame_step E)\<^sup>*\<^sup>* b0 b1" and sv: "mb_block_delta_save E b1 True = (b2, Inr chunks)"
    and c: "block_wf c" "bk_sealed c" "same_machine b c"
  obtains c' where "mb_block_delta_apply E c (concat chunks @ s) = (c', s, Inr ())"
    "block_wf c'" "bk_sealed c'" "same_machine b2 c'" "frame_ready b2"
proof -
  note br = b [unfolded frame_ready_def]
  note f = frame_runs [OF E b bg run]
  obtain b2' where s: "mb_block_delta_save E b1 True = (b2', Inr (delta_chunks (get_hot_epoch b1)))"
    "concat (delta_chunks (get_hot_epoch b1)) = delta_bytes (delta_of (get_hot_epoch b1))"
    "block_wf (get_hot_epoch b1)" "block_wf b2'" "frame b2' = frame b1" "same_machine (get_hot_epoch b1) b2'"
    by (rule delta_save_facts [OF E f(3,5)])
  have eq: "b2' = b2" "chunks = delta_chunks (get_hot_epoch b1)" using sv s(1) by simp_all
  note a = get_hot_acts [OF block_wfD(2) [OF f(3)]]
  have n: "bk_npages (get_hot_epoch b1) = bk_npages b" using acts_onD(3) [OF a] f by simp
  have sn: "since_v (bk_pages b0 ! j) (view b1 j)" if "j < bk_npages b" for j
  proof -
    have "since_v (v_page (view b0 j)) (view b0 j)"
      using since_begin [of "frame b" "view b j" "epoch_frame (frame b)"] block_invD(2) [OF block_wfD(1) [OF conjunct1 [OF br]] that]
        f(10) [OF that] br by (simp add: epoch_frame_def del: view_sel)
    then show ?thesis using f(1,2) that by (simp add: keeps_since_def)
  qed
  have en: "ended_v (bk_pages b0 ! j) (view (get_hot_epoch b1) j)" if "j < bk_npages (get_hot_epoch b1)" for j
    using ended_compared [OF sn block_invD(2) [OF block_wfD(1) [OF f(3)]]] acts_onD(4) [OF a] that n f by simp
  have sc: "same_page (bk_pages b0 ! j) (bk_pages c ! j)" if "j < bk_npages (get_hot_epoch b1)" for j
  proof -
    have "same_page (v_page (view b j)) (v_page (view b0 j))" using f(10) [of j] that n same_begin by (simp del: view_sel)
    then show ?thesis using same_machineD(2) [OF c(3), of j] that n same_page_trans same_page_sym by (metis view_sel(1))
  qed
  obtain c' where r: "mb_block_delta_apply E c (delta_bytes (delta_of (get_hot_epoch b1)) @ s) = (c', s, Inr ())"
    "block_wf c'" "bk_sealed c'" "same_machine (get_hot_epoch b1) c'"
    by (rule delta_apply_same [OF E s(3) c(1,2) _ en sc, of s]) (use n same_machineD(1) [OF c(3)] in auto)
  have "same_machine b2 c'"
    using r(4) s(6) eq(1) same_machineD(1) [OF s(6)]
    by (intro same_machineI) (auto simp: same_machineD(1) intro: same_page_trans [OF same_page_sym] dest: same_machineD(2))
  moreover have "frame_ready b2" using s(4,5) eq frame_eqD [OF s(5)] f by (simp add: frame_ready_def)
  ultimately show ?thesis using that r s(2) eq by simp
qed

text \<open>
  C1: Frame after frame, a machine is rebuilt from its deltas: when an epoch is
  opened for every frame, the guest writes, maps, protects and gives back memory
  as it likes, and the frame's delta is saved, then applying the deltas in order
  to any block that held the same machine at the start succeeds and ends with
  the same machine (statuses, visible bytes, dirty marks and sealed baselines).
\<close>

theorem delta_replay_roundtrip:
  assumes "frames E b ds b'" "env_ok E" "frame_ready b" "block_wf c" "bk_sealed c" "same_machine b c"
  shows "\<exists>c'. replay E c ds = Some c' \<and> same_machine b' c'"
  using assms
proof (induction arbitrary: c rule: frames.induct)
  case (one_frame b b0 b1 b2 chunks ds b')
  obtain c' where c': "mb_block_delta_apply E c (concat chunks @ []) = (c', [], Inr ())"
    "block_wf c'" "bk_sealed c'" "same_machine b2 c'" "frame_ready b2"
    by (rule frame_trip [OF one_frame.prems(1,2) one_frame.hyps(1-3) one_frame.prems(3-5)])
  obtain c2 where "replay E c' ds = Some c2" "same_machine b' c2"
    using one_frame.IH [OF one_frame.prems(1) c'(5,2,3,4)] by blast
  then show ?case using c'(1) by simp
qed simp

definition demo_frame :: "mb_block" where
  "demo_frame = fst (guest_write demo_env
     (fst (mb_block_mmap demo_env (fst (mb_block_epoch_begin demo_env demo_sealed))
        \<lparr>rg_start = 0, rg_size = 0x1000\<rparr> MB_PROT_RW demo_range False False)) 0 0 [42])"

lemma demo_ready: "frame_ready demo_sealed"
  using demo_sealed_facts by (simp add: frame_ready_def)

lemma same_machine_refl: "same_machine b b"
  by (simp add: same_machineI)

lemma demo_epoch:
  obtains b0 where "mb_block_epoch_begin demo_env demo_sealed = (b0, Inr ())" "(frame_step demo_env)\<^sup>*\<^sup>* b0 demo_frame"
    "block_wf demo_frame" "bk_epoch_active demo_frame"
proof -
  note e = epoch_begin_eq [OF demo_env_ok block_wfD(1) [OF demo_sealed_facts(1)] demo_sealed_facts(4)]
  define b0 where "b0 = fst (mb_block_epoch_begin demo_env demo_sealed)"
  have f0: "bk_npages b0 = 2" "bk_addr b0 = demo_range" "bk_epoch_active b0" "bk_swapped_in b0"
    using arg_cong [OF e(3), of fr_n] arg_cong [OF e(3), of fr_addr] arg_cong [OF e(3), of fr_epoch] arg_cong [OF e(3), of fr_swapped]
      demo_sealed_facts by (simp_all add: epoch_frame_def b0_def)
  have w0: "block_wf b0"
    using epoch_begin_inv [OF demo_env_ok block_wfD(1) [OF demo_sealed_facts(1)]] demo_sealed_facts f0 by (simp add: block_wf_def b0_def)
  have fo: "frame_op demo_env b0" using w0 f0 by (simp add: frame_op_def)
  define b1 where "b1 = fst (mb_block_mmap demo_env b0 \<lparr>rg_start = 0, rg_size = 0x1000\<rparr> MB_PROT_RW demo_range False False)"
  have s1: "frame_step demo_env b0 b1" unfolding b1_def by (rule fr_mmap)
  have "bk_npages b1 = 2" using keeps_frame_op [OF fo frame_step_since [OF s1 fo f0(4)]] f0 by simp
  then have "frame_step demo_env b1 (fst (guest_write demo_env b1 0 0 [42]))"
    by (intro fr_write) (simp_all add: MB_PAGESIZE_def)
  with s1 have run: "(frame_step demo_env)\<^sup>*\<^sup>* b0 demo_frame" by (simp add: demo_frame_def b1_def b0_def)
  have k: "keeps_since b0 demo_frame" by (rule frame_run_since [OF run fo f0(4)])
  then have "block_wf demo_frame" "bk_epoch_active demo_frame" using f0 frame_eqD(8) [of demo_frame b0] by (simp_all add: keeps_since_def)
  moreover have "mb_block_epoch_begin demo_env demo_sealed = (b0, Inr ())" using e(1) by (simp add: b0_def prod_eq_iff)
  ultimately show ?thesis using that run by blast
qed

theorem delta_replay_roundtrip_witness:
  "\<exists>ds b' c'. mb_block_delta_save demo_env demo_frame True = (b', Inr ds) \<and> frames demo_env demo_sealed [concat ds] b' \<and>
     replay demo_env demo_sealed [concat ds] = Some c' \<and> same_machine b' c'"
proof -
  obtain b0 where b0: "mb_block_epoch_begin demo_env demo_sealed = (b0, Inr ())" "(frame_step demo_env)\<^sup>*\<^sup>* b0 demo_frame"
    "block_wf demo_frame" "bk_epoch_active demo_frame" by (rule demo_epoch)
  obtain b' where s: "mb_block_delta_save demo_env demo_frame True = (b', Inr (delta_chunks (get_hot_epoch demo_frame)))"
    by (rule delta_save_facts [OF demo_env_ok b0(3,4)])
  have fr: "frames demo_env demo_sealed [concat (delta_chunks (get_hot_epoch demo_frame))] b'"
    by (rule one_frame [OF b0(1,2) s no_frame])
  from delta_replay_roundtrip [OF fr demo_env_ok demo_ready demo_sealed_facts(1,4) same_machine_refl] s fr
  show ?thesis by blast
qed

end
