(* ===== verification/Mb_Delta_Both.thy ===== *)
theory Mb_Delta_Both
  imports Mb_Delta_Trip
begin

text \<open>
  Applying the composition of two deltas leaves the machine that applying the
  one and then the other leaves.
\<close>

section \<open>Merging by page\<close>

definition key_sorted :: "(u64 \<Rightarrow> u64) \<Rightarrow> (u64 \<times> 'a) list \<Rightarrow> bool" where
  "key_sorted page es \<longleftrightarrow> sorted_wrt (<) (map (\<lambda>e. page (fst e)) es)"

lemma key_sorted_Cons:
  "key_sorted page (e # es) \<longleftrightarrow> key_sorted page es \<and> (\<forall>x\<in>set es. page (fst e) < page (fst x))"
  by (auto simp: key_sorted_def)

lemma merge_set: "set (merge_entries page as bs) \<subseteq> set as \<union> set bs"
  by (induction page as bs rule: merge_entries.induct) (auto split: if_splits)

lemma merge_sorted: "key_sorted page as \<Longrightarrow> key_sorted page bs \<Longrightarrow> key_sorted page (merge_entries page as bs)"
proof (induction page as bs rule: merge_entries.induct)
  case (3 page a as b bs)
  note s = "3.prems" [unfolded key_sorted_Cons]
  have m: "\<forall>x\<in>set (merge_entries page xs ys). page (fst c) < page (fst x)"
    if "\<forall>x\<in>set xs \<union> set ys. page (fst c) < page (fst x)" for xs ys and c :: "u64 \<times> 'a"
    using that merge_set [of page xs ys] by blast
  show ?case
  proof (cases "page (fst b) \<le> page (fst a)")
    case True
    let ?as = "if page (fst a) = page (fst b) then as else a # as"
    have "key_sorted page ?as" using s "3.prems"(1) by simp
    then have "key_sorted page (merge_entries page ?as bs)" using "3.IH"(1) [OF True] s by simp
    moreover have "\<forall>x\<in>set ?as \<union> set bs. page (fst b) < page (fst x)" using True s by (auto split: if_splits intro: le_less_trans)
    ultimately have "key_sorted page (b # merge_entries page ?as bs)" using m [of ?as bs b] unfolding key_sorted_Cons by blast
    then show ?thesis using True by simp
  next
    case False
    then have "key_sorted page (merge_entries page as (b # bs))" using "3.IH"(2) s "3.prems" by simp
    moreover have "\<forall>x\<in>set as \<union> set (b # bs). page (fst a) < page (fst x)" using False s by auto
    ultimately have "key_sorted page (a # merge_entries page as (b # bs))" using m [of as "b # bs" a] unfolding key_sorted_Cons by blast
    then show ?thesis using False by simp
  qed
qed simp_all

definition lookup :: "(u64 \<Rightarrow> u64) \<Rightarrow> (u64 \<times> 'a) list \<Rightarrow> nat \<Rightarrow> (u64 \<times> 'a) option" where
  "lookup page es j = find (\<lambda>e. unat (page (fst e)) = j) es"

lemma lookup_Cons: "lookup page (e # es) j = (if unat (page (fst e)) = j then Some e else lookup page es j)"
  by (simp add: lookup_def)

lemma lookup_above: "\<forall>x\<in>set es. j < unat (page (fst x)) \<Longrightarrow> lookup page es j = None"
  by (auto simp: lookup_def find_None_iff)

lemma lookup_merge:
  "key_sorted page as \<Longrightarrow> key_sorted page bs \<Longrightarrow>
     lookup page (merge_entries page as bs) j = (case lookup page bs j of Some e \<Rightarrow> Some e | None \<Rightarrow> lookup page as j)"
proof (induction page as bs rule: merge_entries.induct)
  case (3 page a as b bs)
  note s = "3.prems" [unfolded key_sorted_Cons]
  show ?case
  proof (cases "page (fst b) \<le> page (fst a)")
    case True
    let ?as = "if page (fst a) = page (fst b) then as else a # as"
    have "key_sorted page ?as" using s "3.prems"(1) by simp
    then have ih: "lookup page (merge_entries page ?as bs) j = (case lookup page bs j of Some e \<Rightarrow> Some e | None \<Rightarrow> lookup page ?as j)"
      using "3.IH"(1) [OF True] s by simp
    show ?thesis
      using True ih by (auto simp: lookup_Cons split: option.split if_splits)
  next
    case False
    then have ih: "lookup page (merge_entries page as (b # bs)) j = (case lookup page (b # bs) j of Some e \<Rightarrow> Some e | None \<Rightarrow> lookup page as j)"
      using "3.IH"(2) s "3.prems" by simp
    have "lookup page (b # bs) j = None" if "unat (page (fst a)) = j"
      using that False s by (intro lookup_above) (auto simp: word_less_nat_alt not_le)
    then show ?thesis using False ih by (auto simp: lookup_Cons split: option.split if_splits)
  qed
qed (simp_all add: lookup_def split: option.split)

section \<open>What a delta makes of a page\<close>

lemma map_of_lookup:
  "map_of (map (\<lambda>e. (unat (page (fst e)), g e)) es) j = map_option g (lookup page es j)"
  by (induction es) (simp_all add: lookup_def)

lemma map_of_lookup_id: "map_of (map (\<lambda>e. (unat (fst e), g e)) es) j = map_option g (lookup id es j)"
  using map_of_lookup [of id g es j] by simp

lemma key_map: "map status_key es = map (\<lambda>e. (unat (fst e), snd e)) es"
  "map data_key ds = map (\<lambda>e. (unat (delta_page (fst e)), fst e AND DELTA_IDX_CLEAN \<noteq> 0, snd e)) ds"
  by (simp_all add: status_key_def data_key_def)

text \<open>The page after a delta: status, bytes and dirty mark are the entry's where there is one.\<close>

definition delta_makes :: "delta_parts \<Rightarrow> nat \<Rightarrow> mb_page \<Rightarrow> mb_page \<Rightarrow> bool" where
  "delta_makes d j p q \<longleftrightarrow>
     pg_status q = (case lookup id (dp_status d) j of Some e \<Rightarrow> snd e | None \<Rightarrow> pg_status p) \<and>
     pg_invisible q = pg_invisible p \<and>
     (\<not> pg_invisible p \<longrightarrow>
        pg_live q = (case lookup delta_page (dp_data d) j of Some e \<Rightarrow> snd e | None \<Rightarrow> pg_live p) \<and>
        pg_dirty q = (case lookup delta_page (dp_data d) j of Some e \<Rightarrow> fst e AND DELTA_IDX_CLEAN = 0 | None \<Rightarrow> pg_dirty p) \<and>
        page_baseline q = page_baseline p)"

lemma delta_makes_same: "delta_makes d j p q \<Longrightarrow> same_page q r \<Longrightarrow> delta_makes d j p r"
  by (auto simp: delta_makes_def same_page_def)

lemma applied_makes: "delta_makes d j (v_page v) (v_page (applied_v d fr j v))"
proof -
  define y where "y = entry_v (map status_key (dp_status d)) status_v fr j v"
  have ys: "same_page (case lookup id (dp_status d) j of Some e \<Rightarrow> (v_page v)\<lparr>pg_status := snd e\<rparr> | None \<Rightarrow> v_page v) (v_page y)"
  proof (cases "lookup id (dp_status d) j")
    case (Some e)
    have "same_page ((v_page v)\<lparr>pg_status := snd e\<rparr>) (v_page (status_v (snd e) v))"
      by (simp add: same_page_def status_v_page)
    then show ?thesis using Some by (simp add: y_def entry_v_def key_map map_of_lookup_id same_page_of)
  qed (simp add: y_def entry_v_def key_map map_of_lookup_id)
  show ?thesis
  proof (cases "lookup delta_page (dp_data d) j")
    case None
    then have "applied_v d fr j v = y"
      by (simp add: applied_v_def y_def [symmetric] entry_v_def [of "map data_key _"]) (simp add: key_map(2) map_of_lookup [of delta_page])
    then show ?thesis using None ys by (auto simp: delta_makes_def same_page_def split: option.splits)
  next
    case (Some e)
    define x where "x = (fst e AND DELTA_IDX_CLEAN \<noteq> 0, snd e)"
    have a: "applied_v d fr j v = moved_op (\<lambda>_. data_v x) fr y"
      using Some by (simp add: applied_v_def y_def [symmetric] entry_v_def [of "map data_key _"]) (simp add: key_map(2) map_of_lookup [of delta_page] x_def)
    have iy: "pg_invisible (v_page y) = pg_invisible (v_page v)" using ys by (auto simp: same_page_def split: option.splits)
    have st: "pg_status (v_page (data_v x y)) = pg_status (v_page y)" "pg_invisible (v_page (data_v x y)) = pg_invisible (v_page y)"
      by (simp_all add: data_v_def shadow_v_def dirty_v_def cool_v_def put_live_v_def snap_v_def mb_page_maybe_snapshot_def Let_def)
    have "delta_makes d j (v_page v) (v_page (data_v x y))"
      using Some ys iy st data_v_page(3-5) [of y "fst x" "snd x"]
      by (auto simp: delta_makes_def same_page_def x_def split: option.splits)
    then show ?thesis unfolding a by (rule delta_makes_same) (rule same_moved)
  qed
qed

section \<open>The composition\<close>

definition compose_parts :: "delta_parts \<Rightarrow> delta_parts \<Rightarrow> delta_parts" where
  "compose_parts a b = \<lparr>dp_npages = dp_npages a, dp_status = merge_entries id (dp_status a) (dp_status b),
     dp_data = merge_entries delta_page (dp_data a) (dp_data b)\<rparr>"

lemma parts_sorted_keys:
  "parts_sorted d \<longleftrightarrow> parts_ok d \<and> key_sorted id (dp_status d) \<and> key_sorted delta_page (dp_data d)"
  by (simp add: parts_sorted_def key_sorted_def status_key_def data_key_def o_def sorted_wrt_map word_less_nat_alt)

lemma distinct_keys_bound:
  assumes "key_sorted page es" "\<forall>e\<in>set es. page (fst e) < n"
  shows "length es \<le> unat n"
proof -
  have "sorted_wrt (<) (map (\<lambda>e. unat (page (fst e))) es)"
    using assms(1) by (simp add: key_sorted_def sorted_wrt_map word_less_nat_alt)
  then have "distinct (map (\<lambda>e. unat (page (fst e))) es)" by (simp add: strict_sorted_iff)
  then have "card (set (map (\<lambda>e. unat (page (fst e))) es)) = length es" using distinct_card by fastforce
  moreover have "set (map (\<lambda>e. unat (page (fst e))) es) \<subseteq> {..<unat n}" using assms(2) by (auto simp: word_less_nat_alt)
  ultimately show ?thesis using card_mono [of "{..<unat n}"] by (metis card_lessThan finite_lessThan)
qed

lemma compose_sorted:
  assumes "parts_sorted a" "parts_sorted b" "dp_npages a = dp_npages b"
  shows "parts_sorted (compose_parts a b)"
proof -
  note a = assms(1) [unfolded parts_sorted_keys parts_ok_def] and b = assms(2) [unfolded parts_sorted_keys parts_ok_def]
  have s: "key_sorted id (dp_status (compose_parts a b))" "key_sorted delta_page (dp_data (compose_parts a b))"
    using a b by (simp_all add: compose_parts_def merge_sorted)
  have e: "\<forall>e\<in>set (dp_status (compose_parts a b)). id (fst e) < dp_npages a"
      "\<forall>e\<in>set (dp_data (compose_parts a b)). delta_page (fst e) < dp_npages a \<and> length (snd e) = MB_PAGESIZE"
    using a b assms(3) merge_set [of id "dp_status a" "dp_status b"] merge_set [of delta_page "dp_data a" "dp_data b"]
    by (auto simp: compose_parts_def)
  have n: "dp_npages (compose_parts a b) = dp_npages a" by (simp add: compose_parts_def)
  show ?thesis
    unfolding parts_sorted_keys parts_ok_def n using s a e distinct_keys_bound [OF s(1) e(1)] distinct_keys_bound [OF s(2)] by simp
qed

lemma compose_bytes:
  assumes "parts_sorted a" "parts_sorted b" "dp_npages a = dp_npages b"
  obtains cs where "mb_block_delta_compose True (delta_bytes a @ ra) (delta_bytes b @ rb) = Inr cs"
    "concat cs = delta_bytes (compose_parts a b)"
proof -
  have p: "parts_ok a" "parts_ok b" using assms by (simp_all add: parts_sorted_def)
  have s: "\<forall>e \<in> set (dp_status a) \<union> set (dp_status b). delta_page (fst e) = id (fst e)"
    using p assms(3) delta_page_small by (auto simp: parts_ok_def)
  have flat: "concat (concat (map (\<lambda>(idx, s). [u64_bytes idx, [s]]) es)) = concat (map status_bytes es)"
    "concat (concat (map (\<lambda>(idx, page). [u64_bytes idx, page]) ds)) = concat (map data_bytes ds)" for es ds
    by (induction es) (auto simp: status_bytes_def, induction ds, auto simp: data_bytes_def)
  have m: "merge_entries delta_page (dp_status a) (dp_status b) = merge_entries id (dp_status a) (dp_status b)"
    using merge_cong [OF s] .
  have "\<exists>cs. mb_block_delta_compose True (delta_bytes a @ ra) (delta_bytes b @ rb) = Inr cs \<and>
      concat cs = delta_bytes (compose_parts a b)"
    unfolding mb_block_delta_compose_def parts_read_bytes [OF p(1)] parts_read_bytes [OF p(2)]
    by (simp add: merged_count_length m flat assms(3)) (simp add: delta_bytes_def compose_parts_def assms(3))
  then show ?thesis using that by blast
qed

lemma makes_compose:
  assumes k: "parts_sorted a" "parts_sorted b"
    and m: "delta_makes a j p q" "delta_makes b j q r" "delta_makes (compose_parts a b) j p s"
  shows "same_page r s"
proof -
  have l: "lookup id (dp_status (compose_parts a b)) j = (case lookup id (dp_status b) j of Some e \<Rightarrow> Some e | None \<Rightarrow> lookup id (dp_status a) j)"
    "lookup delta_page (dp_data (compose_parts a b)) j =
       (case lookup delta_page (dp_data b) j of Some e \<Rightarrow> Some e | None \<Rightarrow> lookup delta_page (dp_data a) j)"
    using k by (simp_all add: compose_parts_def lookup_merge parts_sorted_keys)
  show ?thesis
    using m unfolding delta_makes_def l same_page_def by (simp split: option.splits)
qed

lemma apply_makes:
  assumes "env_ok E" "block_ok c" "bk_sealed c" "parts_sorted d" "unat (dp_npages d) = bk_npages c"
  obtains c' where "mb_block_delta_apply E c (delta_bytes d @ s) = (c', s, Inr ())" "block_ok c'" "bk_sealed c'"
    "bk_npages c' = bk_npages c" "\<And>j. j < bk_npages c \<Longrightarrow> delta_makes d j (bk_pages c ! j) (bk_pages c' ! j)"
proof -
  obtain c' where c': "mb_block_delta_apply E c (delta_bytes d @ s) = (c', s, Inr ())" "block_ok c'"
    "frame c' = (frame c)\<lparr>fr_touched := True, fr_epoch := False\<rparr>"
    "\<And>j. j < bk_npages c \<Longrightarrow> view c' j = forget_v (applied_v d ((frame c)\<lparr>fr_touched := True\<rparr>) j (view c j))"
    by (rule delta_apply_acts [OF assms, of s], rule that)
  have n: "bk_npages c' = bk_npages c" "bk_sealed c'"
    using arg_cong [OF c'(3), of fr_n] arg_cong [OF c'(3), of fr_sealed] assms(3) by simp_all
  have "delta_makes d j (bk_pages c ! j) (bk_pages c' ! j)" if "j < bk_npages c" for j
  proof -
    have "delta_makes d j (v_page (view c j)) (v_page (view c' j))"
      unfolding c'(4) [OF that] by (rule delta_makes_same [OF applied_makes], simp only: same_forget, rule same_page_refl)
    then show ?thesis by simp
  qed
  then show ?thesis using that c'(1,2) n by blast
qed

text \<open>
  C9: Applying the composition of two deltas leaves the machine that applying
  the first and then the second leaves: the same statuses, visible bytes, dirty
  marks and sealed baselines.
\<close>

theorem delta_compose_apply:
  assumes "env_ok E" "block_ok c" "bk_sealed c" "parts_sorted a" "parts_sorted b"
    "unat (dp_npages a) = bk_npages c" "dp_npages b = dp_npages a"
  shows "\<exists>cs c1 c2 c'. mb_block_delta_compose True (delta_bytes a) (delta_bytes b) = Inr cs \<and>
    mb_block_delta_apply E c (delta_bytes a) = (c1, [], Inr ()) \<and>
    mb_block_delta_apply E c1 (delta_bytes b) = (c2, [], Inr ()) \<and>
    mb_block_delta_apply E c (concat cs) = (c', [], Inr ()) \<and> same_machine c2 c'"
proof -
  obtain c1 where c1: "mb_block_delta_apply E c (delta_bytes a @ []) = (c1, [], Inr ())" "block_ok c1" "bk_sealed c1"
    "bk_npages c1 = bk_npages c" "\<And>j. j < bk_npages c \<Longrightarrow> delta_makes a j (bk_pages c ! j) (bk_pages c1 ! j)"
    by (rule apply_makes [OF assms(1-4,6), of "[]"], rule that)
  have "unat (dp_npages b) = bk_npages c1" using assms c1 by simp
  note u2 = this
  obtain c2 where c2: "mb_block_delta_apply E c1 (delta_bytes b @ []) = (c2, [], Inr ())" "block_ok c2" "bk_sealed c2"
    "bk_npages c2 = bk_npages c1" "\<And>j. j < bk_npages c1 \<Longrightarrow> delta_makes b j (bk_pages c1 ! j) (bk_pages c2 ! j)"
    by (rule apply_makes [OF assms(1) c1(2,3) assms(5) u2, of "[]"], rule that)
  obtain cs where cs: "mb_block_delta_compose True (delta_bytes a @ []) (delta_bytes b @ []) = Inr cs"
    "concat cs = delta_bytes (compose_parts a b)"
    by (rule compose_bytes [OF assms(4,5) assms(7) [symmetric], of "[]" "[]"])
  have u: "unat (dp_npages (compose_parts a b)) = bk_npages c" using assms(6) by (simp add: compose_parts_def)
  obtain c' where c': "mb_block_delta_apply E c (delta_bytes (compose_parts a b) @ []) = (c', [], Inr ())" "block_ok c'" "bk_sealed c'"
    "bk_npages c' = bk_npages c" "\<And>j. j < bk_npages c \<Longrightarrow> delta_makes (compose_parts a b) j (bk_pages c ! j) (bk_pages c' ! j)"
    by (rule apply_makes [OF assms(1-3) compose_sorted [OF assms(4,5) assms(7) [symmetric]] u, of "[]"], rule that)
  have "same_machine c2 c'"
    using makes_compose [OF assms(4,5) c1(5) c2(5) c'(5)] c1(4) c2(4) c'(4) by (intro same_machineI) simp_all
  then show ?thesis using c1(1) c2(1) c'(1) cs by simp
qed

definition demo_delta :: "u64 \<Rightarrow> byte \<Rightarrow> byte \<Rightarrow> delta_parts" where
  "demo_delta i st x = \<lparr>dp_npages = 2, dp_status = [(i, st)], dp_data = [(i, replicate MB_PAGESIZE x)]\<rparr>"

lemma demo_delta_sorted: "i < 2 \<Longrightarrow> parts_sorted (demo_delta i st x)"
proof -
  assume i: "i < 2"
  then have "delta_page i = i" by (intro delta_page_eq) (simp add: word_less_nat_alt)
  then show ?thesis
    using i by (simp add: parts_sorted_keys parts_ok_def demo_delta_def key_sorted_def MB_PAGESIZE_def word_le_nat_alt unat_div)
qed

theorem delta_compose_apply_witness:
  "\<exists>cs c1 c2 c'. mb_block_delta_compose True (delta_bytes (demo_delta 0 3 1)) (delta_bytes (demo_delta 1 3 2)) = Inr cs \<and>
    mb_block_delta_apply demo_env demo_sealed (delta_bytes (demo_delta 0 3 1)) = (c1, [], Inr ()) \<and>
    mb_block_delta_apply demo_env c1 (delta_bytes (demo_delta 1 3 2)) = (c2, [], Inr ()) \<and>
    mb_block_delta_apply demo_env demo_sealed (concat cs) = (c', [], Inr ()) \<and> same_machine c2 c'"
  by (rule delta_compose_apply [OF demo_env_ok _ demo_sealed_facts(4) demo_delta_sorted demo_delta_sorted])
    (use demo_sealed_facts in \<open>simp_all add: block_wf_def block_inv_def demo_delta_def\<close>)

end
