(* ===== verification/Mb_State_Trip.thy ===== *)
theory Mb_State_Trip
  imports Mb_Delta_Trip
begin

text \<open>
  A whole state written and loaded again. The state carries the statuses, the
  dirty marks and the bytes of the dirty pages; a block with the same sealed
  image becomes the machine that was saved, whatever it held before.
\<close>

section \<open>The bytes of a state\<close>

definition state_head :: "mb_block \<Rightarrow> bytes \<Rightarrow> bytes \<Rightarrow> bytes" where
  "state_head b statii dirtii = MB_MAGIC @ bk_hash b @ range_bytes (bk_addr b) @ statii @ dirtii"

lemma concat_chosen:
  "concat (concat (map (\<lambda>i. if P i then [f i] else []) xs)) = concat (map f (filter P xs))"
  by (induction xs) simp_all

lemma save_state_bytes:
  assumes "bk_sealed b"
  obtains chunks where "mb_block_save_state b = Inr chunks"
    "concat chunks = state_head b (bk_status_map b) (bk_dirty_map b) @
       concat (map (\<lambda>i. pg_live (bk_pages b ! i)) (filter (carried b) [0..<bk_npages b]))"
proof -
  have "(\<lambda>i. \<not> pg_invisible (bk_pages b ! i) \<and> pg_dirty (bk_pages b ! i)) = carried b"
    by (auto simp: carried_def)
  then have "concat (concat (map (\<lambda>i. if \<not> pg_invisible (bk_pages b ! i) \<and> pg_dirty (bk_pages b ! i)
      then [pg_live (bk_pages b ! i)] else []) [0..<bk_npages b])) =
    concat (map (\<lambda>i. pg_live (bk_pages b ! i)) (filter (carried b) [0..<bk_npages b]))"
    unfolding concat_chosen by simp
  then show ?thesis using that assms by (simp add: mb_block_save_state_def state_head_def Let_def)
qed

section \<open>The block a state makes\<close>

lemma block_inv_touched: "block_inv (b\<lparr>bk_load_touched := t\<rparr>) = block_inv b"
  by (simp add: block_inv_def plan_ok_def page_ok_touched)

lemma page_ok_touched_frame: "page_ok (frame (b\<lparr>bk_load_touched := t\<rparr>)) v = page_ok (frame b) v"
  by (simp add: page_ok_touched)

lemma take_range_append [simp]: "take_range (range_bytes r @ s) = Some (r, s)"
  by (simp add: take_range_def range_bytes_def)

lemma forget_fields [simp]:
  "pg_invisible (v_page (forget_v v)) = pg_invisible (v_page v)" "pg_live (v_page (forget_v v)) = pg_live (v_page v)"
  "pg_dirty (v_page (forget_v v)) = pg_dirty (v_page v)" "page_baseline (v_page (forget_v v)) = page_baseline (v_page v)"
  "snap_ok (v_page (forget_v v)) = snap_ok (v_page v)"
  by (simp_all add: forget_v_def)

lemma load_state_acts:
  assumes E: "env_ok E" and b: "block_inv b" and sealed: "bk_sealed b" and np: "\<not> bk_plan_active b"
    and h: "length (bk_hash b) = 32" and len: "length statii = bk_npages b" "length dirtii = bk_npages b"
    and bsl: "\<And>j. length (bs j) = MB_PAGESIZE"
    and s: "s = state_head b statii dirtii @
      concat (map bs (filter (\<lambda>j. \<not> pg_invisible (bk_pages b ! j) \<and> dirtii ! j \<noteq> 0) [0..<bk_npages b])) @ rest"
    and fr: "fr = (frame b)\<lparr>fr_touched := True, fr_epoch := False\<rparr>"
  obtains b' where "mb_block_load_state E True b s = (b', rest, Inr ())" "block_ok b'" "frame b' = fr"
    "\<And>j. j < bk_npages b \<Longrightarrow> view b' j = loaded_v (statii ! j) (dirtii ! j \<noteq> 0) (bs j) fr (forget_v (view b j))"
proof -
  define b1 where "b1 = b\<lparr>bk_load_touched := False\<rparr>"
  define c where "c = mb_block_epoch_clear b1"
  define c1 where "c1 = c\<lparr>bk_load_touched := True\<rparr>"
  have i1: "block_inv b1" using b by (simp add: b1_def block_inv_touched)
  note cl = epoch_clear_inv [OF i1, folded c_def]
  have n1: "bk_npages b1 = bk_npages b" by (simp add: b1_def)
  have fc: "bk_npages c = bk_npages b" "bk_hash c = bk_hash b" "bk_addr c = bk_addr b"
    using arg_cong [OF cl(2), of fr_n] arg_cong [OF cl(2), of fr_hash] arg_cong [OF cl(2), of fr_addr] by (simp_all add: b1_def)
  have f1: "frame c1 = fr" using cl(2) by (simp add: c1_def fr b1_def)
  have v1: "view c1 j = forget_v (view b j)" if "j < bk_npages b" for j
    using cl(3) [of j] that by (simp add: c1_def b1_def)
  have ok1: "block_ok c1" "bk_npages c1 = bk_npages b" using block_invD(1) [OF cl(1)] fc by (simp_all add: c1_def)
  have pok: "page_ok (frame c1) (view c1 j)" if "j < bk_npages b" for j
    using block_invD(2) [OF cl(1), of j] that fc unfolding c1_def page_ok_touched_frame by simp
  have "pg_invisible (bk_pages c1 ! j) = pg_invisible (bk_pages b ! j)" if "j < bk_npages b" for j
    using arg_cong [OF v1 [OF that], of "\<lambda>v. pg_invisible (v_page v)"] by simp
  then have "filter (\<lambda>j. \<not> pg_invisible (bk_pages c1 ! j) \<and> dirtii ! j \<noteq> 0) [0..<bk_npages b] =
      filter (\<lambda>j. \<not> pg_invisible (bk_pages b ! j) \<and> dirtii ! j \<noteq> 0) [0..<bk_npages b]"
    by (intro filter_cong) auto
  then obtain b' run where r: "load_from E statii dirtii (bk_npages b) c1 None
      (concat (map bs (filter (\<lambda>j. \<not> pg_invisible (bk_pages b ! j) \<and> dirtii ! j \<noteq> 0) [0..<bk_npages b])) @ rest) 0 = (b', run, rest, None)"
    "block_ok b'" "frame b' = frame c1" "run_ok run (bk_npages b)"
    "\<And>j. j < bk_npages b \<Longrightarrow> view (run_close E b' run) j = loaded_v (statii ! j) (dirtii ! j \<noteq> 0) (bs j) (frame c1) (view c1 j)"
    using load_from_acts [where b = c1 and i = 0 and run = None and rest = rest and bs = bs, OF E len _ ok1 _ pok _ refl] bsl by auto
  have rc: "block_ok (run_close E b' run)" "frame (run_close E b' run) = frame b'"
    using acts_onD(1,2) [OF run_close_acts [OF E r(2), of run]] r(3,4) frame_eqD(1) [OF r(3)] ok1 by simp_all
  have body: "load_body E True c s = (run_close E b' run, rest, Inr ())"
    using r(1) h len fc by (simp add: load_body_def load_pages_def s state_head_def c1_def)
  have "mb_block_load_state E True b s = (run_close E b' run, rest, Inr ())"
    using sealed np body by (simp add: mb_block_load_state_def Let_def c_def b1_def)
  then show ?thesis using that rc r(3,5) f1 v1 by simp
qed

section \<open>The round trip\<close>

text \<open>Two blocks sealed alike: the same identity, and page by page the same baseline.\<close>

definition same_seal :: "mb_block \<Rightarrow> mb_block \<Rightarrow> bool" where
  "same_seal b c \<longleftrightarrow> bk_hash b = bk_hash c \<and> bk_addr b = bk_addr c \<and> bk_npages b = bk_npages c \<and>
     list_all (\<lambda>i. pg_invisible (bk_pages b ! i) = pg_invisible (bk_pages c ! i) \<and>
       (\<not> pg_invisible (bk_pages b ! i) \<longrightarrow> page_baseline (bk_pages b ! i) = page_baseline (bk_pages c ! i))) [0..<bk_npages b]"

lemma same_sealD:
  assumes "same_seal b c"
  shows "bk_hash c = bk_hash b" "bk_addr c = bk_addr b" "bk_npages c = bk_npages b"
    "i < bk_npages b \<Longrightarrow> pg_invisible (bk_pages c ! i) = pg_invisible (bk_pages b ! i)"
    "i < bk_npages b \<Longrightarrow> \<not> pg_invisible (bk_pages b ! i) \<Longrightarrow> page_baseline (bk_pages c ! i) = page_baseline (bk_pages b ! i)"
  using assms by (simp_all add: same_seal_def list_all_iff)

lemma hold_loaded: "pg_plan_hold (v_page (loaded_v st d bs fr v)) = pg_plan_hold (v_page v)"
  by (simp add: loaded_v_def load_v_def visible_v_def bytes_v_def shadow_v_def put_live_v_def snap_v_def
      mb_page_maybe_snapshot_def Let_def)

lemma loaded_same:
  assumes v: "page_ok fr' v" and w: "page_ok fr w" and l: "length (pg_live (v_page v)) = MB_PAGESIZE"
    and i: "pg_invisible (v_page w) = pg_invisible (v_page v)"
    and p: "\<not> pg_invisible (v_page v) \<Longrightarrow> page_baseline (v_page w) = page_baseline (v_page v)"
  shows "same_page (v_page v) (v_page (loaded_v (v_smap v) (v_dmap v \<noteq> 0) (pg_live (v_page v)) fr w))"
proof -
  have so: "snap_ok (v_page w)" using w by (simp add: page_ok_def)
  note f = loaded_v_fields [OF so l, of "v_smap v" "v_dmap v \<noteq> 0" fr]
  have "v_smap v = pg_status (v_page v)" "(v_dmap v \<noteq> 0) = pg_dirty (v_page v)"
    "\<not> pg_invisible (v_page v) \<Longrightarrow> \<not> pg_dirty (v_page v) \<Longrightarrow> pg_live (v_page v) = page_baseline (v_page v)"
    using v by (auto simp: page_ok_def view_ok_def snap_ok_def)
  then show ?thesis using f i p by (simp add: same_page_def)
qed

lemma state_loads:
  assumes E: "env_ok E" and b: "block_wf b" "bk_sealed b" "length (bk_hash b) = 32"
    and c: "block_wf c" "bk_sealed c" "\<not> bk_plan_active c" and sm: "same_seal b c"
    and sv: "mb_block_save_state b = Inr chunks"
  obtains c' where "mb_block_load_state E True c (concat chunks @ rest) = (c', rest, Inr ())"
    "block_wf c'" "same_machine b c'" "frame c' = (frame c)\<lparr>fr_touched := True, fr_epoch := False\<rparr>"
proof -
  note sd = same_sealD [OF sm]
  define fr where "fr = (frame c)\<lparr>fr_touched := True, fr_epoch := False\<rparr>"
  define bs where "bs = (\<lambda>i. if i < bk_npages b then pg_live (bk_pages b ! i) else zero_page)"
  have okb: "page_ok (frame b) (view b j)" and okc: "page_ok (frame c) (view c j)" if "j < bk_npages b" for j
    using block_invD(2) [OF block_wfD(1)] b(1) c(1) that sd(3) by simp_all
  have bsl: "length (bs j) = MB_PAGESIZE" for j
    using okb [of j] by (simp add: bs_def zero_page_def page_ok_def snap_ok_def)
  note lens = bits_b(6,7) [OF block_ok_lens [OF block_wfD(2) [OF b(1)]]]
  have chosen: "concat (map (\<lambda>i. pg_live (bk_pages b ! i)) (filter (carried b) [0..<bk_npages b])) =
      concat (map bs (filter (\<lambda>j. \<not> pg_invisible (bk_pages c ! j) \<and> bk_dirty_map b ! j \<noteq> 0) [0..<bk_npages c]))"
  proof -
    have "filter (carried b) [0..<bk_npages b] = filter (\<lambda>j. \<not> pg_invisible (bk_pages c ! j) \<and> bk_dirty_map b ! j \<noteq> 0) [0..<bk_npages c]"
      unfolding sd(3) using carried_map [OF block_wfD(2) [OF b(1)]] sd(4) by (intro filter_cong) auto
    moreover have "map (\<lambda>i. pg_live (bk_pages b ! i)) (filter P [0..<bk_npages b]) = map bs (filter P [0..<bk_npages b])" for P
      by (simp add: bs_def)
    ultimately show ?thesis using sd(3) by metis
  qed
  obtain chunks' where k: "mb_block_save_state b = Inr chunks'"
    "concat chunks' = state_head b (bk_status_map b) (bk_dirty_map b) @
       concat (map (\<lambda>i. pg_live (bk_pages b ! i)) (filter (carried b) [0..<bk_npages b]))"
    by (rule save_state_bytes [OF b(2)])
  have str: "concat chunks @ rest = state_head c (bk_status_map b) (bk_dirty_map b) @
      concat (map bs (filter (\<lambda>j. \<not> pg_invisible (bk_pages c ! j) \<and> bk_dirty_map b ! j \<noteq> 0) [0..<bk_npages c])) @ rest"
    using k sv chosen sd(1,2) by (simp add: state_head_def)
  obtain c' where r: "mb_block_load_state E True c (concat chunks @ rest) = (c', rest, Inr ())" "block_ok c'" "frame c' = fr"
    "\<And>j. j < bk_npages c \<Longrightarrow> view c' j = loaded_v (bk_status_map b ! j) (bk_dirty_map b ! j \<noteq> 0) (bs j) fr (forget_v (view c j))"
    by (rule load_state_acts [OF E block_wfD(1) [OF c(1)] c(2,3) _ _ _ bsl str fr_def]) (use b(3) lens sd in auto)
  have nc: "bk_npages c' = bk_npages b" "bk_plan_list c' = bk_plan_list c" "bk_addr c' = bk_addr c"
    using arg_cong [OF r(3), of fr_n] arg_cong [OF r(3), of fr_plan_list] arg_cong [OF r(3), of fr_addr] sd(3) by (simp_all add: fr_def)
  have fok: "page_ok fr (forget_v (view c j))" if "j < bk_npages b" for j
    unfolding fr_def by (rule page_ok_forget) (use okc [OF that] in \<open>simp only: page_ok_touched\<close>)
  have vj: "view c' j = loaded_v (v_smap (view b j)) (v_dmap (view b j) \<noteq> 0) (pg_live (v_page (view b j))) fr (forget_v (view c j))"
    if "j < bk_npages b" for j using r(4) [of j] that sd(3) by (simp add: bs_def)
  have lj: "length (pg_live (v_page (view b j))) = MB_PAGESIZE" if "j < bk_npages b" for j
    using okb [OF that] by (simp add: page_ok_def snap_ok_def)
  have "block_inv c'"
    by (rule block_invI [OF block_wfD(1) [OF c(1)] r(2)])
       (use nc sd(3) r(3) vj lj fok page_ok_loaded in \<open>simp_all add: hold_loaded hold_forget del: view_sel\<close>)
  then have "block_wf c'" using c(1) nc sd(3) by (simp add: block_wf_def)
  moreover have "same_machine b c'"
  proof (rule same_machineI)
    fix j assume j: "j < bk_npages b"
    have "same_page (v_page (view b j)) (v_page (view c' j))"
      unfolding vj [OF j] by (rule loaded_same [OF okb [OF j] fok [OF j] lj [OF j]]) (use sd(4,5) j in simp_all)
    then show "same_page (bk_pages b ! j) (bk_pages c' ! j)" by simp
  qed (simp add: nc)
  ultimately show ?thesis using that r(1,3) by (simp add: fr_def)
qed

end
