(* ===== verification/Mb_State_Props.thy ===== *)
theory Mb_State_Props
  imports Mb_State_Trip
begin

text \<open>
  A machine that is saved, runs on and is loaded again. What the guest does to
  its memory leaves the sealed image as it was, so the state still fits.
\<close>

definition seal_kept :: "pview \<Rightarrow> pview \<Rightarrow> bool" where
  "seal_kept v w \<longleftrightarrow> pg_invisible (v_page w) = pg_invisible (v_page v) \<and>
     (\<not> pg_invisible (v_page v) \<longrightarrow> page_baseline (v_page w) = page_baseline (v_page v))"

lemma seal_keptI:
  "pg_invisible (v_page w) = pg_invisible (v_page v) \<Longrightarrow>
     (\<not> pg_invisible (v_page v) \<Longrightarrow> page_baseline (v_page w) = page_baseline (v_page v)) \<Longrightarrow> seal_kept v w"
  by (simp add: seal_kept_def)

lemma seal_kept_then: "seal_kept v w \<Longrightarrow> seal_kept w x \<Longrightarrow> seal_kept v x"
  by (simp add: seal_kept_def)

lemma kept_refresh: "seal_kept v (refresh_v fr v)"
  using refresh_same [of v fr] by (simp add: seal_kept_def same_since_def)

lemma kept_protect: "seal_kept v (protect_v st fr v)"
proof -
  have "seal_kept v (estat_v st fr v)"
    by (simp add: seal_kept_def estat_v_def capture_v_def written_v_def Let_def)
  moreover have "seal_kept w (status_v st w)" for w by (simp add: seal_kept_def)
  ultimately show ?thesis unfolding protect_v_def using seal_kept_then kept_refresh by blast
qed

lemma kept_give: "seal_kept v (give_v fr v)"
proof -
  define w where "w = given_v fr v"
  have i: "pg_invisible (v_page w) = pg_invisible (v_page v)"
    by (simp add: w_def given_v_def estat_v_def capture_v_def written_v_def snap_v_def plan_v_def mb_page_maybe_snapshot_def Let_def)
  have "seal_kept u (estat_v MB_ST_FREE fr u)" for u
    by (simp add: seal_kept_def estat_v_def capture_v_def written_v_def Let_def)
  moreover have "page_baseline (v_page (snap_v True (plan_v fr v))) = page_baseline (v_page v)"
    by (simp add: plan_v_def)
  ultimately have b: "page_baseline (v_page w) = page_baseline (v_page v)" if "\<not> pg_invisible (v_page v)"
    using that i unfolding w_def given_v_def seal_kept_def by (metis estat_same)
  have "pg_snap (v_page w) \<noteq> MB_SNAP_NONE" unfolding w_def by (rule snap_given)
  then show ?thesis
    using i b zero_base [of w] by (simp add: seal_kept_def give_v_def w_def [symmetric] zero_dirty_fields Let_def)
qed

lemma kept_trip: "seal_kept v (trip_v fr v)" "pg_snap (v_page (trip_v fr v)) \<noteq> MB_SNAP_NONE"
proof -
  define w where "w = snap_v True v"
  have w: "pg_invisible (v_page w) = pg_invisible (v_page v)" "page_baseline (v_page w) = page_baseline (v_page v)"
      "pg_snap (v_page w) \<noteq> MB_SNAP_NONE"
    using snap_same(1) [of v] snap_taken_v [of v] by (simp_all add: w_def same_since_def)
  show "seal_kept v (trip_v fr v)" "pg_snap (v_page (trip_v fr v)) \<noteq> MB_SNAP_NONE"
    using w unfolding trip_v_def w_def [symmetric]
    by (simp_all add: seal_kept_def unheld_v_def os_native_v_def release_v_def dirty_v_def plan_v_def capture_v_def
        written_v_def Let_def)
qed

lemma kept_write:
  assumes "page_ok fr v"
  shows "seal_kept v (write_v off xs fr v)"
proof (cases "prot_writable (pg_os (v_page v))")
  case True
  have n: "prot_writable (mb_page_native_prot (v_page v))" "snap_ok (v_page v)" "pg_hot (v_page v) \<longrightarrow> pg_dirty (v_page v)"
    using True assms by (simp_all add: page_ok_def track_v_def Let_def)
  then have "pg_dirty (v_page v)" by (auto simp: native_writable)
  then have "pg_snap (v_page v) \<noteq> MB_SNAP_NONE" if "\<not> pg_invisible (v_page v)"
    using n(2) that by (simp add: snap_ok_def)
  then show ?thesis using True store_base [of v off xs] by (simp add: write_v_def seal_kept_def)
next
  case False
  have "seal_kept (trip_v fr v) (store_v off xs (trip_v fr v))"
    using store_base [OF kept_trip(2)] by (simp add: seal_kept_def)
  then have "seal_kept v (store_v off xs (trip_v fr v))" by (rule seal_kept_then [OF kept_trip(1)])
  moreover have "seal_kept v v" by (simp add: seal_kept_def)
  ultimately show ?thesis using False by (simp add: write_v_def)
qed

interpretation slk: page_kept "\<lambda>_. seal_kept" "\<lambda>_. True"
proof unfold_locales
  show "seal_kept v (free_v keep fr v)" for keep fr v
    unfolding free_v_def using seal_kept_then [OF kept_give kept_refresh] seal_kept_then [OF kept_give kept_protect] by simp
  show "seal_kept v v" for v by (simp add: seal_kept_def)
qed (simp_all only: kept_protect kept_write, rule seal_kept_then)

lemma run_same_seal:
  assumes "(frame_step E)\<^sup>*\<^sup>* c0 c" "run_ready E c0" "same_seal b c0"
  shows "same_seal b c" "stays_wf c0 c"
proof -
  have k: "slk.pages_kept c0 c" using slk.run_keeps [OF assms(1)] assms(2) by (simp add: slk.pages_ready_def)
  then show s: "stays_wf c0 c" by (simp add: slk.pages_kept_def)
  have f: "frame c = frame c0" using s by (simp add: stays_wf_def)
  note sd = same_sealD [OF assms(3)]
  have "seal_kept (view c0 i) (view c i)" if "i < bk_npages b" for i using k that sd(3) by (simp add: slk.pages_kept_def)
  then show "same_seal b c"
    using sd frame_eqD [OF f] by (auto simp: same_seal_def seal_kept_def list_all_iff)
qed

text \<open>
  C3: A saved state brings the machine back: whatever the guest did to its memory
  after the save (or whatever another block with the same sealed image was used
  for), loading the state succeeds, reads exactly its own bytes, and leaves the
  machine that was saved: every status, every visible byte, every dirty mark and
  every sealed baseline, and a well-formed block.
\<close>

theorem state_save_load_roundtrip:
  assumes "env_ok E" "block_wf b" "bk_sealed b" "length (bk_hash b) = 32" "mb_block_save_state b = Inr chunks"
    and "frame_ready c0" "same_seal b c0" "(frame_step E)\<^sup>*\<^sup>* c0 c"
  shows "\<exists>c'. mb_block_load_state E True c (concat chunks @ rest) = (c', rest, Inr ()) \<and> same_machine b c' \<and> block_wf c'"
proof -
  have r: "run_ready E c0" using assms by (simp add: run_ready_def frame_ready_def)
  note s = run_same_seal [OF assms(8) r assms(7)]
  have c: "block_wf c" "bk_sealed c" "\<not> bk_plan_active c"
    using s(2) frame_eqD [of c c0] assms(6) by (simp_all add: stays_wf_def frame_ready_def)
  show ?thesis by (rule state_loads [OF assms(1-4) c s(1) assms(5)]) blast
qed

lemma same_seal_refl: "same_seal b b"
  by (simp add: same_seal_def list_all_iff)

section \<open>The identity a seal gives\<close>

lemma seal_hash_sha:
  assumes "length buf = 64"
  shows "seal_hash buf b = Some (sha256 (range_bytes (bk_addr b) @ concat (map seal_chunk (bk_pages b))))"
proof -
  obtain c where c: "mb_sha256_update (mb_sha256_init buf) (range_bytes (bk_addr b)) = Some c" "sha_ctx c (range_bytes (bk_addr b))"
    using sha_ctx_update [OF sha_ctx_init [OF assms]] by auto
  have "fold (\<lambda>p oc. Option.bind oc (\<lambda>c. mb_sha256_update c (seal_chunk p))) ps oc =
      fold (\<lambda>p oc. Option.bind oc (\<lambda>c. mb_sha256_update c p)) (map seal_chunk ps) oc" for ps oc
    by (simp add: fold_map o_def)
  then show ?thesis
    using sha_ctx_updates [OF c(2), of "map seal_chunk (bk_pages b)"] c(1) mb_sha256_final_ctx
    by (auto simp: seal_hash_def)
qed

lemma seal_hash_kept: "seal_hash buf (b\<lparr>bk_hash := h\<rparr>) = seal_hash buf b"
  by (simp add: seal_hash_def)



lemma demo_hash: "length (bk_hash demo_sealed) = 32"
proof -
  obtain h d where "mb_block_seal demo_env (replicate 64 0) demo_active = (d\<lparr>bk_hash := h\<rparr>, Inr ())" "length h = 32"
    using demo_active_facts(4) by (simp add: mb_block_seal_def seal_hash_sha length_sha256 Let_def)
  then show ?thesis by (simp add: demo_sealed_def)
qed

theorem state_save_load_roundtrip_witness:
  "\<exists>chunks c'. mb_block_save_state demo_sealed = Inr chunks \<and>
     mb_block_load_state demo_env True (fst (guest_write demo_env demo_sealed 0 0 [42])) (concat chunks @ [7]) = (c', [7], Inr ()) \<and>
     same_machine demo_sealed c'"
proof -
  obtain chunks where k: "mb_block_save_state demo_sealed = Inr chunks"
    using save_state_bytes [OF demo_sealed_facts(4)] by blast
  have "frame_step demo_env demo_sealed (fst (guest_write demo_env demo_sealed 0 0 [42]))"
    by (rule fr_write) (simp_all add: demo_sealed_facts MB_PAGESIZE_def)
  then show ?thesis
    using state_save_load_roundtrip [of demo_env demo_sealed chunks demo_sealed
        "fst (guest_write demo_env demo_sealed 0 0 [42])" "[7]"]
      k demo_ready demo_hash same_seal_refl demo_sealed_facts by auto
qed

end
