(* ===== verification/Mb_Plain.thy ===== *)
theory Mb_Plain
  imports Mb_Frame Mb_Demo
begin

text \<open>
  What the memory block promises its guest, without any of its bookkeeping: a row
  of pages, each with a status and its bytes. Stores, mappings and protections
  are stated on that row, ranges in unbounded arithmetic, and the block (dirty
  marks, held and hot pages, epochs, planned states, the operating system's
  protections and the faults they cause) is shown to refine it, call for call
  and answer for answer.
\<close>

section \<open>A plain memory\<close>

record plain_mem =
  pl_range :: mb_range
  pl_pages :: "(byte \<times> bytes) list"

definition plain :: "mb_block \<Rightarrow> plain_mem" where
  "plain b = \<lparr>pl_range = bk_addr b, pl_pages = map (\<lambda>p. (pg_status p, pg_live p)) (bk_pages b)\<rparr>"

definition plain_on :: "nat \<Rightarrow> nat \<Rightarrow> (byte \<times> bytes \<Rightarrow> byte \<times> bytes) \<Rightarrow> plain_mem \<Rightarrow> plain_mem" where
  "plain_on ps n f m = m\<lparr>pl_pages := take ps (pl_pages m) @ map f (take n (drop ps (pl_pages m))) @ drop (ps + n) (pl_pages m)\<rparr>"

definition plain_every :: "(byte \<Rightarrow> bool) \<Rightarrow> plain_mem \<Rightarrow> nat \<Rightarrow> nat \<Rightarrow> bool" where
  "plain_every P m from to \<longleftrightarrow> list_all (\<lambda>i. P (fst (pl_pages m ! i))) [from..<to]"

text \<open>The pages a range covers, when it is a nonempty range of whole pages inside the memory.\<close>

definition plain_range :: "plain_mem \<Rightarrow> mb_range \<Rightarrow> (nat \<times> nat) option" where
  "plain_range m r =
    (let base = unat (rg_start (pl_range m)); from = unat (rg_start r); sz = unat (rg_size r)
     in if 0 < sz \<and> base \<le> from \<and> from + sz \<le> base + unat (rg_size (pl_range m)) \<and>
          MB_PAGESIZE dvd from \<and> MB_PAGESIZE dvd sz
        then Some ((from - base) div MB_PAGESIZE, sz div MB_PAGESIZE) else None)"

definition plain_protect :: "nat \<Rightarrow> nat \<Rightarrow> byte \<Rightarrow> plain_mem \<Rightarrow> plain_mem" where
  "plain_protect ps n st = plain_on ps n (\<lambda>(s, bs). (st, bs))"

definition plain_give :: "bool \<Rightarrow> byte \<times> bytes \<Rightarrow> byte \<times> bytes" where
  "plain_give keep = (\<lambda>(s, bs). (if keep then s else MB_ST_FREE, zero_page))"

definition plain_clear :: "byte \<times> bytes \<Rightarrow> byte \<times> bytes" where
  "plain_clear = (\<lambda>(s, bs). if s = MB_ST_FREE then (s, bs) else (s, zero_page))"

datatype mem_call =
    Store nat nat bytes
  | Mmap mb_range mb_prot mb_range bool bool
  | Mmap_fixed mb_range mb_prot bool
  | Mprotect mb_range mb_prot
  | Munmap mb_range
  | Madvise mb_range
  | Mremap mb_range u64

datatype mem_answer = Stored | Faulted | Done | Placed u64 | Refused errno

fun placed :: "u64 res \<Rightarrow> mem_answer" where
  "placed (Inl e) = Refused e"
| "placed (Inr a) = Placed a"

fun done_answer :: "unit res \<Rightarrow> mem_answer" where
  "done_answer (Inl e) = Refused e"
| "done_answer (Inr _) = Done"

definition plain_store :: "nat \<Rightarrow> nat \<Rightarrow> bytes \<Rightarrow> plain_mem \<Rightarrow> plain_mem \<times> mem_answer" where
  "plain_store i off xs m =
    (if status_tracked (fst (pl_pages m ! i)) then (plain_on i 1 (\<lambda>(s, bs). (s, put_at bs off xs)) m, Stored)
     else (m, Faulted))"

definition plain_mmap_fixed :: "mb_range \<Rightarrow> mb_prot \<Rightarrow> bool \<Rightarrow> bool \<Rightarrow> plain_mem \<Rightarrow> plain_mem \<times> unit res" where
  "plain_mmap_fixed r prot no_replace clear m =
    (case plain_range m r of
       None \<Rightarrow> (m, Inl EINVAL)
     | Some (ps, n) \<Rightarrow>
         if no_replace \<and> \<not> plain_every (\<lambda>s. s = MB_ST_FREE) m ps (ps + n) then (m, Inl EEXIST)
         else (plain_protect ps n (prot_status prot) (if clear then plain_on ps n plain_clear m else m), Inr ()))"

definition plain_mmap :: "mb_range \<Rightarrow> mb_prot \<Rightarrow> mb_range \<Rightarrow> bool \<Rightarrow> bool \<Rightarrow> plain_mem \<Rightarrow> plain_mem \<times> mem_answer" where
  "plain_mmap r prot arena no_replace clear m =
    (if rg_size r = 0 then (m, Refused EINVAL)
     else if rg_start r = 0 then
       (if \<not> MB_PAGESIZE dvd unat (rg_size r) then (m, Refused EINVAL)
        else
          (case plain_range m arena of
             None \<Rightarrow> (m, Refused EINVAL)
           | Some (as, acount) \<Rightarrow>
               (let n = unat (rg_size r) div MB_PAGESIZE
                in case walk_free_pages (\<lambda>i. fst (pl_pages m ! i) = MB_ST_FREE) as acount n of
                     None \<Rightarrow> (m, Refused ENOMEM)
                   | Some ps \<Rightarrow> (plain_protect ps n (prot_status prot) m,
                       Placed (rg_start (pl_range m) + of_nat (ps * MB_PAGESIZE))))))
     else
       (case plain_mmap_fixed r prot no_replace clear m of
          (m', Inl e) \<Rightarrow> (m', Refused e)
        | (m', Inr _) \<Rightarrow> (m', Placed (rg_start r))))"

definition plain_mprotect :: "mb_range \<Rightarrow> mb_prot \<Rightarrow> plain_mem \<Rightarrow> plain_mem \<times> unit res" where
  "plain_mprotect r prot m =
    (case plain_range m r of
       None \<Rightarrow> (m, Inl EINVAL)
     | Some (ps, n) \<Rightarrow>
         if \<not> plain_every (\<lambda>s. s \<noteq> MB_ST_FREE) m ps (ps + n) then (m, Inl ENOMEM)
         else (plain_protect ps n (prot_status prot) m, Inr ()))"

definition plain_munmap :: "bool \<Rightarrow> mb_range \<Rightarrow> plain_mem \<Rightarrow> plain_mem \<times> unit res" where
  "plain_munmap keep r m =
    (case plain_range m r of
       None \<Rightarrow> (m, Inl EINVAL)
     | Some (ps, n) \<Rightarrow>
         if \<not> plain_every (\<lambda>s. s \<noteq> MB_ST_FREE) m ps (ps + n) then (m, Inl EINVAL)
         else (plain_on ps n (plain_give keep) m, Inr ()))"

definition plain_mremap :: "mb_range \<Rightarrow> u64 \<Rightarrow> plain_mem \<Rightarrow> plain_mem \<times> mem_answer" where
  "plain_mremap r new_size m =
    (if rg_size r = 0 \<or> new_size = 0 then (m, Refused EINVAL)
     else if rg_start r = 0 then (m, Refused ENOSYS)
     else
       (case plain_range m r of
          None \<Rightarrow> (m, Refused EINVAL)
        | Some (ps, n) \<Rightarrow>
            if rg_size r < new_size then
              (case plain_range m \<lparr>rg_start = rg_start r, rg_size = new_size\<rparr> of
                 None \<Rightarrow> (m, Refused EINVAL)
               | Some (_, n') \<Rightarrow>
                   if \<not> plain_every (\<lambda>s. s \<noteq> MB_ST_FREE) m ps (ps + n) then (m, Refused EINVAL)
                   else if \<not> plain_every (\<lambda>s. s = MB_ST_FREE) m (ps + n) (ps + n') then (m, Refused EEXIST)
                   else (plain_protect (ps + n) (n' - n) (fst (pl_pages m ! ps)) m, Placed (rg_start r)))
            else if \<not> plain_every (\<lambda>s. s \<noteq> MB_ST_FREE) m ps (ps + n) then (m, Refused EINVAL)
            else
              (case plain_munmap False \<lparr>rg_start = rg_start r + new_size, rg_size = rg_size r - new_size\<rparr> m of
                 (m', Inl e) \<Rightarrow> (m', Refused e)
               | (m', Inr _) \<Rightarrow> (m', Placed (rg_start r)))))"

fun plain_call :: "plain_mem \<Rightarrow> mem_call \<Rightarrow> plain_mem \<times> mem_answer" where
  "plain_call m (Store i off xs) = plain_store i off xs m"
| "plain_call m (Mmap r prot arena no_replace clear) = plain_mmap r prot arena no_replace clear m"
| "plain_call m (Mmap_fixed r prot no_replace) = map_prod id done_answer (plain_mmap_fixed r prot no_replace False m)"
| "plain_call m (Mprotect r prot) = map_prod id done_answer (plain_mprotect r prot m)"
| "plain_call m (Munmap r) = map_prod id done_answer (plain_munmap False r m)"
| "plain_call m (Madvise r) = map_prod id done_answer (plain_munmap True r m)"
| "plain_call m (Mremap r sz) = plain_mremap r sz m"

fun block_call :: "os_env \<Rightarrow> mb_block \<Rightarrow> mem_call \<Rightarrow> mb_block \<times> mem_answer" where
  "block_call E b (Store i off xs) = map_prod id (\<lambda>ok. if ok then Stored else Faulted) (guest_write E b i off xs)"
| "block_call E b (Mmap r prot arena no_replace clear) = map_prod id placed (mb_block_mmap E b r prot arena no_replace clear)"
| "block_call E b (Mmap_fixed r prot no_replace) = map_prod id done_answer (mb_block_mmap_fixed E b r prot no_replace)"
| "block_call E b (Mprotect r prot) = map_prod id done_answer (mb_block_mprotect E b r prot)"
| "block_call E b (Munmap r) = map_prod id done_answer (mb_block_munmap E b r)"
| "block_call E b (Madvise r) = map_prod id done_answer (mb_block_madvise_dontneed E b r)"
| "block_call E b (Mremap r sz) = map_prod id placed (mb_block_mremap E b r sz)"

fun calls :: "('m \<Rightarrow> mem_call \<Rightarrow> 'm \<times> mem_answer) \<Rightarrow> 'm \<Rightarrow> mem_call list \<Rightarrow> 'm \<times> mem_answer list" where
  "calls f m [] = (m, [])"
| "calls f m (c # cs) = (let (m1, a) = f m c; (m2, as) = calls f m1 cs in (m2, a # as))"

text \<open>A store is to bytes of one page of the memory.\<close>

fun call_inside :: "nat \<Rightarrow> mem_call \<Rightarrow> bool" where
  "call_inside n (Store i off xs) \<longleftrightarrow> i < n \<and> off + length xs \<le> MB_PAGESIZE"
| "call_inside n _ \<longleftrightarrow> True"

section \<open>Ranges\<close>

lemma aligned_dvd: "x = mb_align_down x \<longleftrightarrow> MB_PAGESIZE dvd unat x" for x :: u64
proof
  assume "x = mb_align_down x"
  then have "unat x = unat x div MB_PAGESIZE * MB_PAGESIZE" using unat_mb_align_down [of x] by simp
  then show "MB_PAGESIZE dvd unat x" by (metis dvd_triv_right)
next
  assume "MB_PAGESIZE dvd unat x"
  then have "unat x = unat (mb_align_down x)" by (simp add: unat_mb_align_down)
  then show "x = mb_align_down x" by (simp only: word_unat_eq_iff)
qed

lemma page_shift: "unat (drop_bit 12 x) = unat x div MB_PAGESIZE" for x :: u64
  by (simp add: drop_bit_eq_div unat_div MB_PAGESIZE_def)

lemma range_plain: "plain_range (plain b) r = validate b r"
proof -
  let ?s = "rg_start r" and ?b = "rg_start (bk_addr b)" and ?z = "rg_size r" and ?w = "rg_size (bk_addr b)"
  have sub: "unat (?s - ?b) = unat ?s - unat ?b" if "?b \<le> ?s" using that by (simp add: unat_sub)
  have sub2: "unat (?w - (?s - ?b)) = unat ?w - (unat ?s - unat ?b)" if "?b \<le> ?s" "?s - ?b \<le> ?w"
    using that sub by (simp add: unat_sub)
  have "(0 < unat ?z \<and> unat ?b \<le> unat ?s \<and> unat ?s + unat ?z \<le> unat ?b + unat ?w) \<longleftrightarrow>
      \<not> (?z = 0 \<or> ?s < ?b \<or> ?s - ?b > ?w \<or> ?z > ?w - (?s - ?b))"
  proof (cases "?b \<le> ?s \<and> ?s - ?b \<le> ?w")
    case True
    then show ?thesis using sub sub2 by (auto simp: word_le_nat_alt word_less_nat_alt unat_gt_0 not_less)
  next
    case False
    then show ?thesis using sub by (auto simp: word_le_nat_alt word_less_nat_alt not_less not_le)
  qed
  moreover have "unat ?b \<le> unat ?s \<Longrightarrow> unat (drop_bit 12 (?s - ?b)) = (unat ?s - unat ?b) div MB_PAGESIZE"
    using sub by (simp add: page_shift word_le_nat_alt)
  ultimately show ?thesis
    by (auto simp: plain_range_def validate_def plain_def Let_def page_shift aligned_dvd)
qed

lemma every_plain:
  "to \<le> bk_npages b \<Longrightarrow> plain_every P (plain b) from to = all_pages (\<lambda>p. P (pg_status p)) b from to"
  by (auto simp: plain_every_def all_pages_def plain_def list_all_iff bk_npages_def)

lemma plain_range_sel [simp]: "pl_range (plain b) = bk_addr b" "length (pl_pages (plain b)) = bk_npages b"
  "i < bk_npages b \<Longrightarrow> pl_pages (plain b) ! i = (pg_status (bk_pages b ! i), pg_live (bk_pages b ! i))"
  by (simp_all add: plain_def bk_npages_def)

section \<open>Pages\<close>

abbreviation seen :: "pview \<Rightarrow> byte \<times> bytes" where
  "seen v \<equiv> (pg_status (v_page v), pg_live (v_page v))"

lemma seen_refresh: "seen (refresh_v fr v) = seen v"
  by (simp add: refresh_v_def note_prot_v_def Let_def)

lemma seen_protect: "seen (protect_v st fr v) = (st, pg_live (v_page v))"
  by (simp add: protect_v_def seen_refresh)
     (simp add: status_v_def cool_v_def estat_v_def capture_v_def written_v_def Let_def)

lemma seen_give:
  assumes "page_ok fr v"
  shows "seen (give_v fr v) = (pg_status (v_page v), zero_page)"
proof -
  define w where "w = given_v fr v"
  have w: "pg_status (v_page w) = pg_status (v_page v)" "pg_live (v_page w) = pg_live (v_page v)"
      "pg_dirty (v_page w) = pg_dirty (v_page v)" "pg_invisible (v_page w) = pg_invisible (v_page v)"
      "pg_snap (v_page v) \<noteq> MB_SNAP_NONE \<Longrightarrow> pg_snap (v_page w) = pg_snap (v_page v)"
      "pg_snap (v_page v) = MB_SNAP_NONE \<Longrightarrow> pg_snap (v_page w) = MB_SNAP_DATA (pg_live (v_page v))"
    by (simp_all add: w_def given_v_def estat_v_def capture_v_def written_v_def snap_v_def plan_v_def
        mb_page_maybe_snapshot_def Let_def)
  have "pg_live (v_page v) = zero_page" if "zero_already_v w"
    using that w assms
    by (cases "pg_snap (v_page v)") (auto simp: zero_already_v_def page_ok_def snap_ok_def page_baseline_def)
  then show ?thesis
    using w by (simp add: give_v_def w_def [symmetric] dirty_v_def cool_v_def zero_v_def Let_def)
qed

lemma seen_free: "page_ok fr v \<Longrightarrow> seen (free_v keep fr v) = plain_give keep (seen v)"
  using seen_give [of fr v] seen_refresh [of fr "give_v fr v"] seen_protect [of MB_ST_FREE fr "give_v fr v"]
  by (simp add: free_v_def plain_give_def)

lemma seen_overlap: "page_ok fr v \<Longrightarrow> seen (overlap_v fr v) = plain_clear (seen v)"
  using seen_free [of fr v True] by (simp add: overlap_v_def plain_clear_def plain_give_def)

lemma seen_trip: "seen (trip_v fr v) = seen v"
  by (simp add: trip_v_def release_v_def unheld_v_def os_native_v_def dirty_v_def plan_v_def capture_v_def
      written_v_def snap_v_def mb_page_maybe_snapshot_def cool_v_def Let_def)

lemma os_tracked: "page_ok fr v \<Longrightarrow> prot_writable (pg_os (v_page v)) \<Longrightarrow> status_tracked (pg_status (v_page v))"
  by (simp add: page_ok_def track_v_def native_writable Let_def)

lemma seen_write:
  assumes "page_ok fr v"
  shows "seen (write_v off xs fr v) =
    (if status_tracked (pg_status (v_page v)) then (\<lambda>(s, bs). (s, put_at bs off xs)) (seen v) else seen v)"
  using os_tracked [OF assms] seen_trip [of fr v] by (auto simp: write_v_def store_v_def)

lemma nth_plain_on:
  assumes "ps + n \<le> length (pl_pages m)" "j < length (pl_pages m)"
  shows "pl_pages (plain_on ps n f m) ! j = (if ps \<le> j \<and> j < ps + n then f (pl_pages m ! j) else pl_pages m ! j)"
proof -
  have "j - ps < n \<Longrightarrow> ps \<le> j \<Longrightarrow> take n (drop ps (pl_pages m)) ! (j - ps) = pl_pages m ! j" using assms by simp
  then show ?thesis using assms by (auto simp: plain_on_def nth_append min_def not_less)
qed

lemma plain_acts:
  assumes b: "block_wf b" and a: "acts_on g {ps..<ps + n} b b'" and n: "ps + n \<le> bk_npages b"
    and g: "\<And>v. page_ok (frame b) v \<Longrightarrow> seen (g (frame b) v) = f (seen v)"
  shows "plain b' = plain_on ps n f (plain b)"
proof -
  note d = acts_onD [OF a]
  have ad: "bk_addr b' = bk_addr b" using frame_eqD(2) [OF d(2)] .
  have "pl_pages (plain b') = pl_pages (plain_on ps n f (plain b))"
  proof (rule nth_equalityI)
    show len: "length (pl_pages (plain b')) = length (pl_pages (plain_on ps n f (plain b)))"
      using d(3) n by (auto simp: plain_on_def min_def)
    fix j assume "j < length (pl_pages (plain b'))"
    then have j: "j < bk_npages b" using d(3) by simp
    have "seen (view b' j) = (if j \<in> {ps..<ps + n} then f (seen (view b j)) else seen (view b j))"
      using d(4) [OF j] g [OF block_invD(2) [OF block_wfD(1) [OF b] j]] by (simp del: view_sel)
    then show "pl_pages (plain b') ! j = pl_pages (plain_on ps n f (plain b)) ! j"
      using j n d(3) by (simp add: nth_plain_on)
  qed
  then show ?thesis using ad by (simp add: plain_on_def plain_def)
qed

section \<open>Every operation refines its plain one\<close>

lemma readyD: "run_ready E b \<Longrightarrow> env_ok E" "run_ready E b \<Longrightarrow> block_wf b" "run_ready E b \<Longrightarrow> block_ok b"
  by (simp_all add: run_ready_def block_wfD)

lemma protect_plain:
  assumes "run_ready E b" "ps + n \<le> bk_npages b"
  shows "plain (set_protections E b ps n st) = plain_protect ps n st (plain b)"
  using plain_acts [OF readyD(2) [OF assms(1)] set_protections_acts [OF readyD(1) [OF assms(1)] readyD(3) [OF assms(1)] assms(2)] assms(2)]
  by (simp add: plain_protect_def seen_protect)

lemma free_plain:
  assumes "run_ready E b" "ps + n \<le> bk_npages b"
  shows "plain (free_pages E b ps n keep) = plain_on ps n (plain_give keep) (plain b)"
  using plain_acts [OF readyD(2) [OF assms(1)] free_pages_acts [OF readyD(1) [OF assms(1)] readyD(3) [OF assms(1)] assms(2)] assms(2) seen_free] .

lemma overlap_plain:
  assumes "run_ready E b" "ps + n \<le> bk_npages b"
  shows "plain (zero_overlap_from E b ps (ps + n)) = plain_on ps n plain_clear (plain b)"
  using plain_acts [OF readyD(2) [OF assms(1)] zero_overlap_acts [OF readyD(1) [OF assms(1)] readyD(3) [OF assms(1)] assms(2)] assms(2) seen_overlap] .

lemma store_plain:
  assumes r: "run_ready E b" and i: "i < bk_npages b"
  shows "map_prod plain (\<lambda>ok. if ok then Stored else Faulted) (guest_write E b i off xs) = plain_store i off xs (plain b)"
proof -
  note a = guest_write_acts [OF readyD(1) [OF r] readyD(3) [OF r] i, of off xs]
  have ok: "page_ok (frame b) (view b i)" using block_invD(2) [OF block_wfD(1) [OF readyD(2) [OF r]] i] .
  let ?f = "\<lambda>(s, bs). if status_tracked s then (s, put_at bs off xs) else (s, bs)"
  have a1: "acts_on (write_v off xs) {i..<i + 1} b (fst (guest_write E b i off xs))" using a(1) by simp
  have p: "plain (fst (guest_write E b i off xs)) = plain_on i 1 ?f (plain b)"
    by (rule plain_acts [OF readyD(2) [OF r] a1]) (use i in \<open>simp_all add: seen_write\<close>)
  have take1: "take (Suc 0) (drop i (pl_pages (plain b))) = [pl_pages (plain b) ! i]"
    using i by (simp add: take_Suc_conv_app_nth)
  have whole: "pl_pages (plain b) = take i (pl_pages (plain b)) @ pl_pages (plain b) ! i # drop (Suc i) (pl_pages (plain b))"
    using id_take_nth_drop [of i "pl_pages (plain b)"] i by simp
  have s: "snd (guest_write E b i off xs) = status_tracked (pg_status (bk_pages b ! i))"
    using a(2) os_tracked [OF ok] by auto
  show ?thesis
  proof (cases "status_tracked (pg_status (bk_pages b ! i))")
    case True
    then show ?thesis
      using p s i by (cases "guest_write E b i off xs") (simp add: plain_store_def plain_on_def take1)
  next
    case False
    then have "plain_on i 1 ?f (plain b) = plain b"
      using whole i by (simp add: plain_on_def take1)
    then show ?thesis using p s False i by (cases "guest_write E b i off xs") (simp add: plain_store_def)
  qed
qed

lemma mmap_fixed_plain:
  assumes r: "run_ready E b"
  shows "map_prod plain id (mmap_fixed_impl E b r' prot no_replace clear) = plain_mmap_fixed r' prot no_replace clear (plain b)"
proof (cases "validate b r'")
  case (Some q)
  then obtain ps n where v: "validate b r' = Some (ps, n)" by (cases q) simp
  note n = wfm.valid_bounds [OF r v]
  define b1 where "b1 = (if clear then zero_overlap_from E b ps (ps + n) else b)"
  have k: "stays_wf b b1" using wfm.overlap_keeps [OF r n] wfm.keeps_self [OF r] by (simp add: b1_def)
  have "plain b1 = (if clear then plain_on ps n plain_clear (plain b) else plain b)"
    using overlap_plain [OF r n] by (simp add: b1_def)
  moreover have "plain (set_protections E b1 ps n (prot_status prot)) = plain_protect ps n (prot_status prot) (plain b1)"
    using wfm.keeps_ready [OF r k] n by (intro protect_plain) simp_all
  ultimately show ?thesis
    using v n every_plain [OF n] by (simp add: mmap_fixed_impl_def plain_mmap_fixed_def range_plain b1_def)
qed (simp add: mmap_fixed_impl_def plain_mmap_fixed_def range_plain)

text \<open>The walk looks at no page outside the arena.\<close>

lemma walk_top_cong: "(\<And>k. k < i \<Longrightarrow> f k = g k) \<Longrightarrow> walk_top f lo n i e = walk_top g lo n i e"
  by (induction i arbitrary: e) auto

lemma run_length_cong: "(\<And>k. k < hi \<Longrightarrow> f k = g k) \<Longrightarrow> run_length f hi i = run_length g hi i"
  unfolding run_length_def by (rule arg_cong [where f = length], rule takeWhile_cong) auto

lemma walk_best_cong:
  assumes "\<And>k. k < hi \<Longrightarrow> f k = g k"
  shows "walk_best f hi n i best = walk_best g hi n i best"
proof (induction "hi - i" arbitrary: i best rule: less_induct)
  case less
  show ?case
  proof (cases "i < hi")
    case True
    have step: "walk_best f hi n j best' = walk_best g hi n j best'" if "i < j" for j best'
      using that True by (intro less.hyps) (simp add: diff_less_mono2)
    show ?thesis
      using True assms [OF True] run_length_cong [of hi f g i] assms
      by (simp add: walk_best.simps [of f hi n i best] walk_best.simps [of g hi n i best] step Let_def)
  qed (simp add: walk_best.simps [of _ hi n i best])
qed

lemma walk_free_cong:
  "(\<And>k. k < as + n \<Longrightarrow> f k = g k) \<Longrightarrow> walk_free_pages f as n m = walk_free_pages g as n m"
  using walk_top_cong [of "as + n" f g] walk_best_cong [of "as + n" f g] by (simp add: walk_free_pages_def Let_def)

lemma free_status:
  assumes "block_ok b" "as + n \<le> bk_npages b"
  shows "walk_free_pages (\<lambda>i. fst (pl_pages (plain b) ! i) = MB_ST_FREE) as n m = find_free_pages b as n m"
  unfolding find_free_walk [OF assms]
proof (rule walk_free_cong)
  fix k assume "k < as + n"
  then have k: "k < bk_npages b" using assms(2) by simp
  then show "(fst (pl_pages (plain b) ! k) = MB_ST_FREE) = page_free b k"
    using block_ok_view [OF assms(1) k] by (simp add: view_ok_def)
qed

lemma page_addr_plain: "ps < bk_npages b \<Longrightarrow> page_addr b ps = rg_start (bk_addr b) + of_nat (ps * MB_PAGESIZE)"
  by (simp add: page_addr_def push_bit_eq_mult MB_PAGESIZE_def mult.commute)

lemma mmap_plain:
  assumes r: "run_ready E b"
  shows "map_prod plain placed (mb_block_mmap E b r' prot arena no_replace clear) = plain_mmap r' prot arena no_replace clear (plain b)"
proof (cases "rg_size r' = 0 \<or> rg_start r' \<noteq> 0 \<or> \<not> MB_PAGESIZE dvd unat (rg_size r') \<or> validate b arena = None")
  case True
  then show ?thesis
    using mmap_fixed_plain [OF r, of r' prot no_replace clear, symmetric] aligned_dvd [of "rg_size r'"]
    by (cases "mmap_fixed_impl E b r' prot no_replace clear"; cases "snd (mmap_fixed_impl E b r' prot no_replace clear)")
       (auto simp: mb_block_mmap_def plain_mmap_def range_plain)
next
  case False
  then obtain as acount where v: "validate b arena = Some (as, acount)" by auto
  note n = wfm.valid_bounds [OF r v]
  define m where "m = unat (drop_bit 12 (rg_size r'))"
  have pos: "0 < m" using False pages_pos aligned_dvd [of "rg_size r'"] by (simp add: m_def)
  show ?thesis
  proof (cases "find_free_pages b as acount m")
    case None
    then show ?thesis
      using False v free_status [OF readyD(3) [OF r] n, of m] aligned_dvd [of "rg_size r'"]
      by (simp add: mb_block_mmap_def plain_mmap_def range_plain m_def page_shift Let_def)
  next
    case (Some ps)
    note e = find_free_bounds [OF readyD(3) [OF r] n Some pos]
    have "plain (set_protections E b ps m (prot_status prot)) = plain_protect ps m (prot_status prot) (plain b)"
      by (rule protect_plain [OF r e])
    then show ?thesis
      using False v Some free_status [OF readyD(3) [OF r] n, of m] aligned_dvd [of "rg_size r'"] page_addr_plain [of ps b] e pos
      by (simp add: mb_block_mmap_def plain_mmap_def range_plain m_def page_shift Let_def)
  qed
qed

lemma mprotect_plain:
  assumes r: "run_ready E b"
  shows "map_prod plain id (mb_block_mprotect E b r' prot) = plain_mprotect r' prot (plain b)"
  using wfm.valid_bounds [OF r, of r'] every_plain [of _ b] protect_plain [OF r]
  by (auto simp: mb_block_mprotect_def plain_mprotect_def range_plain split: option.split)

lemma munmap_plain:
  assumes r: "run_ready E b"
  shows "map_prod plain id (munmap_impl E b r' keep) = plain_munmap keep r' (plain b)"
  using wfm.valid_bounds [OF r, of r'] every_plain [of _ b] free_plain [OF r]
  by (auto simp: munmap_impl_def plain_munmap_def range_plain split: option.split)

lemma mremap_plain:
  assumes r: "run_ready E b"
  shows "map_prod plain placed (mb_block_mremap E b r' sz) = plain_mremap r' sz (plain b)"
proof (cases "validate b r'")
  case (Some q)
  then obtain ps n where v: "validate b r' = Some (ps, n)" by (cases q) simp
  note n = wfm.valid_bounds [OF r v]
  show ?thesis
  proof (cases "rg_size r' < sz")
    case False
    then show ?thesis
      using v n every_plain [OF n] munmap_plain [OF r, of "\<lparr>rg_start = rg_start r' + sz, rg_size = rg_size r' - sz\<rparr>" False, symmetric]
      by (cases "munmap_impl E b \<lparr>rg_start = rg_start r' + sz, rg_size = rg_size r' - sz\<rparr> False";
          cases "snd (munmap_impl E b \<lparr>rg_start = rg_start r' + sz, rg_size = rg_size r' - sz\<rparr> False)")
         (auto simp: mb_block_mremap_def plain_mremap_def range_plain)
  next
    case grow: True
    show ?thesis
    proof (cases "validate b \<lparr>rg_start = rg_start r', rg_size = sz\<rparr>")
      case None
      then show ?thesis using v grow by (simp add: mb_block_mremap_def plain_mremap_def range_plain)
    next
      case (Some q')
      then obtain fs n' where f: "validate b \<lparr>rg_start = rg_start r', rg_size = sz\<rparr> = Some (fs, n')" by (cases q') simp
      note g = mremap_grow [OF readyD(2) [OF r] v grow f]
      have pos: "0 < n" using v pages_pos [of "rg_size r'"] by (auto simp: validate_def Let_def split: if_splits)
      have e: "ps + n' \<le> bk_npages b" using g by simp
      show ?thesis
        using v f g pos grow every_plain [OF n] every_plain [OF e] protect_plain [OF r g(3)]
        by (simp add: mb_block_mremap_def plain_mremap_def range_plain)
    qed
  qed
qed (simp add: mb_block_mremap_def plain_mremap_def range_plain)

lemma call_plain:
  assumes r: "run_ready E b" and c: "call_inside (bk_npages b) c"
  shows "map_prod plain id (block_call E b c) = plain_call (plain b) c"
proof -
  have done': "map_prod id done_answer (map_prod plain id x) = map_prod plain done_answer x" for x
    by (cases x) simp
  have id': "map_prod plain id (map_prod id f x) = map_prod plain f x" for f :: "'b \<Rightarrow> mem_answer" and x by (cases x) simp
  show ?thesis
    using c store_plain [OF r] mmap_plain [OF r] mmap_fixed_plain [OF r, symmetric] mprotect_plain [OF r, symmetric]
      munmap_plain [OF r, symmetric] mremap_plain [OF r]
    by (cases c) (simp_all add: done' id' mb_block_mmap_fixed_def mb_block_munmap_def mb_block_madvise_dontneed_def)
qed

lemma call_ready:
  assumes r: "run_ready E b" and c: "call_inside (bk_npages b) c"
  shows "run_ready E (fst (block_call E b c)) \<and> bk_npages (fst (block_call E b c)) = bk_npages b"
  using c wfm.keeps_ready [OF r wfm.step_keeps [OF _ r]]
  by (cases c) (simp_all add: fr_write fr_mmap fr_mmap_fixed fr_mprotect fr_munmap fr_madvise fr_mremap)

text \<open>
  C2: The tracking is invisible to the guest: on any sequence of stores, mappings,
  protections, releases and resizings, whatever is dirty, held, hot, planned or
  recorded in an epoch, the block gives exactly the answers of a plain row of
  pages with a status and bytes each (a store faults only where the page is not
  writable; a range is accepted exactly when it is a nonempty run of whole pages
  inside the block, in unbounded arithmetic), and ends with the same statuses
  and bytes.
\<close>

theorem memory_refines_plain:
  assumes "env_ok E" "block_wf b" "bk_swapped_in b" "list_all (call_inside (bk_npages b)) cs"
  shows "map_prod plain id (calls (block_call E) b cs) = calls plain_call (plain b) cs"
  using assms
proof (induction cs arbitrary: b)
  case (Cons c cs)
  have r: "run_ready E b" using Cons.prems by (simp add: run_ready_def)
  have c: "call_inside (bk_npages b) c" using Cons.prems by simp
  note n = call_ready [OF r c]
  have "map_prod plain id (calls (block_call E) (fst (block_call E b c)) cs) = calls plain_call (plain (fst (block_call E b c))) cs"
    using n Cons.prems by (intro Cons.IH) (simp_all add: run_ready_def)
  then show ?case
    using call_plain [OF r c] by (auto simp: Let_def map_prod_def split: prod.splits)
qed simp

theorem memory_refines_plain_witness:
  "map_prod plain id (calls (block_call demo_env) demo_sealed
      [Store 0 0 [1], Mmap \<lparr>rg_start = 0x100000000, rg_size = 0x1000\<rparr> MB_PROT_RW demo_range True True, Store 0 5 [7, 8],
       Mprotect \<lparr>rg_start = 0x100000000, rg_size = 0x1000\<rparr> MB_PROT_R, Munmap \<lparr>rg_start = 0, rg_size = 0\<rparr>]) =
   calls plain_call (plain demo_sealed)
      [Store 0 0 [1], Mmap \<lparr>rg_start = 0x100000000, rg_size = 0x1000\<rparr> MB_PROT_RW demo_range True True, Store 0 5 [7, 8],
       Mprotect \<lparr>rg_start = 0x100000000, rg_size = 0x1000\<rparr> MB_PROT_R, Munmap \<lparr>rg_start = 0, rg_size = 0\<rparr>]"
  by (rule memory_refines_plain) (simp_all add: demo_sealed_facts MB_PAGESIZE_def)

text \<open>
  C20: Looking for free pages by counted groups finds what a walk over the single
  pages finds: an address is answered exactly when the arena has a run of free
  pages that long, and the run it answers lies in the arena and is free.
\<close>

theorem find_free_correct:
  fixes b defines "free \<equiv> \<lambda>i. pg_status (bk_pages b ! i) = MB_ST_FREE"
  assumes "block_ok b" "as + acount \<le> bk_npages b" "0 < npages"
  shows "find_free_pages b as acount npages = walk_free_pages free as acount npages \<and>
    (case find_free_pages b as acount npages of
       Some ps \<Rightarrow> free_run free as (as + acount) npages ps
     | None \<Rightarrow> (\<nexists>ps. free_run free as (as + acount) npages ps))"
proof -
  have "page_free b k = free k" if "k < as + acount" for k
    using block_ok_view [OF assms(2), of k] that assms(3) by (simp add: view_ok_def free_def)
  then have eq: "find_free_pages b as acount npages = walk_free_pages free as acount npages"
    unfolding find_free_walk [OF assms(2,3)] by (intro walk_free_cong)
  then show ?thesis using walk_free_spec [OF assms(4), of free as acount] by (simp split: option.splits)
qed

theorem find_free_correct_witness:
  "find_free_pages demo_sealed 0 2 1 = walk_free_pages (\<lambda>i. pg_status (bk_pages demo_sealed ! i) = MB_ST_FREE) 0 2 1"
  using find_free_correct [of demo_sealed 0 2 1] by (simp add: demo_sealed_facts block_wfD)

end
