(* ===== verification/Mb_Elf.thy ===== *)
theory Mb_Elf
  imports Mb_Mem Mb_Sha256 "HOL-Library.Monad_Syntax"
begin

text \<open>
  The ELF64 loader of guest images (\<^verbatim>\<open>elf.c\<close>): the check of an image before
  anything in it is followed, the span of its segments, the load into the
  memory block, the table of exports and the protections of a seal. Every read
  of the image goes through \<open>image_at\<close>, which is \<open>None\<close> outside the image: that
  value is the read past the image's end which the check is there to prevent.
  The branches of the aarch64 and Intel Mac builds are left out; on the others
  no image is refused by \<open>mb_elf_refusal\<close>.
\<close>

section \<open>Reading the image\<close>

definition image_at :: "bytes \<Rightarrow> nat \<Rightarrow> nat \<Rightarrow> bytes option" where
  "image_at img off n = (if off + n \<le> length img then Some (take n (drop off img)) else None)"

definition field :: "bytes \<Rightarrow> nat \<Rightarrow> nat \<Rightarrow> bytes" where
  "field bs off n = take n (drop off bs)"

record Elf64_Ehdr =
  e_ident :: bytes
  e_type :: u16
  e_machine :: u16
  e_version :: u32
  e_entry :: u64
  e_phoff :: u64
  e_shoff :: u64
  e_flags :: u32
  e_ehsize :: u16
  e_phentsize :: u16
  e_phnum :: u16
  e_shentsize :: u16
  e_shnum :: u16
  e_shstrndx :: u16

record Elf64_Phdr =
  p_type :: u32
  p_flags :: u32
  p_offset :: u64
  p_vaddr :: u64
  p_paddr :: u64
  p_filesz :: u64
  p_memsz :: u64
  p_align :: u64

record Elf64_Shdr =
  sh_name :: u32
  sh_type :: u32
  sh_flags :: u64
  sh_addr :: u64
  sh_offset :: u64
  sh_size :: u64
  sh_link :: u32
  sh_info :: u32
  sh_addralign :: u64
  sh_entsize :: u64

record Elf64_Sym =
  st_name :: u32
  st_info :: byte
  st_other :: byte
  st_shndx :: u16
  st_value :: u64
  st_size' :: u64

definition EHDR_SIZE :: nat where "EHDR_SIZE = 64"
definition PHDR_SIZE :: nat where "PHDR_SIZE = 56"
definition SHDR_SIZE :: nat where "SHDR_SIZE = 64"
definition SYM_SIZE :: nat where "SYM_SIZE = 24"

definition ehdr_of :: "bytes \<Rightarrow> Elf64_Ehdr" where
  "ehdr_of bs = \<lparr>e_ident = field bs 0 16, e_type = bytes_u16 (field bs 16 2), e_machine = bytes_u16 (field bs 18 2),
     e_version = bytes_u32 (field bs 20 4), e_entry = bytes_u64 (field bs 24 8), e_phoff = bytes_u64 (field bs 32 8),
     e_shoff = bytes_u64 (field bs 40 8), e_flags = bytes_u32 (field bs 48 4), e_ehsize = bytes_u16 (field bs 52 2),
     e_phentsize = bytes_u16 (field bs 54 2), e_phnum = bytes_u16 (field bs 56 2),
     e_shentsize = bytes_u16 (field bs 58 2), e_shnum = bytes_u16 (field bs 60 2),
     e_shstrndx = bytes_u16 (field bs 62 2)\<rparr>"

definition phdr_of :: "bytes \<Rightarrow> Elf64_Phdr" where
  "phdr_of bs = \<lparr>p_type = bytes_u32 (field bs 0 4), p_flags = bytes_u32 (field bs 4 4),
     p_offset = bytes_u64 (field bs 8 8), p_vaddr = bytes_u64 (field bs 16 8), p_paddr = bytes_u64 (field bs 24 8),
     p_filesz = bytes_u64 (field bs 32 8), p_memsz = bytes_u64 (field bs 40 8), p_align = bytes_u64 (field bs 48 8)\<rparr>"

definition shdr_of :: "bytes \<Rightarrow> Elf64_Shdr" where
  "shdr_of bs = \<lparr>sh_name = bytes_u32 (field bs 0 4), sh_type = bytes_u32 (field bs 4 4),
     sh_flags = bytes_u64 (field bs 8 8), sh_addr = bytes_u64 (field bs 16 8), sh_offset = bytes_u64 (field bs 24 8),
     sh_size = bytes_u64 (field bs 32 8), sh_link = bytes_u32 (field bs 40 4), sh_info = bytes_u32 (field bs 44 4),
     sh_addralign = bytes_u64 (field bs 48 8), sh_entsize = bytes_u64 (field bs 56 8)\<rparr>"

definition sym_of :: "bytes \<Rightarrow> Elf64_Sym" where
  "sym_of bs = \<lparr>st_name = bytes_u32 (field bs 0 4), st_info = bs ! 4, st_other = bs ! 5,
     st_shndx = bytes_u16 (field bs 6 2), st_value = bytes_u64 (field bs 8 8), st_size' = bytes_u64 (field bs 16 8)\<rparr>"

definition ehdr_at :: "bytes \<Rightarrow> Elf64_Ehdr option" where
  "ehdr_at img = map_option ehdr_of (image_at img 0 EHDR_SIZE)"

definition phdr_at :: "bytes \<Rightarrow> Elf64_Ehdr \<Rightarrow> nat \<Rightarrow> Elf64_Phdr option" where
  "phdr_at img eh i =
    map_option phdr_of (image_at img (unat (e_phoff eh) + i * unat (e_phentsize eh)) PHDR_SIZE)"

definition shdr_at :: "bytes \<Rightarrow> Elf64_Ehdr \<Rightarrow> nat \<Rightarrow> Elf64_Shdr option" where
  "shdr_at img eh i = map_option shdr_of (image_at img (unat (e_shoff eh) + i * SHDR_SIZE) SHDR_SIZE)"

definition sym_at :: "bytes \<Rightarrow> Elf64_Shdr \<Rightarrow> nat \<Rightarrow> Elf64_Sym option" where
  "sym_at img symtab k = map_option sym_of (image_at img (unat (sh_offset symtab) + k * SYM_SIZE) SYM_SIZE)"

text \<open>The string that starts at an offset: it must end inside the image.\<close>

definition string_at :: "bytes \<Rightarrow> nat \<Rightarrow> bytes option" where
  "string_at img off =
    (if 0 \<in> set (drop off img) then Some (takeWhile (\<lambda>c. c \<noteq> 0) (drop off img)) else None)"

definition PT_LOAD :: u32 where "PT_LOAD = 1"
definition PT_TLS :: u32 where "PT_TLS = 7"
definition PF_X :: u32 where "PF_X = 1"
definition PF_W :: u32 where "PF_W = 2"
definition PF_R :: u32 where "PF_R = 4"
definition SHT_SYMTAB :: u32 where "SHT_SYMTAB = 2"
definition SHT_NOBITS :: u32 where "SHT_NOBITS = 8"
definition STB_GLOBAL :: byte where "STB_GLOBAL = 1"
definition STV_DEFAULT :: byte where "STV_DEFAULT = 0"

record section_info =
  si_name :: bytes
  si_addr :: mb_range

record export_info =
  ex_name :: bytes
  ex_value :: u64
  ex_size :: u64

record mb_elf =
  el_sections :: "section_info list"
  el_exports :: "export_info list"
  el_entry :: u64
  el_hash :: bytes
  el_has_tls :: bool

definition strstr :: "bytes \<Rightarrow> bytes \<Rightarrow> bool" where
  "strstr s pat = list_ex (\<lambda>k. take (length pat) (drop k s) = pat) [0..<Suc (length s)]"

definition section_ro_after_seal :: "bytes \<Rightarrow> bool" where
  "section_ro_after_seal n \<longleftrightarrow> strstr n (chars ''.rel.ro'') \<or> take 4 n = chars ''.got''
     \<or> n = chars ''.init_array'' \<or> n = chars ''.fini_array''
     \<or> n = chars ''.tbss'' \<or> n = chars ''.sealed''"

section \<open>The check\<close>

definition within :: "u64 \<Rightarrow> u64 \<Rightarrow> nat \<Rightarrow> bool" where
  "within off sz len \<longleftrightarrow> unat off \<le> len \<and> unat sz \<le> len - unat off"

definition strings_end :: "bytes \<Rightarrow> Elf64_Shdr \<Rightarrow> bool option" where
  "strings_end img s =
    (if sh_type s = SHT_NOBITS \<or> sh_size s = 0 then Some False
     else map_option (\<lambda>c. c = [0]) (image_at img (unat (sh_offset s + sh_size s - 1)) 1))"

text \<open>Why an image is refused. A check answers \<open>Some None\<close> (nothing wrong),
  \<open>Some (Some why)\<close>, or \<open>None\<close> when it read outside the image.\<close>

datatype elf_bad =
    Not_elf64
  | Program_headers_outside
  | No_section_headers
  | Section_headers_outside
  | No_name_table
  | Section_outside nat
  | No_string_table
  | Names_not_terminated
  | Name_outside nat
  | Strings_not_terminated
  | Symbol_outside nat
  | Segment_outside nat
  | Segment_wraps nat

type_synonym elf_verdict = "elf_bad option option"

definition and_then :: "elf_verdict \<Rightarrow> elf_verdict \<Rightarrow> elf_verdict" where
  "and_then r s = (case r of Some None \<Rightarrow> s | _ \<Rightarrow> r)"

fun check_each :: "(nat \<Rightarrow> elf_verdict) \<Rightarrow> nat list \<Rightarrow> elf_verdict" where
  "check_each f [] = Some None"
| "check_each f (i # is) = and_then (f i) (check_each f is)"

definition bad_if :: "bool \<Rightarrow> elf_bad \<Rightarrow> elf_verdict" where
  "bad_if c why = Some (if c then Some why else None)"

definition check_section :: "bytes \<Rightarrow> Elf64_Ehdr \<Rightarrow> nat \<Rightarrow> elf_verdict" where
  "check_section img eh i =
    do { s \<leftarrow> shdr_at img eh i;
         if sh_type s \<noteq> SHT_NOBITS \<and> \<not> within (sh_offset s) (sh_size s) (length img) then Some (Some (Section_outside i))
         else bad_if (sh_type s = SHT_SYMTAB \<and> unat (e_shnum eh) \<le> unat (sh_link s)) No_string_table }"

definition check_symbol :: "bytes \<Rightarrow> Elf64_Shdr \<Rightarrow> Elf64_Shdr \<Rightarrow> nat \<Rightarrow> elf_verdict" where
  "check_symbol img symtab strings k =
    do { y \<leftarrow> sym_at img symtab k; bad_if (unat (sh_size strings) \<le> unat (st_name y)) (Symbol_outside k) }"

definition check_symtab :: "bytes \<Rightarrow> Elf64_Ehdr \<Rightarrow> Elf64_Shdr \<Rightarrow> elf_verdict" where
  "check_symtab img eh s =
    do { strings \<leftarrow> shdr_at img eh (unat (sh_link s));
         ok \<leftarrow> strings_end img strings;
         if \<not> ok then Some (Some Strings_not_terminated)
         else check_each (check_symbol img s strings) [0..<unat (sh_size s) div SYM_SIZE] }"

definition check_names :: "bytes \<Rightarrow> Elf64_Ehdr \<Rightarrow> Elf64_Shdr \<Rightarrow> nat \<Rightarrow> elf_verdict" where
  "check_names img eh names i =
    do { s \<leftarrow> shdr_at img eh i;
         if unat (sh_size names) \<le> unat (sh_name s) then Some (Some (Name_outside i))
         else if sh_type s \<noteq> SHT_SYMTAB then Some None
         else check_symtab img eh s }"

definition check_segment :: "bytes \<Rightarrow> Elf64_Ehdr \<Rightarrow> nat \<Rightarrow> elf_verdict" where
  "check_segment img eh i =
    do { ph \<leftarrow> phdr_at img eh i;
         if p_type ph \<noteq> PT_LOAD then Some None
         else if \<not> within (p_offset ph) (p_filesz ph) (length img) \<or> p_memsz ph < p_filesz ph
         then Some (Some (Segment_outside i))
         else bad_if (p_vaddr ph + p_memsz ph < p_vaddr ph) (Segment_wraps i) }"

definition is_elf64 :: "Elf64_Ehdr \<Rightarrow> bool" where
  "is_elf64 eh \<longleftrightarrow> take 4 (e_ident eh) = [0x7f, 0x45, 0x4c, 0x46] \<and> e_ident eh ! 4 = 2"

definition check_headers :: "bytes \<Rightarrow> Elf64_Ehdr \<Rightarrow> elf_verdict" where
  "check_headers img eh =
    (if \<not> is_elf64 eh then Some (Some Not_elf64)
     else if e_phnum eh \<noteq> 0 \<and> (unat (e_phentsize eh) < PHDR_SIZE \<or>
         \<not> within (e_phoff eh) (ucast (e_phnum eh) * ucast (e_phentsize eh)) (length img))
     then Some (Some Program_headers_outside)
     else if e_shnum eh = 0 then Some (Some No_section_headers)
     else if unat (e_shentsize eh) \<noteq> SHDR_SIZE \<or>
         \<not> within (e_shoff eh) (ucast (e_shnum eh) * of_nat SHDR_SIZE) (length img)
     then Some (Some Section_headers_outside)
     else bad_if (e_shnum eh \<le> e_shstrndx eh) No_name_table)"

definition check_tables :: "bytes \<Rightarrow> Elf64_Ehdr \<Rightarrow> elf_verdict" where
  "check_tables img eh =
    do { names \<leftarrow> shdr_at img eh (unat (e_shstrndx eh));
         ok \<leftarrow> strings_end img names;
         if \<not> ok then Some (Some Names_not_terminated)
         else check_each (check_names img eh names) [0..<unat (e_shnum eh)] }"

definition mb_elf_check :: "bytes \<Rightarrow> elf_verdict" where
  "mb_elf_check img =
    (if length img < EHDR_SIZE then Some (Some Not_elf64)
     else do { eh \<leftarrow> ehdr_at img;
       and_then (check_headers img eh)
         (and_then (check_each (check_section img eh) [0..<unat (e_shnum eh)])
           (and_then (check_tables img eh)
             (check_each (check_segment img eh) [0..<unat (e_phnum eh)]))) })"

section \<open>The span of the segments\<close>

definition span_step :: "bytes \<Rightarrow> Elf64_Ehdr \<Rightarrow> nat \<Rightarrow> u64 \<times> u64 \<Rightarrow> (u64 \<times> u64) option" where
  "span_step img eh i = (\<lambda>(lo, hi).
    do { ph \<leftarrow> phdr_at img eh i;
         if p_vaddr ph = 0 then Some (lo, hi)
         else Some (if p_vaddr ph < lo then p_vaddr ph else lo,
                    if hi < p_vaddr ph + p_memsz ph then p_vaddr ph + p_memsz ph else hi) })"

fun each_opt :: "('a \<Rightarrow> 's \<Rightarrow> 's option) \<Rightarrow> 'a list \<Rightarrow> 's \<Rightarrow> 's option" where
  "each_opt f [] s = Some s"
| "each_opt f (x # xs) s = f x s \<bind> each_opt f xs"

definition mb_elf_span :: "bytes \<Rightarrow> mb_range option" where
  "mb_elf_span img =
    do { eh \<leftarrow> ehdr_at img;
         (lo, hi) \<leftarrow> each_opt (span_step img eh) [0..<unat (e_phnum eh)] (- 1, 0);
         Some \<lparr>rg_start = lo, rg_size = hi - lo\<rparr> }"

section \<open>The load\<close>

text \<open>The sections that have an address, and the symbol table with its strings
  (the last one, if there are several).\<close>

type_synonym elf_tables = "section_info list \<times> (Elf64_Shdr \<times> Elf64_Shdr) option"

definition load_section :: "bytes \<Rightarrow> Elf64_Ehdr \<Rightarrow> Elf64_Shdr \<Rightarrow> nat \<Rightarrow> elf_tables \<Rightarrow> elf_tables option" where
  "load_section img eh shstr i = (\<lambda>(sections, symtab).
    do { s \<leftarrow> shdr_at img eh i;
         name \<leftarrow> string_at img (unat (sh_offset shstr) + unat (sh_name s));
         symtab' \<leftarrow> (if sh_type s = SHT_SYMTAB
                     then map_option (\<lambda>strtab. Some (s, strtab)) (shdr_at img eh (unat (sh_link s)))
                     else Some symtab);
         Some (if sh_type s \<noteq> SHT_NOBITS \<and> name \<noteq> [] \<and> sh_addr s \<noteq> 0
               then sections @ [\<lparr>si_name = name, si_addr = \<lparr>rg_start = sh_addr s, rg_size = sh_size s\<rparr>\<rparr>]
               else sections, symtab') })"

definition load_symbol ::
  "bytes \<Rightarrow> Elf64_Shdr \<Rightarrow> Elf64_Shdr \<Rightarrow> nat \<Rightarrow> export_info list \<times> mb_range \<Rightarrow> (export_info list \<times> mb_range) option" where
  "load_symbol img symtab strtab k = (\<lambda>(exports, info_area).
    do { y \<leftarrow> sym_at img symtab k;
         name \<leftarrow> string_at img (unat (sh_offset strtab) + unat (st_name y));
         Some (if name = [] then (exports, info_area)
           else (if st_other y AND 3 = STV_DEFAULT \<and> drop_bit 4 (st_info y) = STB_GLOBAL
                 then exports @ [\<lparr>ex_name = name, ex_value = st_value y, ex_size = st_size' y\<rparr>] else exports,
                 if name = chars ''__wbxsysinfo''
                 then \<lparr>rg_start = st_value y, rg_size = st_size' y\<rparr> else info_area)) })"

definition ranges_overlap :: "mb_range \<Rightarrow> mb_range \<Rightarrow> bool" where
  "ranges_overlap s iv \<longleftrightarrow> rg_start s < mb_range_end iv \<and> rg_start iv < mb_range_end s"

definition invis_clash :: "section_info list \<Rightarrow> nat \<Rightarrow> bool" where
  "invis_clash secs i =
    list_ex (\<lambda>j. j \<noteq> i \<and>
        (let s = mb_range_align_expand (si_addr (secs ! j))
         in rg_size s \<noteq> 0 \<and> ranges_overlap s (mb_range_align_expand (si_addr (secs ! i)))))
      [0..<length secs]"

definition mark_invis :: "os_env \<Rightarrow> section_info list \<Rightarrow> mb_block \<Rightarrow> mb_block option" where
  "mark_invis E secs b =
    (case find_index (\<lambda>s. si_name s = chars ''.invis'') secs of
       None \<Rightarrow> Some b
     | Some i \<Rightarrow>
         if invis_clash secs i then None
         else Some (fst (mb_block_mark_invisible E b (mb_range_align_expand (si_addr (secs ! i))))))"

definition segment_prot :: "u32 \<Rightarrow> mb_prot" where
  "segment_prot flags =
    (let r = (flags AND PF_R \<noteq> 0); w = (flags AND PF_W \<noteq> 0); x = (flags AND PF_X \<noteq> 0)
     in if w then (if x then MB_PROT_RWX else MB_PROT_RW)
        else if x then MB_PROT_RX
        else if r then MB_PROT_R
        else MB_PROT_NONE)"

definition put_segment :: "os_env \<Rightarrow> bytes \<Rightarrow> Elf64_Phdr \<Rightarrow> mb_block \<Rightarrow> mb_block option" where
  "put_segment E img ph b =
    (let pa = mb_range_align_expand \<lparr>rg_start = p_vaddr ph, rg_size = p_memsz ph\<rparr>
     in if rg_size pa = 0 then Some b
        else do {
          b1 \<leftarrow> Some (fst (mb_block_mmap_fixed E b pa MB_PROT_RW False));
          b2 \<leftarrow> (if p_filesz ph = 0 then Some b1
                 else map_option (\<lambda>src. fst (mb_block_copy_from_external b1 src (p_vaddr ph)))
                        (image_at img (unat (p_offset ph)) (unat (p_filesz ph))));
          Some (fst (mb_block_mprotect E b2 pa (segment_prot (p_flags ph)))) })"

definition load_segment ::
  "os_env \<Rightarrow> bytes \<Rightarrow> Elf64_Ehdr \<Rightarrow> nat \<Rightarrow> mb_block \<times> bool \<Rightarrow> (mb_block \<times> bool) option" where
  "load_segment E img eh i = (\<lambda>(b, tls).
    do { ph \<leftarrow> phdr_at img eh i;
         tls' \<leftarrow> Some (tls \<or> p_type ph = PT_TLS \<and> p_memsz ph \<noteq> 0);
         if p_type ph \<noteq> PT_LOAD \<or> p_vaddr ph = 0 then Some (b, tls')
         else map_option (\<lambda>b'. (b', tls')) (put_segment E img ph b) })"

definition layout_bytes :: "mb_layout \<Rightarrow> bytes" where
  "layout_bytes l = range_bytes (ly_elf l) @ range_bytes (ly_main_thread l) @ range_bytes (ly_alt_thread l) @
     range_bytes (ly_sbrk l) @ range_bytes (ly_sealed l) @ range_bytes (ly_invis l) @ range_bytes (ly_plain l) @
     range_bytes (ly_mmap_arena l)"

text \<open>A guest stack: mapped, its low four pages guarded, invisible.\<close>

definition put_stack :: "os_env \<Rightarrow> mb_block \<Rightarrow> mb_range \<Rightarrow> mb_block" where
  "put_stack E b stack =
    (let b1 = fst (mb_block_mmap_fixed E b stack MB_PROT_RWSTACK True);
         b2 = fst (mb_block_mprotect E b1 \<lparr>rg_start = rg_start stack, rg_size = of_nat (MB_PAGESIZE * 4)\<rparr> MB_PROT_NONE)
     in fst (mb_block_mark_invisible E b2 stack))"

text \<open>\<open>buf\<close> is what the hash context's block buffer holds at first.\<close>

definition image_hash :: "bytes \<Rightarrow> bytes \<Rightarrow> bytes option" where
  "image_hash buf img = do { c \<leftarrow> mb_sha256_update (mb_sha256_init buf) img; mb_sha256_final c }"

definition load_tables ::
  "bytes \<Rightarrow> Elf64_Ehdr \<Rightarrow> (section_info list \<times> export_info list \<times> mb_range) option" where
  "load_tables img eh =
    do { shstr \<leftarrow> shdr_at img eh (unat (e_shstrndx eh));
         (sections, symtab) \<leftarrow> each_opt (load_section img eh shstr) [0..<unat (e_shnum eh)] ([], None);
         (exports, info_area) \<leftarrow>
           (case symtab of
              None \<Rightarrow> Some ([], \<lparr>rg_start = 0, rg_size = 0\<rparr>)
            | Some (syms, strtab) \<Rightarrow>
                each_opt (load_symbol img syms strtab) [0..<unat (sh_size syms) div SYM_SIZE]
                  ([], \<lparr>rg_start = 0, rg_size = 0\<rparr>));
         Some (sections, exports, info_area) }"

text \<open>The loaded machine: \<open>None\<close> in its second component is the loader's
  refusal.\<close>

definition load_image ::
  "os_env \<Rightarrow> bytes \<Rightarrow> bytes \<Rightarrow> Elf64_Ehdr \<Rightarrow> mb_layout \<Rightarrow> section_info list \<Rightarrow> export_info list \<Rightarrow> mb_range \<Rightarrow>
     mb_block \<Rightarrow> (mb_block \<times> mb_elf option) option" where
  "load_image E buf img eh layout sections exports info_area b =
    do { (b2, tls) \<leftarrow> each_opt (load_segment E img eh) [0..<unat (e_phnum eh)]
           (fst (mb_block_mark_invisible E b (ly_invis layout)), False);
         if rg_start info_area \<noteq> 0 \<and> unat (rg_size info_area) \<noteq> length (layout_bytes layout) then Some (b2, None)
         else do {
           b3 \<leftarrow> Some (if rg_start info_area = 0 then b2
                       else fst (mb_block_copy_from_external b2 (layout_bytes layout) (rg_start info_area)));
           hash \<leftarrow> image_hash buf img;
           Some (put_stack E (put_stack E b3 (ly_main_thread layout)) (ly_alt_thread layout),
             Some \<lparr>el_sections = sections, el_exports = exports, el_entry = e_entry eh, el_hash = hash, el_has_tls = tls\<rparr>) } }"

definition mb_elf_load ::
  "os_env \<Rightarrow> bytes \<Rightarrow> bytes \<Rightarrow> mb_layout \<Rightarrow> mb_block \<Rightarrow> (mb_block \<times> mb_elf option) option" where
  "mb_elf_load E buf img layout b =
    (if length img < EHDR_SIZE then Some (b, None)
     else do { eh \<leftarrow> ehdr_at img;
       if \<not> is_elf64 eh then Some (b, None)
       else do { (sections, exports, info_area) \<leftarrow> load_tables img eh;
         case mark_invis E sections b of
           None \<Rightarrow> Some (b, None)
         | Some b1 \<Rightarrow> load_image E buf img eh layout sections exports info_area b1 } })"

definition mb_elf_proc_addr :: "mb_elf \<Rightarrow> bytes \<Rightarrow> u64" where
  "mb_elf_proc_addr e name =
    (case find (\<lambda>x. ex_name x = name) (el_exports e) of None \<Rightarrow> 0 | Some x \<Rightarrow> ex_value x)"

definition mb_elf_seal :: "os_env \<Rightarrow> mb_elf \<Rightarrow> mb_block \<Rightarrow> mb_block" where
  "mb_elf_seal E e b =
    fold (\<lambda>s b. let pa = mb_range_align_expand (si_addr s)
                in if rg_size pa \<noteq> 0 \<and> section_ro_after_seal (si_name s)
                   then fst (mb_block_mprotect E b pa MB_PROT_R) else b)
      (el_sections e) b"

end
