(* ===== verification/Mb_Thunks.thy ===== *)
theory Mb_Thunks
  imports Mb_Ranges
begin

text \<open>
  The pool of call thunks (\<^verbatim>\<open>context.c\<close>): a thunk per guest entry point, growing
  from the start of the arena, and a wrapper per host callback, growing from its
  end; each is machine code, written here byte for byte (the x86-64 build;
  the instructions only an Intel Mac emits are left out). No thunk, once handed
  out, is ever written over.
\<close>

section \<open>The pool\<close>

definition THUNK_SIZE :: nat where "THUNK_SIZE = 128"
definition THUNK_ARENA :: nat where "THUNK_ARENA = 16 * MB_PAGESIZE"

text \<open>The entry points with their thunks and the callbacks with their wrappers, in
  the order they were asked for (\<open>entries\<close> and \<open>ptrs\<close>, \<open>ext_entries\<close> and
  \<open>ext_ptrs\<close>), and the arena's bytes, by their offset.\<close>

record mb_thunks =
  th_mem :: mb_range
  th_entries :: "(u64 \<times> u64) list"
  th_ext :: "(u64 \<times> u64) list"
  th_code :: "nat \<Rightarrow> byte"

text \<open>The addresses the thunks refer to: the context, the word the fault handlers
  read it from, the guarded call; and whether the guest's callbacks swap \<open>%fs\<close>.\<close>

record thunk_env =
  te_ctx :: u64
  te_guest_ctx :: u64
  te_guarded :: u64
  te_swap_fs :: bool

text \<open>Offsets of \<open>mb_context\<close> fields.\<close>

definition HOST_FS_AT :: u32 where "HOST_FS_AT = 568"
definition GUEST_MXCSR_AT :: u32 where "GUEST_MXCSR_AT = 600"
definition HOST_MXCSR_AT :: u32 where "HOST_MXCSR_AT = 604"
definition GUEST_FCW_AT :: u32 where "GUEST_FCW_AT = 608"
definition HOST_FCW_AT :: u32 where "HOST_FCW_AT = 610"

definition mb_thunks_new :: "u64 \<Rightarrow> (nat \<Rightarrow> byte) \<Rightarrow> mb_thunks" where
  "mb_thunks_new start code =
    \<lparr>th_mem = \<lparr>rg_start = start, rg_size = of_nat THUNK_ARENA\<rparr>, th_entries = [], th_ext = [], th_code = code\<rparr>"

definition poke :: "(nat \<Rightarrow> byte) \<Rightarrow> nat \<Rightarrow> bytes \<Rightarrow> nat \<Rightarrow> byte" where
  "poke code off xs = (\<lambda>i. if off \<le> i \<and> i < off + length xs then xs ! (i - off) else code i)"

definition entry_thunk :: "thunk_env \<Rightarrow> u64 \<Rightarrow> bytes" where
  "entry_thunk T guest_entry =
    [0x49, 0xba] @ u64_bytes (te_ctx T) @
    [0x49, 0xbb] @ u64_bytes guest_entry @
    [0x4c, 0x89, 0xd0] @
    [0x48, 0xa3] @ u64_bytes (te_guest_ctx T) @
    [0x48, 0xb8] @ u64_bytes (te_guarded T) @
    [0xff, 0xe0]"

definition extcall_thunk :: "thunk_env \<Rightarrow> u64 \<Rightarrow> bytes" where
  "extcall_thunk T cb =
    [0x49, 0xba] @ u64_bytes (te_ctx T) @
    [0x41, 0x52] @
    [0x41, 0xd9, 0xba] @ u32_bytes GUEST_FCW_AT @
    [0x41, 0x0f, 0xae, 0x9a] @ u32_bytes GUEST_MXCSR_AT @
    [0x41, 0xd9, 0xaa] @ u32_bytes HOST_FCW_AT @
    [0x41, 0x0f, 0xae, 0x92] @ u32_bytes HOST_MXCSR_AT @
    (if te_swap_fs T then [0x49, 0x8b, 0x82] @ u32_bytes HOST_FS_AT @ [0xf3, 0x48, 0x0f, 0xae, 0xd0] else []) @
    [0x48, 0xb8] @ u64_bytes cb @
    [0xff, 0xd0] @
    [0x49, 0x89, 0xc3] @
    [0x41, 0x5a] @
    [0x41, 0xd9, 0xaa] @ u32_bytes GUEST_FCW_AT @
    [0x41, 0x0f, 0xae, 0x92] @ u32_bytes GUEST_MXCSR_AT @
    (if te_swap_fs T then [0x49, 0x8b, 0x02] @ [0xf3, 0x48, 0x0f, 0xae, 0xd0] else []) @
    [0x4c, 0x89, 0xd8] @
    [0xc3]"

text \<open>Whether one more thunk does not fit.\<close>

definition pool_full :: "mb_thunks \<Rightarrow> bool" where
  "pool_full t \<longleftrightarrow> unat (rg_size (th_mem t)) < (length (th_entries t) + length (th_ext t) + 1) * THUNK_SIZE"

definition mb_thunks_get :: "thunk_env \<Rightarrow> mb_thunks \<Rightarrow> u64 \<Rightarrow> mb_thunks \<times> u64" where
  "mb_thunks_get T t guest_entry =
    (case map_of (th_entries t) guest_entry of
       Some ptr \<Rightarrow> (t, ptr)
     | None \<Rightarrow>
         if pool_full t then (t, 0)
         else
           (let off = length (th_entries t) * THUNK_SIZE; addr = rg_start (th_mem t) + of_nat off
            in (t\<lparr>th_code := poke (th_code t) off (entry_thunk T guest_entry),
                  th_entries := th_entries t @ [(guest_entry, addr)]\<rparr>, addr)))"

definition mb_thunks_get_extcall :: "thunk_env \<Rightarrow> mb_thunks \<Rightarrow> u64 \<Rightarrow> mb_thunks \<times> u64" where
  "mb_thunks_get_extcall T t cb =
    (case map_of (th_ext t) cb of
       Some ptr \<Rightarrow> (t, ptr)
     | None \<Rightarrow>
         if pool_full t then (t, 0)
         else
           (let off = unat (rg_size (th_mem t)) - (length (th_ext t) + 1) * THUNK_SIZE;
                addr = rg_start (th_mem t) + of_nat off
            in (t\<lparr>th_code := poke (th_code t) off (extcall_thunk T cb),
                  th_ext := th_ext t @ [(cb, addr)]\<rparr>, addr)))"

definition MB_ORG :: u64 where "MB_ORG = 0x35f00000000"

definition mb_get_callback_ptr :: "u64 \<Rightarrow> u64" where
  "mb_get_callback_ptr slot = MB_ORG + 0x300 + slot * 16"

section \<open>A thunk handed out stays what it is\<close>

lemma entry_thunk_fits: "length (entry_thunk T e) \<le> THUNK_SIZE"
  by (simp add: entry_thunk_def THUNK_SIZE_def)

lemma extcall_thunk_fits: "length (extcall_thunk T cb) \<le> THUNK_SIZE"
  by (simp add: extcall_thunk_def THUNK_SIZE_def)

definition code_at :: "mb_thunks \<Rightarrow> nat \<Rightarrow> nat \<Rightarrow> bytes" where
  "code_at t off n = map (th_code t) [off..<off + n]"

definition ext_off :: "nat \<Rightarrow> nat" where "ext_off j = THUNK_ARENA - (j + 1) * THUNK_SIZE"

definition thunks_ok :: "thunk_env \<Rightarrow> mb_thunks \<Rightarrow> bool" where
  "thunks_ok T t \<longleftrightarrow>
    rg_size (th_mem t) = of_nat THUNK_ARENA \<and>
    (length (th_entries t) + length (th_ext t)) * THUNK_SIZE \<le> THUNK_ARENA \<and>
    distinct (map fst (th_entries t)) \<and> distinct (map fst (th_ext t)) \<and>
    (\<forall>i<length (th_entries t). snd (th_entries t ! i) = rg_start (th_mem t) + of_nat (i * THUNK_SIZE) \<and>
       code_at t (i * THUNK_SIZE) (length (entry_thunk T (fst (th_entries t ! i)))) = entry_thunk T (fst (th_entries t ! i))) \<and>
    (\<forall>j<length (th_ext t). snd (th_ext t ! j) = rg_start (th_mem t) + of_nat (ext_off j) \<and>
       code_at t (ext_off j) (length (extcall_thunk T (fst (th_ext t ! j)))) = extcall_thunk T (fst (th_ext t ! j)))"

lemma unat_arena: "unat (of_nat THUNK_ARENA :: u64) = THUNK_ARENA"
  by (simp add: THUNK_ARENA_def MB_PAGESIZE_def)

lemma code_poke_same: "code_at (t\<lparr>th_code := poke c off xs, th_entries := es\<rparr>) off (length xs) = xs"
  "code_at (t\<lparr>th_code := poke c off xs, th_ext := es\<rparr>) off (length xs) = xs"
  by (auto simp: code_at_def poke_def intro!: nth_equalityI)

lemma code_poke_apart:
  assumes "off' + n \<le> off \<or> off + length xs \<le> off'"
  shows "code_at (t\<lparr>th_code := poke (th_code t) off xs, th_entries := es\<rparr>) off' n = code_at t off' n"
    "code_at (t\<lparr>th_code := poke (th_code t) off xs, th_ext := es\<rparr>) off' n = code_at t off' n"
  using assms by (auto simp: code_at_def poke_def intro!: nth_equalityI)

lemma slots_apart:
  assumes "(n + m) * THUNK_SIZE \<le> THUNK_ARENA" "i < n" "j < m"
  shows "i * THUNK_SIZE + THUNK_SIZE \<le> ext_off j" "ext_off j + THUNK_SIZE \<le> THUNK_ARENA"
proof -
  have "(i + 1) * THUNK_SIZE + (j + 1) * THUNK_SIZE \<le> n * THUNK_SIZE + m * THUNK_SIZE"
    using assms(2,3) by (intro add_le_mono mult_le_mono1) simp_all
  then have "(i + 1) * THUNK_SIZE + (j + 1) * THUNK_SIZE \<le> THUNK_ARENA" using assms(1) by (simp add: algebra_simps)
  then show "i * THUNK_SIZE + THUNK_SIZE \<le> ext_off j" "ext_off j + THUNK_SIZE \<le> THUNK_ARENA"
    by (simp_all add: ext_off_def)
qed

lemma ext_slots_apart: "j < k \<Longrightarrow> (k + 1) * THUNK_SIZE \<le> THUNK_ARENA \<Longrightarrow> ext_off k + THUNK_SIZE \<le> ext_off j"
proof -
  assume j: "j < k" "(k + 1) * THUNK_SIZE \<le> THUNK_ARENA"
  have "(j + 1) * THUNK_SIZE \<le> k * THUNK_SIZE" using j(1) by (intro mult_le_mono1) simp
  then show ?thesis using j(2) by (simp add: ext_off_def)
qed

lemma entry_slots_apart: "i < k \<Longrightarrow> i * THUNK_SIZE + THUNK_SIZE \<le> k * THUNK_SIZE"
  using mult_le_mono1 [of "i + 1" k THUNK_SIZE] by simp

lemma thunks_get_ok:
  assumes t: "thunks_ok T t"
  shows "thunks_ok T (fst (mb_thunks_get T t e))"
proof (cases "map_of (th_entries t) e = None \<and> \<not> pool_full t")
  case True
  let ?n = "length (th_entries t)" and ?m = "length (th_ext t)"
  let ?off = "?n * THUNK_SIZE" and ?xs = "entry_thunk T e"
  define t' where "t' = t\<lparr>th_code := poke (th_code t) ?off ?xs, th_entries := th_entries t @ [(e, rg_start (th_mem t) + of_nat ?off)]\<rparr>"
  have room: "(?n + 1 + ?m) * THUNK_SIZE \<le> THUNK_ARENA"
    using True t by (simp add: pool_full_def thunks_ok_def unat_arena algebra_simps)
  have r: "fst (mb_thunks_get T t e) = t'" using True by (simp add: mb_thunks_get_def t'_def Let_def)
  have old: "code_at t' (i * THUNK_SIZE) n = code_at t (i * THUNK_SIZE) n" if "i < ?n" "n \<le> THUNK_SIZE" for i n
    unfolding t'_def by (rule code_poke_apart(1)) (use entry_slots_apart [OF that(1)] that(2) in simp)
  have ext: "code_at t' (ext_off j) n = code_at t (ext_off j) n" if "j < ?m" for j n
    unfolding t'_def by (rule code_poke_apart(1))
      (use slots_apart(1) [OF room _ that, of ?n] entry_thunk_fits [of T e] in \<open>simp add: algebra_simps\<close>)
  have "e \<notin> fst ` set (th_entries t)" using True by (simp add: map_of_eq_None_iff)
  then show ?thesis
    unfolding r thunks_ok_def using t room old [OF _ entry_thunk_fits] ext code_poke_same(1)
    by (auto simp: thunks_ok_def t'_def nth_append less_Suc_eq algebra_simps)
next
  case False
  then show ?thesis using t by (auto simp: mb_thunks_get_def split: option.split)
qed

lemma thunks_get_extcall_ok:
  assumes t: "thunks_ok T t"
  shows "thunks_ok T (fst (mb_thunks_get_extcall T t cb))"
proof (cases "map_of (th_ext t) cb = None \<and> \<not> pool_full t")
  case True
  let ?n = "length (th_entries t)" and ?m = "length (th_ext t)"
  let ?xs = "extcall_thunk T cb"
  define t' where "t' = t\<lparr>th_code := poke (th_code t) (ext_off ?m) ?xs, th_ext := th_ext t @ [(cb, rg_start (th_mem t) + of_nat (ext_off ?m))]\<rparr>"
  have room: "(?n + (?m + 1)) * THUNK_SIZE \<le> THUNK_ARENA"
    using True t by (simp add: pool_full_def thunks_ok_def unat_arena algebra_simps)
  have room1: "(?m + 1) * THUNK_SIZE \<le> THUNK_ARENA" using room by (simp add: algebra_simps)
  have r: "fst (mb_thunks_get_extcall T t cb) = t'"
    using True t by (simp add: mb_thunks_get_extcall_def t'_def Let_def ext_off_def thunks_ok_def unat_arena)
  have old: "code_at t' (i * THUNK_SIZE) n = code_at t (i * THUNK_SIZE) n" if "i < ?n" "n \<le> THUNK_SIZE" for i n
    unfolding t'_def by (rule code_poke_apart(2)) (use slots_apart(1) [OF room that(1), of ?m] that(2) in simp)
  have ext: "code_at t' (ext_off j) n = code_at t (ext_off j) n" if "j < ?m" for j n
    unfolding t'_def by (rule code_poke_apart(2))
      (use ext_slots_apart [OF that room1] extcall_thunk_fits [of T cb] in simp)
  have "cb \<notin> fst ` set (th_ext t)" using True by (simp add: map_of_eq_None_iff)
  then show ?thesis
    unfolding r thunks_ok_def using t room old [OF _ entry_thunk_fits] ext code_poke_same(2)
    by (auto simp: thunks_ok_def t'_def nth_append less_Suc_eq algebra_simps)
next
  case False
  then show ?thesis using t by (auto simp: mb_thunks_get_extcall_def split: option.split)
qed

lemma thunks_new_ok: "thunks_ok T (mb_thunks_new start code)"
  by (simp add: thunks_ok_def mb_thunks_new_def)

section \<open>The property\<close>

datatype thunk_request = Entry u64 | Callback u64

fun thunk_answer :: "thunk_env \<Rightarrow> mb_thunks \<Rightarrow> thunk_request \<Rightarrow> mb_thunks \<times> u64" where
  "thunk_answer T t (Entry e) = mb_thunks_get T t e"
| "thunk_answer T t (Callback cb) = mb_thunks_get_extcall T t cb"

definition thunk_bytes :: "thunk_env \<Rightarrow> thunk_request \<Rightarrow> bytes" where
  "thunk_bytes T q = (case q of Entry e \<Rightarrow> entry_thunk T e | Callback cb \<Rightarrow> extcall_thunk T cb)"

fun thunk_run :: "thunk_env \<Rightarrow> mb_thunks \<Rightarrow> thunk_request list \<Rightarrow> mb_thunks" where
  "thunk_run T t [] = t"
| "thunk_run T t (q # qs) = thunk_run T (fst (thunk_answer T t q)) qs"

lemma thunk_answer_ok: "thunks_ok T t \<Longrightarrow> thunks_ok T (fst (thunk_answer T t q))"
  by (cases q) (simp_all add: thunks_get_ok thunks_get_extcall_ok)

lemma thunk_run_ok: "thunks_ok T t \<Longrightarrow> thunks_ok T (thunk_run T t qs)"
  by (induction qs arbitrary: t) (simp_all add: thunk_answer_ok)

text \<open>A thunk the pool knows: the request, its address and its place in the arena.\<close>

definition known :: "mb_thunks \<Rightarrow> thunk_request \<Rightarrow> u64 \<Rightarrow> bool" where
  "known t q a \<longleftrightarrow> (case q of Entry e \<Rightarrow> (e, a) \<in> set (th_entries t) | Callback cb \<Rightarrow> (cb, a) \<in> set (th_ext t))"

lemma known_step: "known t q a \<Longrightarrow> known (fst (thunk_answer T t q')) q a"
  by (cases q') (auto simp: known_def mb_thunks_get_def mb_thunks_get_extcall_def Let_def split: option.split thunk_request.splits)

lemma known_run: "known t q a \<Longrightarrow> known (thunk_run T t qs) q a"
  by (induction qs arbitrary: t) (simp_all add: known_step)

lemma answer_known: "thunk_answer T t q = (t', a) \<Longrightarrow> a \<noteq> 0 \<Longrightarrow> known t' q a"
  by (cases q) (auto simp: known_def mb_thunks_get_def mb_thunks_get_extcall_def Let_def dest: map_of_SomeD split: option.splits if_splits)

lemma mem_step: "th_mem (fst (thunk_answer T t q)) = th_mem t"
  by (cases q) (auto simp: mb_thunks_get_def mb_thunks_get_extcall_def Let_def split: option.split)

lemma mem_run: "th_mem (thunk_run T t qs) = th_mem t"
  by (induction qs arbitrary: t) (simp_all add: mem_step)

lemma known_code:
  assumes "thunks_ok T t" "known t q a"
  shows "\<exists>off. a = rg_start (th_mem t) + of_nat off \<and> off + THUNK_SIZE \<le> THUNK_ARENA \<and>
    code_at t off (length (thunk_bytes T q)) = thunk_bytes T q"
proof (cases q)
  case (Entry e)
  then obtain i where i: "i < length (th_entries t)" "th_entries t ! i = (e, a)"
    using assms(2) by (auto simp: known_def in_set_conv_nth)
  have "(i + 1) * THUNK_SIZE \<le> (length (th_entries t) + length (th_ext t)) * THUNK_SIZE" using i(1) by (intro mult_le_mono1) simp
  then show ?thesis using assms(1) i Entry by (intro exI [of _ "i * THUNK_SIZE"]) (force simp: thunks_ok_def thunk_bytes_def)
next
  case (Callback cb)
  then obtain j where j: "j < length (th_ext t)" "th_ext t ! j = (cb, a)"
    using assms(2) by (auto simp: known_def in_set_conv_nth)
  have "(j + 1) * THUNK_SIZE \<le> (length (th_entries t) + length (th_ext t)) * THUNK_SIZE" using j(1) by (intro mult_le_mono1) simp
  then have "ext_off j + THUNK_SIZE \<le> THUNK_ARENA" using assms(1) by (simp add: thunks_ok_def ext_off_def)
  then show ?thesis using assms(1) j Callback by (intro exI [of _ "ext_off j"]) (force simp: thunks_ok_def thunk_bytes_def)
qed

text \<open>
  C15: A thunk the pool answers with holds the code for what was asked, lies
  inside the arena, and still holds that code after any further requests for
  entry points and callbacks.
\<close>

theorem thunks_never_overwritten:
  assumes "thunk_answer T (thunk_run T (mb_thunks_new start code) before) q = (t, a)" "a \<noteq> 0"
  shows "\<exists>off. a = start + of_nat off \<and> off + THUNK_SIZE \<le> THUNK_ARENA \<and>
    code_at (thunk_run T t after) off (length (thunk_bytes T q)) = thunk_bytes T q"
proof -
  have ok: "thunks_ok T t" using thunk_answer_ok [OF thunk_run_ok [OF thunks_new_ok], of T start code before q] assms(1) by simp
  have "th_mem t = th_mem (thunk_run T (mb_thunks_new start code) before)"
    using mem_step [of T _ q] assms(1) by (metis fst_conv)
  then have "rg_start (th_mem (thunk_run T t after)) = start" by (simp add: mem_run mb_thunks_new_def)
  then show ?thesis
    using known_code [OF thunk_run_ok [OF ok] known_run [OF answer_known [OF assms]], of after] by simp
qed

theorem thunks_never_overwritten_witness:
  "let T = \<lparr>te_ctx = 1, te_guest_ctx = 2, te_guarded = 3, te_swap_fs = True\<rparr>;
       t0 = mb_thunks_new 0x10000 (\<lambda>_. 0); t1 = fst (mb_thunks_get T t0 7)
   in \<exists>off. 0x10000 = (0x10000 :: u64) + of_nat off \<and> off + THUNK_SIZE \<le> THUNK_ARENA \<and>
        code_at (thunk_run T t1 [Callback 9, Entry 8]) off (length (thunk_bytes T (Entry 7))) = thunk_bytes T (Entry 7)"
proof -
  let ?T = "\<lparr>te_ctx = 1, te_guest_ctx = 2, te_guarded = 3, te_swap_fs = True\<rparr>"
  let ?t0 = "mb_thunks_new 0x10000 (\<lambda>_. 0)"
  have "\<not> pool_full ?t0" by (simp add: pool_full_def mb_thunks_new_def unat_arena THUNK_ARENA_def THUNK_SIZE_def MB_PAGESIZE_def)
  then have "thunk_answer ?T (thunk_run ?T ?t0 []) (Entry 7) = (fst (mb_thunks_get ?T ?t0 7), 0x10000)"
    by (simp add: mb_thunks_get_def Let_def) (simp add: mb_thunks_new_def)
  from thunks_never_overwritten [OF this, of "[Callback 9, Entry 8]"] show ?thesis by (simp add: Let_def)
qed

end
