(* ===== verification/Mb_Host.thy ===== *)
theory Mb_Host
  imports Mb_Fs Mb_Threads Mb_Elf Mb_Thunks
begin

text \<open>
  The host (\<^verbatim>\<open>host.c\<close>): its record, which ties the memory block, the loader, the
  filesystem and the threads together; how host code reaches guest memory; the
  death of a guest and a stop asked for from outside.

  Host code reads and writes guest memory in place. A read of a page that is
  mapped without read access, and a write the fault handler does not let
  through, fault in host code: the outcome \<open>Fault\<close>. The guest's own fault
  handler (\<open>GuestFaultHandler\<close>), which may answer such a fault, is guest code and
  not part of the model.
\<close>

section \<open>State\<close>

datatype guest_death =
    Stopped bytes
  | Thread_died death
  | Aborted
  | Raised u64
  | Exited u64
  | Unprovided u64 u64 u64 u64
  | Unregistered_callback
  | Half_loaded

text \<open>The fields of \<open>mb_context\<close> that are not the thread set's: whether the guest is
  dead, whether a guarded call is in progress (\<open>esc_rsp\<close>), the calls made, the
  stop and the counts of work (\<open>extra_work\<close> is the frontend's counter, if it
  gave one).\<close>

record mb_host =
  ho_stop_why :: bytes
  ho_have_stop_thread :: bool
  ho_fault_raw :: u64
  ho_fault_entry :: u64
  ho_fault_known :: bool
  ho_fs :: mb_fs
  ho_program_break :: u64
  ho_elf :: mb_elf
  ho_layout :: mb_layout
  ho_block :: mb_block
  ho_active :: bool
  ho_sealed :: bool
  ho_context :: mb_context
  ho_extcall_slots :: "u64 list"
  ho_fs_swap :: bool
  ho_dead :: bool
  ho_esc :: bool
  ho_calls :: nat
  ho_stop_pending :: bool
  ho_activity :: u64
  ho_stop_activity :: u64
  ho_extra_work :: "u64 option"
  ho_thunks :: mb_thunks
  ho_threads :: mb_threads
  ho_getrandom_state :: u64
  ho_clock_start_ns :: nat
  ho_kit_revision :: nat
  ho_epoch_brk :: u64
  ho_epoch_threads :: "bytes option"
  ho_plan_head :: "bytes option"
  ho_plan_tail :: bytes
  ho_death :: "(guest_death \<times> bytes) option"
  ho_out_call :: nat
  ho_out_mark :: nat

text \<open>What the operating system, the allocator and the build answer: whether the
  block can be mapped at its address, whether the OS lets user mode set \<open>%fs\<close>
  (and \<open>MB_NO_FS_SWAP\<close> is not set), the addresses thunks refer to, the thread
  pointer before the guest has one; and what a thread set holds when loading it
  failed half way.\<close>

record host_env =
  he_os :: os_env
  he_alloc :: "nat \<Rightarrow> bool"
  he_junk :: "nat \<Rightarrow> byte"
  he_mapped :: bool
  he_fs_ok :: bool
  he_thunk :: thunk_env
  he_arena :: u64
  he_code :: "nat \<Rightarrow> byte"
  he_early_tp :: u64
  he_half :: "mb_threads \<Rightarrow> mb_context \<Rightarrow> bytes \<Rightarrow> mb_threads \<times> mb_context"

datatype sys_outcome = Sys mb_host u64 | Dead mb_host | Fault mb_host

section \<open>Guest memory\<close>

definition page_of :: "mb_block \<Rightarrow> u64 \<Rightarrow> nat" where
  "page_of b a = unat (a - rg_start (bk_addr b)) div MB_PAGESIZE"

definition offset_of :: "mb_block \<Rightarrow> u64 \<Rightarrow> nat" where
  "offset_of b a = unat (a - rg_start (bk_addr b)) mod MB_PAGESIZE"

definition guest_mem :: "mb_block \<Rightarrow> gmem" where
  "guest_mem b a = (if page_of b a < bk_npages b then pg_live (bk_pages b ! page_of b a) ! offset_of b a else 0)"

definition readable_at :: "mb_block \<Rightarrow> u64 \<Rightarrow> bool" where
  "readable_at b a \<longleftrightarrow> page_of b a < bk_npages b \<and> prot_readable (pg_os (bk_pages b ! page_of b a))"

definition host_load :: "mb_block \<Rightarrow> u64 \<Rightarrow> nat \<Rightarrow> bytes option" where
  "host_load b a n =
    (if list_all (\<lambda>k. readable_at b (a + of_nat k)) [0..<n] then Some (mem_read (guest_mem b) a n) else None)"

text \<open>Bytes stored at an address, a page at a time.\<close>

function host_store :: "os_env \<Rightarrow> mb_block \<Rightarrow> u64 \<Rightarrow> bytes \<Rightarrow> mb_block \<times> bool" where
  "host_store E b a xs =
    (if xs = [] then (b, True)
     else if bk_npages b \<le> page_of b a then (b, False)
     else
       (let n = min (MB_PAGESIZE - offset_of b a) (length xs)
        in case guest_write E b (page_of b a) (offset_of b a) (take n xs) of
             (b1, False) \<Rightarrow> (b1, False)
           | (b1, True) \<Rightarrow> host_store E b1 (a + of_nat n) (drop n xs)))"
  by pat_completeness auto
termination
  by (relation "measure (\<lambda>(E, b, a, xs). length xs)") (auto simp: MB_PAGESIZE_def offset_of_def)

declare host_store.simps [simp del]

definition guest_owns :: "mb_host \<Rightarrow> u64 \<Rightarrow> u64 \<Rightarrow> bool" where
  "guest_owns h addr len \<longleftrightarrow>
    (let all = mb_layout_all (ho_layout h)
     in addr \<noteq> 0 \<and> len \<noteq> 0 \<and> rg_start all \<le> addr \<and> addr < mb_range_end all \<and> len \<le> mb_range_end all - addr)"

definition guest_can :: "mb_host \<Rightarrow> u64 \<Rightarrow> u64 \<Rightarrow> bool \<Rightarrow> bool" where
  "guest_can h addr len wr \<longleftrightarrow>
    len = 0 \<or> guest_owns h addr len \<and> mb_block_host_can (ho_block h) addr len wr (ho_fault_raw h \<noteq> 0)"

definition mb_host_read_view :: "mb_host \<Rightarrow> u64 \<Rightarrow> u64 \<Rightarrow> bytes option" where
  "mb_host_read_view h addr len =
    (if guest_owns h addr len then mb_block_read_view (ho_block h) addr len else None)"

lemma unat_succ: "p < q \<Longrightarrow> unat (p + 1) = unat p + 1" for p q :: u64
  using unat_u64_less [of q] by (simp add: word_less_nat_alt unat_word_ariths del: unat_u64_less)

text \<open>The string at an address: \<open>None\<close> when reading it faults, \<open>Some None\<close> for the
  answer \<open>NULL\<close>.\<close>

function guest_str_from :: "mb_host \<Rightarrow> u64 \<Rightarrow> u64 \<Rightarrow> bytes option option" where
  "guest_str_from h addr p =
    (if mb_range_end (mb_layout_all (ho_layout h)) \<le> p then Some None
     else if (p = addr \<or> p AND MB_PAGEMASK = 0) \<and> \<not> guest_can h p 1 False then Some None
     else if \<not> readable_at (ho_block h) p then None
     else if guest_mem (ho_block h) p = 0 then Some (Some [])
     else map_option (map_option (\<lambda>s. guest_mem (ho_block h) p # s)) (guest_str_from h addr (p + 1)))"
  by pat_completeness auto
termination
proof (relation "measure (\<lambda>(h, addr, p). unat (mb_range_end (mb_layout_all (ho_layout h))) - unat p)", goal_cases)
  case (2 h addr p)
  then have "p < mb_range_end (mb_layout_all (ho_layout h))" by simp
  moreover from this have "unat (p + 1) = unat p + 1" by (rule unat_succ)
  ultimately show ?case by (simp add: word_less_nat_alt diff_less_mono2)
qed simp

declare guest_str_from.simps [simp del]

definition guest_str :: "mb_host \<Rightarrow> u64 \<Rightarrow> bytes option option" where
  "guest_str h addr = (if \<not> guest_owns h addr 1 then Some None else guest_str_from h addr addr)"

section \<open>A guest that cannot go on\<close>

text \<open>The last lines of what the dying call wrote, newest first: at most three, no
  empty ones and none that starts a note.\<close>

definition strip_newlines :: "bytes \<Rightarrow> bytes" where
  "strip_newlines t = rev (dropWhile (\<lambda>c. c = 10 \<or> c = 13) (rev t))"

definition before_line :: "bytes \<Rightarrow> bytes" where
  "before_line t = rev (dropWhile (\<lambda>c. c \<noteq> 10) (rev t))"

lemma strip_newlines_length: "length (strip_newlines t) \<le> length t"
  using length_dropWhile_le [of "\<lambda>c. c = 10 \<or> c = 13" "rev t"] by (simp add: strip_newlines_def)

lemma before_line_length: "length (before_line t) \<le> length t"
  using length_dropWhile_le [of "\<lambda>c. c \<noteq> 10" "rev t"] by (simp add: before_line_def)

lemma last_line_shrinks: "t \<noteq> [] \<Longrightarrow> length (before_line (strip_newlines t)) < length t"
proof (cases t rule: rev_cases)
  case (snoc xs c)
  show ?thesis
  proof (cases "c = 10 \<or> c = 13")
    case True
    then have "length (strip_newlines t) \<le> length xs"
      using snoc strip_newlines_length [of xs] by (simp add: strip_newlines_def)
    then show ?thesis using snoc before_line_length [of "strip_newlines t"] by simp
  next
    case False
    then have "strip_newlines t = t" using snoc by (simp add: strip_newlines_def)
    moreover have "length (before_line t) \<le> length xs"
      using False snoc before_line_length [of xs] by (simp add: before_line_def)
    ultimately show ?thesis using snoc by simp
  qed
qed simp

function last_lines :: "bytes \<Rightarrow> nat \<Rightarrow> bytes list" where
  "last_lines t count =
    (if t = [] \<or> 3 \<le> count then []
     else
       (let body = strip_newlines t; rest = before_line body; line = drop (length rest) body
        in if line \<noteq> [] \<and> take 5 line \<noteq> chars ''note:'' then line # last_lines rest (count + 1)
           else last_lines rest count))"
  by pat_completeness auto
termination by (relation "measure (\<lambda>(t, count). length t)") (auto simp: last_line_shrinks)

declare last_lines.simps [simp del]

fun join_lines :: "nat \<Rightarrow> bytes list \<Rightarrow> bytes \<Rightarrow> bytes" where
  "join_lines cap [] out = out"
| "join_lines cap (l # ls) out =
    (if cap \<le> length out + 1 then out
     else if out \<noteq> [] \<and> cap \<le> length out + 4 then out
     else
       (let out1 = (if out \<noteq> [] then out @ chars '' | '' else out)
        in join_lines cap ls (out1 @ take (min (length l) (cap - 1 - length out1)) l)))"

definition guest_last_words :: "mb_host \<Rightarrow> nat \<Rightarrow> bytes" where
  "guest_last_words h cap =
    (if cap < 4 \<or> ho_out_call h \<noteq> ho_calls h then []
     else join_lines cap (rev (last_lines (mb_fs_sysout_since (ho_fs h) (ho_out_mark h) 4096) 0)) [])"

text \<open>\<open>record_death\<close>: the reason and the last words are kept, the machine is marked
  dead. The caller then leaves for the call's escape record, or traps when there
  is none (\<open>ho_esc\<close>): the outcome \<open>Dead\<close> in both cases.\<close>

definition record_death :: "mb_host \<Rightarrow> guest_death \<Rightarrow> mb_host" where
  "record_death h why = h\<lparr>ho_death := Some (why, guest_last_words h 300), ho_dead := True\<rparr>"

definition mb_host_guest_death :: "mb_host \<Rightarrow> guest_death \<Rightarrow> sys_outcome" where
  "mb_host_guest_death h why = Dead (record_death h why)"

definition mb_host_death :: "mb_host \<Rightarrow> bool \<times> (guest_death \<times> bytes) option" where
  "mb_host_death h = (ho_dead h, if ho_dead h then ho_death h else None)"

section \<open>A stop from outside\<close>

definition mb_work :: "mb_host \<Rightarrow> u64" where
  "mb_work h = ho_activity h + (case ho_extra_work h of None \<Rightarrow> 0 | Some n \<Rightarrow> n)"

definition mb_stop_due :: "mb_host \<Rightarrow> mb_host \<times> bool" where
  "mb_stop_due h =
    (if \<not> ho_stop_pending h \<or> \<not> ho_esc h then (h, False)
     else if mb_work h \<noteq> ho_stop_activity h then (h\<lparr>ho_stop_pending := False\<rparr>, False)
     else (h, True))"

definition default_why :: bytes where "default_why = chars ''the host stopped the core''"

text \<open>\<open>here\<close>: the asking thread is the one that runs the call. \<open>sent\<close>: the signal
  was sent.\<close>

definition mb_host_stop :: "mb_host \<Rightarrow> bytes \<Rightarrow> bool \<Rightarrow> bool \<Rightarrow> mb_host \<times> bool" where
  "mb_host_stop h why here sent =
    (if \<not> ho_have_stop_thread h \<or> \<not> ho_esc h \<or> ho_dead h then (h, False)
     else
       (let h1 = (if ho_stop_pending h then h
                  else h\<lparr>ho_stop_why := take 199 (if why \<noteq> [] then why else default_why),
                         ho_stop_activity := mb_work h, ho_stop_pending := True\<rparr>)
        in (h1, \<not> here \<and> sent)))"

definition mb_host_stop_from_here :: "mb_host \<Rightarrow> mb_host" where
  "mb_host_stop_from_here h = h\<lparr>ho_have_stop_thread := True\<rparr>"

definition mb_host_stop_cancel :: "mb_host \<Rightarrow> mb_host" where
  "mb_host_stop_cancel h = h\<lparr>ho_stop_pending := False\<rparr>"

definition mb_host_count_work_from :: "mb_host \<Rightarrow> u64 option \<Rightarrow> mb_host" where
  "mb_host_count_work_from h counter = h\<lparr>ho_extra_work := counter\<rparr>"

definition mb_host_stop_reason :: "mb_host \<Rightarrow> bytes" where
  "mb_host_stop_reason h = (if ho_stop_why h \<noteq> [] then ho_stop_why h else default_why)"

end
