(* ===== verification/Mb_Syscalls.thy ===== *)
theory Mb_Syscalls
  imports Mb_Host
begin

text \<open>
  The guest's system calls (\<open>dispatch_inner\<close> of \<^verbatim>\<open>host.c\<close>, with \<open>open_file\<close>,
  \<open>arg_to_prot\<close> and \<open>note_output\<close>): one definition per call, in the order of the
  code, and the dispatcher over them. An answer is a \<open>sys_outcome\<close>; the outer
  \<open>None\<close> is the scheduler's loop not returning (the same \<open>None\<close> as in the thread
  operations). Traces and messages to the log are left out.
\<close>

section \<open>Numbers and helpers\<close>

datatype sysno =
    NR_read | NR_write | NR_open | NR_close | NR_dup | NR_stat | NR_fstat | NR_lseek
  | NR_mmap | NR_mprotect | NR_munmap | NR_brk | NR_rt_sigaction | NR_rt_sigprocmask
  | NR_ioctl | NR_readv | NR_writev | NR_sched_yield | NR_mremap | NR_madvise
  | NR_nanosleep | NR_getpid | NR_exit | NR_truncate | NR_ftruncate
  | NR_getppid | NR_gettid | NR_futex | NR_sched_setaffinity | NR_sched_getaffinity | NR_pread64 | NR_pwrite64
  | NR_socket | NR_sysinfo | NR_prctl | NR_openat | NR_newfstatat | NR_set_thread_area | NR_clock_nanosleep
  | NR_clock_gettime | NR_set_tid_address | NR_getrandom | NR_fcntl
  | NR_fsync | NR_fdatasync | NR_sync | NR_syncfs
  | NR_getuid | NR_getgid | NR_geteuid | NR_getegid | NR_wbx_clone
  | NR_getrusage
  | NR_tkill | NR_exit_group | NR_tgkill
  | NR_readlink | NR_readlinkat | NR_pipe | NR_pipe2

definition sysno_table :: "(u64 \<times> sysno) list" where
  "sysno_table =
    [(0, NR_read), (1, NR_write), (2, NR_open), (3, NR_close), (32, NR_dup), (4, NR_stat), (5, NR_fstat), (8, NR_lseek),
     (9, NR_mmap), (10, NR_mprotect), (11, NR_munmap), (12, NR_brk), (13, NR_rt_sigaction), (14, NR_rt_sigprocmask),
     (16, NR_ioctl), (19, NR_readv), (20, NR_writev), (24, NR_sched_yield), (25, NR_mremap), (28, NR_madvise),
     (35, NR_nanosleep), (39, NR_getpid), (60, NR_exit), (76, NR_truncate), (77, NR_ftruncate),
     (110, NR_getppid), (186, NR_gettid), (202, NR_futex), (203, NR_sched_setaffinity), (204, NR_sched_getaffinity),
     (17, NR_pread64), (18, NR_pwrite64), (41, NR_socket), (99, NR_sysinfo), (157, NR_prctl), (257, NR_openat),
     (262, NR_newfstatat), (205, NR_set_thread_area), (230, NR_clock_nanosleep), (228, NR_clock_gettime),
     (218, NR_set_tid_address), (318, NR_getrandom), (72, NR_fcntl), (74, NR_fsync), (75, NR_fdatasync), (162, NR_sync),
     (306, NR_syncfs), (102, NR_getuid), (104, NR_getgid), (107, NR_geteuid), (108, NR_getegid), (2000, NR_wbx_clone),
     (98, NR_getrusage), (200, NR_tkill), (231, NR_exit_group), (234, NR_tgkill), (89, NR_readlink),
     (267, NR_readlinkat), (22, NR_pipe), (293, NR_pipe2)]"

definition MAP_ANONYMOUS :: u64 where "MAP_ANONYMOUS = 0x20"
definition MAP_STACK :: u64 where "MAP_STACK = 0x20000"
definition MAP_FIXED :: u64 where "MAP_FIXED = 0x10"
definition MAP_FIXED_NOREPLACE :: u64 where "MAP_FIXED_NOREPLACE = 0x100000"
definition MREMAP_MAYMOVE :: u64 where "MREMAP_MAYMOVE = 1"
definition MREMAP_FIXED :: u64 where "MREMAP_FIXED = 2"
definition O_TRUNC :: int where "O_TRUNC = 0x200"
definition MADV_DONTNEED :: u64 where "MADV_DONTNEED = 4"

type_synonym answer = "sys_outcome option"

definition ok :: "mb_host \<Rightarrow> u64 \<Rightarrow> answer" where "ok h v = Some (Sys h v)"
definition err :: "mb_host \<Rightarrow> errno \<Rightarrow> answer" where "err h e = Some (Sys h (serr e))"

text \<open>The arguments' types: \<open>(int)a\<close>, \<open>(mb_sword)a\<close>, \<open>(uint32_t)a\<close>.\<close>

definition as_int :: "u64 \<Rightarrow> int" where "as_int a = sint (ucast a :: u32)"
definition as_sword :: "u64 \<Rightarrow> int" where "as_sword a = sint a"
definition as_u32 :: "u64 \<Rightarrow> u32" where "as_u32 a = ucast a"
definition of_sword :: "int \<Rightarrow> u64" where "of_sword r = word_of_int r"

definition v3 :: "mb_host \<Rightarrow> bool" where "v3 h \<longleftrightarrow> spec (ho_threads h) = 3"

text \<open>Reading, and writing, guest memory in the middle of a call.\<close>

definition loading :: "mb_host \<Rightarrow> u64 \<Rightarrow> nat \<Rightarrow> (bytes \<Rightarrow> answer) \<Rightarrow> answer" where
  "loading h a n f = (case host_load (ho_block h) a n of None \<Rightarrow> Some (Fault h) | Some xs \<Rightarrow> f xs)"

definition storing :: "host_env \<Rightarrow> mb_host \<Rightarrow> u64 \<Rightarrow> bytes \<Rightarrow> (mb_host \<Rightarrow> answer) \<Rightarrow> answer" where
  "storing H h a xs f =
    (case host_store (he_os H) (ho_block h) a xs of
       (b, False) \<Rightarrow> Some (Fault (h\<lparr>ho_block := b\<rparr>))
     | (b, True) \<Rightarrow> f (h\<lparr>ho_block := b\<rparr>))"

definition naming :: "mb_host \<Rightarrow> u64 \<Rightarrow> (bytes \<Rightarrow> answer) \<Rightarrow> answer" where
  "naming h a f =
    (case guest_str h a of None \<Rightarrow> Some (Fault h) | Some None \<Rightarrow> err h EFAULT | Some (Some p) \<Rightarrow> f p)"

text \<open>What a thread operation answers.\<close>

definition scheduled :: "mb_host \<Rightarrow> u64 outcome option \<Rightarrow> answer" where
  "scheduled h r = map_option (\<lambda>r. case r of
      Ret t c v \<Rightarrow> Sys (h\<lparr>ho_threads := t, ho_context := c\<rparr>) v
    | Died d t c \<Rightarrow> mb_host_guest_death (h\<lparr>ho_threads := t, ho_context := c\<rparr>) (Thread_died d)) r"

definition open_file :: "host_env \<Rightarrow> mb_host \<Rightarrow> bytes \<Rightarrow> int \<Rightarrow> answer" where
  "open_file H h p flags =
    (if v3 h \<and> and flags O_TRUNC \<noteq> 0 \<and> and flags 3 = 0 then err h EACCES
     else
       (case mb_fs_open (ho_fs h) p flags of
          (fs, Inl e) \<Rightarrow> err (h\<lparr>ho_fs := fs\<rparr>) e
        | (fs, Inr r) \<Rightarrow>
            if v3 h \<and> and flags O_TRUNC \<noteq> 0
            then (case mb_fs_truncate_fd (he_alloc H) (he_junk H) fs r 0 of
                (fs1, Inl e) \<Rightarrow> (if e = EBADF then ok (h\<lparr>ho_fs := fs1\<rparr>) (of_sword r) else err (h\<lparr>ho_fs := fs1\<rparr>) e)
              | (fs1, Inr _) \<Rightarrow> ok (h\<lparr>ho_fs := fs1\<rparr>) (of_sword r))
            else ok (h\<lparr>ho_fs := fs\<rparr>) (of_sword r)))"

definition arg_to_prot :: "u64 \<Rightarrow> mb_prot option" where
  "arg_to_prot a =
    (if a AND NOT 7 \<noteq> 0 then None
     else if a AND 4 \<noteq> 0 then Some (if a AND 2 \<noteq> 0 then MB_PROT_RWX else MB_PROT_RX)
     else if a AND 2 \<noteq> 0 then Some MB_PROT_RW
     else if a AND 1 \<noteq> 0 then Some MB_PROT_R
     else Some MB_PROT_NONE)"

definition round_len :: "u64 \<Rightarrow> u64" where "round_len n = (n + 0xFFF) AND NOT 0xFFF"

definition note_output :: "mb_host \<Rightarrow> nat \<Rightarrow> mb_host" where
  "note_output h before =
    (if mb_fs_sysout_total (ho_fs h) = before \<or> ho_out_call h = ho_calls h then h
     else h\<lparr>ho_out_call := ho_calls h, ho_out_mark := before\<rparr>)"

section \<open>Memory\<close>

definition sys_mmap :: "host_env \<Rightarrow> mb_host \<Rightarrow> u64 \<Rightarrow> u64 \<Rightarrow> u64 \<Rightarrow> u64 \<Rightarrow> answer" where
  "sys_mmap H h a1 a2 a3 flags =
    (case arg_to_prot a3 of
       None \<Rightarrow> err h EINVAL
     | Some prot \<Rightarrow>
         if flags AND MAP_ANONYMOUS = 0 then err h ENOTSUP
         else if flags AND 0xf00 \<noteq> 0 then err h ENOTSUP
         else if flags AND MAP_STACK \<noteq> 0 \<and> prot \<noteq> MB_PROT_RW then err h EINVAL
         else
           (let prot' = (if flags AND MAP_STACK \<noteq> 0 then MB_PROT_RWSTACK else prot);
                no_replace = (flags AND MAP_FIXED_NOREPLACE \<noteq> 0);
                r = \<lparr>rg_start = a1, rg_size = round_len a2\<rparr>;
                r' = (if v3 h \<and> a1 \<noteq> 0 \<and> \<not> no_replace \<and> flags AND MAP_FIXED = 0
                        \<and> \<not> mb_block_range_is_free (ho_block h) r
                      then r\<lparr>rg_start := 0\<rparr> else r)
            in case mb_block_mmap (he_os H) (ho_block h) r' prot' (ly_mmap_arena (ho_layout h)) no_replace (v3 h) of
                 (b, Inl e) \<Rightarrow> err (h\<lparr>ho_block := b\<rparr>) e
               | (b, Inr v) \<Rightarrow> ok (h\<lparr>ho_block := b\<rparr>) v))"

definition sys_mremap :: "host_env \<Rightarrow> mb_host \<Rightarrow> u64 \<Rightarrow> u64 \<Rightarrow> u64 \<Rightarrow> u64 \<Rightarrow> answer" where
  "sys_mremap H h a1 a2 a3 a4 =
    (let r = \<lparr>rg_start = a1, rg_size = a2\<rparr>
     in if v3 h \<and> a4 AND MREMAP_FIXED \<noteq> 0 then err h EINVAL
        else case (if v3 h
                   then mb_block_mremap_maymove (he_os H) (ho_block h) r a3 (ly_mmap_arena (ho_layout h)) (a4 AND MREMAP_MAYMOVE \<noteq> 0)
                   else mb_block_mremap (he_os H) (ho_block h) r a3) of
               (b, Inl e) \<Rightarrow> err (h\<lparr>ho_block := b\<rparr>) e
             | (b, Inr v) \<Rightarrow> ok (h\<lparr>ho_block := b\<rparr>) v)"

definition block_answer :: "mb_host \<Rightarrow> mb_block \<times> unit res \<Rightarrow> answer" where
  "block_answer h r = (case r of (b, Inl e) \<Rightarrow> err (h\<lparr>ho_block := b\<rparr>) e | (b, Inr _) \<Rightarrow> ok (h\<lparr>ho_block := b\<rparr>) 0)"

definition sys_mprotect :: "host_env \<Rightarrow> mb_host \<Rightarrow> u64 \<Rightarrow> u64 \<Rightarrow> u64 \<Rightarrow> answer" where
  "sys_mprotect H h a1 a2 a3 =
    (case arg_to_prot a3 of
       None \<Rightarrow> err h EINVAL
     | Some prot \<Rightarrow>
         if - 1 - 0xFFF < a2 then err h EINVAL
         else block_answer h (mb_block_mprotect (he_os H) (ho_block h) \<lparr>rg_start = a1, rg_size = round_len a2\<rparr> prot))"

definition sys_munmap :: "host_env \<Rightarrow> mb_host \<Rightarrow> u64 \<Rightarrow> u64 \<Rightarrow> answer" where
  "sys_munmap H h a1 a2 =
    (if - 1 - 0xFFF < a2 then err h EINVAL
     else
       (let r = \<lparr>rg_start = a1, rg_size = round_len a2\<rparr>
        in case mb_threads_hold_stack_unmap (ho_threads h) r of
             (t, True) \<Rightarrow> ok (h\<lparr>ho_threads := t\<rparr>) 0
           | (t, False) \<Rightarrow> block_answer (h\<lparr>ho_threads := t\<rparr>) (mb_block_munmap (he_os H) (ho_block h) r)))"

definition sys_madvise :: "host_env \<Rightarrow> mb_host \<Rightarrow> u64 \<Rightarrow> u64 \<Rightarrow> u64 \<Rightarrow> answer" where
  "sys_madvise H h a1 a2 a3 =
    (if a3 = MADV_DONTNEED then
       (if - 1 - 0xFFF < a2 then err h EINVAL
        else block_answer h (mb_block_madvise_dontneed (he_os H) (ho_block h) \<lparr>rg_start = a1, rg_size = round_len a2\<rparr>))
     else ok h 0)"

definition sys_brk :: "host_env \<Rightarrow> mb_host \<Rightarrow> u64 \<Rightarrow> answer" where
  "sys_brk H h a1 =
    (let arena = ly_sbrk (ho_layout h); old = ho_program_break h
     in if a1 \<noteq> mb_align_down a1 \<or> a1 < rg_start arena \<or> mb_range_end arena < a1 \<or> a1 \<le> old then ok h old
        else ok (h\<lparr>ho_block := fst (mb_block_mmap_fixed (he_os H) (ho_block h) \<lparr>rg_start = old, rg_size = a1 - old\<rparr> MB_PROT_RW True),
                   ho_program_break := a1\<rparr>) a1)"

section \<open>Files\<close>

definition i64_bytes :: "int \<Rightarrow> bytes" where "i64_bytes i = u64_bytes (word_of_int i)"

definition kstat_bytes :: "kstat \<Rightarrow> bytes" where
  "kstat_bytes s =
    u64_bytes (of_nat (st_dev s)) @ u64_bytes (of_nat (st_ino s)) @ u64_bytes (of_nat (st_nlink s)) @
    u32_bytes (of_nat (st_mode s)) @ u32_bytes (of_nat (st_uid s)) @ u32_bytes (of_nat (st_gid s)) @ u32_bytes 0 @
    u64_bytes (of_nat (st_rdev s)) @ i64_bytes (st_size s) @ i64_bytes (st_blksize s) @ i64_bytes (st_blocks s) @
    i64_bytes (st_atime_sec s) @ i64_bytes (st_atime_nsec s) @ i64_bytes (st_mtime_sec s) @ i64_bytes (st_mtime_nsec s) @
    i64_bytes (st_ctime_sec s) @ i64_bytes (st_ctime_nsec s) @ u64_bytes 0 @ u64_bytes 0 @ u64_bytes 0"

definition put_stat :: "host_env \<Rightarrow> mb_host \<Rightarrow> u64 \<Rightarrow> kstat res \<Rightarrow> answer" where
  "put_stat H h a r = (case r of Inl e \<Rightarrow> err h e | Inr s \<Rightarrow> storing H h a (kstat_bytes s) (\<lambda>h. ok h 0))"

definition sys_stat :: "host_env \<Rightarrow> mb_host \<Rightarrow> u64 \<Rightarrow> u64 \<Rightarrow> answer" where
  "sys_stat H h a1 a2 =
    naming h a1 (\<lambda>p. if \<not> guest_can h a2 144 True then err h EFAULT else put_stat H h a2 (mb_fs_stat_name (ho_fs h) p))"

definition sys_fstat :: "host_env \<Rightarrow> mb_host \<Rightarrow> u64 \<Rightarrow> u64 \<Rightarrow> answer" where
  "sys_fstat H h a1 a2 =
    (if \<not> guest_can h a2 144 True then err h EFAULT else put_stat H h a2 (mb_fs_stat_fd (ho_fs h) (as_int a1)))"

definition sys_ioctl :: "host_env \<Rightarrow> mb_host \<Rightarrow> u64 \<Rightarrow> u64 \<Rightarrow> answer" where
  "sys_ioctl H h a2 a3 =
    (let req = a2 AND 0xFFFFFFFF;
         out = (if req = 0x5413 then 8 else if req = 0x5401 then 36 else if req = 0x541B then 4 else 0 :: nat)
     in if out = 0 then ok h 0
        else if \<not> guest_can h a3 (of_nat out) True then err h EFAULT
        else storing H h a3 (replicate out 0) (\<lambda>h. ok h 0))"

text \<open>A read puts what it got into the guest's buffer.\<close>

definition put_read :: "host_env \<Rightarrow> mb_host \<Rightarrow> u64 \<Rightarrow> mb_fs \<times> bytes res \<Rightarrow> (mb_host \<Rightarrow> nat \<Rightarrow> answer) \<Rightarrow> (mb_host \<Rightarrow> errno \<Rightarrow> answer) \<Rightarrow> answer" where
  "put_read H h a r good bad =
    (case r of
       (fs, Inl e) \<Rightarrow> bad (h\<lparr>ho_fs := fs\<rparr>) e
     | (fs, Inr xs) \<Rightarrow> storing H (h\<lparr>ho_fs := fs\<rparr>) a xs (\<lambda>h. good h (length xs)))"

definition read_avail :: "mb_host \<Rightarrow> int \<Rightarrow> u64 \<Rightarrow> u64" where
  "read_avail h fd n = of_nat (mb_fs_read_avail (ho_fs h) fd (unat n))"

definition sys_read :: "host_env \<Rightarrow> mb_host \<Rightarrow> u64 \<Rightarrow> u64 \<Rightarrow> u64 \<Rightarrow> answer" where
  "sys_read H h a1 a2 a3 =
    (if \<not> guest_can h a2 (read_avail h (as_int a1) a3) True then err h EFAULT
     else put_read H h a2 (mb_fs_read (ho_fs h) (as_int a1) (unat a3)) (\<lambda>h n. ok h (of_nat n)) err)"

definition sys_write :: "host_env \<Rightarrow> mb_host \<Rightarrow> u64 \<Rightarrow> u64 \<Rightarrow> u64 \<Rightarrow> answer" where
  "sys_write H h a1 a2 a3 =
    (if \<not> guest_can h a2 a3 False then err h EFAULT
     else
       (let before = mb_fs_sysout_total (ho_fs h)
        in loading h a2 (unat a3) (\<lambda>xs.
             case mb_fs_write (he_alloc H) (he_junk H) (ho_fs h) (as_int a1) xs of
               (fs, Inl e) \<Rightarrow> err (note_output (h\<lparr>ho_fs := fs\<rparr>) before) e
             | (fs, Inr n) \<Rightarrow> ok (note_output (h\<lparr>ho_fs := fs\<rparr>) before) (of_nat n))))"

text \<open>The loop of \<open>readv\<close> (\<open>rd\<close>) and \<open>writev\<close>: \<open>k\<close> entries left, the next one at \<open>p\<close>.\<close>

fun iov_loop :: "host_env \<Rightarrow> bool \<Rightarrow> int \<Rightarrow> nat \<Rightarrow> nat \<Rightarrow> u64 \<Rightarrow> nat \<Rightarrow> mb_host \<Rightarrow> answer" where
  "iov_loop H rd fd before 0 p got h = ok (note_output h before) (of_nat got)"
| "iov_loop H rd fd before (Suc k) p got h =
    loading h p 16 (\<lambda>io.
      let base = bytes_u64 (take 8 io); len = bytes_u64 (drop 8 io);
          want = (if rd then read_avail h fd len else len)
      in if base = 0 then iov_loop H rd fd before k (p + 16) got h
         else if \<not> guest_can h base want rd
         then (if got \<noteq> 0 then ok (note_output h before) (of_nat got) else err (note_output h before) EFAULT)
         else if rd
         then put_read H h base (mb_fs_read (ho_fs h) fd (unat len))
                (\<lambda>h n. iov_loop H rd fd before k (p + 16) (got + n) h) (\<lambda>h e. err (note_output h before) e)
         else loading h base (unat len) (\<lambda>xs.
                case mb_fs_write (he_alloc H) (he_junk H) (ho_fs h) fd xs of
                  (fs, Inl e) \<Rightarrow> err (note_output (h\<lparr>ho_fs := fs\<rparr>) before) e
                | (fs, Inr n) \<Rightarrow> iov_loop H rd fd before k (p + 16) (got + n) (h\<lparr>ho_fs := fs\<rparr>)))"

definition sys_iov :: "host_env \<Rightarrow> mb_host \<Rightarrow> bool \<Rightarrow> u64 \<Rightarrow> u64 \<Rightarrow> u64 \<Rightarrow> answer" where
  "sys_iov H h rd a1 a2 a3 =
    (if 1024 < a3 then err h EINVAL
     else if \<not> guest_can h a2 (a3 * 16) False then err h EFAULT
     else iov_loop H rd (as_int a1) (mb_fs_sysout_total (ho_fs h)) (unat a3) a2 0 h)"

definition sys_open :: "host_env \<Rightarrow> mb_host \<Rightarrow> u64 \<Rightarrow> u64 \<Rightarrow> answer" where
  "sys_open H h a1 a2 = naming h a1 (\<lambda>p. open_file H h p (as_int a2))"

definition sysinfo_bytes :: "nat \<Rightarrow> bytes" where
  "sysinfo_bytes kit =
    (let si = put_at (put_at (replicate 112 0) 32 (u64_bytes (push_bit 20 1024))) 40 (u64_bytes (push_bit 20 512))
     in put_at si (if 1 \<le> kit then 104 else 100) (u32_bytes 1))"

definition sys_sysinfo :: "host_env \<Rightarrow> mb_host \<Rightarrow> u64 \<Rightarrow> answer" where
  "sys_sysinfo H h a1 =
    (if \<not> guest_can h a1 112 True then err h EFAULT
     else storing H h a1 (sysinfo_bytes (ho_kit_revision h)) (\<lambda>h. ok h 0))"

definition sys_getrusage :: "host_env \<Rightarrow> mb_host \<Rightarrow> u64 \<Rightarrow> answer" where
  "sys_getrusage H h a2 =
    (if \<not> guest_can h a2 144 True then err h EFAULT else storing H h a2 (replicate 144 0) (\<lambda>h. ok h 0))"

definition sys_prctl :: "mb_host \<Rightarrow> u64 \<Rightarrow> answer" where
  "sys_prctl h a1 = (if as_int a1 = 15 then ok h 0 else err h EINVAL)"

definition sys_pread64 :: "host_env \<Rightarrow> mb_host \<Rightarrow> u64 \<Rightarrow> u64 \<Rightarrow> u64 \<Rightarrow> u64 \<Rightarrow> answer" where
  "sys_pread64 H h a1 a2 a3 a4 =
    (let fd = as_int a1
     in case mb_fs_seek (ho_fs h) fd 0 1 of
          (fs, Inl e) \<Rightarrow> err (h\<lparr>ho_fs := fs\<rparr>) e
        | (fs, Inr pos) \<Rightarrow>
            (case mb_fs_seek fs fd (as_sword a4) 0 of
               (fs1, Inl e) \<Rightarrow> err (h\<lparr>ho_fs := fs1\<rparr>) e
             | (fs1, Inr _) \<Rightarrow>
                 (let h1 = h\<lparr>ho_fs := fs1\<rparr>;
                      back = (\<lambda>h. h\<lparr>ho_fs := fst (mb_fs_seek (ho_fs h) fd pos 0)\<rparr>)
                  in if \<not> guest_can h1 a2 (read_avail h1 fd a3) True then err (back h1) EFAULT
                     else put_read H h1 a2 (mb_fs_read fs1 fd (unat a3))
                            (\<lambda>h n. ok (back h) (of_nat n)) (\<lambda>h e. err (back h) e))))"

definition sys_pwrite64 :: "host_env \<Rightarrow> mb_host \<Rightarrow> u64 \<Rightarrow> u64 \<Rightarrow> u64 \<Rightarrow> u64 \<Rightarrow> answer" where
  "sys_pwrite64 H h a1 a2 a3 a4 =
    (if \<not> guest_can h a2 a3 False then err h EFAULT
     else loading h a2 (unat a3) (\<lambda>xs.
       case mb_fs_pwrite (he_alloc H) (he_junk H) (ho_fs h) (as_int a1) xs (as_sword a4) of
         (fs, Inl e) \<Rightarrow> err (h\<lparr>ho_fs := fs\<rparr>) e
       | (fs, Inr n) \<Rightarrow> ok (h\<lparr>ho_fs := fs\<rparr>) (of_nat n)))"

definition sys_openat :: "host_env \<Rightarrow> mb_host \<Rightarrow> u64 \<Rightarrow> u64 \<Rightarrow> u64 \<Rightarrow> answer" where
  "sys_openat H h a1 a2 a3 =
    (if as_int a1 \<noteq> - 100 then err h EBADF else naming h a2 (\<lambda>p. open_file H h p (as_int a3)))"

definition sys_newfstatat :: "host_env \<Rightarrow> mb_host \<Rightarrow> u64 \<Rightarrow> u64 \<Rightarrow> u64 \<Rightarrow> answer" where
  "sys_newfstatat H h a1 a2 a3 =
    (if as_int a1 \<noteq> - 100 then err h EBADF
     else naming h a2 (\<lambda>p. if \<not> guest_can h a3 144 True then err h EFAULT
                           else put_stat H h a3 (mb_fs_stat_name (ho_fs h) p)))"

definition sys_readlink :: "mb_host \<Rightarrow> u64 \<Rightarrow> u64 \<Rightarrow> u64 \<Rightarrow> answer" where
  "sys_readlink h pa buf len =
    naming h pa (\<lambda>p. if len \<noteq> 0 \<and> \<not> guest_owns h buf 1 then err h EFAULT
                     else if mb_fs_exists (ho_fs h) p then err h EINVAL else err h ENOENT)"

definition fs_answer :: "mb_host \<Rightarrow> mb_fs \<times> 'a res \<Rightarrow> ('a \<Rightarrow> u64) \<Rightarrow> answer" where
  "fs_answer h r f = (case r of (fs, Inl e) \<Rightarrow> err (h\<lparr>ho_fs := fs\<rparr>) e | (fs, Inr v) \<Rightarrow> ok (h\<lparr>ho_fs := fs\<rparr>) (f v))"

definition sys_truncate :: "host_env \<Rightarrow> mb_host \<Rightarrow> u64 \<Rightarrow> u64 \<Rightarrow> answer" where
  "sys_truncate H h a1 a2 =
    naming h a1 (\<lambda>p. fs_answer h (mb_fs_truncate_name (he_alloc H) (he_junk H) (ho_fs h) p (as_sword a2)) (\<lambda>_. 0))"

definition sys_fsync :: "mb_host \<Rightarrow> u64 \<Rightarrow> answer" where
  "sys_fsync h a1 = (case mb_fs_sync_fd (ho_fs h) (as_int a1) of Inl e \<Rightarrow> err h e | Inr _ \<Rightarrow> ok h 0)"

definition sys_fcntl :: "mb_host \<Rightarrow> u64 \<Rightarrow> answer" where
  "sys_fcntl h a2 = (if as_int a2 \<in> {1, 2, 3, 4} then ok h 0 else err h EINVAL)"

section \<open>Time, randomness, signals\<close>

definition timespec :: "bytes \<Rightarrow> int \<times> int" where
  "timespec xs = (sint (bytes_u64 (take 8 xs)), sint (bytes_u64 (drop 8 xs)))"

definition timespec_bad :: "int \<times> int \<Rightarrow> bool" where
  "timespec_bad ts \<longleftrightarrow> fst ts < 0 \<or> snd ts < 0 \<or> 1000000000 \<le> snd ts"

definition timespec_bytes :: "nat \<Rightarrow> bytes" where
  "timespec_bytes ns = u64_bytes (of_nat (ns div 1000000000)) @ u64_bytes (of_nat (ns mod 1000000000))"

definition clock_ns :: "mb_host \<Rightarrow> nat" where "clock_ns h = vclock_ns (ho_threads h)"

definition advancing :: "mb_host \<Rightarrow> nat \<Rightarrow> mb_host" where
  "advancing h ns = h\<lparr>ho_threads := mb_threads_advance (ho_threads h) ns\<rparr>"

definition sys_clock_gettime :: "host_env \<Rightarrow> mb_host \<Rightarrow> u64 \<Rightarrow> answer" where
  "sys_clock_gettime H h a2 =
    (if \<not> guest_can h a2 16 True then err h EFAULT
     else if v3 h
     then (let h1 = advancing h MB_V3_TICK_NS;
               now = (ho_clock_start_ns h1 + clock_ns h1) mod 2 ^ 64
           in storing H h1 a2 (timespec_bytes now)
                (\<lambda>h. scheduled h (mb_threads_yield_value (ho_threads h) (ho_context h) (sok 0))))
     else storing H h a2 (timespec_bytes (ho_clock_start_ns h)) (\<lambda>h. ok h 0))"

definition splitmix :: "u64 \<Rightarrow> u64" where
  "splitmix s =
    (let z1 = (s XOR drop_bit 30 s) * 0xBF58476D1CE4E5B9;
         z2 = (z1 XOR drop_bit 27 z1) * 0x94D049BB133111EB
     in z2 XOR drop_bit 31 z2)"

function random_fill :: "u64 \<Rightarrow> nat \<Rightarrow> u64 \<times> bytes" where
  "random_fill s n =
    (if n = 0 then (s, [])
     else
       (let s1 = s + 0x9E3779B97F4A7C15; take' = (if n < 8 then n else 8)
        in case random_fill s1 (n - take') of (s2, xs) \<Rightarrow> (s2, take take' (u64_bytes (splitmix s1)) @ xs)))"
  by pat_completeness auto
termination by (relation "measure snd") auto

declare random_fill.simps [simp del]

definition sys_getrandom :: "host_env \<Rightarrow> mb_host \<Rightarrow> u64 \<Rightarrow> u64 \<Rightarrow> answer" where
  "sys_getrandom H h a1 a2 =
    (if \<not> guest_can h a1 a2 True then err h EFAULT
     else case random_fill (ho_getrandom_state h) (unat a2) of
       (s, xs) \<Rightarrow> storing H (h\<lparr>ho_getrandom_state := s\<rparr>) a1 xs (\<lambda>h. ok h a2))"

definition sys_rt_sigaction :: "host_env \<Rightarrow> mb_host \<Rightarrow> u64 \<Rightarrow> u64 \<Rightarrow> answer" where
  "sys_rt_sigaction H h a2 a3 =
    (if a2 \<noteq> 0 \<and> \<not> guest_can h a2 32 False then err h EFAULT
     else if a3 = 0 then ok h 0
     else if \<not> guest_can h a3 32 True then err h EFAULT
     else storing H h a3 (replicate 32 0) (\<lambda>h. ok h 0))"

definition sys_rt_sigprocmask :: "host_env \<Rightarrow> mb_host \<Rightarrow> u64 \<Rightarrow> u64 \<Rightarrow> u64 \<Rightarrow> answer" where
  "sys_rt_sigprocmask H h a2 a3 a4 =
    (if 128 < a4 then err h EINVAL
     else if a2 \<noteq> 0 \<and> \<not> guest_can h a2 a4 False then err h EFAULT
     else if a3 = 0 then ok h 0
     else if \<not> guest_can h a3 a4 True then err h EFAULT
     else storing H h a3 (replicate (unat a4) 0) (\<lambda>h. ok h 0))"

definition sys_kill :: "mb_host \<Rightarrow> u64 \<Rightarrow> u64 \<Rightarrow> answer" where
  "sys_kill h tid sig =
    (if sig = 0 then (if mb_threads_has_thread (ho_threads h) (unat (as_u32 tid)) then ok h 0 else err h ESRCH)
     else if sig = 6 then Some (mb_host_guest_death h Aborted)
     else Some (mb_host_guest_death h (Raised sig)))"

section \<open>Threads\<close>

definition sys_set_tid_address :: "mb_host \<Rightarrow> u64 \<Rightarrow> answer" where
  "sys_set_tid_address h a1 =
    (case mb_threads_set_tid_address (ho_threads h) (if guest_can h a1 4 True then a1 else 0) of
       (t, tid) \<Rightarrow> ok (h\<lparr>ho_threads := t\<rparr>) (sok tid))"

definition yielding :: "mb_host \<Rightarrow> answer" where
  "yielding h = scheduled h (mb_threads_yield (ho_threads h) (ho_context h))"

definition sys_nanosleep :: "mb_host \<Rightarrow> u64 \<Rightarrow> answer" where
  "sys_nanosleep h a1 =
    (if \<not> v3 h then yielding h
     else if \<not> guest_can h a1 16 False then err h EFAULT
     else loading h a1 16 (\<lambda>xs.
       if timespec_bad (timespec xs) then err h EINVAL
       else yielding (advancing h (mb_threads_ns_of (ho_threads h) (fst (timespec xs)) (snd (timespec xs))))))"

definition sys_clock_nanosleep :: "host_env \<Rightarrow> mb_host \<Rightarrow> u64 \<Rightarrow> u64 \<Rightarrow> u64 \<Rightarrow> answer" where
  "sys_clock_nanosleep H h a2 a3 a4 =
    (if \<not> v3 h then yielding h
     else if \<not> guest_can h a3 16 False then err h EFAULT
     else loading h a3 16 (\<lambda>xs.
       if timespec_bad (timespec xs) then err h EINVAL
       else
         (let target = mb_threads_ns_of (ho_threads h) (fst (timespec xs)) (snd (timespec xs));
              rel = (if ho_clock_start_ns h < target then target - ho_clock_start_ns h else 0);
              h1 = (if a2 AND 1 \<noteq> 0
                    then (if clock_ns h < rel then advancing h (rel - clock_ns h) else h)
                    else advancing h target)
          in if a4 = 0 then yielding h1
             else if \<not> guest_can h1 a4 16 True then err h1 EFAULT
             else storing H h1 a4 (replicate 16 0) yielding)))"

text \<open>The block after \<open>mb_threads_spawn\<close> protected the new thread's stack, and the
  answer.\<close>

definition spawn_stack :: "mb_block \<Rightarrow> u64 \<Rightarrow> mb_range" where
  "spawn_stack b pthread =
    (let stack_end = read64 (guest_mem b) (pthread + 96); stack_size = read64 (guest_mem b) (pthread + 104)
     in mb_range_align_expand \<lparr>rg_start = stack_end - stack_size, rg_size = stack_size\<rparr>)"

definition sys_wbx_clone :: "host_env \<Rightarrow> mb_host \<Rightarrow> u64 \<Rightarrow> u64 \<Rightarrow> u64 \<Rightarrow> u64 \<Rightarrow> u64 \<Rightarrow> answer" where
  "sys_wbx_clone H h a1 a2 a3 a4 a5 =
    (if a1 = 0 then err h EINVAL
     else if \<not> guest_can h a1 112 False then err h EFAULT
     else if \<not> guest_can h (a2 - 16) 16 True \<or> \<not> guest_can h a5 4 True then err h EFAULT
     else loading h (a1 + 96) 16 (\<lambda>_.
       let b1 = fst (mb_block_mprotect (he_os H) (ho_block h) (spawn_stack (ho_block h) a1) MB_PROT_RWSTACK)
       in case mb_threads_spawn (\<lambda>r. snd (mb_block_mprotect (he_os H) (ho_block h) r MB_PROT_RWSTACK))
                 (ho_threads h) (guest_mem (ho_block h)) a1 a2 a3 a4 a5 a1 of
            (t, m, Inl e) \<Rightarrow> err (h\<lparr>ho_block := b1, ho_threads := t\<rparr>) e
          | (t, m, Inr tid) \<Rightarrow>
              storing H (h\<lparr>ho_block := b1\<rparr>) (a2 - 16) (mem_read m (a2 - 16) 16) (\<lambda>h.
                storing H h a5 (mem_read m a5 4) (\<lambda>h. ok (h\<lparr>ho_threads := t\<rparr>) (sok tid)))))"

definition sys_sched_getaffinity :: "host_env \<Rightarrow> mb_host \<Rightarrow> u64 \<Rightarrow> u64 \<Rightarrow> answer" where
  "sys_sched_getaffinity H h a2 a3 =
    (if a3 = 0 \<or> a2 < 8 then err h EINVAL
     else
       (let n = (if 4096 < a2 then 4096 else a2)
        in if \<not> guest_can h a3 n True then err h EFAULT
           else storing H h a3 (1 # replicate (unat n - 1) 0) (\<lambda>h. ok h 8)))"

text \<open>An exiting thread clears the word it named, wherever that is now.\<close>

definition sys_exit :: "host_env \<Rightarrow> mb_host \<Rightarrow> answer" where
  "sys_exit H h =
    (case mb_threads_take_held_unmap (ho_threads h) of
       (t, held) \<Rightarrow>
         (let addr = g_tid_address (thread_of t (active_tid t));
              clear = (if active_tid t \<noteq> 1 \<and> addr \<noteq> 0 then u32_bytes 0 else [])
          in storing H (h\<lparr>ho_threads := t\<rparr>) addr clear (\<lambda>h.
               case scheduled h (map_option fst (mb_threads_exit t (ho_context h) (guest_mem (ho_block h)))) of
                 Some (Sys h1 r) \<Rightarrow>
                   ok (case held of None \<Rightarrow> h1
                       | Some rg \<Rightarrow> h1\<lparr>ho_block := fst (mb_block_munmap (he_os H) (ho_block h1) rg)\<rparr>) r
               | other \<Rightarrow> other)))"

definition waking :: "mb_host \<Rightarrow> u64 \<Rightarrow> u64 \<Rightarrow> answer" where
  "waking h a1 a3 =
    (case mb_threads_futex_wake (ho_threads h) a1 (unat (as_u32 a3)) of
       (t, n) \<Rightarrow>
         (let h1 = h\<lparr>ho_threads := t\<rparr>
          in if v3 h then scheduled h1 (mb_threads_yield_value t (ho_context h1) (sok n)) else ok h1 (sok n)))"

text \<open>The operations on a futex whose word is a lock: the word is written.\<close>

definition locking :: "host_env \<Rightarrow> mb_host \<Rightarrow> u64 \<Rightarrow> answer" where
  "locking H h a1 =
    (case mb_threads_futex_lock_pi (ho_threads h) (ho_context h) (guest_mem (ho_block h)) a1 of
       None \<Rightarrow> None
     | Some (r, m) \<Rightarrow> storing H h a1 (mem_read m a1 4) (\<lambda>h. scheduled h (Some r)))"

definition unlocking :: "host_env \<Rightarrow> mb_host \<Rightarrow> u64 \<Rightarrow> answer" where
  "unlocking H h a1 =
    (case mb_threads_futex_unlock_pi (ho_threads h) (ho_context h) (guest_mem (ho_block h)) a1 of
       (t, c, v, m) \<Rightarrow> storing H h a1 (mem_read m a1 4) (\<lambda>h. ok (h\<lparr>ho_threads := t, ho_context := c\<rparr>) v))"

definition futex_op :: "u64 \<Rightarrow> int" where
  "futex_op a2 = and (as_int a2) (not (or 128 256))"

definition timed_wait :: "mb_host \<Rightarrow> int \<Rightarrow> u64 \<Rightarrow> u64 \<Rightarrow> u64 \<Rightarrow> answer" where
  "timed_wait h fop a1 a3 a4 =
    (if \<not> guest_can h a4 16 False then err h EFAULT
     else loading h a4 16 (\<lambda>xs.
       if timespec_bad (timespec xs) then err h EINVAL
       else
         (let t = mb_threads_ns_of (ho_threads h) (fst (timespec xs)) (snd (timespec xs));
              dl = (if fop = 0 then mb_threads_ns_add (ho_threads h) (clock_ns h) t
                    else if ho_clock_start_ns h < t then t - ho_clock_start_ns h else 0)
          in scheduled h (mb_threads_futex_wait_timeout (ho_threads h) (ho_context h) (guest_mem (ho_block h)) a1 (as_u32 a3) True dl))))"

definition sys_futex :: "host_env \<Rightarrow> mb_host \<Rightarrow> u64 \<Rightarrow> u64 \<Rightarrow> u64 \<Rightarrow> u64 \<Rightarrow> u64 \<Rightarrow> answer" where
  "sys_futex H h a1 a2 a3 a4 a5 =
    (let fop = futex_op a2; waits = (fop = 0 \<or> fop = 9); locks = (fop = 6 \<or> fop = 7)
     in if waits \<and> \<not> guest_can h a1 4 False then err h EFAULT
        else if locks \<and> \<not> guest_can h a1 4 True then err h EFAULT
        else loading h a1 (if waits \<or> locks then 4 else 0) (\<lambda>_.
          if v3 h \<and> waits \<and> a4 \<noteq> 0 then timed_wait h fop a1 a3 a4
          else if waits
          then scheduled h (mb_threads_futex_wait (ho_threads h) (ho_context h) (guest_mem (ho_block h)) a1 (as_u32 a3))
          else if fop = 1 \<or> fop = 10 then waking h a1 a3
          else if fop = 3
          then (case mb_threads_futex_requeue (ho_threads h) a1 a5 (unat (as_u32 a3)) (unat (as_u32 a4)) of
                  (t, n) \<Rightarrow> ok (h\<lparr>ho_threads := t\<rparr>) (sok n))
          else if fop = 6 then locking H h a1
          else if fop = 7 then unlocking H h a1
          else err h ENOSYS))"

section \<open>The dispatcher\<close>

text \<open>The calls that are not counted as work.\<close>

definition idle_call :: "sysno \<Rightarrow> bool" where
  "idle_call n \<longleftrightarrow> n \<in> {NR_sched_yield, NR_clock_gettime, NR_nanosleep, NR_clock_nanosleep, NR_futex, NR_gettid, NR_getpid}"

definition counted :: "mb_host \<Rightarrow> sysno option \<Rightarrow> mb_host" where
  "counted h n = (case n of Some c \<Rightarrow> (if idle_call c then h else h\<lparr>ho_activity := ho_activity h + 1\<rparr>)
                  | None \<Rightarrow> h\<lparr>ho_activity := ho_activity h + 1\<rparr>)"

definition call :: "host_env \<Rightarrow> mb_host \<Rightarrow> sysno \<Rightarrow> u64 \<Rightarrow> u64 \<Rightarrow> u64 \<Rightarrow> u64 \<Rightarrow> u64 \<Rightarrow> answer" where
  "call H h n a1 a2 a3 a4 a5 = (case n of
      NR_mmap \<Rightarrow> sys_mmap H h a1 a2 a3 a4
    | NR_mremap \<Rightarrow> sys_mremap H h a1 a2 a3 a4
    | NR_mprotect \<Rightarrow> sys_mprotect H h a1 a2 a3
    | NR_munmap \<Rightarrow> sys_munmap H h a1 a2
    | NR_madvise \<Rightarrow> sys_madvise H h a1 a2 a3
    | NR_brk \<Rightarrow> sys_brk H h a1
    | NR_stat \<Rightarrow> sys_stat H h a1 a2
    | NR_fstat \<Rightarrow> sys_fstat H h a1 a2
    | NR_ioctl \<Rightarrow> sys_ioctl H h a2 a3
    | NR_pipe \<Rightarrow> err h ENOSYS
    | NR_pipe2 \<Rightarrow> err h ENOSYS
    | NR_read \<Rightarrow> sys_read H h a1 a2 a3
    | NR_write \<Rightarrow> sys_write H h a1 a2 a3
    | NR_readv \<Rightarrow> sys_iov H h True a1 a2 a3
    | NR_writev \<Rightarrow> sys_iov H h False a1 a2 a3
    | NR_open \<Rightarrow> sys_open H h a1 a2
    | NR_sysinfo \<Rightarrow> sys_sysinfo H h a1
    | NR_getrusage \<Rightarrow> sys_getrusage H h a2
    | NR_prctl \<Rightarrow> sys_prctl h a1
    | NR_pread64 \<Rightarrow> sys_pread64 H h a1 a2 a3 a4
    | NR_socket \<Rightarrow> err h EAFNOSUPPORT
    | NR_pwrite64 \<Rightarrow> sys_pwrite64 H h a1 a2 a3 a4
    | NR_openat \<Rightarrow> sys_openat H h a1 a2 a3
    | NR_newfstatat \<Rightarrow> sys_newfstatat H h a1 a2 a3
    | NR_readlink \<Rightarrow> sys_readlink h a1 a2 a3
    | NR_readlinkat \<Rightarrow> (if as_int a1 \<noteq> - 100 then err h EBADF else sys_readlink h a2 a3 a4)
    | NR_close \<Rightarrow> fs_answer h (mb_fs_close (ho_fs h) (as_int a1)) (\<lambda>_. 0)
    | NR_dup \<Rightarrow> fs_answer h (mb_fs_dup (ho_fs h) (as_int a1)) of_sword
    | NR_lseek \<Rightarrow> fs_answer h (mb_fs_seek (ho_fs h) (as_int a1) (as_sword a2) (as_int a3)) of_sword
    | NR_truncate \<Rightarrow> sys_truncate H h a1 a2
    | NR_ftruncate \<Rightarrow> fs_answer h (mb_fs_truncate_fd (he_alloc H) (he_junk H) (ho_fs h) (as_int a1) (as_sword a2)) (\<lambda>_. 0)
    | NR_clock_gettime \<Rightarrow> sys_clock_gettime H h a2
    | NR_getrandom \<Rightarrow> sys_getrandom H h a1 a2
    | NR_fcntl \<Rightarrow> sys_fcntl h a2
    | NR_sync \<Rightarrow> ok h 0
    | NR_fsync \<Rightarrow> sys_fsync h a1
    | NR_fdatasync \<Rightarrow> sys_fsync h a1
    | NR_syncfs \<Rightarrow> sys_fsync h a1
    | NR_rt_sigaction \<Rightarrow> sys_rt_sigaction H h a2 a3
    | NR_rt_sigprocmask \<Rightarrow> sys_rt_sigprocmask H h a2 a3 a4
    | NR_tkill \<Rightarrow> sys_kill h a1 a2
    | NR_tgkill \<Rightarrow> sys_kill h a2 a3
    | NR_exit_group \<Rightarrow> Some (mb_host_guest_death h (Exited a1))
    | NR_set_thread_area \<Rightarrow> err h ENOSYS
    | NR_set_tid_address \<Rightarrow> sys_set_tid_address h a1
    | NR_gettid \<Rightarrow> ok h (sok (active_tid (ho_threads h)))
    | NR_getpid \<Rightarrow> ok h 1
    | NR_getppid \<Rightarrow> ok h 1
    | NR_getuid \<Rightarrow> ok h 1000
    | NR_geteuid \<Rightarrow> ok h 1000
    | NR_getgid \<Rightarrow> ok h 1000
    | NR_getegid \<Rightarrow> ok h 1000
    | NR_sched_yield \<Rightarrow> scheduled h (mb_threads_sched_yield (ho_threads h) (ho_context h))
    | NR_nanosleep \<Rightarrow> sys_nanosleep h a1
    | NR_clock_nanosleep \<Rightarrow> sys_clock_nanosleep H h a2 a3 a4
    | NR_wbx_clone \<Rightarrow> sys_wbx_clone H h a1 a2 a3 a4 a5
    | NR_sched_setaffinity \<Rightarrow> ok h 0
    | NR_sched_getaffinity \<Rightarrow> sys_sched_getaffinity H h a2 a3
    | NR_exit \<Rightarrow> sys_exit H h
    | NR_futex \<Rightarrow> sys_futex H h a1 a2 a3 a4 a5)"

definition dispatch_inner :: "host_env \<Rightarrow> mb_host \<Rightarrow> u64 \<Rightarrow> u64 \<Rightarrow> u64 \<Rightarrow> u64 \<Rightarrow> u64 \<Rightarrow> u64 \<Rightarrow> answer" where
  "dispatch_inner H h a1 a2 a3 a4 a5 nr =
    (if ho_dead h \<and> ho_esc h then Some (Dead h)
     else
       (let n = map_of sysno_table nr
        in case mb_stop_due (counted h n) of
             (h1, True) \<Rightarrow> Some (mb_host_guest_death (h1\<lparr>ho_stop_pending := False\<rparr>) (Stopped (ho_stop_why h1)))
           | (h1, False) \<Rightarrow>
               (case n of
                  None \<Rightarrow> Some (mb_host_guest_death h1 (Unprovided nr a1 a2 a3))
                | Some c \<Rightarrow> call H h1 c a1 a2 a3 a4 a5)))"

end
