(* ===== verification/Mb_Host_Life.thy ===== *)
theory Mb_Host_Life
  imports Mb_Syscalls
begin

text \<open>
  The life of a machine (\<^verbatim>\<open>host.c\<close>): its layout, its creation from an image,
  activation, the addresses of its exports and callbacks, the clock's start, the
  seal. The guest's code is a parameter: \<open>guest g entry h\<close> is the host after the
  guest ran from \<open>entry\<close>, through a guarded call or not (\<open>g\<close>). An outer \<open>None\<close> is
  the process ending: the block cannot be mapped, or host code faults.
\<close>

section \<open>Activation\<close>

definition thunk_env_of :: "host_env \<Rightarrow> mb_host \<Rightarrow> thunk_env" where
  "thunk_env_of H h = (he_thunk H)\<lparr>te_swap_fs := he_fs_ok H \<and> ho_fs_swap h\<rparr>"

definition get_thunk :: "host_env \<Rightarrow> mb_host \<Rightarrow> u64 \<Rightarrow> mb_host \<times> u64" where
  "get_thunk H h p = (case mb_thunks_get (thunk_env_of H h) (ho_thunks h) p of (t, a) \<Rightarrow> (h\<lparr>ho_thunks := t\<rparr>, a))"

definition mb_host_proc_addr_raw :: "mb_host \<Rightarrow> bytes \<Rightarrow> u64" where
  "mb_host_proc_addr_raw h name = mb_elf_proc_addr (ho_elf h) name"

definition mb_host_proc_addr :: "host_env \<Rightarrow> mb_host \<Rightarrow> bytes \<Rightarrow> mb_host \<times> u64" where
  "mb_host_proc_addr H h name =
    (let p = mb_elf_proc_addr (ho_elf h) name in if p \<noteq> 0 then get_thunk H h p else (h, 0))"

definition mb_host_callin_addr :: "host_env \<Rightarrow> mb_host \<Rightarrow> u64 \<Rightarrow> mb_host \<times> u64" where
  "mb_host_callin_addr H h ptr = get_thunk H h ptr"

definition MB_CALLBACK_SLOTS :: nat where "MB_CALLBACK_SLOTS = 64"

definition mb_host_callback_addr :: "host_env \<Rightarrow> mb_host \<Rightarrow> u64 \<Rightarrow> u64 \<Rightarrow> mb_host \<times> u64 option" where
  "mb_host_callback_addr H h cb slot =
    (if MB_CALLBACK_SLOTS \<le> unat slot then (h, None)
     else case mb_thunks_get_extcall (thunk_env_of H h) (ho_thunks h) cb of
       (t, wrapped) \<Rightarrow>
         if wrapped = 0 then (h\<lparr>ho_thunks := t\<rparr>, None)
         else (h\<lparr>ho_thunks := t, ho_extcall_slots := (ho_extcall_slots h)[unat slot := wrapped]\<rparr>,
               Some (mb_get_callback_ptr slot)))"

definition find_fault_handler :: "host_env \<Rightarrow> mb_host \<Rightarrow> mb_host" where
  "find_fault_handler H h =
    (if ho_fault_known h then h
     else case mb_host_proc_addr H (h\<lparr>ho_fault_raw := mb_host_proc_addr_raw h (chars ''GuestFaultHandler'')\<rparr>)
                 (chars ''GuestFaultHandler'') of
       (h1, entry) \<Rightarrow> h1\<lparr>ho_fault_entry := entry, ho_fault_known := True\<rparr>)"

definition mb_host_activate :: "host_env \<Rightarrow> mb_host \<Rightarrow> mb_host option" where
  "mb_host_activate H h =
    (let h1 = find_fault_handler H h
     in if ho_active h1 then Some h1
        else map_option (\<lambda>b. h1\<lparr>ho_block := b, ho_active := True\<rparr>)
               (mb_block_activate (he_os H) (he_mapped H) (ho_block h1)))"

definition mb_host_deactivate :: "mb_host \<Rightarrow> mb_host" where
  "mb_host_deactivate h =
    (if \<not> ho_active h then h else h\<lparr>ho_block := mb_block_deactivate (ho_block h), ho_active := False\<rparr>)"

text \<open>The frame of every operation on a machine that may be inactive: activate,
  work, and leave it as it was found.\<close>

definition while_active :: "host_env \<Rightarrow> mb_host \<Rightarrow> (mb_host \<Rightarrow> mb_host \<times> 'a) \<Rightarrow> (mb_host \<times> 'a) option" where
  "while_active H h f =
    map_option (\<lambda>h1. case f h1 of (h2, r) \<Rightarrow> (if ho_active h then h2 else mb_host_deactivate h2, r)) (mb_host_activate H h)"

section \<open>Calls into the guest\<close>

type_synonym guest_code = "bool \<Rightarrow> u64 \<Rightarrow> mb_host \<Rightarrow> mb_host"

definition call_guest_guarded :: "host_env \<Rightarrow> guest_code \<Rightarrow> mb_host \<Rightarrow> u64 \<Rightarrow> mb_host \<times> bool" where
  "call_guest_guarded H guest h entry =
    (case get_thunk H h entry of
       (h1, thunk) \<Rightarrow> (let h2 = guest (thunk \<noteq> 0) entry h1 in (h2, \<not> ho_dead h2)))"

definition run_proc_if_present :: "host_env \<Rightarrow> guest_code \<Rightarrow> mb_host \<Rightarrow> bytes \<Rightarrow> mb_host \<times> bool" where
  "run_proc_if_present H guest h name =
    (let p = mb_elf_proc_addr (ho_elf h) name in if p \<noteq> 0 then call_guest_guarded H guest h p else (h, True))"

section \<open>A new machine\<close>

definition add_area :: "u64 \<Rightarrow> u64 \<Rightarrow> mb_range" where
  "add_area at sz = \<lparr>rg_start = at, rg_size = mb_align_up sz\<rparr>"

definition host_layout :: "mb_range \<Rightarrow> mb_layout_template \<Rightarrow> mb_layout" where
  "host_layout elf tpl =
    (let main_thread = add_area (mb_range_end elf) (push_bit 20 1);
         alt_thread = add_area (mb_range_end main_thread) (push_bit 20 1);
         sbrk = add_area (mb_range_end alt_thread) (lt_sbrk_size tpl);
         sealed = add_area (mb_range_end sbrk) (lt_sealed_size tpl);
         invis = add_area (mb_range_end sealed) (lt_invis_size tpl);
         plain = add_area (mb_range_end invis) (lt_plain_size tpl)
     in \<lparr>ly_elf = elf, ly_main_thread = main_thread, ly_alt_thread = alt_thread, ly_sbrk = sbrk, ly_sealed = sealed,
         ly_invis = invis, ly_plain = plain, ly_mmap_arena = add_area (mb_range_end plain) (lt_mmap_size tpl)\<rparr>)"

datatype new_error =
    Bad_image elf_bad
  | Other_machine u16
  | Layout_unaligned
  | No_block
  | Load_failed
  | Spec_outside
  | Spec_unknown u32
  | Kit_outside
  | Needs_small_pages
  | Died_starting

definition MB_V3_BASE_NS :: nat where "MB_V3_BASE_NS = 1495889068 * 1000000000"

text \<open>The machine before its image is loaded.\<close>

definition blank_host :: "host_env \<Rightarrow> mb_layout \<Rightarrow> mb_block \<Rightarrow> mb_host" where
  "blank_host H l b =
    \<lparr>ho_stop_why = [], ho_have_stop_thread = False, ho_fault_raw = 0, ho_fault_entry = 0, ho_fault_known = False,
     ho_fs = mb_fs_new, ho_program_break = rg_start (ly_sbrk l),
     ho_elf = \<lparr>el_sections = [], el_exports = [], el_entry = 0, el_hash = [], el_has_tls = False\<rparr>,
     ho_layout = l, ho_block = b, ho_active = True, ho_sealed = False,
     ho_context = \<lparr>cx_thread_area = he_early_tp H, cx_guest_rsp = mb_range_end (ly_main_thread l),
                   cx_guest_fcw = 0x037F, cx_guest_mxcsr = 0x1F80\<rparr>,
     ho_extcall_slots = replicate MB_CALLBACK_SLOTS 0, ho_fs_swap = False, ho_dead = False, ho_esc = False,
     ho_calls = 0, ho_stop_pending = False, ho_activity = 0, ho_stop_activity = 0, ho_extra_work = None,
     ho_thunks = mb_thunks_new (he_arena H) (he_code H), ho_threads = mb_threads_new, ho_getrandom_state = 0,
     ho_clock_start_ns = MB_V3_BASE_NS, ho_kit_revision = 0, ho_epoch_brk = 0, ho_epoch_threads = None,
     ho_plan_head = None, ho_plan_tail = [], ho_death = None, ho_out_call = 0, ho_out_mark = 0\<rparr>"

text \<open>A 32-bit word the image exports: none, refused because it lies outside the
  guest's memory, or its value; the outer \<open>None\<close> is the fault of reading it.\<close>

definition exported_word :: "mb_host \<Rightarrow> bytes \<Rightarrow> (unit + u32 option) option" where
  "exported_word h name =
    (let a = mb_elf_proc_addr (ho_elf h) name
     in if a = 0 then Some (Inr None)
        else if \<not> guest_owns h a 4 then Some (Inl ())
        else map_option (\<lambda>xs. Inr (Some (bytes_u32 xs))) (host_load (ho_block h) a 4))"

definition set_kit :: "mb_host \<Rightarrow> nat \<Rightarrow> mb_host" where
  "set_kit h kit =
    h\<lparr>ho_kit_revision := kit, ho_threads := mb_threads_set_kit_revision (ho_threads h) kit,
      ho_fs := mb_fs_set_linux_answers (ho_fs h) (2 \<le> kit)\<rparr>"

text \<open>The kit revision and the machine specification the image declares.\<close>

definition read_kit :: "mb_host \<Rightarrow> int \<Rightarrow> (new_error + mb_host) option" where
  "read_kit h sp =
    (let h1 = h\<lparr>ho_threads := mb_threads_set_spec (ho_threads h) sp\<rparr>
     in map_option (\<lambda>kit. case kit of
            Inl _ \<Rightarrow> Inl Kit_outside
          | Inr None \<Rightarrow> Inr (set_kit h1 0)
          | Inr (Some w) \<Rightarrow> Inr (set_kit h1 (unat w)))
          (exported_word h1 (chars ''__wbx_kit_revision'')))"

definition read_versions :: "mb_host \<Rightarrow> (new_error + mb_host) option" where
  "read_versions h =
    (case exported_word h (chars ''__wbx_machine_spec'') of
       None \<Rightarrow> None
     | Some (Inl _) \<Rightarrow> Some (Inl Spec_outside)
     | Some (Inr None) \<Rightarrow> read_kit h 2
     | Some (Inr (Some w)) \<Rightarrow>
         if w \<noteq> 2 \<and> w \<noteq> 3 then Some (Inl (Spec_unknown w)) else read_kit h (int (unat w)))"

text \<open>Every callback slot answers: \<open>unregistered\<close> is the address of the function
  that ends a guest calling a slot nobody registered.\<close>

definition fill_slots :: "host_env \<Rightarrow> u64 \<Rightarrow> mb_host \<Rightarrow> mb_host" where
  "fill_slots H unregistered h =
    (case mb_thunks_get_extcall (thunk_env_of H h) (ho_thunks h) unregistered of
       (t, none) \<Rightarrow>
         h\<lparr>ho_thunks := t,
           ho_extcall_slots := (if none \<noteq> 0 then replicate MB_CALLBACK_SLOTS none else ho_extcall_slots h)\<rparr>)"

definition start_machine :: "host_env \<Rightarrow> guest_code \<Rightarrow> u64 \<Rightarrow> mb_host \<Rightarrow> (new_error + mb_host) option" where
  "start_machine H guest unregistered h =
    (case read_versions h of
       None \<Rightarrow> None
     | Some (Inl e) \<Rightarrow> Some (Inl e)
     | Some (Inr h1) \<Rightarrow>
         if 1 < os_group (he_os H) \<and> mb_elf_proc_addr (ho_elf h1) (chars ''GuestFaultHandler'') \<noteq> 0
         then Some (Inl Needs_small_pages)
         else
           (case call_guest_guarded H guest (fill_slots H unregistered h1) (el_entry (ho_elf h1)) of
              (h2, False) \<Rightarrow> Some (Inl Died_starting)
            | (h2, True) \<Rightarrow> Some (Inr (h2\<lparr>ho_block := mb_block_deactivate (ho_block h2), ho_active := False\<rparr>))))"

definition EM_X86_64 :: u16 where "EM_X86_64 = 62"

definition image_machine :: "bytes \<Rightarrow> u16" where
  "image_machine img = (if 20 \<le> length img then bytes_u16 (take 2 (drop 18 img)) else 0)"

definition other_machine :: "bytes \<Rightarrow> bool" where
  "other_machine img \<longleftrightarrow> 20 \<le> length img \<and> take 4 img = [0x7f, 0x45, 0x4c, 0x46] \<and> image_machine img \<noteq> EM_X86_64"

text \<open>\<open>room\<close>: the block's tables could be allocated; \<open>buf\<close>: what the hash context's
  buffer holds at first.\<close>

definition load_machine ::
  "host_env \<Rightarrow> guest_code \<Rightarrow> u64 \<Rightarrow> bytes \<Rightarrow> bytes \<Rightarrow> mb_layout \<Rightarrow> mb_block \<Rightarrow> (new_error + mb_host) option" where
  "load_machine H guest unregistered buf img l b =
    do { b1 \<leftarrow> mb_block_activate (he_os H) (he_mapped H) b;
         r \<leftarrow> mb_elf_load (he_os H) buf img l b1;
         case r of
           (b2, None) \<Rightarrow> Some (Inl Load_failed)
         | (b2, Some e) \<Rightarrow>
             start_machine H guest unregistered
               ((blank_host H l b2)\<lparr>ho_elf := e, ho_fs_swap := el_has_tls e \<and> he_fs_ok H\<rparr>) }"

definition mb_host_new ::
  "host_env \<Rightarrow> guest_code \<Rightarrow> u64 \<Rightarrow> bool \<Rightarrow> bytes \<Rightarrow> bytes \<Rightarrow> mb_layout_template \<Rightarrow> (new_error + mb_host) option" where
  "mb_host_new H guest unregistered room buf img tpl =
    do { bad \<leftarrow> mb_elf_check img;
         case bad of
           Some why \<Rightarrow> Some (Inl (Bad_image why))
         | None \<Rightarrow>
             if other_machine img then Some (Inl (Other_machine (image_machine img)))
             else do {
               span \<leftarrow> mb_elf_span img;
               l \<leftarrow> Some (host_layout (mb_range_align_expand span) tpl);
               if rg_start (mb_layout_all l) AND 0xffffffff \<noteq> 0 then Some (Inl Layout_unaligned)
               else case mb_block_new room (mb_layout_all l) of
                 None \<Rightarrow> Some (Inl No_block)
               | Some b \<Rightarrow> load_machine H guest unregistered buf img l b } }"

section \<open>The clock's start and the seal\<close>

definition mb_host_set_clock_start :: "mb_host \<Rightarrow> nat \<Rightarrow> mb_host \<times> bool" where
  "mb_host_set_clock_start h unix_seconds =
    (if ho_sealed h \<or> MB_CLOCK_START_MAX_SEC < unix_seconds then (h, False)
     else (h\<lparr>ho_clock_start_ns := unix_seconds * 1000000000\<rparr>, True))"

datatype seal_answer = Sealed | Already_sealed | Died_sealing | Seal_failed

definition seal_body :: "host_env \<Rightarrow> guest_code \<Rightarrow> bytes \<Rightarrow> mb_host \<Rightarrow> mb_host \<times> seal_answer" where
  "seal_body H guest buf h =
    (case run_proc_if_present H guest h (chars ''co_clean'') of
       (h1, False) \<Rightarrow> (h1, Died_sealing)
     | (h1, True) \<Rightarrow>
         (case run_proc_if_present H guest h1 (chars ''ecl_seal'') of
            (h2, False) \<Rightarrow> (h2, Died_sealing)
          | (h2, True) \<Rightarrow>
              (case mb_block_seal (he_os H) buf (mb_elf_seal (he_os H) (ho_elf h2) (ho_block h2)) of
                 (b, Inl _) \<Rightarrow> (h2\<lparr>ho_block := b\<rparr>, Seal_failed)
               | (b, Inr _) \<Rightarrow> (h2\<lparr>ho_block := b\<rparr>, Sealed))))"

definition mb_host_seal :: "host_env \<Rightarrow> guest_code \<Rightarrow> bytes \<Rightarrow> mb_host \<Rightarrow> (mb_host \<times> seal_answer) option" where
  "mb_host_seal H guest buf h =
    (if ho_sealed h then Some (h, Already_sealed)
     else map_option (\<lambda>h1. case seal_body H guest buf h1 of
         (h2, r) \<Rightarrow>
           (let h3 = (if ho_active h \<or> r = Seal_failed then h2 else mb_host_deactivate h2)
            in (if r = Sealed then h3\<lparr>ho_sealed := True\<rparr> else h3, r))) (mb_host_activate H h))"

section \<open>Files\<close>

definition mb_host_mount :: "mb_host \<Rightarrow> bytes \<Rightarrow> bytes \<Rightarrow> bool \<Rightarrow> mb_host \<times> unit res" where
  "mb_host_mount h name data writable =
    (case mb_fs_mount (ho_fs h) name data writable of (fs, r) \<Rightarrow> (h\<lparr>ho_fs := fs\<rparr>, r))"

definition mb_host_unmount :: "mb_host \<Rightarrow> bytes \<Rightarrow> mb_host \<times> bytes res" where
  "mb_host_unmount h name = (case mb_fs_unmount (ho_fs h) name of (fs, r) \<Rightarrow> (h\<lparr>ho_fs := fs\<rparr>, r))"

definition mb_host_mount_path :: "mb_host \<Rightarrow> bytes \<Rightarrow> host_FILE option \<Rightarrow> mb_host \<times> unit res" where
  "mb_host_mount_path h name fp = (case mb_fs_mount_path (ho_fs h) name fp of (fs, r) \<Rightarrow> (h\<lparr>ho_fs := fs\<rparr>, r))"

definition mb_host_mount_path_writable :: "mb_host \<Rightarrow> bytes \<Rightarrow> host_FILE option \<Rightarrow> mb_host \<times> unit res" where
  "mb_host_mount_path_writable h name fp =
    (case mb_fs_mount_path_writable (ho_fs h) name fp of (fs, r) \<Rightarrow> (h\<lparr>ho_fs := fs\<rparr>, r))"

end
