(* ===== verification/Mb_Host_State.thy ===== *)
theory Mb_Host_State
  imports Mb_Host_Life Mb_Delta
begin

text \<open>
  States and deltas of the whole machine (\<^verbatim>\<open>host.c\<close>): the program break, the ELF
  hash, the memory block, the thread set, the open files and the random stream,
  between magic strings; a state planned and filled while the guest runs; deltas
  written, applied and composed. What a save answers is what it hands the write
  callback, piece by piece.
\<close>

section \<open>The format\<close>

definition SAVE_START :: bytes where "SAVE_START = chars ''ActivatedWaterboxHost_v1''"

definition SAVE_END :: bytes where
  "SAVE_END = [0xcb, 0x87] @ chars ''soHxoq'' @ [0xc9, 0xaf, 0xc7, 0x9d, 0xca, 0x87, 0xc9, 0x90] @ chars ''Mp'' @
     [0xc7, 0x9d, 0xca, 0x87, 0xc9, 0x90, 0xca, 0x8c, 0xe1, 0xb4, 0x89, 0xca, 0x87, 0xc9, 0x94, 0xe2, 0x88, 0x80]"

definition FILES_MAGIC :: bytes where "FILES_MAGIC = chars ''OpenFileTable1''"

definition DELTA_START :: bytes where "DELTA_START = chars ''MiniBoxHostDelta_v1''"

definition files_save :: "mb_host \<Rightarrow> bytes list option" where
  "files_save h =
    map_option (\<lambda>cs. FILES_MAGIC # u64_bytes (ho_getrandom_state h) # cs) (mb_fs_save_handles (ho_fs h))"

definition head_chunks :: "mb_host \<Rightarrow> bytes list" where
  "head_chunks h =
    [SAVE_START, chars ''FileSystem'', chars ''FileSystemEnd'', u64_bytes (ho_program_break h), chars ''ElfLoader'',
     el_hash (ho_elf h)]"

text \<open>The thread set, the open files and the end; the thread set keeps the main
  thread's registers it stored.\<close>

definition tail_chunks :: "mb_host \<Rightarrow> (mb_host \<times> bytes list) option" where
  "tail_chunks h =
    do { (t, ts) \<leftarrow> mb_threads_save (ho_threads h) (ho_context h);
         fs \<leftarrow> files_save h;
         Some (h\<lparr>ho_threads := t\<rparr>, ts @ fs @ [SAVE_END]) }"

section \<open>Saving\<close>

definition save_body :: "mb_host \<Rightarrow> mb_host \<times> bytes list option" where
  "save_body h =
    (case mb_block_save_state (ho_block h) of
       Inl _ \<Rightarrow> (h, None)
     | Inr bs \<Rightarrow>
         (case tail_chunks h of
            None \<Rightarrow> (h, None)
          | Some (h1, ts) \<Rightarrow> (h1, Some (head_chunks h @ bs @ ts))))"

definition mb_host_save_state :: "host_env \<Rightarrow> mb_host \<Rightarrow> (mb_host \<times> bytes list option) option" where
  "mb_host_save_state H h = (if \<not> ho_sealed h then Some (h, None) else while_active H h save_body)"

section \<open>Loading\<close>

datatype load_error =
    Not_sealed | Bad_start_magic | Bad_fs_magic | Short_stream | Bad_elf_magic | Elf_mismatch | Block_load_failed
  | Threads_load_failed | Files_load_failed | Bad_end_magic | Bad_delta_magic | Delta_apply_failed

definition poison_half_loaded :: "mb_host \<Rightarrow> mb_host" where
  "poison_half_loaded h =
    (if \<not> bk_load_touched (ho_block h) then h else h\<lparr>ho_dead := True, ho_death := Some (Half_loaded, [])\<rparr>)"

definition files_load_then_end :: "host_env \<Rightarrow> mb_host \<Rightarrow> bytes \<Rightarrow> mb_host \<times> load_error option \<times> bytes" where
  "files_load_then_end H h s =
    (case take_bytes (length FILES_MAGIC) s of
       None \<Rightarrow> (h, Some Bad_end_magic, s)
     | Some (m, s1) \<Rightarrow>
         if m = FILES_MAGIC then
           (case take_u64 s1 of
              None \<Rightarrow> (h, Some Files_load_failed, s1)
            | Some (entropy, s2) \<Rightarrow>
                (case mb_fs_load_handles (he_alloc H) (ho_fs h) s2 of
                   None \<Rightarrow> (h, Some Files_load_failed, s2)
                 | Some (fs, _, s3) \<Rightarrow>
                     (let h1 = h\<lparr>ho_fs := fs, ho_getrandom_state := entropy\<rparr>
                      in case take_magic SAVE_END s3 of
                           None \<Rightarrow> (h1, Some Bad_end_magic, s3)
                         | Some s4 \<Rightarrow> (h1, None, s4))))
         else if m \<noteq> take (length FILES_MAGIC) SAVE_END then (h, Some Bad_end_magic, s1)
         else
           (case take_magic (drop (length FILES_MAGIC) SAVE_END) s1 of
              None \<Rightarrow> (h, Some Bad_end_magic, s1)
            | Some s2 \<Rightarrow> (h, None, s2)))"

text \<open>After the memory: the break, the thread set and the rest.\<close>

definition load_rest :: "host_env \<Rightarrow> u64 \<Rightarrow> mb_host \<Rightarrow> bytes \<Rightarrow> mb_host \<times> load_error option \<times> bytes" where
  "load_rest H brk h s =
    (let h1 = h\<lparr>ho_program_break := brk\<rparr>
     in case mb_threads_load (ho_threads h1) (ho_context h1) s of
          None \<Rightarrow>
            (case he_half H (ho_threads h1) (ho_context h1) s of
               (t, c) \<Rightarrow> (h1\<lparr>ho_threads := t, ho_context := c\<rparr>, Some Threads_load_failed, s))
        | Some ((t, c), s1) \<Rightarrow> files_load_then_end H (h1\<lparr>ho_threads := t, ho_context := c\<rparr>) s1)"

text \<open>What precedes the memory: the break it carries and the rest of the stream.\<close>

definition load_front :: "mb_host \<Rightarrow> bytes \<Rightarrow> load_error + u64 \<times> bytes" where
  "load_front h s =
    (case take_magic SAVE_START s of
       None \<Rightarrow> Inl Bad_start_magic
     | Some s1 \<Rightarrow>
         (case Option.bind (take_magic (chars ''FileSystem'') s1) (take_magic (chars ''FileSystemEnd'')) of
            None \<Rightarrow> Inl Bad_fs_magic
          | Some s2 \<Rightarrow>
              (case take_u64 s2 of
                 None \<Rightarrow> Inl Short_stream
               | Some (brk, s3) \<Rightarrow>
                   (case take_magic (chars ''ElfLoader'') s3 of
                      None \<Rightarrow> Inl Bad_elf_magic
                    | Some s4 \<Rightarrow>
                        (case take_bytes 32 s4 of
                           None \<Rightarrow> Inl Short_stream
                         | Some (elfhash, s5) \<Rightarrow>
                             if elfhash \<noteq> el_hash (ho_elf h) then Inl Elf_mismatch else Inr (brk, s5))))))"

definition load_body' :: "host_env \<Rightarrow> bool \<Rightarrow> mb_host \<Rightarrow> bytes \<Rightarrow> mb_host \<times> load_error option \<times> bytes" where
  "load_body' H heap h s =
    (case load_front h s of
       Inl e \<Rightarrow> (h, Some e, s)
     | Inr (brk, s1) \<Rightarrow>
         (case mb_block_load_state (he_os H) heap (ho_block h) s1 of
            (b, s2, Inl _) \<Rightarrow> (h\<lparr>ho_block := b\<rparr>, Some Block_load_failed, s2)
          | (b, s2, Inr _) \<Rightarrow> load_rest H brk (h\<lparr>ho_block := b\<rparr>) s2))"

definition load_active :: "host_env \<Rightarrow> bool \<Rightarrow> bytes \<Rightarrow> mb_host \<Rightarrow> mb_host \<times> load_error option" where
  "load_active H heap s h =
    (let h1 = (if ho_dead h then h\<lparr>ho_threads := mb_threads_reset_active (ho_threads h)\<rparr> else h);
         h2 = h1\<lparr>ho_block := (ho_block h1)\<lparr>bk_load_touched := False\<rparr>\<rparr>
     in case load_body' H heap h2 s of
          (h3, None, _) \<Rightarrow> (h3\<lparr>ho_dead := False, ho_death := None\<rparr>, None)
        | (h3, Some e, _) \<Rightarrow> (poison_half_loaded h3, Some e))"

definition mb_host_load_state :: "host_env \<Rightarrow> bool \<Rightarrow> mb_host \<Rightarrow> bytes \<Rightarrow> (mb_host \<times> load_error option) option" where
  "mb_host_load_state H heap h s =
    (if \<not> ho_sealed h then Some (h, Some Not_sealed) else while_active H h (load_active H heap s))"

section \<open>A state taken while the machine runs\<close>

text \<open>The surround goes through buffers of one mebibyte.\<close>

definition surround_room :: nat where "surround_room = 2 ^ 20"

definition host_state_surround :: "mb_host \<Rightarrow> mb_host \<times> bool" where
  "host_state_surround h =
    (let head = concat (head_chunks h)
     in if surround_room < length head then (h\<lparr>ho_plan_head := Some [], ho_plan_tail := []\<rparr>, False)
        else
          (let h1 = h\<lparr>ho_plan_head := Some head, ho_plan_tail := []\<rparr>
           in case tail_chunks h1 of
                None \<Rightarrow> (h1, False)
              | Some (h2, ts) \<Rightarrow>
                  if surround_room < length (concat ts) then (h2, False)
                  else (h2\<lparr>ho_plan_tail := concat ts\<rparr>, True)))"

definition size_body :: "mb_host \<Rightarrow> mb_host \<times> nat" where
  "size_body h =
    (case host_state_surround h of
       (h1, False) \<Rightarrow> (h1, 0)
     | (h1, True) \<Rightarrow>
         (let block = mb_block_state_size (ho_block h1)
          in (h1, if block \<noteq> 0 then length (the (ho_plan_head h1)) + block + length (ho_plan_tail h1) else 0)))"

definition mb_host_state_size :: "host_env \<Rightarrow> mb_host \<Rightarrow> (mb_host \<times> nat) option" where
  "mb_host_state_size H h = (if \<not> ho_sealed h then Some (h, 0) else while_active H h size_body)"

text \<open>
  The plan writes the head at the start of the caller's buffer; the rest of the
  buffer, from the head's end, is the block's plan buffer, and the tail is
  written behind the pages there.
\<close>

definition plan_body :: "host_env \<Rightarrow> bool \<Rightarrow> bytes \<Rightarrow> bytes \<Rightarrow> mb_host \<Rightarrow> mb_host \<times> nat" where
  "plan_body H room head dest h =
    (case mb_block_state_plan_within (he_os H) room (ho_block h) (Some (drop (length head) dest))
            (length dest - length head - length (ho_plan_tail h)) of
       (b, data_at) \<Rightarrow>
         if data_at = 0 then (h\<lparr>ho_block := b\<rparr>, 0)
         else
           (let block = data_at + mb_block_plan_count b * MB_PAGESIZE
            in (h\<lparr>ho_block := b\<lparr>bk_plan_dest := put_at (bk_plan_dest b) block (ho_plan_tail h)\<rparr>\<rparr>,
                length head + block + length (ho_plan_tail h))))"

definition mb_host_state_plan :: "host_env \<Rightarrow> bool \<Rightarrow> mb_host \<Rightarrow> bytes option \<Rightarrow> (mb_host \<times> nat) option" where
  "mb_host_state_plan H room h dest =
    (case dest of
       None \<Rightarrow> Some (h, 0)
     | Some d \<Rightarrow>
         (case ho_plan_head h of
            None \<Rightarrow> Some (h, 0)
          | Some head \<Rightarrow>
              if \<not> ho_sealed h \<or> length d < length head + length (ho_plan_tail h) then Some (h, 0)
              else while_active H h (plan_body H room head d)))"

definition mb_host_state_pages :: "mb_host \<Rightarrow> nat" where
  "mb_host_state_pages h = mb_block_plan_count (ho_block h)"

definition mb_host_state_fill :: "mb_host \<Rightarrow> nat \<Rightarrow> nat \<Rightarrow> mb_host \<times> nat" where
  "mb_host_state_fill h from to =
    (case mb_block_plan_fill (ho_block h) from to of (b, n) \<Rightarrow> (h\<lparr>ho_block := b\<rparr>, n))"

text \<open>The answer is the buffer behind the head, as the plan left it.\<close>

definition mb_host_state_finish :: "host_env \<Rightarrow> mb_host \<Rightarrow> (mb_host \<times> bytes res) option" where
  "mb_host_state_finish H h =
    while_active H h (\<lambda>h. case mb_block_plan_finish (he_os H) (ho_block h) of (b, r) \<Rightarrow> (h\<lparr>ho_block := b\<rparr>, r))"

section \<open>Epochs and deltas\<close>

definition epoch_begin_body :: "host_env \<Rightarrow> mb_host \<Rightarrow> mb_host \<times> bool" where
  "epoch_begin_body H h =
    (case mb_block_epoch_begin (he_os H) (ho_block h) of
       (b, Inl _) \<Rightarrow> (h\<lparr>ho_block := b\<rparr>, False)
     | (b, Inr _) \<Rightarrow>
         (let h1 = h\<lparr>ho_block := b, ho_epoch_brk := ho_program_break h, ho_epoch_threads := None\<rparr>
          in case mb_threads_save (ho_threads h1) (ho_context h1) of
               None \<Rightarrow> (h1, False)
             | Some (t, ts) \<Rightarrow>
                 (let h2 = h1\<lparr>ho_threads := t\<rparr>
                  in case files_save h2 of
                       None \<Rightarrow> (h2, False)
                     | Some fs \<Rightarrow> (h2\<lparr>ho_epoch_threads := Some (concat (ts @ fs))\<rparr>, True))))"

definition mb_host_epoch_begin :: "host_env \<Rightarrow> mb_host \<Rightarrow> (mb_host \<times> bool) option" where
  "mb_host_epoch_begin H h = (if \<not> ho_sealed h then Some (h, False) else while_active H h (epoch_begin_body H))"

definition delta_head :: "mb_host \<Rightarrow> u64 \<Rightarrow> bytes list" where
  "delta_head h brk = [DELTA_START, u64_bytes brk, el_hash (ho_elf h)]"

definition delta_save_body :: "host_env \<Rightarrow> bool \<Rightarrow> mb_host \<Rightarrow> mb_host \<times> bytes list option" where
  "delta_save_body H forward h =
    (case mb_block_delta_save (he_os H) (ho_block h) forward of
       (b, Inl _) \<Rightarrow> (h\<lparr>ho_block := b\<rparr>, None)
     | (b, Inr ds) \<Rightarrow>
         (let h1 = h\<lparr>ho_block := b\<rparr>;
              front = delta_head h (if forward then ho_program_break h else ho_epoch_brk h) @ ds
          in if forward then
               (case tail_chunks h1 of
                  None \<Rightarrow> (h1, None)
                | Some (h2, ts) \<Rightarrow> (h2, Some (front @ ts)))
             else (h1, Some (front @ [the (ho_epoch_threads h1), SAVE_END]))))"

definition mb_host_delta_save :: "host_env \<Rightarrow> bool \<Rightarrow> mb_host \<Rightarrow> (mb_host \<times> bytes list option) option" where
  "mb_host_delta_save H forward h =
    (if \<not> ho_sealed h \<or> \<not> forward \<and> ho_epoch_threads h = None then Some (h, None)
     else while_active H h (delta_save_body H forward))"

definition delta_front :: "mb_host \<Rightarrow> bytes \<Rightarrow> load_error + u64 \<times> bytes" where
  "delta_front h s =
    (case take_magic DELTA_START s of
       None \<Rightarrow> Inl Bad_delta_magic
     | Some s1 \<Rightarrow>
         (case take_u64 s1 of
            None \<Rightarrow> Inl Short_stream
          | Some (brk, s2) \<Rightarrow>
              (case take_bytes 32 s2 of
                 None \<Rightarrow> Inl Short_stream
               | Some (elfhash, s3) \<Rightarrow>
                   if elfhash \<noteq> el_hash (ho_elf h) then Inl Elf_mismatch else Inr (brk, s3))))"

definition delta_apply_body :: "host_env \<Rightarrow> bytes \<Rightarrow> mb_host \<Rightarrow> mb_host \<times> load_error option" where
  "delta_apply_body H s h =
    (let h1 = h\<lparr>ho_block := (ho_block h)\<lparr>bk_load_touched := False\<rparr>\<rparr>
     in case (case delta_front h1 s of
                Inl e \<Rightarrow> (h1, Some e, s)
              | Inr (brk, s1) \<Rightarrow>
                  (case mb_block_delta_apply (he_os H) (ho_block h1) s1 of
                     (b, s2, Inl _) \<Rightarrow> (h1\<lparr>ho_block := b\<rparr>, Some Delta_apply_failed, s2)
                   | (b, s2, Inr _) \<Rightarrow> load_rest H brk (h1\<lparr>ho_block := b\<rparr>) s2)) of
          (h2, None, _) \<Rightarrow> (h2\<lparr>ho_epoch_threads := None\<rparr>, None)
        | (h2, Some e, _) \<Rightarrow> (poison_half_loaded h2, Some e))"

definition mb_host_delta_apply :: "host_env \<Rightarrow> mb_host \<Rightarrow> bytes \<Rightarrow> (mb_host \<times> load_error option) option" where
  "mb_host_delta_apply H h s =
    (if \<not> ho_sealed h then Some (h, Some Not_sealed) else while_active H h (delta_apply_body H s))"

section \<open>Composing deltas\<close>

text \<open>The break and the machine's hash of a delta, and the rest of the stream.\<close>

definition take_stamp :: "bytes \<Rightarrow> (bytes \<times> bytes \<times> bytes) option" where
  "take_stamp s =
    do { s1 \<leftarrow> take_magic DELTA_START s;
         (brk, s2) \<leftarrow> take_bytes 8 s1;
         (hash, s3) \<leftarrow> take_bytes 32 s2;
         Some (brk, hash, s3) }"

definition mb_host_delta_compose :: "bool \<Rightarrow> bytes \<Rightarrow> bytes \<Rightarrow> bytes list option" where
  "mb_host_delta_compose heap sa sb =
    do { (_, hash_a, a) \<leftarrow> take_stamp sa;
         (brk_b, hash_b, b) \<leftarrow> take_stamp sb;
         if hash_a \<noteq> hash_b then None
         else
           (case (mb_block_delta_compose heap a b, parts_read heap b) of
              (Inr cs, Inr (_, rest)) \<Rightarrow> Some ([DELTA_START, brk_b, hash_b] @ cs @ [rest])
            | _ \<Rightarrow> None) }"

definition mb_host_delta_compose_mem :: "bytes \<Rightarrow> bytes \<Rightarrow> bytes list option" where
  "mb_host_delta_compose_mem abuf bbuf =
    (let head = length DELTA_START; stamp = 8 + 32;
         ap = drop head abuf; bp = drop head bbuf
     in if length abuf < head + stamp \<or> length bbuf < head + stamp \<or> take head abuf \<noteq> DELTA_START \<or> take head bbuf \<noteq> DELTA_START
        then None
        else if take 32 (drop 8 ap) \<noteq> take 32 (drop 8 bp) then None
        else
          (case mb_block_delta_compose_mem (drop stamp ap) (drop stamp bp) of
             Inl _ \<Rightarrow> None
           | Inr (cs, used) \<Rightarrow>
               Some ([DELTA_START, take 8 bp, take 32 (drop 8 bp)] @ cs @ [drop used (drop stamp bp)])))"

definition mb_host_epoch_page_count :: "mb_host \<Rightarrow> nat" where
  "mb_host_epoch_page_count h = mb_block_epoch_page_count (ho_block h)"

end
