(* ===== verification/Mb_Elf_Props.thy ===== *)
theory Mb_Elf_Props
  imports Mb_Elf Mb_Demo
begin

text \<open>
  The check of an image never reads outside it, and an image it accepts is
  loaded without a read outside it: \<open>image_ok\<close> is what the check establishes.
\<close>

section \<open>Verdicts\<close>

lemma image_at_in: "off + n \<le> length img \<Longrightarrow> image_at img off n = Some (take n (drop off img))"
  by (simp add: image_at_def)

lemma and_then_None: "and_then r s = None \<longleftrightarrow> r = None \<or> r = Some None \<and> s = None"
  by (auto simp: and_then_def split: option.splits)

lemma and_then_ok: "and_then r s = Some None \<longleftrightarrow> r = Some None \<and> s = Some None"
  by (auto simp: and_then_def split: option.splits)

lemma check_each_ok: "check_each f is = Some None \<longleftrightarrow> (\<forall>i\<in>set is. f i = Some None)"
  by (induction "is") (auto simp: and_then_ok)

lemma check_each_reads: "(\<And>i. i \<in> set is \<Longrightarrow> f i \<noteq> None) \<Longrightarrow> check_each f is \<noteq> None"
  by (induction "is") (auto simp: and_then_None)

lemma each_opt_reads: "(\<And>x s. x \<in> set xs \<Longrightarrow> f x s \<noteq> None) \<Longrightarrow> each_opt f xs s \<noteq> None"
proof (induction xs arbitrary: s)
  case (Cons x xs)
  have "f x s \<noteq> None" using Cons.prems by simp
  then obtain s' where "f x s = Some s'" by auto
  then show ?case using Cons.IH [of s'] Cons.prems by simp
qed simp

lemma unat_ucast_16 [simp]: "unat (ucast (a :: u16) :: u64) = unat a"
proof -
  have "unat a < 2 ^ LENGTH(16)" by (rule unsigned_less)
  then have "unat a < 2 ^ 64" by (rule order.strict_trans) simp
  then show ?thesis by (simp add: unsigned_ucast_eq take_bit_nat_eq_self)
qed

lemma unat_ucast_mult: "unat (ucast (a :: u16) * ucast (b :: u16) :: u64) = unat a * unat b"
proof -
  have "unat a < 65536" "unat b < 65536" using unsigned_less [of a] unsigned_less [of b] by simp_all
  then have "unat a * unat b < 65536 * 65536" by (intro mult_strict_mono) simp_all
  then show ?thesis by (simp add: unat_word_ariths)
qed

lemma unat_ucast_64: "unat (ucast (a :: u16) * 64 :: u64) = unat a * 64"
proof -
  have "unat a < 65536" using unsigned_less [of a] by simp
  then show ?thesis by (simp add: unat_word_ariths)
qed

lemma bind_reads: "m \<noteq> None \<Longrightarrow> (\<And>x. f x \<noteq> None) \<Longrightarrow> m \<bind> f \<noteq> None"
  by (cases m) simp_all

section \<open>What the check establishes\<close>

definition headers_ok :: "bytes \<Rightarrow> Elf64_Ehdr \<Rightarrow> bool" where
  "headers_ok img eh \<longleftrightarrow>
     (e_phnum eh \<noteq> 0 \<longrightarrow> PHDR_SIZE \<le> unat (e_phentsize eh) \<and>
        unat (e_phoff eh) + unat (e_phnum eh) * unat (e_phentsize eh) \<le> length img) \<and>
     unat (e_shoff eh) + unat (e_shnum eh) * SHDR_SIZE \<le> length img \<and> e_shstrndx eh < e_shnum eh"

definition bounded :: "bytes \<Rightarrow> Elf64_Shdr \<Rightarrow> bool" where
  "bounded img s \<longleftrightarrow> sh_type s \<noteq> SHT_NOBITS \<longrightarrow> unat (sh_offset s) + unat (sh_size s) \<le> length img"

definition table_ok :: "bytes \<Rightarrow> Elf64_Shdr \<Rightarrow> bool" where
  "table_ok img s \<longleftrightarrow> unat (sh_offset s) + unat (sh_size s) \<le> length img \<and> 0 < unat (sh_size s) \<and>
     img ! (unat (sh_offset s) + unat (sh_size s) - 1) = 0"

lemma check_headers_reads: "check_headers img eh \<noteq> None"
  by (simp add: check_headers_def bad_if_def)

lemma check_headers_ok: "check_headers img eh = Some None \<Longrightarrow> headers_ok img eh \<and> is_elf64 eh"
  by (auto simp: check_headers_def headers_ok_def bad_if_def within_def unat_ucast_mult unat_ucast_64 SHDR_SIZE_def
      not_less not_le split: if_splits)

lemma shdr_in: "headers_ok img eh \<Longrightarrow> i < unat (e_shnum eh) \<Longrightarrow> \<exists>s. shdr_at img eh i = Some s"
proof -
  assume h: "headers_ok img eh" "i < unat (e_shnum eh)"
  have "Suc i * SHDR_SIZE \<le> unat (e_shnum eh) * SHDR_SIZE" using h(2) by (intro mult_le_mono1) simp
  then show ?thesis using h(1) by (simp add: headers_ok_def shdr_at_def image_at_in)
qed

lemma phdr_in: "headers_ok img eh \<Longrightarrow> i < unat (e_phnum eh) \<Longrightarrow> \<exists>p. phdr_at img eh i = Some p"
proof -
  assume h: "headers_ok img eh" "i < unat (e_phnum eh)"
  have "Suc i * unat (e_phentsize eh) \<le> unat (e_phnum eh) * unat (e_phentsize eh)" using h(2) by (intro mult_le_mono1) simp
  moreover have "e_phnum eh \<noteq> 0" using h(2) by auto
  ultimately show ?thesis using h(1) by (simp add: headers_ok_def phdr_at_def image_at_in)
qed

lemma sym_in:
  "unat (sh_offset s) + unat (sh_size s) \<le> length img \<Longrightarrow> k < unat (sh_size s) div SYM_SIZE \<Longrightarrow> \<exists>y. sym_at img s k = Some y"
proof -
  assume h: "unat (sh_offset s) + unat (sh_size s) \<le> length img" "k < unat (sh_size s) div SYM_SIZE"
  have "Suc k * SYM_SIZE \<le> unat (sh_size s) div SYM_SIZE * SYM_SIZE" using h(2) by (intro mult_le_mono1) simp
  also have "\<dots> \<le> unat (sh_size s)" by (rule div_times_less_eq_dividend)
  finally show ?thesis using h(1) by (simp add: sym_at_def image_at_in)
qed

lemma strings_end_in:
  assumes "length img < 2 ^ 64" "bounded img s"
  shows "strings_end img s \<noteq> None" "strings_end img s = Some True \<Longrightarrow> table_ok img s"
proof -
  consider "sh_type s = SHT_NOBITS \<or> sh_size s = 0" | "sh_type s \<noteq> SHT_NOBITS" "sh_size s \<noteq> 0" by blast
  then have "strings_end img s \<noteq> None \<and> (strings_end img s = Some True \<longrightarrow> table_ok img s)"
  proof cases
    case 2
    have b: "unat (sh_offset s) + unat (sh_size s) \<le> length img" using assms(2) 2 by (simp add: bounded_def)
    have p: "0 < unat (sh_size s)" using 2(2) by (simp add: unat_gt_0)
    have "unat (sh_offset s + (sh_size s - 1)) = unat (sh_offset s) + (unat (sh_size s) - 1)"
      using b p assms(1) by (subst unat_plus_simple [THEN iffD1]) (simp_all add: unat_minus_one 2 word_le_nat_alt unat_word_ariths)
    then have u: "unat (sh_offset s + sh_size s - 1) = unat (sh_offset s) + unat (sh_size s) - 1"
      using p by (simp add: algebra_simps)
    have t: "take 1 (drop i img) = [img ! i]" if "i < length img" for i
      using that by (simp add: take_Suc_conv_app_nth)
    have i: "unat (sh_offset s) + unat (sh_size s) - 1 < length img" using b p by linarith
    show ?thesis using 2 b p i t [OF i] by (auto simp: strings_end_def u image_at_in table_ok_def)
  qed (auto simp: strings_end_def)
  then show "strings_end img s \<noteq> None" "strings_end img s = Some True \<Longrightarrow> table_ok img s" by blast+
qed

lemma string_in: "table_ok img s \<Longrightarrow> k < unat (sh_size s) \<Longrightarrow> \<exists>n. string_at img (unat (sh_offset s) + k) = Some n"
proof -
  assume h: "table_ok img s" "k < unat (sh_size s)"
  let ?i = "unat (sh_offset s) + unat (sh_size s) - 1"
  have "img ! ?i = drop (unat (sh_offset s) + k) img ! (unat (sh_size s) - 1 - k)"
    using h by (simp add: table_ok_def)
  moreover have "unat (sh_size s) - 1 - k < length (drop (unat (sh_offset s) + k) img)"
    using h by (auto simp: table_ok_def)
  ultimately have "img ! ?i \<in> set (drop (unat (sh_offset s) + k) img)" by (simp only: nth_mem)
  then show ?thesis using h by (simp add: string_at_def table_ok_def)
qed

definition sections_ok :: "bytes \<Rightarrow> Elf64_Ehdr \<Rightarrow> bool" where
  "sections_ok img eh \<longleftrightarrow> (\<forall>i<unat (e_shnum eh). \<forall>s. shdr_at img eh i = Some s \<longrightarrow>
     bounded img s \<and> (sh_type s = SHT_SYMTAB \<longrightarrow> unat (sh_link s) < unat (e_shnum eh)))"

definition symtab_ok :: "bytes \<Rightarrow> Elf64_Ehdr \<Rightarrow> Elf64_Shdr \<Rightarrow> bool" where
  "symtab_ok img eh s \<longleftrightarrow> (\<exists>strings. shdr_at img eh (unat (sh_link s)) = Some strings \<and> table_ok img strings \<and>
     (\<forall>k<unat (sh_size s) div SYM_SIZE. \<exists>y. sym_at img s k = Some y \<and> unat (st_name y) < unat (sh_size strings)))"

definition tables_ok :: "bytes \<Rightarrow> Elf64_Ehdr \<Rightarrow> bool" where
  "tables_ok img eh \<longleftrightarrow> (\<exists>names. shdr_at img eh (unat (e_shstrndx eh)) = Some names \<and> table_ok img names \<and>
     (\<forall>i<unat (e_shnum eh). \<exists>s. shdr_at img eh i = Some s \<and> unat (sh_name s) < unat (sh_size names) \<and>
        (sh_type s = SHT_SYMTAB \<longrightarrow> symtab_ok img eh s)))"

definition segments_ok :: "bytes \<Rightarrow> Elf64_Ehdr \<Rightarrow> bool" where
  "segments_ok img eh \<longleftrightarrow> (\<forall>i<unat (e_phnum eh). \<exists>p. phdr_at img eh i = Some p \<and>
     (p_type p = PT_LOAD \<longrightarrow> unat (p_offset p) + unat (p_filesz p) \<le> length img \<and> p_filesz p \<le> p_memsz p \<and>
        p_vaddr p \<le> p_vaddr p + p_memsz p))"

lemma check_section_in:
  assumes "headers_ok img eh" "i < unat (e_shnum eh)"
  shows "check_section img eh i \<noteq> None"
    "check_section img eh i = Some None \<Longrightarrow> shdr_at img eh i = Some s \<Longrightarrow>
       bounded img s \<and> (sh_type s = SHT_SYMTAB \<longrightarrow> unat (sh_link s) < unat (e_shnum eh))"
  using shdr_in [OF assms] by (auto simp: check_section_def bad_if_def bounded_def within_def not_le split: if_splits)

lemma sections_in:
  assumes "headers_ok img eh"
  shows "check_each (check_section img eh) [0..<unat (e_shnum eh)] \<noteq> None"
    "check_each (check_section img eh) [0..<unat (e_shnum eh)] = Some None \<Longrightarrow> sections_ok img eh"
proof -
  show "check_each (check_section img eh) [0..<unat (e_shnum eh)] \<noteq> None"
    by (rule check_each_reads) (simp add: check_section_in(1) [OF assms] del: not_None_eq)
qed (use check_section_in(2) [OF assms] in \<open>auto simp: check_each_ok sections_ok_def\<close>)

lemma check_symtab_in:
  assumes l: "length img < 2 ^ 64" and h: "headers_ok img eh" "sections_ok img eh"
    and s: "shdr_at img eh i = Some s" "i < unat (e_shnum eh)" "sh_type s = SHT_SYMTAB"
  shows "check_symtab img eh s \<noteq> None" "check_symtab img eh s = Some None \<Longrightarrow> symtab_ok img eh s"
proof -
  have s': "unat (sh_link s) < unat (e_shnum eh)" "unat (sh_offset s) + unat (sh_size s) \<le> length img"
    using h(2) s by (auto simp: sections_ok_def bounded_def SHT_SYMTAB_def SHT_NOBITS_def)
  obtain st where st: "shdr_at img eh (unat (sh_link s)) = Some st" using shdr_in [OF h(1) s'(1)] by blast
  have b: "bounded img st" using h(2) s'(1) st by (auto simp: sections_ok_def)
  note e = strings_end_in [OF l b]
  obtain ok where ok: "strings_end img st = Some ok" using e(1) by blast
  have y: "check_symbol img s st k \<noteq> None \<and> (check_symbol img s st k = Some None \<longrightarrow>
      (\<exists>y. sym_at img s k = Some y \<and> unat (st_name y) < unat (sh_size st)))"
    if "k < unat (sh_size s) div SYM_SIZE" for k
    using sym_in [OF s'(2) that] by (auto simp: check_symbol_def bad_if_def not_le split: if_splits)
  then have r: "check_each (check_symbol img s st) [0..<unat (sh_size s) div SYM_SIZE] \<noteq> None"
    by (intro check_each_reads) simp
  show "check_symtab img eh s \<noteq> None" using st ok r by (simp add: check_symtab_def)
  show "symtab_ok img eh s" if "check_symtab img eh s = Some None"
    using that st ok e y by (auto simp: check_symtab_def symtab_ok_def check_each_ok split: if_splits)
qed

lemma check_tables_in:
  assumes l: "length img < 2 ^ 64" and h: "headers_ok img eh" "sections_ok img eh"
  shows "check_tables img eh \<noteq> None" "check_tables img eh = Some None \<Longrightarrow> tables_ok img eh"
proof -
  have k: "unat (e_shstrndx eh) < unat (e_shnum eh)" using h(1) by (simp add: headers_ok_def word_less_nat_alt)
  obtain names where n: "shdr_at img eh (unat (e_shstrndx eh)) = Some names" using shdr_in [OF h(1) k] by blast
  have b: "bounded img names" using h(2) k n by (auto simp: sections_ok_def)
  note e = strings_end_in [OF l b]
  obtain ok where ok: "strings_end img names = Some ok" using e(1) by blast
  have c: "check_names img eh names i \<noteq> None \<and> (check_names img eh names i = Some None \<longrightarrow>
      (\<exists>s. shdr_at img eh i = Some s \<and> unat (sh_name s) < unat (sh_size names) \<and> (sh_type s = SHT_SYMTAB \<longrightarrow> symtab_ok img eh s)))"
    if i: "i < unat (e_shnum eh)" for i
  proof -
    obtain s where s: "shdr_at img eh i = Some s" using shdr_in [OF h(1) i] by blast
    show ?thesis using s check_symtab_in [OF l h s i] by (auto simp: check_names_def not_le split: if_splits)
  qed
  then have r: "check_each (check_names img eh names) [0..<unat (e_shnum eh)] \<noteq> None"
    by (intro check_each_reads) simp
  show "check_tables img eh \<noteq> None" using n ok r by (simp add: check_tables_def)
  show "tables_ok img eh" if "check_tables img eh = Some None"
    using that n ok e c by (auto simp: check_tables_def tables_ok_def check_each_ok split: if_splits)
qed

lemma segments_in:
  assumes h: "headers_ok img eh"
  shows "check_each (check_segment img eh) [0..<unat (e_phnum eh)] \<noteq> None"
    "check_each (check_segment img eh) [0..<unat (e_phnum eh)] = Some None \<Longrightarrow> segments_ok img eh"
proof -
  have c: "check_segment img eh i \<noteq> None \<and> (check_segment img eh i = Some None \<longrightarrow> (\<exists>p. phdr_at img eh i = Some p \<and>
     (p_type p = PT_LOAD \<longrightarrow> unat (p_offset p) + unat (p_filesz p) \<le> length img \<and> p_filesz p \<le> p_memsz p \<and>
        p_vaddr p \<le> p_vaddr p + p_memsz p)))" if "i < unat (e_phnum eh)" for i
    using phdr_in [OF h that] by (auto simp: check_segment_def bad_if_def within_def not_le not_less split: if_splits)
  then show "check_each (check_segment img eh) [0..<unat (e_phnum eh)] \<noteq> None" by (intro check_each_reads) simp
  show "segments_ok img eh" if "check_each (check_segment img eh) [0..<unat (e_phnum eh)] = Some None"
    using that c by (auto simp: check_each_ok segments_ok_def)
qed

definition image_ok :: "bytes \<Rightarrow> Elf64_Ehdr \<Rightarrow> bool" where
  "image_ok img eh \<longleftrightarrow> ehdr_at img = Some eh \<and> EHDR_SIZE \<le> length img \<and> is_elf64 eh \<and> headers_ok img eh \<and>
     sections_ok img eh \<and> tables_ok img eh \<and> segments_ok img eh"

lemma elf_check_in:
  assumes "length img < 2 ^ 64"
  shows "mb_elf_check img \<noteq> None" "mb_elf_check img = Some None \<Longrightarrow> \<exists>eh. image_ok img eh"
proof -
  have "mb_elf_check img \<noteq> None \<and> (mb_elf_check img = Some None \<longrightarrow> (\<exists>eh. image_ok img eh))"
  proof (cases "length img < EHDR_SIZE")
    case False
    then obtain eh where eh: "ehdr_at img = Some eh" by (simp add: ehdr_at_def image_at_in)
    show ?thesis
      using False eh check_headers_reads [of img eh] check_headers_ok [of img eh] sections_in [of img eh]
        check_tables_in [OF assms, of eh] segments_in [of img eh]
      unfolding mb_elf_check_def image_ok_def by (auto simp: and_then_None and_then_ok)
  qed (simp add: mb_elf_check_def)
  then show "mb_elf_check img \<noteq> None" "mb_elf_check img = Some None \<Longrightarrow> \<exists>eh. image_ok img eh" by blast+
qed

section \<open>An accepted image\<close>

lemma span_in:
  assumes "image_ok img eh"
  shows "mb_elf_span img \<noteq> None"
proof -
  have "each_opt (span_step img eh) [0..<unat (e_phnum eh)] s \<noteq> None" for s
  proof (rule each_opt_reads)
    show "span_step img eh i s' \<noteq> None" if "i \<in> set [0..<unat (e_phnum eh)]" for i s'
      using phdr_in [of img eh i] that assms by (auto simp: span_step_def image_ok_def split: prod.split)
  qed
  then have "each_opt (span_step img eh) [0..<unat (e_phnum eh)] s \<bind> (\<lambda>(lo, hi). Some \<lparr>rg_start = lo, rg_size = hi - lo\<rparr>) \<noteq> None" for s
    by (intro bind_reads) (auto split: prod.split)
  then show ?thesis using assms by (simp add: mb_elf_span_def image_ok_def del: not_None_eq)
qed

definition syms_ok :: "bytes \<Rightarrow> elf_tables \<Rightarrow> bool" where
  "syms_ok img tb \<longleftrightarrow> (\<forall>y st. snd tb = Some (y, st) \<longrightarrow> table_ok img st \<and>
     (\<forall>k<unat (sh_size y) div SYM_SIZE. \<exists>e. sym_at img y k = Some e \<and> unat (st_name e) < unat (sh_size st)))"

lemma load_section_in:
  assumes "image_ok img eh" "shdr_at img eh (unat (e_shstrndx eh)) = Some shstr" "i < unat (e_shnum eh)" "syms_ok img tb"
  shows "\<exists>tb'. load_section img eh shstr i tb = Some tb' \<and> syms_ok img tb'"
proof -
  obtain s where s: "shdr_at img eh i = Some s" "unat (sh_name s) < unat (sh_size shstr)" "table_ok img shstr"
    "sh_type s = SHT_SYMTAB \<Longrightarrow> symtab_ok img eh s"
    using assms by (auto simp: image_ok_def tables_ok_def)
  obtain n where n: "string_at img (unat (sh_offset shstr) + unat (sh_name s)) = Some n" using string_in [OF s(3,2)] by blast
  show ?thesis
  proof (cases "sh_type s = SHT_SYMTAB")
    case True
    then show ?thesis using s n by (cases tb) (auto simp: load_section_def symtab_ok_def syms_ok_def)
  next
    case False
    then show ?thesis using s n assms(4) by (cases tb) (auto simp: load_section_def syms_ok_def)
  qed
qed

lemma each_opt_inv:
  assumes "\<And>x s. x \<in> set xs \<Longrightarrow> P s \<Longrightarrow> \<exists>s'. f x s = Some s' \<and> P s'" "P s"
  shows "\<exists>s'. each_opt f xs s = Some s' \<and> P s'"
  using assms
proof (induction xs arbitrary: s)
  case (Cons x xs)
  obtain s' where "f x s = Some s'" "P s'" using Cons.prems by fastforce
  then show ?case using Cons.IH [of s'] Cons.prems(1) by simp
qed simp

lemma load_symbol_in:
  assumes "table_ok img st" "sym_at img y k = Some e" "unat (st_name e) < unat (sh_size st)"
  shows "load_symbol img y st k x \<noteq> None"
  using string_in [OF assms(1,3)] assms(2) by (auto simp: load_symbol_def split: prod.split)

lemma load_tables_in:
  assumes "image_ok img eh"
  shows "load_tables img eh \<noteq> None"
proof -
  have "unat (e_shstrndx eh) < unat (e_shnum eh)" using assms by (simp add: image_ok_def headers_ok_def word_less_nat_alt)
  then obtain shstr where s: "shdr_at img eh (unat (e_shstrndx eh)) = Some shstr"
    using shdr_in [of img eh] assms by (auto simp: image_ok_def)
  have "syms_ok img ([], None)" by (simp add: syms_ok_def)
  then obtain tb where tb: "each_opt (load_section img eh shstr) [0..<unat (e_shnum eh)] ([], None) = Some tb" "syms_ok img tb"
    using each_opt_inv [of "[0..<unat (e_shnum eh)]" "syms_ok img" "load_section img eh shstr" "([], None)"]
      load_section_in [OF assms s] by auto
  obtain secs sy where t: "tb = (secs, sy)" by (cases tb)
  show ?thesis
  proof (cases sy)
    case None
    then show ?thesis using s tb t by (simp add: load_tables_def)
  next
    case (Some p)
    obtain y st where p: "p = (y, st)" by (cases p)
    have "each_opt (load_symbol img y st) [0..<unat (sh_size y) div SYM_SIZE] x \<noteq> None" for x
      by (rule each_opt_reads) (use tb(2) t Some p load_symbol_in [of img st y] in \<open>force simp: syms_ok_def\<close>)
    then have "each_opt (load_symbol img y st) [0..<unat (sh_size y) div SYM_SIZE] x \<bind> (\<lambda>(e, a). Some (secs, e, a)) \<noteq> None" for x
      by (intro bind_reads) (auto split: prod.split)
    then show ?thesis using s tb t Some p by (simp add: load_tables_def del: not_None_eq)
  qed
qed

lemma load_segment_in:
  assumes "image_ok img eh" "i < unat (e_phnum eh)"
  shows "load_segment E img eh i x \<noteq> None"
proof -
  obtain p where p: "phdr_at img eh i = Some p"
    "p_type p = PT_LOAD \<Longrightarrow> unat (p_offset p) + unat (p_filesz p) \<le> length img"
    using assms by (auto simp: image_ok_def segments_ok_def)
  then show ?thesis by (auto simp: load_segment_def put_segment_def Let_def image_at_in split: prod.split)
qed

lemma image_hash_some: "length buf = 64 \<Longrightarrow> image_hash buf img = Some (sha256 img)"
  using sha_ctx_update [OF sha_ctx_init, of buf img] mb_sha256_final_ctx by (force simp: image_hash_def)

lemma load_in:
  assumes ok: "image_ok img eh" and h: "length buf = 64"
  shows "mb_elf_load E buf img layout b \<noteq> None"
proof -
  have seg: "each_opt (load_segment E img eh) [0..<unat (e_phnum eh)] x \<noteq> None" for x
    by (rule each_opt_reads) (use load_segment_in [OF ok] in simp)
  have img: "load_image E buf img eh layout secs exps area b' \<noteq> None" for secs exps area b'
    unfolding load_image_def using image_hash_some [OF h]
    by (intro bind_reads seg) (auto split: prod.split)
  have "load_tables img eh \<bind> (\<lambda>(secs, exps, area). case mark_invis E secs b of None \<Rightarrow> Some (b, None)
      | Some b1 \<Rightarrow> load_image E buf img eh layout secs exps area b1) \<noteq> None"
    using img by (intro bind_reads load_tables_in [OF ok]) (simp split: prod.split option.split)
  then show ?thesis using ok by (simp add: mb_elf_load_def image_ok_def not_less del: not_None_eq)
qed

text \<open>
  C14: The check of an image never reads outside the image, whatever the image
  holds; and for an image it accepts, neither the span nor the load reads
  outside it: every header, section, string, symbol and segment they follow
  lies inside.
\<close>

theorem elf_reads_inside:
  assumes "length img < 2 ^ 64"
  shows "mb_elf_check img \<noteq> None \<and>
    (mb_elf_check img = Some None \<longrightarrow> mb_elf_span img \<noteq> None \<and>
       (\<forall>E buf layout b. length buf = 64 \<longrightarrow> mb_elf_load E buf img layout b \<noteq> None))"
  using elf_check_in [OF assms] span_in load_in by blast

text \<open>An image with one section (its own name table) and one segment.\<close>

definition ehdr_bytes :: "Elf64_Ehdr \<Rightarrow> bytes" where
  "ehdr_bytes e = e_ident e @ u16_bytes (e_type e) @ u16_bytes (e_machine e) @ u32_bytes (e_version e) @
     u64_bytes (e_entry e) @ u64_bytes (e_phoff e) @ u64_bytes (e_shoff e) @ u32_bytes (e_flags e) @ u16_bytes (e_ehsize e) @
     u16_bytes (e_phentsize e) @ u16_bytes (e_phnum e) @ u16_bytes (e_shentsize e) @ u16_bytes (e_shnum e) @ u16_bytes (e_shstrndx e)"

definition phdr_bytes :: "Elf64_Phdr \<Rightarrow> bytes" where
  "phdr_bytes p = u32_bytes (p_type p) @ u32_bytes (p_flags p) @ u64_bytes (p_offset p) @ u64_bytes (p_vaddr p) @
     u64_bytes (p_paddr p) @ u64_bytes (p_filesz p) @ u64_bytes (p_memsz p) @ u64_bytes (p_align p)"

definition shdr_bytes :: "Elf64_Shdr \<Rightarrow> bytes" where
  "shdr_bytes s = u32_bytes (sh_name s) @ u32_bytes (sh_type s) @ u64_bytes (sh_flags s) @ u64_bytes (sh_addr s) @
     u64_bytes (sh_offset s) @ u64_bytes (sh_size s) @ u32_bytes (sh_link s) @ u32_bytes (sh_info s) @
     u64_bytes (sh_addralign s) @ u64_bytes (sh_entsize s)"

lemma ehdr_of_bytes: "length (e_ident e) = 16 \<Longrightarrow> ehdr_of (ehdr_bytes e) = e"
  by (simp add: ehdr_of_def ehdr_bytes_def field_def)

lemma phdr_of_bytes: "phdr_of (phdr_bytes p) = p"
  by (simp add: phdr_of_def phdr_bytes_def field_def)

lemma shdr_of_bytes: "shdr_of (shdr_bytes s) = s"
  by (simp add: shdr_of_def shdr_bytes_def field_def)

definition demo_ehdr :: Elf64_Ehdr where
  "demo_ehdr = \<lparr>e_ident = [0x7f, 0x45, 0x4c, 0x46, 2, 0, 0, 0, 0, 0, 0, 0, 0, 0, 0, 0], e_type = 2, e_machine = 62,
     e_version = 1, e_entry = 0x100000000, e_phoff = 64, e_shoff = 120, e_flags = 0, e_ehsize = 64, e_phentsize = 56,
     e_phnum = 1, e_shentsize = 64, e_shnum = 1, e_shstrndx = 0\<rparr>"

definition demo_phdr :: Elf64_Phdr where
  "demo_phdr = \<lparr>p_type = 1, p_flags = 5, p_offset = 184, p_vaddr = 0x100000000, p_paddr = 0, p_filesz = 1,
     p_memsz = 1, p_align = 0\<rparr>"

definition demo_shdr :: Elf64_Shdr where
  "demo_shdr = \<lparr>sh_name = 0, sh_type = 3, sh_flags = 0, sh_addr = 0, sh_offset = 184, sh_size = 1, sh_link = 0,
     sh_info = 0, sh_addralign = 0, sh_entsize = 0\<rparr>"

definition demo_image :: bytes where
  "demo_image = ehdr_bytes demo_ehdr @ phdr_bytes demo_phdr @ shdr_bytes demo_shdr @ [0]"

lemma demo_lengths: "length (ehdr_bytes demo_ehdr) = 64" "length (phdr_bytes p) = 56" "length (shdr_bytes s) = 64"
  by (simp_all add: ehdr_bytes_def phdr_bytes_def shdr_bytes_def demo_ehdr_def)

lemma demo_at: "ehdr_at demo_image = Some demo_ehdr" "phdr_at demo_image demo_ehdr 0 = Some demo_phdr"
  "shdr_at demo_image demo_ehdr 0 = Some demo_shdr" "image_at demo_image 184 1 = Some [0]" "length demo_image = 185"
proof -
  have "unat (e_phoff demo_ehdr) = 64" "unat (e_shoff demo_ehdr) = 120" by (simp_all add: demo_ehdr_def)
  then show "ehdr_at demo_image = Some demo_ehdr" "phdr_at demo_image demo_ehdr 0 = Some demo_phdr"
    "shdr_at demo_image demo_ehdr 0 = Some demo_shdr" "image_at demo_image 184 1 = Some [0]" "length demo_image = 185"
    using ehdr_of_bytes [of demo_ehdr]
    by (simp_all add: ehdr_at_def phdr_at_def shdr_at_def image_at_def demo_image_def demo_lengths EHDR_SIZE_def
        PHDR_SIZE_def SHDR_SIZE_def phdr_of_bytes shdr_of_bytes) (simp_all add: demo_ehdr_def)
qed

lemma demo_image_accepted: "mb_elf_check demo_image = Some None"
proof -
  have n: "unat (e_shnum demo_ehdr) = 1" "unat (e_phnum demo_ehdr) = 1" "unat (e_shstrndx demo_ehdr) = 0"
    by (simp_all add: demo_ehdr_def)
  have "check_headers demo_image demo_ehdr = Some None"
    by (simp add: check_headers_def is_elf64_def bad_if_def within_def demo_at unat_ucast_mult unat_ucast_64 SHDR_SIZE_def PHDR_SIZE_def)
      (simp add: demo_ehdr_def)
  moreover have "check_section demo_image demo_ehdr 0 = Some None" "check_names demo_image demo_ehdr demo_shdr 0 = Some None"
    "strings_end demo_image demo_shdr = Some True" "check_segment demo_image demo_ehdr 0 = Some None"
    using demo_at(4)
    by (simp_all add: check_section_def check_names_def check_segment_def strings_end_def demo_at bad_if_def within_def
        demo_shdr_def demo_phdr_def SHT_NOBITS_def SHT_SYMTAB_def PT_LOAD_def)
  ultimately show ?thesis
    by (simp add: mb_elf_check_def demo_at EHDR_SIZE_def n and_then_ok check_tables_def)
qed

definition demo_layout :: mb_layout where
  "demo_layout = (let r = \<lambda>a n. \<lparr>rg_start = a, rg_size = n\<rparr>
     in \<lparr>ly_elf = r 0x100000000 0x1000, ly_main_thread = r 0x100001000 0x1000, ly_alt_thread = r 0x100002000 0,
         ly_sbrk = r 0x100002000 0, ly_sealed = r 0x100002000 0, ly_invis = r 0x100002000 0, ly_plain = r 0x100002000 0,
         ly_mmap_arena = r 0x100002000 0\<rparr>)"

theorem elf_reads_inside_witness:
  "mb_elf_check demo_image = Some None \<and> mb_elf_span demo_image \<noteq> None \<and>
     mb_elf_load demo_env (replicate 64 0) demo_image demo_layout demo_active \<noteq> None"
  using elf_reads_inside [of demo_image] demo_image_accepted by (simp add: demo_at del: not_None_eq)

end
