(* ===== verification/Mb_Host_Trip.thy ===== *)
theory Mb_Host_Trip
  imports Mb_Host_State Mb_State_Props Mb_Elf_Props Mb_Fs_Spec Mb_Threads_Spec
begin

text \<open>
  A whole machine saved and loaded: the memory, the break, the thread set, the
  open files and the random stream come back together. The parts' own round
  trips (\<open>state_loads\<close>, \<open>frame_trip\<close>, \<open>threads_load_saved\<close>, \<open>handles_load\<close>) are put one behind
  the other in the stream.
\<close>

section \<open>What can be saved and what can load it\<close>

definition in_hand :: "mb_host \<Rightarrow> bool" where
  "in_hand h \<longleftrightarrow> ho_active h \<and> ho_fault_known h \<and> ho_sealed h"

lemma while_active_on: "in_hand h \<Longrightarrow> while_active H h f = Some (f h)"
  by (simp add: in_hand_def while_active_def mb_host_activate_def find_fault_handler_def Let_def split: prod.split)

definition savable :: "host_env \<Rightarrow> mb_host \<Rightarrow> bool" where
  "savable H h \<longleftrightarrow> in_hand h \<and> length (el_hash (ho_elf h)) = 32 \<and>
     block_wf (ho_block h) \<and> bk_sealed (ho_block h) \<and> length (bk_hash (ho_block h)) = 32 \<and>
     threads_wf (ho_threads h) \<and> threads_fit (ho_threads h) \<and> active_tid (ho_threads h) = 1 \<and>
     fs_wf (ho_fs h) \<and> list_all (handle_fits (ho_fs h)) (fs_hs (ho_fs h)) \<and> length (fs_hs (ho_fs h)) \<le> 65536 \<and>
     he_alloc H (24 * max (length (fs_hs (ho_fs h))) 1)"

text \<open>A machine of the same image, sealed alike, with the same files mounted; it may
  have run on, and it may be dead.\<close>

definition same_kind :: "mb_host \<Rightarrow> mb_host \<Rightarrow> bool" where
  "same_kind h k \<longleftrightarrow> in_hand k \<and> el_hash (ho_elf k) = el_hash (ho_elf h) \<and>
     block_wf (ho_block k) \<and> bk_sealed (ho_block k) \<and> \<not> bk_plan_active (ho_block k) \<and> same_seal (ho_block h) (ho_block k) \<and>
     (ho_dead k \<or> active_tid (ho_threads k) = 1) \<and> spec (ho_threads k) = spec (ho_threads h) \<and>
     fs_wf (ho_fs k) \<and> map mf_name (fs_files (ho_fs k)) = map mf_name (fs_files (ho_fs h)) \<and>
     list_all (handle_wf (ho_fs k)) (fs_hs (ho_fs h))"

text \<open>What loading brings back; \<open>h\<close> is the machine as the save left it.\<close>

definition rest_back :: "mb_host \<Rightarrow> mb_host \<Rightarrow> bool" where
  "rest_back h k \<longleftrightarrow> ho_program_break k = ho_program_break h \<and> ho_getrandom_state k = ho_getrandom_state h \<and>
     fd_map (ho_fs k) = fd_map (ho_fs h) \<and>
     map (\<lambda>g. g\<lparr>g_seq := 0\<rparr>) (threads (ho_threads k)) = map (\<lambda>g. g\<lparr>g_seq := 0\<rparr>) (threads (ho_threads h)) \<and>
     next_tid (ho_threads k) = next_tid (ho_threads h) \<and> active_tid (ho_threads k) = active_tid (ho_threads h) \<and>
     futicies (ho_threads k) = futicies (ho_threads h) \<and>
     (spec (ho_threads h) = 3 \<longrightarrow> vclock_ns (ho_threads k) = vclock_ns (ho_threads h)) \<and>
     ho_context k = ho_context h"

definition brought_back :: "mb_host \<Rightarrow> mb_host \<Rightarrow> bool" where
  "brought_back h k \<longleftrightarrow> same_machine (ho_block h) (ho_block k) \<and> block_wf (ho_block k) \<and> rest_back h k \<and> \<not> ho_dead k"

section \<open>The stream\<close>

lemma front_read:
  assumes "length (el_hash (ho_elf h)) = 32" "el_hash (ho_elf k) = el_hash (ho_elf h)"
  shows "load_front k (concat (head_chunks h) @ s) = Inr (ho_program_break h, s)"
  using assms by (simp add: load_front_def head_chunks_def)

lemma files_read:
  assumes "mb_fs_load_handles (he_alloc H) (ho_fs k) (concat hs @ SAVE_END) = Some (fs, True, SAVE_END)"
  shows "files_load_then_end H k (FILES_MAGIC @ u64_bytes r @ concat hs @ SAVE_END) =
    (k\<lparr>ho_fs := fs, ho_getrandom_state := r\<rparr>, None, [])"
  using assms take_magic_append [of SAVE_END "[]"] by (simp add: files_load_then_end_def Let_def)

lemma save_keeps:
  assumes "mb_threads_save t c = Some (t1, ch)"
  shows "next_tid t1 = next_tid t" "active_tid t1 = active_tid t" "futicies t1 = futicies t" "spec t1 = spec t" "vclock_ns t1 = vclock_ns t"
  using assms by (auto simp: mb_threads_save_def Let_def split: if_splits)

text \<open>What follows the memory in a state or a delta: the threads, the files and the end.\<close>

lemma rest_loads:
  assumes s: "savable H h"
    and k: "active_tid (ho_threads k) = 1" "spec (ho_threads k) = spec (ho_threads h)" "fs_wf (ho_fs k)"
      "map mf_name (fs_files (ho_fs k)) = map mf_name (fs_files (ho_fs h))" "list_all (handle_wf (ho_fs k)) (fs_hs (ho_fs h))"
  obtains t ts T F where "tail_chunks h = Some (h\<lparr>ho_threads := t\<rparr>, ts)"
    "load_rest H (ho_program_break h) k (concat ts) = (k\<lparr>ho_program_break := ho_program_break h, ho_threads := T,
       ho_context := ho_context h, ho_fs := F, ho_getrandom_state := ho_getrandom_state h\<rparr>, None, [])"
    "rest_back (h\<lparr>ho_threads := t\<rparr>) (k\<lparr>ho_program_break := ho_program_break h, ho_threads := T,
       ho_context := ho_context h, ho_fs := F, ho_getrandom_state := ho_getrandom_state h\<rparr>)"
proof -
  note d = s [unfolded savable_def]
  obtain hs where f: "mb_fs_save_handles (ho_fs h) = Some hs" "mb_fs_load_handles (he_alloc H) (ho_fs k) (concat hs @ SAVE_END) =
      Some ((ho_fs k)\<lparr>fs_hs := sort_key oh_fd (fs_hs (ho_fs h))\<rparr>, True, SAVE_END)"
    by (rule handles_load [of "ho_fs h" "he_alloc H" "ho_fs k" SAVE_END]) (use d k in \<open>auto simp: list_all_iff\<close>)
  let ?tail = "FILES_MAGIC @ u64_bytes (ho_getrandom_state h) @ concat hs @ SAVE_END"
  obtain t ts where t: "mb_threads_save (ho_threads h) (ho_context h) = Some (t, ts)"
    using threads_load_saved [of "ho_threads h" "ho_threads h" "ho_context h" "ho_context h" "[]"] d by auto
  define T where "T = (ho_threads k)\<lparr>next_tid := next_tid (ho_threads h), active_tid := 1,
      threads := map (\<lambda>g. g\<lparr>g_seq := 0\<rparr>) (threads t), futicies := futicies (ho_threads h),
      vclock_ns := (if spec (ho_threads h) = 3 then vclock_ns (ho_threads h) else vclock_ns (ho_threads k))\<rparr>"
  have th: "mb_threads_load (ho_threads k) (ho_context k) (concat ts @ ?tail) = Some ((T, ho_context h), ?tail)"
    using threads_load_saved [of "ho_threads h" "ho_threads k" "ho_context h" "ho_context k" ?tail] t d k by (auto simp: T_def)
  define F where "F = (ho_fs k)\<lparr>fs_hs := sort_key oh_fd (fs_hs (ho_fs h))\<rparr>"
  define k' where "k' = k\<lparr>ho_program_break := ho_program_break h, ho_threads := T, ho_context := ho_context h, ho_fs := F,
      ho_getrandom_state := ho_getrandom_state h\<rparr>"
  let ?ts = "ts @ (FILES_MAGIC # u64_bytes (ho_getrandom_state h) # hs) @ [SAVE_END]"
  have "tail_chunks h = Some (h\<lparr>ho_threads := t\<rparr>, ?ts)" using t f by (simp add: tail_chunks_def files_save_def)
  moreover have "load_rest H (ho_program_break h) k (concat ?ts) = (k', None, [])"
    using th files_read [of H "k\<lparr>ho_program_break := ho_program_break h, ho_threads := T, ho_context := ho_context h\<rparr>" hs F] f(2)
    by (simp add: load_rest_def Let_def k'_def F_def)
  moreover have "rest_back (h\<lparr>ho_threads := t\<rparr>) k'"
    using save_keeps [OF t] d fd_map_sorted [of "ho_fs h" "ho_fs k"]
    by (simp add: rest_back_def k'_def T_def F_def o_def fs_wf_def)
  ultimately show ?thesis unfolding k'_def by (rule that)
qed

lemma block_wf_touched: "block_wf (b\<lparr>bk_load_touched := q\<rparr>) = block_wf b"
  by (simp add: block_wf_def block_inv_touched)

lemma same_seal_touched: "same_seal b (c\<lparr>bk_load_touched := q\<rparr>) = same_seal b c"
  by (simp add: same_seal_def)

section \<open>The round trip\<close>

text \<open>
  C5: A machine comes back whole: saving a sealed machine succeeds, and loading
  what it wrote into any machine of the same image and seal, whatever that one
  ran since and even if it died, succeeds and brings back together the memory,
  the program break, every thread with its registers, waits and deadlines, the
  futex queues in order, the virtual clock, the running registers, the open
  descriptors with their positions and the random stream, and the machine lives.
\<close>

theorem host_save_load_roundtrip:
  assumes E: "env_ok (he_os H)" and s: "savable H h" and k: "same_kind h k"
  shows "\<exists>h1 chunks k'. mb_host_save_state H h = Some (h1, Some chunks) \<and>
    mb_host_load_state H True k (concat chunks) = Some (k', None) \<and> brought_back h1 k'"
proof -
  note d = s [unfolded savable_def] and e = k [unfolded same_kind_def]
  obtain bs where p: "mb_block_save_state (ho_block h) = Inr bs" using save_state_bytes [of "ho_block h"] d by blast
  define k1 where "k1 = (if ho_dead k then k\<lparr>ho_threads := mb_threads_reset_active (ho_threads k)\<rparr> else k)"
  define k2 where "k2 = k1\<lparr>ho_block := (ho_block k1)\<lparr>bk_load_touched := False\<rparr>\<rparr>"
  have k2: "ho_elf k2 = ho_elf k" "ho_fs k2 = ho_fs k" "active_tid (ho_threads k2) = 1" "spec (ho_threads k2) = spec (ho_threads h)"
      "ho_block k2 = (ho_block k)\<lparr>bk_load_touched := False\<rparr>"
    using e by (auto simp: k2_def k1_def mb_threads_reset_active_def)
  have b2: "block_wf (ho_block k2)" "bk_sealed (ho_block k2)" "\<not> bk_plan_active (ho_block k2)" "same_seal (ho_block h) (ho_block k2)"
    using e by (simp_all add: k2(5) block_wf_touched same_seal_touched)
  obtain t ts where ts: "tail_chunks h = Some (h\<lparr>ho_threads := t\<rparr>, ts)"
    using rest_loads [OF s, of k2] e k2 by metis
  obtain c where c: "mb_block_load_state (he_os H) True (ho_block k2) (concat bs @ concat ts) = (c, concat ts, Inr ())"
    "block_wf c" "same_machine (ho_block h) c"
    by (rule state_loads [OF E _ _ _ b2 p, of "concat ts"]) (use d in auto)
  obtain T F where r: "load_rest H (ho_program_break h) (k2\<lparr>ho_block := c\<rparr>) (concat ts) = (k2\<lparr>ho_block := c, ho_program_break := ho_program_break h,
       ho_threads := T, ho_context := ho_context h, ho_fs := F, ho_getrandom_state := ho_getrandom_state h\<rparr>, None, [])"
    "rest_back (h\<lparr>ho_threads := t\<rparr>) (k2\<lparr>ho_block := c, ho_program_break := ho_program_break h,
       ho_threads := T, ho_context := ho_context h, ho_fs := F, ho_getrandom_state := ho_getrandom_state h\<rparr>)"
    by (rule rest_loads [OF s, of "k2\<lparr>ho_block := c\<rparr>"]) (use e k2 ts in auto)
  define k4 where "k4 = k2\<lparr>ho_block := c, ho_program_break := ho_program_break h,
       ho_threads := T, ho_context := ho_context h, ho_fs := F, ho_getrandom_state := ho_getrandom_state h\<rparr>"
  have sv: "mb_host_save_state H h = Some (h\<lparr>ho_threads := t\<rparr>, Some (head_chunks h @ bs @ ts))"
    using d p ts by (simp add: mb_host_save_state_def while_active_on save_body_def) (simp add: in_hand_def)
  have "load_body' H True k2 (concat (head_chunks h) @ concat bs @ concat ts) = (k4, None, [])"
    using front_read [of h k2] c(1) r(1) d e k2 by (simp add: load_body'_def k4_def)
  then have ld: "mb_host_load_state H True k (concat (head_chunks h) @ concat bs @ concat ts) =
      Some (k4\<lparr>ho_dead := False, ho_death := None\<rparr>, None)"
    using e by (simp add: mb_host_load_state_def while_active_on load_active_def Let_def k1_def [symmetric] k2_def [symmetric])
      (simp add: in_hand_def)
  have "brought_back (h\<lparr>ho_threads := t\<rparr>) (k4\<lparr>ho_dead := False, ho_death := None\<rparr>)"
    using c(2,3) r(2) by (simp add: brought_back_def rest_back_def k4_def)
  then show ?thesis using sv ld by auto
qed

text \<open>A machine on the two pages of \<open>demo_sealed\<close>, as it is made and sealed.\<close>

definition demo_henv :: host_env where
  "demo_henv = \<lparr>he_os = demo_env, he_alloc = (\<lambda>_. True), he_junk = (\<lambda>_. 0), he_mapped = True, he_fs_ok = False,
     he_thunk = \<lparr>te_ctx = 0, te_guest_ctx = 0, te_guarded = 0, te_swap_fs = False\<rparr>, he_arena = 0, he_code = (\<lambda>_. 0),
     he_early_tp = 0, he_half = (\<lambda>t c s. (t, c))\<rparr>"

definition demo_host :: mb_host where
  "demo_host = (blank_host demo_henv demo_layout demo_sealed)\<lparr>ho_sealed := True, ho_fault_known := True,
     ho_elf := \<lparr>el_sections = [], el_exports = [], el_entry = 0, el_hash = replicate 32 7, el_has_tls = False\<rparr>\<rparr>"

lemma demo_host_sel [simp]:
  "ho_active demo_host" "ho_fault_known demo_host" "ho_sealed demo_host" "ho_block demo_host = demo_sealed"
  "ho_threads demo_host = mb_threads_new" "ho_fs demo_host = mb_fs_new" "\<not> ho_dead demo_host"
  "el_hash (ho_elf demo_host) = replicate 32 7"
  by (simp_all add: demo_host_def blank_host_def)

lemma demo_savable: "savable demo_henv demo_host"
proof -
  have "threads_fit mb_threads_new" "active_tid mb_threads_new = 1"
    by (simp_all add: threads_fit_def mb_threads_new_def insert_thread_def new_thread_def)
  moreover have "list_all (handle_fits mb_fs_new) (fs_hs mb_fs_new)" "length (fs_hs mb_fs_new) \<le> 65536"
    by (simp_all add: handle_fits_def mb_fs_new_unfold chars_def blank_file_def)
  ultimately show ?thesis
    using demo_sealed_facts demo_hash fs_wf_new threads_wf_new
    by (simp add: savable_def in_hand_def demo_henv_def)
qed

text \<open>The same machine after it died.\<close>

definition demo_dead :: mb_host where
  "demo_dead = record_death (demo_host\<lparr>ho_program_break := 5\<rparr>) Aborted"

lemma demo_same_kind: "same_kind demo_host demo_dead"
  using demo_sealed_facts same_seal_refl fs_wf_new
  by (auto simp: same_kind_def in_hand_def demo_dead_def record_death_def fs_wf_def list_all_iff)

theorem host_save_load_roundtrip_witness:
  "savable demo_henv demo_host \<and> same_kind demo_host demo_dead \<and> ho_dead demo_dead \<and>
   (\<exists>h1 chunks k. mb_host_save_state demo_henv demo_host = Some (h1, Some chunks) \<and>
      mb_host_load_state demo_henv True demo_dead (concat chunks) = Some (k, None) \<and> \<not> ho_dead k)"
proof -
  have "env_ok (he_os demo_henv)" by (simp add: demo_henv_def)
  from host_save_load_roundtrip [OF this demo_savable demo_same_kind] show ?thesis
    using demo_savable demo_same_kind by (auto simp: brought_back_def demo_dead_def record_death_def)
qed

end
