(* ===== verification/Mb_Side.thy ===== *)
theory Mb_Side
  imports Mb_Delta Mb_Epoch
begin

text \<open>
  What the page bookkeeping leaves alone. An observation of the block that does
  not look at marks and protections is the same after every primitive that only
  changes those, on every branch; one that does not look at statuses, dirty
  marks and baselines either is the same after more of them. Three observations
  are used: the plan's buffer and the mark of a load (\<open>side\<close>), what a page holds
  (\<open>contents\<close>), and what a planned state still owes (\<open>owed\<close>).
\<close>

definition unmarked :: "mb_page \<Rightarrow> mb_page" where
  "unmarked p = p\<lparr>pg_held := False, pg_epoch_dirty := False, pg_os := MB_PROT_NONE\<rparr>"

definition unnoted :: "mb_page \<Rightarrow> mb_page" where
  "unnoted p = (unmarked p)\<lparr>pg_status := 0, pg_dirty := False, pg_snap := MB_SNAP_NONE, pg_hot := False, pg_heat := 0,
     pg_seen := 0, pg_shadow := None\<rparr>"

named_theorems blind

locale blind_marks =
  fixes obs :: "mb_block \<Rightarrow> 'a"
  assumes marks: "(\<And>p. unmarked (f p) = unmarked p) \<Longrightarrow> obs (upd_page f b i) = obs b"
    and mark_fields: "obs (b\<lparr>bk_unheld_bits := w\<rparr>) = obs b" "obs (b\<lparr>bk_epoch_bits := w\<rparr>) = obs b"
      "obs (b\<lparr>bk_stat_bits := w\<rparr>) = obs b" "obs (b\<lparr>bk_epoch_ndirty := n\<rparr>) = obs b" "obs (b\<lparr>bk_epoch_nstat := n\<rparr>) = obs b"
      "obs (b\<lparr>bk_epoch_active := q\<rparr>) = obs b" "obs (b\<lparr>bk_epoch_status := m\<rparr>) = obs b"
      "obs (b\<lparr>bk_epoch_no := n\<rparr>) = obs b"
begin

lemma obs_fold: "(\<And>i b. obs (f i b) = obs b) \<Longrightarrow> obs (fold f xs b) = obs b"
  by (induction xs arbitrary: b) simp_all

lemma obs_note_prot [blind]: "obs (note_prot b i prot) = obs b"
  by (simp add: note_prot_def Let_def mark_fields marks unmarked_def)

lemma obs_note_unheld [blind]: "obs (mb_block_note_unheld b i) = obs b"
  by (simp add: mb_block_note_unheld_def mark_fields)

lemma obs_mark [blind]: "obs (mark_epoch_dirty b i) = obs b"
  by (simp add: mark_epoch_dirty_def Let_def mark_fields marks unmarked_def)

lemma obs_capture [blind]: "obs (mb_block_epoch_capture b i) = obs b"
  by (simp add: mb_block_epoch_capture_def Let_def obs_mark marks unmarked_def)

lemma obs_status_change [blind]: "obs (epoch_note_status_change b i st) = obs b"
  by (simp add: epoch_note_status_change_def Let_def obs_mark obs_capture mark_fields)

lemma obs_os_protect [blind]: "obs (fst (os_protect E b first count prot)) = obs b"
  using obs_fold [of "\<lambda>i b. upd_page (\<lambda>p. p\<lparr>pg_os := prot\<rparr>) b i"] by (simp add: os_protect_def marks unmarked_def)

lemma obs_protect_group [blind]: "obs (fst (mb_block_protect_group E b i)) = obs b"
  by (simp add: mb_block_protect_group_def Let_def obs_os_protect)

lemma obs_refresh_groups_from [blind]: "obs (refresh_groups_from E b g endg) = obs b"
  by (induction E b g endg rule: refresh_groups_from.induct)
     (subst refresh_groups_from.simps, auto simp: Let_def obs_os_protect)

lemma obs_refresh_from [blind]: "obs (refresh_from E b i endp) = obs b"
proof (induction E b i endp rule: refresh_from.induct)
  case (1 E b i endp)
  have "obs (fold (\<lambda>k b. note_prot b k p) ks c) = obs c" for p ks c by (rule obs_fold) (rule obs_note_prot)
  then show ?case using 1 by (subst refresh_from.simps) (auto simp: Let_def obs_os_protect)
qed

lemma obs_refresh_range [blind]: "obs (refresh_range E b i n) = obs b"
proof -
  have "obs (fold (\<lambda>k b. note_prot b k (mb_page_native_prot (bk_pages b ! k))) ks c) = obs c" for ks c
    by (rule obs_fold) (rule obs_note_prot)
  then show ?thesis by (simp add: refresh_range_def refresh_groups_def Let_def obs_refresh_from obs_refresh_groups_from)
qed

lemma obs_run_close [blind]: "obs (run_close E b run) = obs b"
  by (simp add: run_close_def obs_refresh_range split: option.split)

lemma obs_run_note [blind]: "obs (fst (run_note E b run i)) = obs b"
  by (simp add: run_note_def obs_refresh_range split: option.split)

lemma obs_noted:
  "run_note E c run i = (c', run') \<Longrightarrow> obs c' = obs c"
  "(if q then run_note E c run i else (c, run)) = (c', run') \<Longrightarrow> obs c' = obs c"
  using obs_run_note [of E c run i] by (auto split: if_splits)

lemma obs_epoch_forget [blind]: "obs (epoch_forget b) = obs b"
proof -
  have "obs (fold (\<lambda>i b. upd_page (\<lambda>p. p\<lparr>pg_epoch_dirty := False\<rparr>) b i) is c) = obs c" for "is" c
    by (rule obs_fold) (simp add: marks unmarked_def)
  then show ?thesis by (simp add: epoch_forget_def Let_def mark_fields)
qed

lemma obs_epoch_clear [blind]: "obs (mb_block_epoch_clear b) = obs b"
  by (simp add: mb_block_epoch_clear_def obs_epoch_forget mark_fields)

lemma obs_epoch_hold: "obs (fst (epoch_hold E i s)) = obs (fst s)"
  by (cases s) (simp add: epoch_hold_def obs_run_note marks unmarked_def)

lemma obs_fold_fst: "(\<And>i s. obs (fst (f i s)) = obs (fst s)) \<Longrightarrow> obs (fst (fold f xs s)) = obs (fst s)"
  by (induction xs arbitrary: s) simp_all

lemma obs_epoch_hold_word: "obs (fst (epoch_hold_word E w s)) = obs (fst s)"
  by (cases s) (simp add: epoch_hold_word_def Let_def obs_fold_fst [OF obs_epoch_hold] mark_fields)

end

locale blind_notes = blind_marks obs for obs :: "mb_block \<Rightarrow> 'a" +
  assumes noted: "(\<And>p. unnoted (f p) = unnoted p) \<Longrightarrow> obs (upd_page f b i) = obs b"
    and note_fields: "obs (b\<lparr>bk_hot_bits := w\<rparr>) = obs b" "obs (b\<lparr>bk_nhot := n\<rparr>) = obs b" "obs (b\<lparr>bk_group_free := g\<rparr>) = obs b"
      "obs (b\<lparr>bk_status_map := m\<rparr>) = obs b" "obs (b\<lparr>bk_dirty_map := m\<rparr>) = obs b"
begin

lemma obs_cool [blind]: "obs (page_cool b i) = obs b"
  by (simp add: page_cool_def Let_def mark_fields note_fields noted unnoted_def unmarked_def)

lemma obs_note_status [blind]: "obs (note_status b i st) = obs b"
  by (simp add: note_status_def Let_def obs_cool note_fields noted unnoted_def unmarked_def)

lemma obs_set_dirty [blind]: "obs (set_dirty b i d) = obs b"
  by (simp add: set_dirty_def Let_def obs_cool note_fields noted unnoted_def unmarked_def)

lemma obs_set_protections [blind]: "obs (set_protections E b ps n st) = obs b"
proof -
  have "obs (fold (\<lambda>i b. epoch_note_status_change b i st) is c) = obs c" "obs (fold (\<lambda>i b. note_status b i st) is c) = obs c"
    for "is" c by (rule obs_fold, simp add: obs_status_change obs_note_status)+
  then show ?thesis by (simp add: set_protections_def Let_def obs_refresh_range)
qed

lemma obs_snapshot [blind]: "obs (fst (page_snapshot E b i)) = obs b"
proof -
  have "upd_page (\<lambda>_. fst (mb_page_maybe_snapshot room (bk_pages b ! i))) b i =
      upd_page (\<lambda>p. fst (mb_page_maybe_snapshot room p)) b i" for room by (simp add: upd_page_def)
  then show ?thesis by (simp add: page_snapshot_def Let_def noted mb_page_maybe_snapshot_def unnoted_def unmarked_def)
qed

lemma obs_hot_epoch [blind]: "obs (get_hot_epoch b) = obs b"
  unfolding get_hot_epoch_def
  by (rule obs_fold) (simp add: hot_epoch_page_def Let_def obs_cool obs_mark noted unnoted_def unmarked_def)

lemma obs_heat_written [blind]: "obs (heat_written_pages E b) = obs b"
  unfolding heat_written_pages_def
  by (rule obs_fold) (simp add: heat_page_def page_heat_def Let_def mark_fields note_fields noted unnoted_def unmarked_def)

lemma obs_delta_save [blind]: "obs (fst (mb_block_delta_save E b forward)) = obs b"
  by (simp add: mb_block_delta_save_def Let_def obs_hot_epoch obs_heat_written)

lemma obs_epoch_begin [blind]: "obs (fst (mb_block_epoch_begin E b)) = obs b"
proof -
  have "obs (fold (\<lambda>i b. upd_page (\<lambda>p. p\<lparr>pg_shadow := Some (pg_live p)\<rparr>) b i) is c) = obs c" for "is" c
    by (rule obs_fold) (simp add: noted unnoted_def unmarked_def)
  then show ?thesis
    by (simp add: mb_block_epoch_begin_def Let_def split_beta obs_run_close obs_fold_fst [OF obs_epoch_hold_word] obs_epoch_forget mark_fields)
qed

end

section \<open>The observations\<close>

definition side :: "mb_block \<Rightarrow> bytes \<times> bool" where
  "side b = (bk_plan_dest b, bk_load_touched b)"

definition content :: "mb_page \<Rightarrow> byte \<times> bool \<times> bytes \<times> bool \<times> mb_snap" where
  "content p = (pg_status p, pg_invisible p, pg_live p, pg_dirty p, pg_snap p)"

definition contents :: "mb_block \<Rightarrow> (byte \<times> bool \<times> bytes \<times> bool \<times> mb_snap) list" where
  "contents b = map content (bk_pages b)"

definition owing :: "mb_page \<Rightarrow> bool \<times> nat \<times> bytes" where
  "owing p = (pg_plan_hold p, pg_plan_slot p, pg_live p)"

definition owed :: "mb_block \<Rightarrow> bytes \<times> nat \<times> nat list \<times> bool \<times> (bool \<times> nat \<times> bytes) list" where
  "owed b = (bk_plan_dest b, bk_plan_data_at b, bk_plan_list b, bk_plan_active b, map owing (bk_pages b))"

lemma map_pages_upd: "(\<And>p. g (f p) = g p) \<Longrightarrow> map g (bk_pages (upd_page f b i)) = map g (bk_pages b)"
  by (simp add: upd_page_def map_update) (metis list_update_beyond list_update_id length_map linorder_not_less nth_map)

lemma side_upd_page [blind]: "side (upd_page f b i) = side b"
  by (simp add: side_def)

lemma unmarked_same: "content (unmarked p) = content p" "owing (unmarked p) = owing p" "owing (unnoted p) = owing p"
  by (simp_all add: unmarked_def unnoted_def content_def owing_def)

interpretation sd: blind_notes side
  by unfold_locales (simp_all add: side_def)

interpretation ct: blind_marks contents
proof unfold_locales
  show "contents (upd_page f b i) = contents b" if "\<And>p. unmarked (f p) = unmarked p" for f b i
    unfolding contents_def by (rule map_pages_upd) (metis that unmarked_same(1))
qed (simp_all add: contents_def)

interpretation ow: blind_notes owed
proof unfold_locales
  have m: "map owing (bk_pages (upd_page f b i)) = map owing (bk_pages b)"
    if "\<And>p. owing (f p) = owing p" for f b i by (rule map_pages_upd) (rule that)
  show "owed (upd_page f b i) = owed b" if "\<And>p. unmarked (f p) = unmarked p" for f b i
    using m [of f b i] that unmarked_same(2) by (simp add: owed_def) metis
  show "owed (upd_page f b i) = owed b" if "\<And>p. unnoted (f p) = unnoted p" for f b i
    using m [of f b i] that unmarked_same(3) by (simp add: owed_def) metis
qed (simp_all add: owed_def)

lemma contents_fields [blind]:
  "contents (b\<lparr>bk_load_touched := q\<rparr>) = contents b" "contents (b\<lparr>bk_plan_active := q\<rparr>) = contents b"
  "contents (b\<lparr>bk_plan_dest := d\<rparr>) = contents b" "contents (b\<lparr>bk_plan_list := l\<rparr>) = contents b"
  "contents (b\<lparr>bk_plan_data_at := n\<rparr>) = contents b"
  by (simp_all add: contents_def)

lemma contents_upd_page: "(\<And>p. content (f p) = content p) \<Longrightarrow> contents (upd_page f b i) = contents b"
  unfolding contents_def by (rule map_pages_upd)

section \<open>Loading\<close>

lemma side_read_page [blind]: "side (fst (read_page b i s)) = side b"
  by (simp add: read_page_def blind split: option.split)

lemma side_load_bytes [blind]: "side (fst (load_bytes E d b s i)) = side b"
proof -
  have r: "side (fst (case read_page c i s of (b1, s1, False) \<Rightarrow> (f b1, s1, Some EIO) | (b1, s1, True) \<Rightarrow> (b1, s1, None))) = side c"
    if "\<And>b. side (f b) = side b" for c f
    using side_read_page [of c i s] that by (auto split: prod.splits bool.splits)
  show ?thesis
    using r [of "\<lambda>b. set_dirty b i True"] r [of "\<lambda>b. b"]
    by (simp add: load_bytes_def Let_def blind split: mb_snap.split)
qed

lemma side_load_visible [blind]: "side (fst (load_visible E d b s i)) = side b"
  using side_load_bytes [of E d b s i]
  by (cases "load_bytes E d b s i"; cases "snd (snd (load_bytes E d b s i))") (simp_all add: load_visible_def Let_def blind)

lemma side_load_page [blind]: "side (fst (load_page E st d b run s i)) = side b"
proof -
  define x where "x = (if pg_invisible (bk_pages b ! i) then (b, s, None) else load_visible E d b s i)"
  have x: "side (fst x) = side b" by (simp add: x_def blind)
  have n: "side (fst (case run_note E c run i of (b3, run') \<Rightarrow> (b3, run', u))) = side c" for c and u :: "bytes \<times> errno option"
    using sd.obs_run_note [of E c run i] by (cases "run_note E c run i") simp
  show ?thesis
    using x n unfolding load_page_def x_def [symmetric] Let_def
    by (cases x; cases "snd (snd x)") (simp_all add: blind)
qed

lemma side_load_from: "side (fst (load_from E statii dirtii n b run s i)) = side b"
proof (induction E statii dirtii n b run s i rule: load_from.induct)
  case (1 E statii dirtii n b run s i)
  show ?case
    using 1 side_load_page [of E "statii ! i" "dirtii ! i" b run s i]
    by (subst load_from.simps) (auto split: prod.split option.split)
qed

section \<open>Ending a plan\<close>

text \<open>Ending a plan and forgetting an epoch change the marks and the protections of
  pages; their statuses, bytes and baselines stay.\<close>

lemma plan_finish_kept:
  "contents (fst (mb_block_plan_finish E b)) = contents b" "bk_load_touched (fst (mb_block_plan_finish E b)) = bk_load_touched b"
proof -
  define b1 where "b1 = fold (\<lambda>k b. fst (plan_take b (bk_plan_list b ! k))) [0..<length (bk_plan_list b)] b"
  define b2 where "b2 = b1\<lparr>bk_plan_active := False, bk_plan_dest := []\<rparr>"
  have t: "contents (fst (plan_take c k)) = contents c" "bk_load_touched (fst (plan_take c k)) = bk_load_touched c" for c k
    by (simp_all add: plan_take_def plan_copy_page_def Let_def blind contents_upd_page content_def)
  have "contents b1 = contents b \<and> bk_load_touched b1 = bk_load_touched b"
    unfolding b1_def by (rule fold_invariant [where Q = "\<lambda>_. True"]) (simp_all add: t)
  then have b2: "contents b2 = contents b" "bk_load_touched b2 = bk_load_touched b" by (simp_all add: b2_def blind)
  define r where "r = fold (\<lambda>i (b, run). run_note E b run i) (bk_plan_list b) (b2, None)"
  have "contents (fst r) = contents b2 \<and> side (fst r) = side b2"
    unfolding r_def by (rule fold_invariant [where Q = "\<lambda>_. True"]) (auto simp: blind blind)
  then have "contents (run_close E (fst r) (snd r)) = contents b" "bk_load_touched (run_close E (fst r) (snd r)) = bk_load_touched b"
    using b2 sd.obs_run_close [of E "fst r" "snd r"] by (simp_all add: blind side_def)
  then show "contents (fst (mb_block_plan_finish E b)) = contents b"
    "bk_load_touched (fst (mb_block_plan_finish E b)) = bk_load_touched b"
    by (simp_all add: mb_block_plan_finish_def Let_def b1_def [symmetric] b2_def [symmetric] r_def [symmetric] split_beta blind)
qed

text \<open>A load that answers success, or fails once it has begun on the pages, leaves
  the mark; one that failed before has left every page as it was.\<close>

lemma load_state_touched:
  assumes l: "mb_block_load_state E heap (b\<lparr>bk_load_touched := False\<rparr>) s = (b', s', r)" and t: "\<not> bk_load_touched b'"
  shows "(\<exists>e. r = Inl e) \<and> contents b' = contents b"
proof (cases "bk_sealed b")
  case True
  define c where "c = (let c = b\<lparr>bk_load_touched := False\<rparr>
     in mb_block_epoch_clear (if bk_plan_active c then fst (mb_block_plan_finish E c) else c))"
  have p: "bk_load_touched b2" if "load_pages E c statii dirtii t = (b2, u)" for statii dirtii t b2 u
    using that side_load_from [of E statii dirtii "bk_npages c" "c\<lparr>bk_load_touched := True\<rparr>" None t 0]
      sd.obs_run_close [of E]
    by (auto simp: load_pages_def side_def split: prod.splits)
  have c: "contents c = contents b" by (simp add: c_def Let_def blind plan_finish_kept)
  have "load_body E heap c s = (b', s', r)" using l True by (simp add: mb_block_load_state_def c_def Let_def)
  then have "b' = c \<and> (\<exists>e. r = Inl e) \<or> (\<exists>st d t. load_pages E c st d t = (b', s', r))"
    by (auto simp: load_body_def split: option.splits if_splits)
  then show ?thesis using c t p by blast
qed (use l in \<open>auto simp: mb_block_load_state_def blind\<close>)

section \<open>Applying a delta\<close>

lemma side_apply_statii: "side (fst (apply_statii E k b run s)) = side b"
  by (induction k arbitrary: b run s)
     (auto simp: Let_def blind dest: sd.obs_noted split: option.split prod.split)

lemma side_apply_page: "side (fst (apply_page E b run s idx)) = side b"
proof -
  have n: "side (fst (case (if q then run_note E c run i else (c, run)) of (b3, run3) \<Rightarrow> (b3, run3, u))) = side c"
    for q c i and u :: "bytes \<times> errno option"
    using sd.obs_run_note [of E c run i] by (cases "run_note E c run i") simp
  obtain c t ok where r: "read_page (fst (page_snapshot E b (unat (delta_page idx)))) (unat (delta_page idx)) s = (c, t, ok)"
    by (cases "read_page (fst (page_snapshot E b (unat (delta_page idx)))) (unat (delta_page idx)) s")
  then have "side c = side b" using side_read_page sd.obs_snapshot by (metis fst_conv)
  then show ?thesis by (cases ok) (simp_all add: apply_page_def Let_def r n blind)
qed

lemma side_apply_data: "side (fst (apply_data E k b run s)) = side b"
proof (induction k arbitrary: b run s)
  case (Suc k)
  have "side c' = side c" if "apply_page E c run s idx = (c', u)" for c c' run s idx u
    using side_apply_page [of E c run s idx] that by simp
  then show ?case using Suc by (auto split: option.split prod.split)
qed simp

lemma side_apply_lists: "side (fst (apply_lists E b n s)) = side b"
proof -
  obtain b1 run1 s1 e where "apply_statii E n b None s = (b1, run1, s1, e)" by (cases "apply_statii E n b None s") auto
  then show ?thesis
    using side_apply_statii [of E n b None s] by (auto simp: apply_lists_def Let_def side_apply_data blind split: option.split)
qed

lemma delta_apply_touched:
  assumes a: "mb_block_delta_apply E b s = (b', s', r)" and t: "\<not> bk_load_touched b'"
  shows "(\<exists>e. r = Inl e) \<and> contents b' = contents b"
proof -
  have "bk_load_touched (mb_block_epoch_clear (run_close E c run))"
    if "apply_lists E (b\<lparr>bk_load_touched := True\<rparr>) n u = (c, run, w)" for c run n u w
    using side_apply_lists [of E "b\<lparr>bk_load_touched := True\<rparr>" n u] sd.obs_epoch_clear [of "run_close E c run"] sd.obs_run_close [of E c run] that
    by (simp add: side_def)
  then show ?thesis
    using a t by (auto simp: mb_block_delta_apply_def Let_def blind split: option.splits if_splits prod.splits)
qed

end
