(* ===== verification/Mb_Host_Load.thy ===== *)
theory Mb_Host_Load
  imports Mb_Host_Trip Mb_Side
begin

text \<open>
  A load that fails. Either it found the stream wrong before it changed anything,
  and the machine goes on as it was, or memory is half another machine's, and the
  machine is marked dead.
\<close>

section \<open>The block is what the load of the block left\<close>

lemma files_end_block: "ho_block (fst (files_load_then_end H h s)) = ho_block h"
  by (simp add: files_load_then_end_def Let_def split: option.split prod.split)

lemma load_rest_block: "ho_block (fst (load_rest H brk h s)) = ho_block h"
  by (simp add: load_rest_def Let_def files_end_block split: option.split prod.split)

definition unharmed :: "mb_host \<Rightarrow> mb_host \<Rightarrow> bool" where
  "unharmed h k \<longleftrightarrow> contents (ho_block k) = contents (ho_block h) \<and> ho_program_break k = ho_program_break h \<and>
     ho_threads k = ho_threads h \<and> ho_context k = ho_context h \<and> ho_fs k = ho_fs h \<and>
     ho_getrandom_state k = ho_getrandom_state h \<and> ho_dead k = ho_dead h \<and> ho_death k = ho_death h"

text \<open>Loading a state and applying a delta go the same way: what precedes the memory,
  the memory, the rest. \<open>front\<close> and \<open>mem\<close> are the first two.\<close>

definition load_via ::
  "host_env \<Rightarrow> (mb_host \<Rightarrow> bytes \<Rightarrow> load_error + u64 \<times> bytes) \<Rightarrow> (mb_block \<Rightarrow> bytes \<Rightarrow> mb_block \<times> bytes \<times> unit res) \<Rightarrow>
     load_error \<Rightarrow> mb_host \<Rightarrow> bytes \<Rightarrow> mb_host \<times> load_error option \<times> bytes" where
  "load_via H front mem bad h s =
    (case front h s of
       Inl e \<Rightarrow> (h, Some e, s)
     | Inr (brk, s1) \<Rightarrow>
         (case mem (ho_block h) s1 of
            (b, s2, Inl _) \<Rightarrow> (h\<lparr>ho_block := b\<rparr>, Some bad, s2)
          | (b, s2, Inr _) \<Rightarrow> load_rest H brk (h\<lparr>ho_block := b\<rparr>) s2))"

definition early :: "load_error set" where
  "early = {Bad_start_magic, Bad_fs_magic, Bad_elf_magic, Elf_mismatch, Bad_delta_magic}"

lemma load_rest_late: "load_rest H brk h s = (k, Some e, s') \<Longrightarrow> e \<notin> early"
  by (auto simp: early_def load_rest_def files_load_then_end_def Let_def split: prod.splits option.splits if_splits)

locale loader =
  fixes front :: "mb_host \<Rightarrow> bytes \<Rightarrow> load_error + u64 \<times> bytes"
    and mem :: "mb_block \<Rightarrow> bytes \<Rightarrow> mb_block \<times> bytes \<times> unit res"
    and bad :: load_error
  assumes kept: "mem (b\<lparr>bk_load_touched := False\<rparr>) s = (b', s', r) \<Longrightarrow> \<not> bk_load_touched b' \<Longrightarrow>
      (\<exists>e. r = Inl e) \<and> contents b' = contents b"
    and late: "bad \<notin> early"
begin

lemma fails:
  assumes l: "load_via H front mem bad (h\<lparr>ho_block := (ho_block h)\<lparr>bk_load_touched := False\<rparr>\<rparr>) s = (k, Some e, s')"
  shows "bk_load_touched (ho_block k) \<and> e \<notin> early \<or> \<not> bk_load_touched (ho_block k) \<and> unharmed h k"
proof -
  define h2 where "h2 = h\<lparr>ho_block := (ho_block h)\<lparr>bk_load_touched := False\<rparr>\<rparr>"
  show ?thesis
  proof (cases "front h2 s")
    case (Inr q)
    obtain brk s1 where q: "front h2 s = Inr (brk, s1)" using Inr by (cases q) simp
    obtain c s2 r where c: "mem ((ho_block h)\<lparr>bk_load_touched := False\<rparr>) s1 = (c, s2, r)"
      by (cases "mem ((ho_block h)\<lparr>bk_load_touched := False\<rparr>) s1") auto
    have k: "ho_block k = c" "e \<notin> early"
      using l q c late load_rest_block [of H brk "h2\<lparr>ho_block := c\<rparr>" s2] load_rest_late [of H brk "h2\<lparr>ho_block := c\<rparr>" s2]
      by (cases r; auto simp: load_via_def h2_def [symmetric]; simp add: h2_def)+
    show ?thesis
    proof (cases "bk_load_touched c")
      case False
      then have "(\<exists>e. r = Inl e)" "contents c = contents (ho_block h)" using kept [OF c] by simp_all
      moreover from this have "k = h2\<lparr>ho_block := c\<rparr>" using l q c by (auto simp: load_via_def h2_def)
      ultimately show ?thesis using k False by (simp add: unharmed_def h2_def)
    qed (use k in simp)
  qed (use l in \<open>auto simp: load_via_def unharmed_def h2_def blind\<close>)
qed

end

interpretation ls: loader load_front "mb_block_load_state E heap" Block_load_failed
  by unfold_locales (use load_state_touched in \<open>auto simp: early_def\<close>)

interpretation da: loader delta_front "mb_block_delta_apply E" Delta_apply_failed
  by unfold_locales (use delta_apply_touched in \<open>fastforce simp: early_def blind\<close>)+

lemma load_active_eq:
  "\<not> ho_dead h \<Longrightarrow> load_active H heap s h =
    (case load_via H load_front (mb_block_load_state (he_os H) heap) Block_load_failed
            (h\<lparr>ho_block := (ho_block h)\<lparr>bk_load_touched := False\<rparr>\<rparr>) s of
       (h3, None, _) \<Rightarrow> (h3\<lparr>ho_dead := False, ho_death := None\<rparr>, None)
     | (h3, Some e, _) \<Rightarrow> (poison_half_loaded h3, Some e))"
  by (simp add: load_active_def load_via_def load_body'_def Let_def)

lemma delta_apply_eq:
  "delta_apply_body H s h =
    (case load_via H delta_front (mb_block_delta_apply (he_os H)) Delta_apply_failed
            (h\<lparr>ho_block := (ho_block h)\<lparr>bk_load_touched := False\<rparr>\<rparr>) s of
       (h2, None, _) \<Rightarrow> (h2\<lparr>ho_epoch_threads := None\<rparr>, None)
     | (h2, Some e, _) \<Rightarrow> (poison_half_loaded h2, Some e))"
  by (simp add: delta_apply_body_def load_via_def Let_def)

section \<open>The property\<close>

text \<open>
  C7: A failed load never leaves a machine that runs on with half of another
  one's memory. When loading a state or applying a delta answers an error on a
  living sealed machine, whatever the stream held and wherever it broke off,
  either the machine is marked dead as half loaded, or nothing of it has
  changed: every page's status, bytes and baseline, the program break, the
  threads, the registers, the files and the random stream are as they were, and
  it lives. A stream of another image, or one that is neither a state nor a
  delta, is always the second case.
\<close>

theorem host_load_all_or_dead:
  assumes h: "in_hand h" "\<not> ho_dead h"
    and l: "mb_host_load_state H heap h s = Some (k, Some e) \<or> mb_host_delta_apply H h s = Some (k, Some e)"
  shows "ho_dead k \<and> ho_death k = Some (Half_loaded, []) \<and> e \<notin> early \<or> unharmed h k"
proof -
  define h2 where "h2 = h\<lparr>ho_block := (ho_block h)\<lparr>bk_load_touched := False\<rparr>\<rparr>"
  have "\<exists>k'. k = poison_half_loaded k' \<and>
      (bk_load_touched (ho_block k') \<and> e \<notin> early \<or> \<not> bk_load_touched (ho_block k') \<and> unharmed h k')"
    using l
  proof
    assume "mb_host_load_state H heap h s = Some (k, Some e)"
    then obtain k' s' where "k = poison_half_loaded k'"
        "load_via H load_front (mb_block_load_state (he_os H) heap) Block_load_failed h2 s = (k', Some e, s')"
      using h by (auto simp: mb_host_load_state_def while_active_on in_hand_def load_active_eq h2_def [symmetric] split: prod.splits option.splits)
    then show ?thesis using ls.fails [of H "he_os H" heap h s] by (auto simp: h2_def)
  next
    assume "mb_host_delta_apply H h s = Some (k, Some e)"
    then obtain k' s' where "k = poison_half_loaded k'"
        "load_via H delta_front (mb_block_delta_apply (he_os H)) Delta_apply_failed h2 s = (k', Some e, s')"
      using h by (auto simp: mb_host_delta_apply_def while_active_on in_hand_def delta_apply_eq h2_def [symmetric] split: prod.splits option.splits)
    then show ?thesis using da.fails [of H "he_os H" h s] by (auto simp: h2_def)
  qed
  then show ?thesis by (auto simp: poison_half_loaded_def)
qed

theorem host_load_all_or_dead_witness:
  "\<exists>k. mb_host_load_state demo_henv True demo_host [] = Some (k, Some Bad_start_magic) \<and> unharmed demo_host k"
proof -
  have h: "in_hand demo_host" by (simp add: in_hand_def)
  obtain k where k: "mb_host_load_state demo_henv True demo_host [] = Some (k, Some Bad_start_magic)"
    by (simp add: mb_host_load_state_def while_active_on [OF h] load_active_def load_body'_def load_front_def take_magic_def
        take_bytes_def SAVE_START_def chars_def Let_def)
  then show ?thesis using host_load_all_or_dead [OF h, of demo_henv True "[]"] by (auto simp: early_def)
qed

end
