(* ===== verification/Mb_Host_Deltas.thy ===== *)
theory Mb_Host_Deltas
  imports Mb_Host_Trip Mb_Delta_Both
begin

text \<open>
  Deltas of the whole machine: one frame of a machine saved and applied to
  another that was the same when the frame began, and two deltas composed.
\<close>

section \<open>One frame of the machine\<close>

text \<open>\<open>h\<close> opened an epoch and ran on as \<open>h1\<close>: its memory by any steps of the guest,
  everything else in any way.\<close>

definition ran_frame :: "host_env \<Rightarrow> mb_host \<Rightarrow> mb_host \<Rightarrow> bool" where
  "ran_frame H h h1 \<longleftrightarrow> (\<exists>h0. mb_host_epoch_begin H h = Some (h0, True) \<and> (frame_step (he_os H))\<^sup>*\<^sup>* (ho_block h0) (ho_block h1))"

text \<open>A living machine of the same image, with the memory \<open>h\<close> had and the files of \<open>h1\<close> mounted.\<close>

definition follows :: "mb_host \<Rightarrow> mb_host \<Rightarrow> mb_host \<Rightarrow> bool" where
  "follows h h1 k \<longleftrightarrow> in_hand k \<and> \<not> ho_dead k \<and> el_hash (ho_elf k) = el_hash (ho_elf h1) \<and>
     block_wf (ho_block k) \<and> bk_sealed (ho_block k) \<and> same_machine (ho_block h) (ho_block k) \<and>
     active_tid (ho_threads k) = 1 \<and> spec (ho_threads k) = spec (ho_threads h1) \<and>
     fs_wf (ho_fs k) \<and> map mf_name (fs_files (ho_fs k)) = map mf_name (fs_files (ho_fs h1)) \<and>
     list_all (handle_wf (ho_fs k)) (fs_hs (ho_fs h1))"

lemma epoch_begin_block:
  assumes "in_hand h" "mb_host_epoch_begin H h = Some (h0, True)"
  shows "mb_block_epoch_begin (he_os H) (ho_block h) = (ho_block h0, Inr ())"
  using assms
  by (auto simp: mb_host_epoch_begin_def while_active_on epoch_begin_body_def in_hand_def Let_def
      split: prod.splits sum.splits option.splits)

lemma delta_front_read:
  assumes "length (el_hash (ho_elf h)) = 32" "el_hash (ho_elf k) = el_hash (ho_elf h)"
  shows "delta_front k (concat (delta_head h brk) @ s) = Inr (brk, s)"
  using assms by (simp add: delta_front_def delta_head_def)

lemma same_machine_touched: "same_machine b (c\<lparr>bk_load_touched := q\<rparr>) = same_machine b c"
  by (simp add: same_machine_def bk_npages_def)

text \<open>
  C6: A frame of the machine is rebuilt from its delta: when a sealed machine
  opens an epoch, its guest writes, maps, protects and gives back memory as it
  likes, and its threads, files and break move on in any way, then saving the
  delta succeeds, and applying it to any living machine of the same image that had
  the same memory when the frame began succeeds and brings that machine to where
  the first one is: memory, program break, threads with their registers and waits,
  futex queues, clock, open files and random stream.
\<close>

theorem host_delta_roundtrip:
  assumes E: "env_ok (he_os H)" and h: "in_hand h" "frame_ready (ho_block h)" "ran_frame H h h1"
    and s: "savable H h1" and k: "follows h h1 k"
  shows "\<exists>h2 chunks k'. mb_host_delta_save H True h1 = Some (h2, Some chunks) \<and>
    mb_host_delta_apply H k (concat chunks) = Some (k', None) \<and> brought_back h2 k'"
proof -
  note d = s [unfolded savable_def] and e = k [unfolded follows_def]
  obtain h0 where h0: "mb_host_epoch_begin H h = Some (h0, True)" "(frame_step (he_os H))\<^sup>*\<^sup>* (ho_block h0) (ho_block h1)"
    using h(3) by (auto simp: ran_frame_def)
  note bg = epoch_begin_block [OF h(1) h0(1)]
  note f = frame_runs [OF E h(2) bg h0(2)]
  obtain b2 where sv: "mb_block_delta_save (he_os H) (ho_block h1) True = (b2, Inr (delta_chunks (get_hot_epoch (ho_block h1))))"
      "block_wf b2" "frame b2 = frame (ho_block h1)"
    by (rule delta_save_facts [OF E f(3,5)])
  define ds where "ds = delta_chunks (get_hot_epoch (ho_block h1))"
  define h1' where "h1' = h1\<lparr>ho_block := b2\<rparr>"
  have s': "savable H h1'" using s sv(2) frame_eqD [OF sv(3)] by (simp add: h1'_def savable_def in_hand_def)
  define k2 where "k2 = k\<lparr>ho_block := (ho_block k)\<lparr>bk_load_touched := False\<rparr>\<rparr>"
  have b2: "block_wf (ho_block k2)" "bk_sealed (ho_block k2)" "same_machine (ho_block h) (ho_block k2)"
    using e by (simp_all add: k2_def block_wf_touched same_machine_touched)
  obtain t ts where ts: "tail_chunks h1' = Some (h1'\<lparr>ho_threads := t\<rparr>, ts)"
    by (rule rest_loads [OF s', of k2]) (use e in \<open>auto simp: h1'_def k2_def\<close>)
  obtain c where c: "mb_block_delta_apply (he_os H) (ho_block k2) (concat ds @ concat ts) = (c, concat ts, Inr ())"
    "block_wf c" "same_machine b2 c"
    by (rule frame_trip [OF E h(2) bg h0(2) sv(1) b2, of "concat ts"]) (simp add: ds_def)
  obtain T F where r: "load_rest H (ho_program_break h1') (k2\<lparr>ho_block := c\<rparr>) (concat ts) = (k2\<lparr>ho_block := c,
       ho_program_break := ho_program_break h1', ho_threads := T, ho_context := ho_context h1', ho_fs := F,
       ho_getrandom_state := ho_getrandom_state h1'\<rparr>, None, [])"
    "rest_back (h1'\<lparr>ho_threads := t\<rparr>) (k2\<lparr>ho_block := c,
       ho_program_break := ho_program_break h1', ho_threads := T, ho_context := ho_context h1', ho_fs := F,
       ho_getrandom_state := ho_getrandom_state h1'\<rparr>)"
    by (rule rest_loads [OF s', of "k2\<lparr>ho_block := c\<rparr>"]) (use e ts in \<open>auto simp: h1'_def k2_def\<close>)
  define k4 where "k4 = k2\<lparr>ho_block := c, ho_program_break := ho_program_break h1', ho_threads := T,
      ho_context := ho_context h1', ho_fs := F, ho_getrandom_state := ho_getrandom_state h1'\<rparr>"
  have "mb_host_delta_save H True h1 = Some (h1'\<lparr>ho_threads := t\<rparr>, Some (delta_head h1 (ho_program_break h1) @ ds @ ts))"
    using d sv(1) ts by (simp add: mb_host_delta_save_def while_active_on delta_save_body_def Let_def ds_def h1'_def) (simp add: in_hand_def)
  moreover have "mb_host_delta_apply H k (concat (delta_head h1 (ho_program_break h1) @ ds @ ts)) =
      Some (k4\<lparr>ho_epoch_threads := None\<rparr>, None)"
    using delta_front_read [of h1 k2] c(1) r(1) d e
    by (simp add: mb_host_delta_apply_def while_active_on delta_apply_body_def Let_def k2_def [symmetric] k4_def [symmetric])
       (simp add: in_hand_def k2_def h1'_def k4_def)
  moreover have "brought_back (h1'\<lparr>ho_threads := t\<rparr>) (k4\<lparr>ho_epoch_threads := None\<rparr>)"
    using c(2,3) r(2) e by (simp add: brought_back_def rest_back_def k4_def h1'_def k2_def)
  ultimately show ?thesis by blast
qed

text \<open>The machine of \<open>demo_host\<close> after the frame of \<open>demo_frame\<close>.\<close>

definition demo_host_frame :: mb_host where
  "demo_host_frame = demo_host\<lparr>ho_block := demo_frame\<rparr>"

lemma demo_ran: "ran_frame demo_henv demo_host demo_host_frame" "savable demo_henv demo_host_frame"
  "follows demo_host demo_host_frame demo_host"
proof -
  obtain b0 where b0: "mb_block_epoch_begin demo_env demo_sealed = (b0, Inr ())" "(frame_step demo_env)\<^sup>*\<^sup>* b0 demo_frame" 
    by (rule demo_epoch)
  note f = frame_runs [OF demo_env_ok demo_ready b0]
  have E: "he_os demo_henv = demo_env" by (simp add: demo_henv_def)
  have h: "in_hand demo_host" by (simp add: in_hand_def)
  note d = demo_savable [unfolded savable_def]
  obtain t ts where t: "mb_threads_save mb_threads_new (ho_context demo_host) = Some (t, ts)"
    using threads_load_saved [of mb_threads_new mb_threads_new "ho_context demo_host" "ho_context demo_host" "[]"] d by auto
  obtain hs where hs: "mb_fs_save_handles mb_fs_new = Some hs"
    by (rule handles_load [of mb_fs_new "he_alloc demo_henv" mb_fs_new "[]"]) (use d in \<open>auto simp: fs_wf_def list_all_iff\<close>)
  obtain h0 where "mb_host_epoch_begin demo_henv demo_host = Some (h0, True)" "ho_block h0 = b0"
    using b0(1) t hs by (simp add: mb_host_epoch_begin_def while_active_on [OF h] epoch_begin_body_def E files_save_def)
  then show "ran_frame demo_henv demo_host demo_host_frame" using b0(2) by (auto simp: ran_frame_def E demo_host_frame_def)
  show "savable demo_henv demo_host_frame"
    using d f by (simp add: savable_def demo_host_frame_def in_hand_def)
  show "follows demo_host demo_host_frame demo_host"
    using d same_machine_refl by (auto simp: follows_def demo_host_frame_def in_hand_def fs_wf_def list_all_iff)
qed

theorem host_delta_roundtrip_witness:
  "ran_frame demo_henv demo_host demo_host_frame \<and>
   (\<exists>h2 chunks k. mb_host_delta_save demo_henv True demo_host_frame = Some (h2, Some chunks) \<and>
      mb_host_delta_apply demo_henv demo_host (concat chunks) = Some (k, None) \<and> brought_back h2 k)"
proof -
  have "env_ok (he_os demo_henv)" "in_hand demo_host" "frame_ready (ho_block demo_host)"
    using demo_ready by (simp_all add: demo_henv_def in_hand_def)
  from host_delta_roundtrip [OF this demo_ran] demo_ran(1) show ?thesis by blast
qed

section \<open>Two deltas composed\<close>

lemma take_stampD:
  assumes "take_stamp s = Some (brk, hash, t)"
  shows "s = DELTA_START @ brk @ hash @ t" "length brk = 8" "length hash = 32"
  using assms by (auto simp: take_stamp_def take_magic_def dest!: take_bytes_SomeD split: Option.bind_splits if_splits)

text \<open>
  C13: Two deltas of a machine composed in memory are byte for byte what the
  streaming composition of them writes: the second delta's break and image, the
  merged pages, and everything that follows the pages in the second delta (the
  threads, the files, the end), for every pair the streaming version accepts.
\<close>

theorem host_compose_mem_equiv:
  assumes c: "mb_host_delta_compose True sa sb = Some cs"
  shows "\<exists>cs'. mb_host_delta_compose_mem sa sb = Some cs' \<and> concat cs' = concat cs"
proof -
  obtain brk_a a brk_b hash b ds parts rest where st: "take_stamp sa = Some (brk_a, hash, a)" "take_stamp sb = Some (brk_b, hash, b)"
    and d: "mb_block_delta_compose True a b = Inr ds" "parts_read True b = Inr (parts, rest)"
    and cs: "cs = [DELTA_START, brk_b, hash] @ ds @ [rest]"
    using c by (auto simp: mb_host_delta_compose_def split: Option.bind_splits if_splits sum.splits)
  note sa = take_stampD [OF st(1)] and sb = take_stampD [OF st(2)]
  obtain ds' where "mb_block_delta_compose_mem a b = Inr (ds', length b - length rest)" "concat ds' = concat ds" "b = delta_bytes parts @ rest"
    using compose_mem_writes [OF d(1)] d(2) by auto
  then show ?thesis
    using sa sb by (simp add: mb_host_delta_compose_mem_def Let_def cs)
qed

definition stamped :: "delta_parts \<Rightarrow> bytes" where
  "stamped d = DELTA_START @ u64_bytes 0 @ replicate 32 7 @ delta_bytes d"

theorem host_compose_mem_equiv_witness:
  "\<exists>cs cs'. mb_host_delta_compose True (stamped (sample_delta 1 3)) (stamped (sample_delta 2 5)) = Some cs \<and>
    mb_host_delta_compose_mem (stamped (sample_delta 1 3)) (stamped (sample_delta 2 5)) = Some cs' \<and> concat cs' = concat cs"
proof -
  have "\<exists>cs. mb_host_delta_compose True (stamped (sample_delta 1 3)) (stamped (sample_delta 2 5)) = Some cs"
    by (simp add: mb_host_delta_compose_def stamped_def take_stamp_def sample_read mb_block_delta_compose_def)
       (simp add: sample_delta_def)
  with host_compose_mem_equiv show ?thesis by blast
qed

end
