(* ===== verification/Mb_Plan.thy ===== *)
theory Mb_Plan
  imports Mb_Side Mb_State_Props
begin

text \<open>
  A planned state: its pages are listed and owed, and are copied to the caller's
  buffer while the guest runs, by a filling thread or by the guest's own first
  write. What a listed page owes (\<open>promised\<close>) is its bytes while they are still
  held and the copy afterwards; nothing the guest or the filler does changes it.
\<close>

section \<open>Slots of the buffer\<close>

definition slot_at :: "mb_block \<Rightarrow> nat \<Rightarrow> bytes" where
  "slot_at b k = take MB_PAGESIZE (drop (bk_plan_data_at b + k * MB_PAGESIZE) (bk_plan_dest b))"

definition promised :: "mb_block \<Rightarrow> nat \<Rightarrow> bytes" where
  "promised b i =
    (let p = bk_pages b ! i in if pg_plan_hold p then pg_live p else slot_at b (pg_plan_slot p))"

definition plan_inv :: "nat list \<Rightarrow> mb_block \<Rightarrow> bool" where
  "plan_inv L b \<longleftrightarrow>
     (\<forall>k < length L. L ! k < bk_npages b \<and> pg_plan_slot (bk_pages b ! (L ! k)) = k) \<and>
     bk_plan_data_at b + length L * MB_PAGESIZE \<le> length (bk_plan_dest b) \<and>
     (\<forall>i < bk_npages b. length (pg_live (bk_pages b ! i)) = MB_PAGESIZE \<and>
        (pg_plan_hold (bk_pages b ! i) \<longrightarrow> bk_plan_active b \<and> i \<in> set L))"

text \<open>What stays: the buffer around the slots, and what every listed page owes. No page becomes owed.\<close>

definition plan_same :: "nat list \<Rightarrow> mb_block \<Rightarrow> mb_block \<Rightarrow> bool" where
  "plan_same L b b' \<longleftrightarrow> bk_npages b' = bk_npages b \<and> bk_plan_active b' = bk_plan_active b \<and>
     bk_plan_data_at b' = bk_plan_data_at b \<and>
     take (bk_plan_data_at b) (bk_plan_dest b') = take (bk_plan_data_at b) (bk_plan_dest b) \<and>
     drop (bk_plan_data_at b + length L * MB_PAGESIZE) (bk_plan_dest b') =
       drop (bk_plan_data_at b + length L * MB_PAGESIZE) (bk_plan_dest b) \<and>
     (\<forall>i \<in> set L. promised b' i = promised b i) \<and>
     (\<forall>i < bk_npages b. pg_plan_hold (bk_pages b' ! i) \<longrightarrow> pg_plan_hold (bk_pages b ! i))"

definition plan_to :: "nat list \<Rightarrow> mb_block \<Rightarrow> mb_block \<Rightarrow> bool" where
  "plan_to L b b' \<longleftrightarrow> plan_inv L b' \<and> plan_same L b b'"

lemma plan_to_refl: "plan_inv L b \<Longrightarrow> plan_to L b b"
  by (simp add: plan_to_def plan_same_def)

lemma plan_to_trans: "plan_to L b b1 \<Longrightarrow> plan_to L b1 b2 \<Longrightarrow> plan_to L b b2"
  by (simp add: plan_to_def plan_same_def)

lemma plan_toD:
  assumes "plan_to L b b'"
  shows "plan_inv L b'" "bk_npages b' = bk_npages b" "bk_plan_active b' = bk_plan_active b"
    "i < bk_npages b \<Longrightarrow> \<not> pg_plan_hold (bk_pages b ! i) \<Longrightarrow> \<not> pg_plan_hold (bk_pages b' ! i)"
  using assms by (auto simp: plan_to_def plan_same_def)

lemma owed_same:
  assumes "owed b' = owed b"
  shows "bk_npages b' = bk_npages b" "bk_plan_dest b' = bk_plan_dest b" "bk_plan_data_at b' = bk_plan_data_at b"
    "bk_plan_active b' = bk_plan_active b" "i < bk_npages b \<Longrightarrow> owing (bk_pages b' ! i) = owing (bk_pages b ! i)"
proof -
  have m: "map owing (bk_pages b') = map owing (bk_pages b)" using assms by (simp add: owed_def)
  then show n: "bk_npages b' = bk_npages b" unfolding bk_npages_def by (metis length_map)
  show "i < bk_npages b \<Longrightarrow> owing (bk_pages b' ! i) = owing (bk_pages b ! i)"
    using m n unfolding bk_npages_def by (metis nth_map)
qed (use assms in \<open>simp_all add: owed_def\<close>)

lemma owed_plan_to:
  assumes o: "owed b' = owed b" and b: "plan_inv L b"
  shows "plan_to L b b'"
proof -
  note s = owed_same [OF o]
  have p: "pg_plan_hold (bk_pages b' ! i) = pg_plan_hold (bk_pages b ! i)" "pg_plan_slot (bk_pages b' ! i) = pg_plan_slot (bk_pages b ! i)"
      "pg_live (bk_pages b' ! i) = pg_live (bk_pages b ! i)" if "i < bk_npages b" for i
    using s(5) [OF that] by (simp_all add: owing_def)
  have l: "i < bk_npages b" if "i \<in> set L" for i using that b by (auto simp: plan_inv_def in_set_conv_nth)
  have "plan_inv L b'" using b s(1-4) p by (simp add: plan_inv_def)
  moreover have "plan_same L b b'" using s(1-4) p l by (simp add: plan_same_def promised_def slot_at_def Let_def)
  ultimately show ?thesis by (simp add: plan_to_def)
qed

lemma slot_put:
  assumes "length src = MB_PAGESIZE" "at + k * MB_PAGESIZE + MB_PAGESIZE \<le> length dest" "at + j * MB_PAGESIZE + MB_PAGESIZE \<le> length dest"
  shows "take MB_PAGESIZE (drop (at + j * MB_PAGESIZE) (put_at dest (at + k * MB_PAGESIZE) src)) =
    (if j = k then src else take MB_PAGESIZE (drop (at + j * MB_PAGESIZE) dest))"
proof (rule nth_equalityI)
  note k = assms(2,3)
  show "length (take MB_PAGESIZE (drop (at + j * MB_PAGESIZE) (put_at dest (at + k * MB_PAGESIZE) src))) =
      length (if j = k then src else take MB_PAGESIZE (drop (at + j * MB_PAGESIZE) dest))"
    using k assms(1) by simp
  fix x assume "x < length (take MB_PAGESIZE (drop (at + j * MB_PAGESIZE) (put_at dest (at + k * MB_PAGESIZE) src)))"
  then have x: "x < MB_PAGESIZE" using k assms(1) by simp
  have "(k * MB_PAGESIZE \<le> j * MB_PAGESIZE + x \<and> j * MB_PAGESIZE + x < k * MB_PAGESIZE + MB_PAGESIZE) = (j = k)"
  proof
    assume "k * MB_PAGESIZE \<le> j * MB_PAGESIZE + x \<and> j * MB_PAGESIZE + x < k * MB_PAGESIZE + MB_PAGESIZE"
    then show "j = k" using x unfolding MB_PAGESIZE_def by linarith
  qed (use x in simp)
  then show "take MB_PAGESIZE (drop (at + j * MB_PAGESIZE) (put_at dest (at + k * MB_PAGESIZE) src)) ! x =
      (if j = k then src else take MB_PAGESIZE (drop (at + j * MB_PAGESIZE) dest)) ! x"
    using k x assms(1) by (auto simp: nth_put_at)
qed

lemma put_around:
  assumes "length src = MB_PAGESIZE" "k < n" "at + n * MB_PAGESIZE \<le> length dest"
  shows "length (put_at dest (at + k * MB_PAGESIZE) src) = length dest"
    "take at (put_at dest (at + k * MB_PAGESIZE) src) = take at dest"
    "drop (at + n * MB_PAGESIZE) (put_at dest (at + k * MB_PAGESIZE) src) = drop (at + n * MB_PAGESIZE) dest"
proof -
  have k: "at + k * MB_PAGESIZE + MB_PAGESIZE \<le> at + n * MB_PAGESIZE" using assms(2) mult_le_mono1 [of "k + 1" n MB_PAGESIZE] by simp
  then show l: "length (put_at dest (at + k * MB_PAGESIZE) src) = length dest" using assms by simp
  show "take at (put_at dest (at + k * MB_PAGESIZE) src) = take at dest" using k assms by (simp add: put_at_def)
  show "drop (at + n * MB_PAGESIZE) (put_at dest (at + k * MB_PAGESIZE) src) = drop (at + n * MB_PAGESIZE) dest"
    using k assms by (simp add: put_at_def ac_simps)
qed

section \<open>What the primitives do to what is owed\<close>

lemma plan_listD:
  assumes "plan_inv L b" "i \<in> set L"
  obtains k where "k < length L" "L ! k = i" "i < bk_npages b" "pg_plan_slot (bk_pages b ! i) = k"
  using assms by (auto simp: plan_inv_def in_set_conv_nth)

lemma capture_plan_to:
  assumes b: "plan_inv L b" and i: "i < bk_npages b"
  shows "plan_to L b (mb_block_plan_capture b i)" "\<not> pg_plan_hold (bk_pages (mb_block_plan_capture b i) ! i)"
proof -
  have "plan_to L b (mb_block_plan_capture b i) \<and> \<not> pg_plan_hold (bk_pages (mb_block_plan_capture b i) ! i)"
  proof (cases "pg_plan_hold (bk_pages b ! i)")
    case False
    then show ?thesis using plan_to_refl [OF b] by (simp add: mb_block_plan_capture_def plan_take_def)
  next
    case True
    then have a: "bk_plan_active b" "i \<in> set L" and l: "length (pg_live (bk_pages b ! i)) = MB_PAGESIZE"
      using b i by (auto simp: plan_inv_def)
    obtain k where k: "k < length L" "L ! k = i" "pg_plan_slot (bk_pages b ! i) = k" using plan_listD [OF b a(2)] by metis
    let ?at = "bk_plan_data_at b" and ?d = "bk_plan_dest b" and ?x = "pg_live (bk_pages b ! i)"
    define b' where "b' = mb_block_plan_capture b i"
    have e: "b' = upd_page (\<lambda>p. p\<lparr>pg_plan_hold := False\<rparr>) (b\<lparr>bk_plan_dest := put_at ?d (?at + k * MB_PAGESIZE) ?x\<rparr>) i"
      using True a k by (simp add: b'_def mb_block_plan_capture_def plan_take_def plan_copy_page_def Let_def)
    have room: "?at + length L * MB_PAGESIZE \<le> length ?d" using b by (simp add: plan_inv_def)
    note p = put_around [OF l k(1) room]
    have pg: "bk_pages b' ! j = (if j = i then (bk_pages b ! i)\<lparr>pg_plan_hold := False\<rparr> else bk_pages b ! j)" if "j < bk_npages b" for j
      using that i by (simp add: e upd_page_def bk_npages_def nth_list_update)
    have n: "bk_npages b' = bk_npages b" "bk_plan_active b' = bk_plan_active b" "bk_plan_data_at b' = ?at"
        "bk_plan_dest b' = put_at ?d (?at + k * MB_PAGESIZE) ?x"
      by (simp_all add: e)
    have pr: "promised b' j = promised b j" if j: "j \<in> set L" for j
    proof -
      obtain m where m: "m < length L" "L ! m = j" "j < bk_npages b" "pg_plan_slot (bk_pages b ! j) = m" using plan_listD [OF b j] by metis
      have "(k + 1) * MB_PAGESIZE \<le> length L * MB_PAGESIZE" "(m + 1) * MB_PAGESIZE \<le> length L * MB_PAGESIZE"
        using k(1) m(1) by (intro mult_le_mono1; simp)+
      then have "?at + k * MB_PAGESIZE + MB_PAGESIZE \<le> length ?d" "?at + m * MB_PAGESIZE + MB_PAGESIZE \<le> length ?d"
        using room by simp_all
      then have sl: "slot_at b' m = (if m = k then ?x else slot_at b m)"
        using slot_put [OF l] by (simp add: slot_at_def n(3,4))
      show ?thesis
      proof (cases "j = i")
        case True
        then have "m = k" using m(4) k(3) by simp
        then show ?thesis using sl pg [OF m(3)] True \<open>pg_plan_hold (bk_pages b ! i)\<close> k(3) by (simp add: promised_def Let_def)
      next
        case False
        then have "m \<noteq> k" using m(2) k(2) by auto
        then show ?thesis using sl pg [OF m(3)] False m(4) by (simp add: promised_def Let_def)
      qed
    qed
    have "plan_inv L b'"
      unfolding plan_inv_def
    proof (intro conjI allI impI)
      show "bk_plan_data_at b' + length L * MB_PAGESIZE \<le> length (bk_plan_dest b')" unfolding n(3,4) p(1) by (rule room)
    qed (use b pg n(1,2) in \<open>auto simp: plan_inv_def split: if_splits\<close>)
    moreover have "plan_same L b b'"
      unfolding plan_same_def n by (intro conjI ballI allI impI p pr refl) (use pg in \<open>auto split: if_splits\<close>)
    ultimately show ?thesis using pg [OF i] by (simp add: plan_to_def b'_def)
  qed
  then show "plan_to L b (mb_block_plan_capture b i)" "\<not> pg_plan_hold (bk_pages (mb_block_plan_capture b i) ! i)" by simp_all
qed

lemma live_plan_to:
  assumes b: "plan_inv L b" and i: "i < bk_npages b" "\<not> pg_plan_hold (bk_pages b ! i)"
    and g: "\<And>xs. length xs = MB_PAGESIZE \<Longrightarrow> length (g xs) = MB_PAGESIZE"
  shows "plan_to L b (upd_page (\<lambda>p. p\<lparr>pg_live := g (pg_live p)\<rparr>) b i)"
proof -
  define b' where "b' = upd_page (\<lambda>p. p\<lparr>pg_live := g (pg_live p)\<rparr>) b i"
  have pg: "bk_pages b' ! j = (if j = i then (bk_pages b ! i)\<lparr>pg_live := g (pg_live (bk_pages b ! i))\<rparr> else bk_pages b ! j)"
    if "j < bk_npages b" for j
    using that i by (simp add: b'_def upd_page_def bk_npages_def nth_list_update)
  have n: "bk_npages b' = bk_npages b" "bk_plan_active b' = bk_plan_active b" "bk_plan_data_at b' = bk_plan_data_at b"
    "bk_plan_dest b' = bk_plan_dest b" by (simp_all add: b'_def)
  have "promised b' j = promised b j" if "j \<in> set L" for j
  proof -
    have "j < bk_npages b" using plan_listD [OF b that] by metis
    then show ?thesis using pg i(2) n by (simp add: promised_def slot_at_def Let_def)
  qed
  then have "plan_same L b b'" using n pg by (simp add: plan_same_def)
  moreover have "plan_inv L b'" using b n pg g by (auto simp: plan_inv_def split: if_splits)
  ultimately show ?thesis by (simp add: plan_to_def b'_def)
qed

lemma zero_run_plan_to:
  assumes "plan_inv L b" "0 < count \<Longrightarrow> start + count \<le> bk_npages b" "\<And>j. start \<le> j \<Longrightarrow> j < start + count \<Longrightarrow> \<not> pg_plan_hold (bk_pages b ! j)"
  shows "plan_to L b (zero_run b start count)"
  using assms
proof (induction count)
  case (Suc m)
  let ?c = "zero_run b start m"
  have c: "plan_to L b ?c" using Suc by simp
  have "plan_to L ?c (upd_page (\<lambda>p. p\<lparr>pg_live := (\<lambda>_. zero_page) (pg_live p)\<rparr>) ?c (start + m))"
    using Suc.prems plan_toD [OF c] by (intro live_plan_to) (simp_all add: zero_page_def)
  then show ?case using plan_to_trans [OF c] by (simp add: zero_run_def)
qed (simp add: zero_run_def plan_to_refl)

lemma fold_plan_to:
  assumes "plan_inv L b" "\<And>i b. i \<in> set xs \<Longrightarrow> plan_inv L b \<Longrightarrow> bk_npages b = n \<Longrightarrow> plan_to L b (f i b)" "bk_npages b = n"
  shows "plan_to L b (fold f xs b)"
  using assms
proof (induction xs arbitrary: b)
  case (Cons x xs)
  have s: "plan_to L b (f x b)" using Cons.prems by simp
  then have "plan_to L (f x b) (fold f xs (f x b))" using Cons.prems plan_toD [OF s] by (intro Cons.IH) simp_all
  then show ?case using plan_to_trans [OF s] by simp
qed (simp add: plan_to_refl)

section \<open>Giving pages back\<close>

lemma free_loop_plan_to:
  assumes b: "plan_inv L b" and n: "ps + m \<le> bk_npages b" and r: "fold (free_step E) [ps..<ps + m] (b, ps, 0) = (b', rs, run)"
  shows "plan_to L b b' \<and> ps \<le> rs \<and> (run = 0 \<or> rs + run = ps + m) \<and> (\<forall>j. ps \<le> j \<and> j < ps + m \<longrightarrow> \<not> pg_plan_hold (bk_pages b' ! j))"
  using n r
proof (induction m arbitrary: b' rs run)
  case 0
  then show ?case using plan_to_refl [OF b] by auto
next
  case (Suc m)
  let ?i = "ps + m"
  obtain c rs0 run0 where c0: "fold (free_step E) [ps..<ps + m] (b, ps, 0) = (c, rs0, run0)"
    by (cases "fold (free_step E) [ps..<ps + m] (b, ps, 0)") auto
  have IH: "plan_to L b c" "ps \<le> rs0" "run0 = 0 \<or> rs0 + run0 = ps + m"
      "\<And>j. ps \<le> j \<Longrightarrow> j < ps + m \<Longrightarrow> \<not> pg_plan_hold (bk_pages c ! j)"
    using Suc.IH [OF _ c0] Suc.prems(1) by simp_all
  note nc = plan_toD [OF IH(1)]
  have i: "?i < bk_npages c" using Suc.prems(1) nc(2) by simp
  define c1 where "c1 = mb_block_plan_capture c ?i"
  define c3 where "c3 = epoch_note_status_change (fst (page_snapshot E c1 ?i)) ?i MB_ST_FREE"
  note cap = capture_plan_to [OF nc(1) i, folded c1_def]
  have t3: "plan_to L c1 c3" using plan_toD(1) [OF cap(1)] by (intro owed_plan_to) (simp add: c3_def blind)
  have to3: "plan_to L c c3" by (rule plan_to_trans [OF cap(1) t3])
  have h3: "\<not> pg_plan_hold (bk_pages c3 ! j)" if "ps \<le> j" "j < ps + Suc m" for j
    using that IH(4) [of j] plan_toD(4) [OF to3, of j] plan_toD(4) [OF t3, of ?i] plan_toD(2) [OF cap(1)] cap(2) i by (cases "j = ?i") auto
  have z: "plan_to L c3 (zero_run c3 rs0 run0)"
    using IH(2,3) h3 plan_toD(1,2) [OF to3] i by (intro zero_run_plan_to) auto
  have d: "plan_to L c (set_dirty c4 ?i q)" "\<forall>j. ps \<le> j \<and> j < ps + Suc m \<longrightarrow> \<not> pg_plan_hold (bk_pages (set_dirty c4 ?i q) ! j)"
    if "plan_to L c3 c4" for c4 q
  proof -
    have s: "plan_to L c4 (set_dirty c4 ?i q)" using plan_toD(1) [OF that] by (intro owed_plan_to) (simp add: blind)
    show "plan_to L c (set_dirty c4 ?i q)" by (rule plan_to_trans [OF to3 plan_to_trans [OF that s]])
    show "\<forall>j. ps \<le> j \<and> j < ps + Suc m \<longrightarrow> \<not> pg_plan_hold (bk_pages (set_dirty c4 ?i q) ! j)"
      using h3 plan_toD(4) [OF plan_to_trans [OF that s]] plan_toD(2) [OF to3] i by auto
  qed
  have "free_step E ?i (c, rs0, run0) = (b', rs, run)" using Suc.prems(2) c0 by simp
  then have "(\<exists>q. b' = set_dirty (zero_run c3 rs0 run0) ?i q) \<and> rs = rs0 \<and> run = 0 \<or>
      (\<exists>q. b' = set_dirty c3 ?i q) \<and> rs = (if run0 = 0 then ?i else rs0) \<and> run = run0 + 1"
    unfolding free_step_def c1_def c3_def by (auto simp: Let_def split: if_splits)
  then show ?case
    using d [OF z] d [OF plan_to_refl [OF plan_toD(1) [OF to3]]] plan_to_trans [OF IH(1)] IH(2,3) by (auto split: if_splits)
qed

lemma free_pages_plan_to:
  assumes b: "plan_inv L b" and n: "ps + m \<le> bk_npages b"
  shows "plan_to L b (free_pages E b ps m advise_only)"
proof -
  obtain c rs run where r: "fold (free_step E) [ps..<ps + m] (b, ps, 0) = (c, rs, run)"
    by (cases "fold (free_step E) [ps..<ps + m] (b, ps, 0)") auto
  note f = free_loop_plan_to [OF b n r]
  have z: "plan_to L c (zero_run c rs run)"
    using f n plan_toD(1,2) [OF conjunct1 [OF f]] by (intro zero_run_plan_to) auto
  have "plan_to L (zero_run c rs run) (if advise_only then refresh_range E (zero_run c rs run) ps m
      else set_protections E (zero_run c rs run) ps m MB_ST_FREE)"
    using plan_toD(1) [OF z] by (intro owed_plan_to) (simp add: blind)
  then show ?thesis
    using plan_to_trans [OF plan_to_trans [OF conjunct1 [OF f] z]] by (simp add: free_pages_def r Let_def)
qed

section \<open>A write of the guest\<close>

lemma snapshots_owed: "owed (fst (trip_snapshots E b pi qs)) = owed b"
proof -
  have "owed (fst (fold (\<lambda>qi (b, ok). if \<not> ok \<or> \<not> group_page_held (bk_pages b) qi pi then (b, ok) else page_snapshot E b qi) qs s)) = owed (fst s)" for s
    by (induction qs arbitrary: s) (auto simp: blind split: prod.splits)
  then show ?thesis by (simp add: trip_snapshots_def)
qed

lemma trip_pages_plan_to:
  assumes "plan_inv L b" "\<And>q. q \<in> set qs \<Longrightarrow> q < bk_npages b"
  shows "plan_to L b (fst (trip_pages b pi qs))"
proof -
  have "plan_to L b (fst (fold (\<lambda>qi (b, released). if \<not> group_page_held (bk_pages b) qi pi then (b, released)
      else (trip_release b qi, released @ [qi])) qs (b, r)))" for r
    using assms
  proof (induction qs arbitrary: b r)
    case (Cons q qs)
    have "plan_to L b (trip_release b q)"
    proof -
      let ?c = "mb_block_epoch_capture b q"
      have 1: "plan_to L b ?c" using Cons.prems by (intro owed_plan_to) (simp_all add: blind)
      have 2: "plan_to L ?c (mb_block_plan_capture ?c q)"
        using capture_plan_to(1) [OF plan_toD(1) [OF 1]] plan_toD(2) [OF 1] Cons.prems(2) by simp
      have "plan_to L (mb_block_plan_capture ?c q) (trip_release b q)"
        using plan_toD(1) [OF 2] by (intro owed_plan_to) (simp_all add: blind trip_release_def)
      then show ?thesis by (rule plan_to_trans [OF plan_to_trans [OF 1 2]])
    qed
    moreover from this have "plan_inv L (trip_release b q)" "bk_npages (trip_release b q) = bk_npages b"
      by (auto dest: plan_toD)
    ultimately show ?case using Cons plan_to_trans [of L b "trip_release b q"] by simp
  qed (simp add: plan_to_refl)
  then show ?thesis by (simp add: trip_pages_def)
qed

lemma trip_plan_to:
  assumes "plan_inv L b" "i < bk_npages b"
  shows "plan_to L b (fst (trip E b i))"
proof (cases "status_tracked (pg_status (bk_pages b ! i))")
  case True
  let ?n = "os_group E"
  define qs where "qs = [i div ?n * ?n..<min (i div ?n * ?n + ?n) (bk_npages b)]"
  obtain b1 ok where 1: "trip_snapshots E b i qs = (b1, ok)" by (cases "trip_snapshots E b i qs")
  obtain b2 rel where 2: "trip_pages b1 i qs = (b2, rel)" by (cases "trip_pages b1 i qs")
  obtain b3 granted where 3: "mb_block_protect_group E b2 i = (b3, granted)" by (cases "mb_block_protect_group E b2 i")
  define b4 where "b4 = fold (\<lambda>qi b. mb_block_note_unheld b qi) rel b3"
  have t1: "plan_to L b b1" using snapshots_owed [of E b i qs] 1 assms by (intro owed_plan_to) simp_all
  have t2: "plan_to L b1 b2"
    using trip_pages_plan_to [of L b1 qs i] plan_toD(1,2) [OF t1] 2 by (simp add: qs_def)
  have t3: "plan_to L b2 b3"
    using ow.obs_protect_group [of E b2 i] plan_toD(1) [OF t2] 3 by (intro owed_plan_to) simp_all
  have "owed b4 = owed b3" unfolding b4_def by (rule ow.obs_fold) (simp add: blind)
  then have t4: "plan_to L b3 b4" using plan_toD(1) [OF t3] by (intro owed_plan_to)
  note t = t1 plan_to_trans [OF t1 t2] plan_to_trans [OF plan_to_trans [OF t1 t2] t3]
    plan_to_trans [OF plan_to_trans [OF plan_to_trans [OF t1 t2] t3] t4]
  have "fst (trip E b i) \<in> {b1, b3, b4}"
    using True by (simp add: trip_def Let_def qs_def [symmetric] 1 2 3 b4_def)
  then show ?thesis using t by auto
qed (use assms in \<open>simp add: trip_refused plan_to_refl\<close>)

section \<open>Everything the guest does\<close>

text \<open>A page that can be written without a fault owes nothing.\<close>

definition os_v :: "pview \<Rightarrow> bool" where
  "os_v v \<longleftrightarrow> (prot_writable (pg_os (v_page v)) \<longrightarrow> \<not> pg_plan_hold (v_page v))"

definition plan_ready :: "nat list \<Rightarrow> os_env \<Rightarrow> mb_block \<Rightarrow> bool" where
  "plan_ready L E b \<longleftrightarrow> env_ok E \<and> block_ok b \<and> bk_swapped_in b \<and> unat (rg_size (bk_addr b)) = bk_npages b * MB_PAGESIZE \<and>
     plan_inv L b \<and> (\<forall>j < bk_npages b. os_v (view b j))"

definition plan_keeps :: "nat list \<Rightarrow> mb_block \<Rightarrow> mb_block \<Rightarrow> bool" where
  "plan_keeps L b b' \<longleftrightarrow> block_ok b' \<and> bk_addr b' = bk_addr b \<and> bk_swapped_in b' = bk_swapped_in b \<and>
     bk_plan_list b' = bk_plan_list b \<and> plan_to L b b' \<and> (\<forall>j < bk_npages b. os_v (view b' j))"

lemma os_refresh: "os_v v \<Longrightarrow> os_v (refresh_v fr v)"
  by (auto simp: os_v_def refresh_v_def note_prot_v_def Let_def native_writable)

lemma os_kept: "pg_os (v_page (status_v st v)) = pg_os (v_page v)" "pg_os (v_page (estat_v st fr v)) = pg_os (v_page v)"
  by (simp_all add: status_v_def cool_v_def estat_v_def capture_v_def written_v_def Let_def)

lemma os_protect_v: "os_v v \<Longrightarrow> os_v (protect_v st fr v)"
  unfolding protect_v_def by (rule os_refresh) (simp add: os_v_def os_kept)

lemma plan_keeps_acts:
  assumes r: "plan_ready L E b" and t: "plan_to L b b'" and a: "acts_on g I b b'"
    and g: "\<And>j. j < bk_npages b \<Longrightarrow> os_v (view b j) \<Longrightarrow> (pg_plan_hold (v_page (view b j)) \<Longrightarrow> fr_plan (frame b)) \<Longrightarrow> os_v (g (frame b) (view b j))"
  shows "plan_keeps L b b'"
  using assms acts_onD [OF a] frame_eqD(2,5,12) [OF acts_onD(2) [OF a]] unfolding plan_keeps_def plan_ready_def plan_inv_def by simp

interpretation pln: guest_memory "plan_ready L" "plan_keeps L" for L
proof unfold_locales
  fix E b ps n st advise_only i off and xs :: bytes
  assume r: "plan_ready L E b"
  then have E: "env_ok E" and b: "block_ok b" "plan_inv L b" and o: "\<And>j. j < bk_npages b \<Longrightarrow> os_v (view b j)"
    by (simp_all add: plan_ready_def)
  show "block_ok b \<and> unat (rg_size (bk_addr b)) = bk_npages b * MB_PAGESIZE" "plan_keeps L b b"
    using r by (simp_all add: plan_ready_def plan_keeps_def plan_to_refl)
  show "plan_keeps L b (set_protections E b ps n st)" if "ps + n \<le> bk_npages b"
    by (rule plan_keeps_acts [OF r _ set_protections_acts [OF E b(1) that]])
       (use b in \<open>simp_all add: owed_plan_to blind os_protect_v\<close>)
  show "plan_keeps L b (free_pages E b ps n advise_only)" if "ps + n \<le> bk_npages b"
    by (rule plan_keeps_acts [OF r free_pages_plan_to [OF b(2) that] free_pages_acts [OF E b(1) that]])
       (auto simp: os_v_def free_v_def hold_give)
  show "plan_keeps L b (fst (guest_write E b i off xs))" if i: "i < bk_npages b" and off: "off + length xs \<le> MB_PAGESIZE"
  proof -
    have st: "plan_to L c (store c i off xs)" if "plan_inv L c" "bk_npages c = bk_npages b" "\<not> pg_plan_hold (bk_pages c ! i)" for c
      unfolding store_def by (rule live_plan_to [OF that(1)]) (use that i off in simp_all)
    have t: "plan_to L b (fst (guest_write E b i off xs))"
    proof (cases "prot_writable (pg_os (bk_pages b ! i))")
      case True
      then show ?thesis using st [OF b(2)] o [OF i] by (simp add: guest_write_def os_v_def)
    next
      case False
      note tp = trip_plan_to [OF b(2) i, of E]
      have "\<not> pg_plan_hold (bk_pages c ! i)" if "trip E b i = (c, True)" for c
      proof -
        have tr: "status_tracked (pg_status (bk_pages b ! i))" using that by (auto simp: trip_refused intro: ccontr)
        then obtain c' where "trip E b i = (c', True)" "acts_on trip_v {i} b c'" using trip_acts [OF E b(1) i] by blast
        then have "view c i = trip_v (frame b) (view b i)" using acts_onD(4) [of trip_v "{i}" b c i] i that by simp
        then have "pg_plan_hold (bk_pages c ! i) = (pg_plan_hold (bk_pages b ! i) \<and> \<not> bk_plan_active b)"
          using hold_trip [of "frame b" "view b i"] by (metis frame_sel(10) view_sel(1))
        then show ?thesis using b(2) i by (simp add: plan_inv_def)
      qed
      then show ?thesis
        using False tp st plan_toD(1,2) [OF tp] plan_to_trans [OF tp] by (auto simp: guest_write_def split: prod.splits bool.splits)
    qed
    show ?thesis
      by (rule plan_keeps_acts [OF r t guest_write_acts(1) [OF E b(1) i]])
         (auto simp: os_v_def write_v_def store_v_def hold_trip)
  qed
next
  fix E b b'
  assume r: "plan_ready L E b" and k: "plan_keeps L b b'"
  show "plan_ready L E b' \<and> bk_npages b' = bk_npages b"
    using r k plan_toD(1,2) [of L b b'] by (simp add: plan_ready_def plan_keeps_def)
next
  show "plan_keeps L b b2" if "plan_keeps L b b1" "plan_keeps L b1 b2" for b b1 b2
    using that plan_toD(2) [of L b b1] plan_to_trans [of L b b1 b2] by (simp add: plan_keeps_def)
qed

section \<open>The filling thread\<close>

lemma capture_keeps:
  assumes "plan_ready L E b" "i < bk_npages b"
  shows "plan_keeps L b (mb_block_plan_capture b i)"
proof (rule plan_keeps_acts [OF assms(1) _ acts_on_one [OF plan.page_op_axioms]])
  show "plan_to L b (mb_block_plan_capture b i)" using capture_plan_to(1) assms by (simp add: plan_ready_def)
qed (use assms in \<open>auto simp: plan_ready_def os_v_def plan_v_def\<close>)

lemma take_captures: "bk_plan_active b \<Longrightarrow> fst (plan_take b i) = mb_block_plan_capture b i"
  by (simp add: mb_block_plan_capture_def)

text \<open>Taking listed pages, in any order and number.\<close>

lemma takes_keep:
  assumes "plan_ready L E b" "bk_plan_active b" "bk_plan_list b = L" "\<And>k. k \<in> set ks \<Longrightarrow> k < length L"
  shows "plan_keeps L b (fold (\<lambda>k b. fst (plan_take b (bk_plan_list b ! k))) ks b) \<and>
    (\<forall>k \<in> set ks. \<not> pg_plan_hold (bk_pages (fold (\<lambda>k b. fst (plan_take b (bk_plan_list b ! k))) ks b) ! (L ! k)))"
  using assms
proof (induction ks arbitrary: b)
  case (Cons k ks)
  let ?c = "mb_block_plan_capture b (L ! k)"
  have k: "L ! k < bk_npages b" using Cons.prems by (simp add: plan_ready_def plan_inv_def)
  have c: "plan_keeps L b ?c" "fst (plan_take b (bk_plan_list b ! k)) = ?c"
    using capture_keeps [OF Cons.prems(1) k] Cons.prems take_captures by simp_all
  have nh: "\<not> pg_plan_hold (bk_pages ?c ! (L ! k))" using capture_plan_to(2) [of L b] Cons.prems(1) k by (simp add: plan_ready_def)
  have fr: "bk_plan_list ?c = bk_plan_list b" "bk_plan_active ?c = bk_plan_active b" "bk_npages ?c = bk_npages b"
    using c(1) plan_toD(2,3) [of L b ?c] by (simp_all add: plan_keeps_def)
  have r: "plan_ready L E ?c" using pln.keeps_ready [OF Cons.prems(1) c(1)] by simp
  note IH = Cons.IH [OF r]
  let ?d = "fold (\<lambda>k b. fst (plan_take b (bk_plan_list b ! k))) ks ?c"
  have d: "plan_keeps L ?c ?d" "\<forall>k \<in> set ks. \<not> pg_plan_hold (bk_pages ?d ! (L ! k))"
    using IH Cons.prems fr by simp_all
  have "\<not> pg_plan_hold (bk_pages ?d ! (L ! k))"
    using plan_toD(4) [of L ?c ?d "L ! k"] d(1) nh k fr(3) by (simp add: plan_keeps_def)
  then show ?case using pln.keeps_then [OF c(1) d(1)] d(2) c(2) by simp
qed (simp add: pln.keeps_self)

lemma fill_takes:
  "fst (fold (\<lambda>k (b, d). case plan_take b (bk_plan_list b ! k) of (b', took) \<Rightarrow> (b', if took then d + 1 else d)) ks (b, m :: nat)) =
   fold (\<lambda>k b. fst (plan_take b (bk_plan_list b ! k))) ks b"
  by (induction ks arbitrary: b m) (simp_all add: split_beta Let_def)

lemma fill_keeps:
  assumes "plan_ready L E b" "bk_plan_list b = L"
  shows "plan_keeps L b (fst (mb_block_plan_fill b from to))"
proof (cases "bk_plan_active b")
  case True
  then show ?thesis
    using takes_keep [OF assms(1) True assms(2), of "[from..<min to (length L)]"] assms(2)
    by (simp add: mb_block_plan_fill_def fill_takes)
qed (use assms in \<open>simp add: mb_block_plan_fill_def pln.keeps_self\<close>)

section \<open>Epochs and deltas under a plan\<close>

lemma plan_keeps_owed:
  assumes r: "plan_ready L E b" and o: "owed b' = owed b" and b': "block_ok b'" "bk_addr b' = bk_addr b" "bk_swapped_in b' = bk_swapped_in b"
    and v: "\<And>j. j < bk_npages b \<Longrightarrow> os_v (view b j) \<Longrightarrow> os_v (view b' j)"
  shows "plan_keeps L b b'"
  using r b' v owed_plan_to [OF o] o by (simp add: plan_keeps_def plan_ready_def owed_def)

lemma os_begin: "os_v v \<Longrightarrow> os_v (begin_v fr v)"
proof -
  have "os_v (hold_v w) = os_v w" "os_v (shadow_v (forget_v w)) = os_v w" for w
    by (simp_all add: os_v_def hold_v_def shadow_v_def forget_v_def)
  then show "os_v v \<Longrightarrow> os_v (begin_v fr v)" by (simp add: begin_v_def rehold_v_def os_refresh)
qed

lemma epoch_begin_keeps:
  assumes r: "plan_ready L E b"
  shows "plan_keeps L b (fst (mb_block_epoch_begin E b))"
proof (cases "bk_sealed b")
  case True
  have b: "env_ok E" "block_ok b" "\<forall>i < bk_npages b. v_unheld (view b i) \<longrightarrow> bk_swapped_in b" using r by (simp_all add: plan_ready_def)
  note e = epoch_begin_views [OF b True]
  show ?thesis
    by (rule plan_keeps_owed [OF r ow.obs_epoch_begin e(2)])
       (use arg_cong [OF e(3), of fr_addr] arg_cong [OF e(3), of fr_swapped] e(4) os_begin in \<open>simp_all add: epoch_frame_def\<close>)
qed (use pln.keeps_self [OF r] in \<open>simp add: mb_block_epoch_begin_def\<close>)

lemma delta_save_keeps:
  assumes r: "plan_ready L E b"
  shows "plan_keeps L b (fst (mb_block_delta_save E b forward))"
proof -
  have b: "block_ok b" using r by (simp add: plan_ready_def)
  have cv: "os_v (compared_v v) = os_v v" "os_v (heat_v h fr v) = os_v v" for v h fr
    by (simp_all add: os_v_def compared_v_def hot_v_def heat_v_def heat_upd_def hotten_v_def cool_v_def written_v_def Let_def)
  have 1: "plan_keeps L b (get_hot_epoch b)"
    by (rule plan_keeps_acts [OF r owed_plan_to get_hot_acts [OF b]]) (use r cv in \<open>simp_all add: blind plan_ready_def\<close>)
  have r1: "plan_ready L E (get_hot_epoch b)" using pln.keeps_ready [OF r 1] by simp
  have g: "block_ok (get_hot_epoch b)" using r1 by (simp add: plan_ready_def)
  obtain H where H: "block_ok (heat_written_pages E (get_hot_epoch b))" "frame (heat_written_pages E (get_hot_epoch b)) = frame (get_hot_epoch b)"
    "\<And>j. j < bk_npages (get_hot_epoch b) \<Longrightarrow> view (heat_written_pages E (get_hot_epoch b)) j =
       (if pg_epoch_dirty (bk_pages (get_hot_epoch b) ! j) then heat_v (H j) (frame (get_hot_epoch b)) (view (get_hot_epoch b) j)
        else view (get_hot_epoch b) j)"
    by (rule heat_written_acts [OF g, of E], rule that)
  have 2: "plan_keeps L (get_hot_epoch b) (heat_written_pages E (get_hot_epoch b))"
    by (rule plan_keeps_owed [OF r1 ow.obs_heat_written H(1)]) (use frame_eqD(2,5) [OF H(2)] H(3) cv(2) in simp_all)
  show ?thesis
    using pln.keeps_self [OF r] 1 pln.keeps_then [OF 1 2] by (simp add: mb_block_delta_save_def Let_def)
qed

text \<open>A machine running on while its state is filled: the guest's own steps, the
  filling thread, and the epochs and deltas of the frames that pass.\<close>

inductive plan_step :: "os_env \<Rightarrow> mb_block \<Rightarrow> mb_block \<Rightarrow> bool" for E where
  pl_guest: "frame_step E b b' \<Longrightarrow> plan_step E b b'"
| pl_fill: "plan_step E b (fst (mb_block_plan_fill b from to))"
| pl_epoch: "plan_step E b (fst (mb_block_epoch_begin E b))"
| pl_delta: "plan_step E b (fst (mb_block_delta_save E b forward))"

lemma plan_run_keeps:
  assumes "(plan_step E)\<^sup>*\<^sup>* b b'" "plan_ready L E b" "bk_plan_list b = L"
  shows "plan_keeps L b b'"
  using assms(1)
proof induction
  case (step c d)
  have r: "plan_ready L E c" "bk_plan_list c = L"
    using pln.keeps_ready [OF assms(2) step.IH] step.IH assms(3) by (simp_all add: plan_keeps_def)
  have "plan_keeps L c d" using step.hyps(2) by cases (use r pln.step_keeps fill_keeps epoch_begin_keeps delta_save_keeps in auto)
  then show ?case by (rule pln.keeps_then [OF step.IH])
qed (rule pln.keeps_self [OF assms(2)])

section \<open>Making the plan\<close>

text \<open>Which pages are listed depends on the dirty map and on which pages are invisible.\<close>

definition state_key :: "mb_block \<Rightarrow> bytes \<times> bool list" where
  "state_key b = (bk_dirty_map b, map pg_invisible (bk_pages b))"

interpretation sk: blind_marks state_key
proof unfold_locales
  show "state_key (upd_page f b i) = state_key b" if "\<And>p. unmarked (f p) = unmarked p" for f b i
  proof -
    have "pg_invisible (unmarked p) = pg_invisible p" for p by (simp add: unmarked_def)
    then have "map pg_invisible (bk_pages (upd_page f b i)) = map pg_invisible (bk_pages b)"
      by (intro map_pages_upd) (metis that)
    then show ?thesis by (simp add: state_key_def)
  qed
qed (simp_all add: state_key_def)

lemma state_key_page: "(\<And>p. pg_invisible (f p) = pg_invisible p) \<Longrightarrow> state_key (upd_page f b i) = state_key b"
  by (simp add: state_key_def map_pages_upd)

lemma next_state_page_key:
  assumes "state_key c = state_key b"
  shows "next_state_page c i = next_state_page b i"
proof -
  have n: "bk_npages c = bk_npages b" using arg_cong [OF assms, of "length \<circ> snd"] by (simp add: state_key_def bk_npages_def)
  have v: "pg_invisible (bk_pages c ! i) = pg_invisible (bk_pages b ! i)" if "i < bk_npages b" for i
    using arg_cong [OF assms, of "\<lambda>k. snd k ! i"] that n by (simp add: state_key_def bk_npages_def)
  have d: "bk_dirty_map c = bk_dirty_map b" using assms by (simp add: state_key_def)
  show ?thesis
    using n v d
  proof (induction b i rule: next_state_page.induct)
    case (1 b i)
    then show ?case by (subst (1 2) next_state_page.simps) (auto simp del: One_nat_def)
  qed
qed

text \<open>One page listed.\<close>

definition list_page :: "nat \<Rightarrow> mb_page \<Rightarrow> mb_page" where
  "list_page k p = (if plan_can_hold p then p\<lparr>pg_plan_slot := k, pg_plan_hold := True, pg_held := (pg_held p \<or> \<not> pg_hot p)\<rparr>
     else p\<lparr>pg_plan_slot := k\<rparr>)"

lemma plan_page_eq:
  assumes "i < bk_npages b" "length lst < 2 ^ 32"
  shows "plan_page E i (b, run, lst) =
    (let c = upd_page (list_page (length lst)) b i
     in if plan_can_hold (bk_pages b ! i) then (case run_note E c run i of (b', run') \<Rightarrow> (b', run', lst @ [i]))
        else (plan_copy_page c i, run, lst @ [i]))"
  using assms
  by (simp add: plan_page_def list_page_def plan_can_hold_def Let_def upd_page_def bk_npages_def split: prod.split)

text \<open>What listing keeps: \<open>b\<close> is the block before, \<open>b'\<close> after listing the last page of \<open>L\<close>.\<close>

definition plan_grows :: "nat list \<Rightarrow> mb_block \<Rightarrow> mb_block \<Rightarrow> bool" where
  "plan_grows L b b' \<longleftrightarrow> plan_inv L b' \<and> state_key b' = state_key b \<and> bk_plan_active b' \<and>
     bk_plan_data_at b' = bk_plan_data_at b \<and>
     length (bk_plan_dest b') = length (bk_plan_dest b) \<and>
     take (bk_plan_data_at b) (bk_plan_dest b') = take (bk_plan_data_at b) (bk_plan_dest b) \<and>
     drop (bk_plan_data_at b + length L * MB_PAGESIZE) (bk_plan_dest b') =
       drop (bk_plan_data_at b + length L * MB_PAGESIZE) (bk_plan_dest b) \<and>
     (\<forall>i < bk_npages b. pg_live (bk_pages b' ! i) = pg_live (bk_pages b ! i)) \<and>
     (\<forall>i \<in> set L. promised b' i = pg_live (bk_pages b ! i))"

lemma state_key_npages: "state_key b' = state_key b \<Longrightarrow> bk_npages b' = bk_npages b"
  unfolding state_key_def bk_npages_def by (metis length_map prod.inject)

lemma plan_grows_owed:
  assumes "plan_grows L b c" "owed c' = owed c" "state_key c' = state_key c"
  shows "plan_grows L b c'"
proof -
  note g = assms(1) [unfolded plan_grows_def]
  have i: "plan_inv L c" using g by simp
  note o = owed_same [OF assms(2)]
  have t: "plan_inv L c'" "\<And>i. i \<in> set L \<Longrightarrow> promised c' i = promised c i"
    using owed_plan_to [OF assms(2) i] by (simp_all add: plan_to_def plan_same_def)
  have n: "bk_npages c = bk_npages b" by (rule state_key_npages) (use g in simp)
  have l: "pg_live (bk_pages c' ! i) = pg_live (bk_pages c ! i)" if "i < bk_npages b" for i using o(5) [of i] that n by (simp add: owing_def)
  show ?thesis unfolding plan_grows_def o(2-4) assms(3) using g t l by simp
qed

lemma list_grows:
  fixes b i L
  defines "c \<equiv> upd_page (list_page (length L)) b i"
  assumes g: "plan_grows L b0 b" and i: "i < bk_npages b" "i \<notin> set L"
    and room: "bk_plan_data_at b + Suc (length L) * MB_PAGESIZE \<le> length (bk_plan_dest b)"
  shows "plan_grows (L @ [i]) b0 (if plan_can_hold (bk_pages b ! i) then c else plan_copy_page c i)"
proof -
  let ?at = "bk_plan_data_at b" and ?d = "bk_plan_dest b" and ?k = "length L" and ?x = "pg_live (bk_pages b ! i)"
  define h where "h = plan_can_hold (bk_pages b ! i)"
  define b' where "b' = (if h then c else plan_copy_page c i)"
  have inv: "plan_inv L b" and act: "bk_plan_active b" using g by (simp_all add: plan_grows_def)
  have x: "length ?x = MB_PAGESIZE" and nh: "\<not> pg_plan_hold (bk_pages b ! i)" using inv i by (auto simp: plan_inv_def)
  have pg: "bk_pages b' ! j = (if j = i then list_page ?k (bk_pages b ! i) else bk_pages b ! j)" if "j < bk_npages b" for j
    using that i(1) by (simp add: b'_def c_def plan_copy_page_def Let_def upd_page_def bk_npages_def nth_list_update)
  have pi: "bk_pages b' ! i = list_page ?k (bk_pages b ! i)" using pg [OF i(1)] by simp
  have lp: "pg_live (list_page k p) = pg_live p" "pg_plan_slot (list_page k p) = k" "pg_invisible (list_page k p) = pg_invisible p"
      "pg_plan_hold (list_page k p) = (plan_can_hold p \<or> pg_plan_hold p)" for k p by (simp_all add: list_page_def)
  have d: "bk_plan_dest b' = (if h then ?d else put_at ?d (?at + ?k * MB_PAGESIZE) ?x)"
    using i(1) lp by (simp add: b'_def c_def plan_copy_page_def Let_def h_def)
  have n: "bk_npages b' = bk_npages b" "bk_plan_active b' = bk_plan_active b" "bk_plan_data_at b' = ?at"
    by (simp_all add: b'_def c_def plan_copy_page_def Let_def)
  have key: "state_key b' = state_key b"
    using state_key_page [of "list_page ?k" b i] lp(3) by (simp add: b'_def c_def plan_copy_page_def Let_def state_key_def)
  note p = put_around [OF x lessI room]
  have sl: "slot_at b' m = (if m = ?k \<and> \<not> h then ?x else slot_at b m)" if "m \<le> ?k" for m
  proof -
    have "?at + ?k * MB_PAGESIZE + MB_PAGESIZE \<le> length ?d" "?at + m * MB_PAGESIZE + MB_PAGESIZE \<le> length ?d"
      using room that by (simp_all add: MB_PAGESIZE_def)
    then show ?thesis using slot_put [OF x] by (simp add: slot_at_def n(3) d)
  qed
  have neq: "L ! m \<noteq> i" if "m < ?k" for m using that i(2) by (metis nth_mem)
  have "plan_inv (L @ [i]) b'"
    unfolding plan_inv_def
  proof (intro conjI allI impI)
    fix m assume m: "m < length (L @ [i])"
    then show "(L @ [i]) ! m < bk_npages b'" "pg_plan_slot (bk_pages b' ! ((L @ [i]) ! m)) = m"
      using inv i(1) n(1) pg neq lp(2) pi by (auto simp: plan_inv_def nth_append less_Suc_eq)
  next
    show "bk_plan_data_at b' + length (L @ [i]) * MB_PAGESIZE \<le> length (bk_plan_dest b')" using room p(1) n(3) d by simp
  next
    fix j assume j: "j < bk_npages b'"
    show "length (pg_live (bk_pages b' ! j)) = MB_PAGESIZE" using inv j n(1) pg lp(1) by (simp add: plan_inv_def)
    assume hj: "pg_plan_hold (bk_pages b' ! j)"
    show "bk_plan_active b'" using act n(2) by simp
    show "j \<in> set (L @ [i])" using inv j n(1) pg hj by (auto simp: plan_inv_def split: if_splits)
  qed
  moreover have "promised b' j = pg_live (bk_pages b0 ! j)" if j: "j \<in> set (L @ [i])" for j
  proof (cases "j = i")
    case True
    have "promised b' i = ?x"
      using nh pi lp sl [of ?k] by (cases h) (simp_all add: promised_def Let_def h_def)
    then show ?thesis using True g i(1) state_key_npages [of b b0] by (simp add: plan_grows_def)
  next
    case False
    obtain m where m: "m < ?k" "L ! m = j" "j < bk_npages b" "pg_plan_slot (bk_pages b ! j) = m"
      using plan_listD [OF inv, of j] False j by auto
    then have "promised b' j = promised b j" using sl [of m] pg False by (simp add: promised_def Let_def)
    then show ?thesis using g False j by (simp add: plan_grows_def)
  qed
  moreover have "drop (?at + length (L @ [i]) * MB_PAGESIZE) (bk_plan_dest b') = drop (?at + length (L @ [i]) * MB_PAGESIZE) (bk_plan_dest b0)"
  proof -
    have "drop MB_PAGESIZE (drop (?at + ?k * MB_PAGESIZE) ?d) = drop MB_PAGESIZE (drop (?at + ?k * MB_PAGESIZE) (bk_plan_dest b0))"
      using g by (simp add: plan_grows_def)
    then show ?thesis using p(3) by (simp add: d ac_simps)
  qed
  moreover have "take ?at (bk_plan_dest b') = take ?at (bk_plan_dest b0)" "length (bk_plan_dest b') = length (bk_plan_dest b0)"
      "bk_plan_data_at b0 = ?at" "state_key b = state_key b0"
    using g p(1,2) by (simp_all add: plan_grows_def d)
  moreover have "pg_live (bk_pages b' ! j) = pg_live (bk_pages b0 ! j)" if "j < bk_npages b0" for j
    using g that pg [of j] lp(1) state_key_npages [of b b0] by (simp add: plan_grows_def)
  ultimately have "plan_grows (L @ [i]) b0 b'" using key n act unfolding plan_grows_def by simp
  then show ?thesis by (simp add: b'_def h_def)
qed

lemma plan_page_key: "state_key (fst (plan_page E i s)) = state_key (fst s)"
proof -
  have k: "state_key (b\<lparr>bk_plan_dest := d\<rparr>) = state_key b" for b d by (simp add: state_key_def)
  have n: "state_key (fst (case run_note E c run i of (b, r) \<Rightarrow> (b, r, l))) = state_key c" for c run and l :: "nat list"
    using sk.obs_run_note [of E c run i] by (cases "run_note E c run i") simp
  show ?thesis by (cases s) (simp add: plan_page_def plan_copy_page_def Let_def k n state_key_page)
qed

lemma plan_from_pages:
  assumes "state_key (fst s) = state_key b" "i \<le> bk_npages b"
  shows "plan_from E (bk_npages b) s i = fold (plan_page E) (state_pages_from b i) s"
  using assms
proof (induction "bk_npages b - i" arbitrary: s i rule: less_induct)
  case less
  show ?case
  proof (cases "i < bk_npages b")
    case True
    let ?s = "plan_page E i s" and ?j = "next_state_page b (i + 1)"
    have key: "state_key (fst ?s) = state_key b" using plan_page_key less.prems by simp
    have j: "i + 1 \<le> ?j" "?j \<le> bk_npages b" using next_state_page_ge [of "i + 1" b] True by simp_all
    then have "plan_from E (bk_npages b) ?s ?j = fold (plan_page E) (state_pages_from b ?j) ?s"
      using True by (intro less.hyps key) simp_all
    moreover have "max (i + 1) (next_state_page (fst ?s) (i + 1)) = ?j" using next_state_page_key [OF key] j by simp
    ultimately show ?thesis using True by (simp add: plan_from.simps [of E "bk_npages b" s i] state_pages_from.simps [of b i] Let_def)
  qed (simp add: plan_from.simps state_pages_from.simps)
qed

text \<open>The pages as they are when the last run has been refreshed.\<close>

definition listed_v :: "nat \<Rightarrow> bframe \<Rightarrow> pview \<Rightarrow> pview" where
  "listed_v k fr v =
    (let w = v\<lparr>v_page := list_page k (v_page v)\<rparr> in if plan_can_hold (v_page v) then refresh_v fr w else w)"

definition planning :: "os_env \<Rightarrow> mb_block \<Rightarrow> nat list \<Rightarrow> mb_block \<times> prot_run \<times> nat list \<Rightarrow> bool" where
  "planning E b xs = (\<lambda>(c, run, lst). lst = xs \<and> plan_grows xs b c \<and> block_ok c \<and> frame c = frame b \<and>
     (\<forall>i. (\<forall>x \<in> set xs. x < i) \<longrightarrow> run_ok run i) \<and>
     (\<forall>j < bk_npages b. if j \<in> set xs then \<exists>k. view (run_close E c run) j = listed_v k (frame b) (view b j)
        else view (run_close E c run) j = view b j))"

lemma list_page_op: "page_op (upd_page (list_page k)) (\<lambda>_ v. v\<lparr>v_page := list_page k (v_page v)\<rparr>)"
  by (rule page_op_upd) (simp add: keeps_mapped_def list_page_def)

lemma listed_frame: "listed_v k (fr\<lparr>fr_plan := q, fr_plan_at := n, fr_plan_list := l\<rparr>) v = listed_v k fr v"
  by (simp add: listed_v_def refresh_v_def Let_def)

lemma os_listed: "page_ok fr v \<Longrightarrow> os_v (listed_v k fr' v)" if "fr_swapped fr' = fr_swapped fr" "\<not> pg_plan_hold (v_page v)"
  using that by (auto simp: page_ok_def track_v_def os_v_def listed_v_def refresh_v_def note_prot_v_def list_page_def Let_def native_writable)

lemma copy_view [simp]: "view (plan_copy_page b i) j = view b j" "frame (plan_copy_page b i) = frame b" "block_ok (plan_copy_page b i) = block_ok b"
  by (simp_all add: plan_copy_page_def Let_def view_def frame_def block_ok_def block_lens_def page_count_def group_count_def)

lemma planning_step:
  assumes E: "env_ok E" and s: "planning E b xs s" and i: "i < bk_npages b" "\<forall>x \<in> set xs. x < i"
    and room: "bk_plan_data_at b + Suc (length xs) * MB_PAGESIZE \<le> length (bk_plan_dest b)" "length xs < 2 ^ 32"
  shows "planning E b (xs @ [i]) (plan_page E i s)"
proof -
  obtain c run where sp: "s = (c, run, xs)" using s by (auto simp: planning_def split: prod.splits)
  have g: "plan_grows xs b c" and c: "block_ok c" "frame c = frame b" and ro: "run_ok run i"
    and vs: "\<And>j. j < bk_npages b \<Longrightarrow> if j \<in> set xs then \<exists>k. view (run_close E c run) j = listed_v k (frame b) (view b j)
        else view (run_close E c run) j = view b j"
    using s i(2) by (simp_all add: planning_def sp)
  have n: "bk_npages c = bk_npages b" using frame_eqD(1) [OF c(2)] .
  define h where "h = plan_can_hold (bk_pages c ! i)"
  define c1 where "c1 = upd_page (list_page (length xs)) c i"
  define m where "m = (if h then c1 else plan_copy_page c1 i)"
  have gd: "bk_plan_data_at c = bk_plan_data_at b" "length (bk_plan_dest c) = length (bk_plan_dest b)" using g by (simp_all add: plan_grows_def)
  have ni: "i \<notin> set xs" using i(2) by auto
  have gm: "plan_grows (xs @ [i]) b m"
    unfolding m_def h_def c1_def by (rule list_grows [OF g _ ni]) (use i(1) n gd room(1) in simp_all)
  obtain c2 run2 where st: "(c2, run2) = (if h then run_note E m run i else (m, run))"
    by (cases "if h then run_note E m run i else (m, run)") auto
  have pp: "plan_page E i s = (c2, run2, xs @ [i])"
    using plan_page_eq [of i c xs E run] i(1) n room(2) st
    by (auto simp: sp m_def h_def c1_def Let_def split: if_splits prod.splits)
  have am: "acts_on (\<lambda>_ v. v\<lparr>v_page := list_page (length xs) (v_page v)\<rparr>) {i} c m"
    using acts_on_one [OF list_page_op c(1), of i "length xs"] i(1) n by (simp add: acts_on_def m_def c1_def)
  note rs = run_step [OF E c(1) _ ro am st]
  note rc = acts_onD [OF run_close_acts [OF E c(1), of run]]
  have v: "if j \<in> set (xs @ [i]) then \<exists>k. view (run_close E c2 run2) j = listed_v k (frame b) (view b j)
      else view (run_close E c2 run2) j = view b j" if j: "j < bk_npages b" for j
  proof -
    have ok: "run_ok run (bk_npages c)" using run_ok_mono [OF ro] i(1) n by simp
    have fr: "frame (run_close E c run) = frame b" "bk_npages (run_close E c run) = bk_npages b" using rc(2,3) [OF ok] c(2) n by simp_all
    have vi: "view c i = view b i" "view (run_close E c run) i = view b i"
      using rc(4) [OF ok, of i] vs [OF i(1)] ni i(1) n run_ok_pages [OF ro, of i] by auto
    have "h = plan_can_hold (v_page (view b i))" unfolding h_def vi(1) [symmetric] by simp
    then have "view (run_close E c2 run2) j = (if j = i then listed_v (length xs) (frame b) (view b i) else view (run_close E c run) j)"
      using acts_onD(4) [OF rs(1)] j i(1) n fr vi(2) by (auto simp: listed_v_def Let_def simp del: view_sel)
    then show ?thesis using vs [OF j] by (auto simp del: view_sel)
  qed
  have "owed c2 = owed m" "state_key c2 = state_key m"
    using st ow.obs_noted(2) [of h E m run i c2 run2] sk.obs_noted(2) [of h E m run i c2 run2] by simp_all
  then have "plan_grows (xs @ [i]) b c2" by (rule plan_grows_owed [OF gm])
  then show ?thesis
    using rs(2-4) i(1) n c(2) v run_ok_mono [of run2 "Suc i"] by (auto simp: planning_def pp)
qed

lemma planning_all:
  assumes E: "env_ok E" and s: "planning E b [] s" and xs: "sorted_wrt (<) xs" "\<forall>x \<in> set xs. x < bk_npages b"
    and room: "bk_plan_data_at b + length xs * MB_PAGESIZE \<le> length (bk_plan_dest b)" "length xs \<le> 2 ^ 32"
  shows "planning E b xs (fold (plan_page E) xs s)"
  using xs room
proof (induction xs rule: rev_induct)
  case (snoc x xs)
  have "length xs * MB_PAGESIZE \<le> length (xs @ [x]) * MB_PAGESIZE" by (intro mult_le_mono1) simp
  then have "planning E b xs (fold (plan_page E) xs s)" using snoc.prems by (intro snoc.IH) (auto simp: sorted_wrt_append)
  then show ?case using planning_step [OF E] snoc.prems by (simp add: sorted_wrt_append)
qed (use s in simp)

section \<open>The bytes at the end\<close>

lemma slots_concat:
  assumes "at + m * MB_PAGESIZE \<le> length d"
  shows "take (m * MB_PAGESIZE) (drop at d) = concat (map (\<lambda>k. take MB_PAGESIZE (drop (at + k * MB_PAGESIZE) d)) [0..<m])"
  using assms
proof (induction m)
  case (Suc m)
  have "take (Suc m * MB_PAGESIZE) (drop at d) = take (m * MB_PAGESIZE) (drop at d) @ take MB_PAGESIZE (drop (m * MB_PAGESIZE) (drop at d))"
    using take_add [of "m * MB_PAGESIZE" MB_PAGESIZE "drop at d"] by (simp add: add.commute)
  then show ?case using Suc by (simp add: add.commute)
qed simp

lemma buffer_parts:
  assumes b: "plan_inv L b" and nh: "\<And>i. i \<in> set L \<Longrightarrow> \<not> pg_plan_hold (bk_pages b ! i)"
  shows "bk_plan_dest b = take (bk_plan_data_at b) (bk_plan_dest b) @ concat (map (promised b) L) @
    drop (bk_plan_data_at b + length L * MB_PAGESIZE) (bk_plan_dest b)"
proof -
  let ?at = "bk_plan_data_at b" and ?d = "bk_plan_dest b"
  have "map (promised b) L = map (slot_at b) [0..<length L]"
    by (rule nth_equalityI) (use b nh in \<open>auto simp: plan_inv_def promised_def Let_def\<close>)
  then have "concat (map (promised b) L) = take (length L * MB_PAGESIZE) (drop ?at ?d)"
    using slots_concat [of ?at "length L" ?d] b by (simp add: slot_at_def [abs_def] plan_inv_def)
  moreover have "take (length L * MB_PAGESIZE) (drop ?at ?d) @ drop (?at + length L * MB_PAGESIZE) ?d = drop ?at ?d"
    using append_take_drop_id [of "length L * MB_PAGESIZE" "drop ?at ?d"] by (simp add: add.commute)
  ultimately show ?thesis using append_take_drop_id [of ?at ?d] by metis
qed

lemma finish_buffer:
  assumes r: "plan_ready L E b" "bk_plan_list b = L" "bk_plan_active b"
  shows "\<exists>b'. mb_block_plan_finish E b = (b', Inr (take (bk_plan_data_at b) (bk_plan_dest b) @ concat (map (promised b) L) @
    drop (bk_plan_data_at b + length L * MB_PAGESIZE) (bk_plan_dest b)))"
proof -
  define c where "c = fold (\<lambda>k b. fst (plan_take b (bk_plan_list b ! k))) [0..<length L] b"
  have k: "plan_keeps L b c" "\<forall>k \<in> set [0..<length L]. \<not> pg_plan_hold (bk_pages c ! (L ! k))"
    using takes_keep [OF r(1,3,2), of "[0..<length L]"] by (simp_all add: c_def)
  then have t: "plan_inv L c" "plan_same L b c" by (simp_all add: plan_keeps_def plan_to_def)
  have "\<not> pg_plan_hold (bk_pages c ! i)" if "i \<in> set L" for i using k(2) that by (auto simp: in_set_conv_nth)
  note d = buffer_parts [OF t(1) this]
  have e: "bk_plan_data_at c = bk_plan_data_at b" "take (bk_plan_data_at b) (bk_plan_dest c) = take (bk_plan_data_at b) (bk_plan_dest b)"
      "drop (bk_plan_data_at b + length L * MB_PAGESIZE) (bk_plan_dest c) = drop (bk_plan_data_at b + length L * MB_PAGESIZE) (bk_plan_dest b)"
      "map (promised c) L = map (promised b) L"
    using t(2) by (simp_all add: plan_same_def)
  have "bk_plan_dest c = take (bk_plan_data_at b) (bk_plan_dest b) @ concat (map (promised b) L) @
    drop (bk_plan_data_at b + length L * MB_PAGESIZE) (bk_plan_dest b)"
    using d unfolding e .
  then show ?thesis using r(2,3) by (simp add: mb_block_plan_finish_def c_def Let_def split_beta)
qed

section \<open>The planned state is the state\<close>

lemma plan_starts:
  assumes b: "block_wf b" "\<not> bk_plan_active b" and head: "length head \<le> length d"
    and b1: "b1 = b\<lparr>bk_plan_dest := put_at d 0 head, bk_plan_data_at := length head, bk_plan_list := [], bk_plan_active := True\<rparr>"
  shows "planning E b1 [] (b1, None, [])"
proof -
  have n1: "bk_npages b1 = bk_npages b" by (simp add: b1 bk_npages_def)
  have pv: "view b1 j = view b j" "block_ok b1" "frame b1 = (frame b)\<lparr>fr_plan := True, fr_plan_at := length head, fr_plan_list := []\<rparr>" for j
    using block_wfD(2) [OF b(1)] by (simp_all add: b1 view_def frame_def block_ok_def block_lens_def page_count_def group_count_def bk_npages_def)
  have pk: "length (pg_live (bk_pages b ! j)) = MB_PAGESIZE" "\<not> pg_plan_hold (bk_pages b ! j)" if "j < bk_npages b" for j
    using block_invD(2) [OF block_wfD(1) [OF b(1)] that] b(2) by (auto simp: page_ok_def snap_ok_def track_v_def Let_def)
  have "plan_inv [] b1" using pk(1,2) head by (simp add: plan_inv_def n1) (simp add: b1)
  then have "plan_grows [] b1 b1" by (simp add: plan_grows_def) (simp add: b1)
  moreover have "run_ok None = (\<lambda>_. True)" by (rule ext) simp
  ultimately show ?thesis using pv(1,2) n1 by (simp add: planning_def run_close_def)
qed

text \<open>The block a plan starts from: the header is written, nothing is listed.\<close>

definition plan_head :: "mb_block \<Rightarrow> bytes" where
  "plan_head b = state_head b (bk_status_map b) (bk_dirty_map b)"

definition plan_base :: "mb_block \<Rightarrow> bytes \<Rightarrow> mb_block" where
  "plan_base b d = b\<lparr>bk_plan_dest := put_at d 0 (plan_head b), bk_plan_data_at := length (plan_head b), bk_plan_list := [], bk_plan_active := True\<rparr>"

lemma plan_sizes:
  assumes "block_wf b" "bk_sealed b" "length (bk_hash b) = 32"
  shows "length (plan_head b) = state_header_size b"
    "mb_block_state_size b = length (plan_head b) + length (filter (carried b) [0..<bk_npages b]) * MB_PAGESIZE"
proof -
  note bo = block_wfD(2) [OF assms(1)]
  show lh: "length (plan_head b) = state_header_size b"
    using assms(3) bits_b(6,7) [OF block_ok_lens [OF bo]] by (simp add: plan_head_def state_head_def state_header_size_def range_bytes_def)
  show "mb_block_state_size b = length (plan_head b) + length (filter (carried b) [0..<bk_npages b]) * MB_PAGESIZE"
    using assms(2) state_pages_eq [OF bo, of 0] by (simp add: mb_block_state_size_def lh count_state_pages_def)
qed

lemma plan_within_eq:
  assumes E: "env_ok E" and b: "block_wf b" "bk_sealed b" "\<not> bk_plan_active b" and h: "length (bk_hash b) = 32" and n: "bk_npages b \<le> 2 ^ 32"
    and room: "mb_block_state_size b \<le> capacity" "capacity \<le> length d"
  obtains c run where "planning E (plan_base b d) (filter (carried b) [0..<bk_npages b]) (c, run, filter (carried b) [0..<bk_npages b])"
    "mb_block_state_plan_within E True b (Some d) capacity =
       ((run_close E c run)\<lparr>bk_plan_list := filter (carried b) [0..<bk_npages b]\<rparr>, state_header_size b)"
proof -
  note bo = block_wfD(2) [OF b(1)]
  define L where "L = filter (carried b) [0..<bk_npages b]"
  define b1 where "b1 = plan_base b d"
  note size = plan_sizes [OF b(1,2) h, folded L_def]
  have key: "state_key b1 = state_key b" and n1: "bk_npages b1 = bk_npages b" by (simp_all add: b1_def plan_base_def state_key_def bk_npages_def)
  have ld: "length (put_at d 0 (plan_head b)) = length d" using size room by simp
  have pl: "plan_from E (bk_npages b) (b1, None, []) (next_state_page b1 0) = fold (plan_page E) L (b1, None, [])"
    using plan_from_pages [of "(b1, None, [])" b "next_state_page b 0" E] next_state_page_key [OF key] next_state_page_ge [of 0 b]
      state_pages_eq [OF bo, of 0] key by (simp add: L_def)
  have "planning E b1 [] (b1, None, [])" by (rule plan_starts [OF b(1,3) _ b1_def [unfolded plan_base_def]]) (use size room in simp)
  then have all: "planning E b1 L (fold (plan_page E) L (b1, None, []))"
    by (rule planning_all [OF E]) (use size room ld n n1 length_filter_le [of "carried b" "[0..<bk_npages b]"] in
        \<open>auto simp: L_def b1_def plan_base_def sorted_wrt_filter intro: order_trans\<close>)
  obtain c run where c: "fold (plan_page E) L (b1, None, []) = (c, run, L)"
    using all by (cases "fold (plan_page E) L (b1, None, [])") (auto simp: planning_def)
  have "mb_block_state_plan_within E True b (Some d) capacity = ((run_close E c run)\<lparr>bk_plan_list := L\<rparr>, state_header_size b)"
    using b(2,3) room(1) pl c size(1)
    by (simp add: mb_block_state_plan_within_def Let_def mb_block_state_size_def
        plan_head_def [unfolded state_head_def, symmetric] b1_def [unfolded plan_base_def size(1), symmetric] not_less)
  then show ?thesis using that all c by (simp add: L_def b1_def)
qed

lemma plan_made:
  assumes E: "env_ok E" and b: "block_wf b" "bk_sealed b" "\<not> bk_plan_active b" "bk_swapped_in b" and h: "length (bk_hash b) = 32" and n: "bk_npages b \<le> 2 ^ 32"
    and room: "mb_block_state_size b \<le> capacity" "capacity \<le> length d"
  obtains c where "mb_block_state_plan_within E True b (Some d) capacity = (c, state_header_size b)"
    "plan_ready (filter (carried b) [0..<bk_npages b]) E c" "bk_plan_list c = filter (carried b) [0..<bk_npages b]" "bk_plan_active c"
    "bk_plan_data_at c = state_header_size b"
    "take (state_header_size b) (bk_plan_dest c) = state_head b (bk_status_map b) (bk_dirty_map b)"
    "drop (mb_block_state_size b) (bk_plan_dest c) = drop (mb_block_state_size b) d"
    "map (promised c) (filter (carried b) [0..<bk_npages b]) = map (\<lambda>i. pg_live (bk_pages b ! i)) (filter (carried b) [0..<bk_npages b])"
    "block_ok c" "frame c = (frame b)\<lparr>fr_plan := True, fr_plan_at := state_header_size b, fr_plan_list := filter (carried b) [0..<bk_npages b]\<rparr>"
    "\<And>j. j < bk_npages b \<Longrightarrow> if carried b j then \<exists>k. view c j = listed_v k (frame c) (view b j) else view c j = view b j"
    "bk_npages c = bk_npages b"
proof -
  define L where "L = filter (carried b) [0..<bk_npages b]"
  define b1 where "b1 = plan_base b d"
  note size = plan_sizes [OF b(1,2) h, folded L_def]
  obtain c run where all: "planning E b1 L (c, run, L)"
    and w: "mb_block_state_plan_within E True b (Some d) capacity = ((run_close E c run)\<lparr>bk_plan_list := L\<rparr>, state_header_size b)"
    unfolding L_def b1_def by (rule plan_within_eq [OF E b(1-3) h n room])
  define e where "e = (run_close E c run)\<lparr>bk_plan_list := L\<rparr>"
  note g = all [unfolded planning_def prod.case]
  have gr: "plan_grows L b1 (run_close E c run)" by (rule plan_grows_owed) (use g in \<open>simp_all add: blind\<close>)
  have b1v: "view b1 j = view b j" "frame b1 = (frame b)\<lparr>fr_plan := True, fr_plan_at := length (plan_head b), fr_plan_list := []\<rparr>"
      "bk_npages b1 = bk_npages b" for j by (simp_all add: b1_def plan_base_def view_def frame_def bk_npages_def)
  have ok: "run_ok run (bk_npages c)" using g b1v(3) frame_eqD(1) [of c b1] by (auto simp: L_def)
  have fe: "block_ok (run_close E c run)" "frame (run_close E c run) = frame b1"
    using acts_onD(1,2) [OF run_close_acts [OF E _ ok]] g by simp_all
  have fre: "frame e = (frame b)\<lparr>fr_plan := True, fr_plan_at := state_header_size b, fr_plan_list := L\<rparr>"
    using fe(2) b1v(2) size(1) by (simp add: e_def)
  have ne: "bk_npages e = bk_npages b" "bk_addr e = bk_addr b" "bk_swapped_in e" "bk_plan_active e"
    using arg_cong [OF fre, of fr_n] arg_cong [OF fre, of fr_addr] arg_cong [OF fre, of fr_swapped] arg_cong [OF fre, of fr_plan] b(4) by simp_all
  have be: "block_ok e" "\<And>j. view e j = view (run_close E c run) j" "bk_plan_list e = L" using fe(1) by (simp_all add: e_def)
  have vw: "if carried b j then \<exists>k. view e j = listed_v k (frame e) (view b j) else view e j = view b j" if "j < bk_npages b" for j
    using g that b1v be(2) by (auto simp: L_def listed_frame fre simp del: view_sel)
  have os: "os_v (view e j)" if "j < bk_npages b" for j
  proof -
    note pj = block_invD(2) [OF block_wfD(1) [OF b(1)] that]
    have "\<not> pg_plan_hold (v_page (view b j))" using pj b(3) by (auto simp: page_ok_def track_v_def Let_def)
    then have "os_v (listed_v k (frame e) (view b j))" "os_v (view b j)" for k
      using os_listed [OF _ _ pj, of "frame e" k] fre by (simp_all add: os_v_def)
    then show ?thesis using vw [OF that] by (auto simp del: view_sel split: if_splits)
  qed
  have pi: "plan_inv L e" using gr by (simp add: plan_grows_def plan_inv_def e_def bk_npages_def)
  have "plan_ready L E e" using E be(1) pi os block_wfD(3) [OF b(1)] ne by (simp add: plan_ready_def)
  moreover have "bk_plan_data_at e = state_header_size b" "take (state_header_size b) (bk_plan_dest e) = plan_head b"
      "drop (mb_block_state_size b) (bk_plan_dest e) = drop (mb_block_state_size b) d"
    using gr size by (simp_all add: plan_grows_def e_def b1_def plan_base_def put_at_def ac_simps)
  moreover have "promised e = promised (run_close E c run)" by (rule ext) (simp add: e_def promised_def slot_at_def Let_def)
  then have "map (promised e) L = map (\<lambda>i. pg_live (bk_pages b ! i)) L" using gr by (simp add: plan_grows_def b1_def plan_base_def)
  ultimately show ?thesis
    using that [OF w, folded L_def plan_head_def e_def] be(1,3) ne fre vw by blast
qed

text \<open>
  C4: A state taken while the machine runs is the state of the moment it was
  planned: the plan accepts a buffer of the size it announced, and whatever the
  guest writes, maps, protects or gives back after it, whatever epochs are opened
  and deltas saved, and however the filling thread's work is cut up and mixed in,
  the buffer the finish answers holds byte for byte what writing the state at once would have written at the time of the
  plan, and nothing behind it has been touched.
\<close>

theorem planned_state_exact:
  assumes "env_ok E" "block_wf b" "bk_sealed b" "\<not> bk_plan_active b" "bk_swapped_in b" "length (bk_hash b) = 32" "bk_npages b \<le> 2 ^ 32"
    "mb_block_state_size b \<le> capacity" "capacity \<le> length d"
    and run: "(plan_step E)\<^sup>*\<^sup>* (fst (mb_block_state_plan_within E True b (Some d) capacity)) c"
    and sv: "mb_block_save_state b = Inr chunks"
  shows "snd (mb_block_state_plan_within E True b (Some d) capacity) = state_header_size b \<and>
    length (concat chunks) = mb_block_state_size b \<and>
    (\<exists>c'. mb_block_plan_finish E c = (c', Inr (put_at d 0 (concat chunks))))"
proof -
  define L where "L = filter (carried b) [0..<bk_npages b]"
  obtain p where p: "mb_block_state_plan_within E True b (Some d) capacity = (p, state_header_size b)"
    "plan_ready L E p" "bk_plan_list p = L" "bk_plan_active p" "bk_plan_data_at p = state_header_size b"
    "take (state_header_size b) (bk_plan_dest p) = state_head b (bk_status_map b) (bk_dirty_map b)"
    "drop (mb_block_state_size b) (bk_plan_dest p) = drop (mb_block_state_size b) d"
    "map (promised p) L = map (\<lambda>i. pg_live (bk_pages b ! i)) L"
    unfolding L_def by (rule plan_made [OF assms(1-9)])
  have k: "plan_keeps L p c" using plan_run_keeps [OF _ p(2,3)] run p(1) by simp
  have r: "plan_ready L E c" "bk_plan_list c = L" "bk_plan_active c"
    using pln.keeps_ready [OF p(2) k] k p(3,4) plan_toD(3) [of L p c] by (simp_all add: plan_keeps_def)
  obtain ch where "mb_block_save_state b = Inr ch" "concat ch = state_head b (bk_status_map b) (bk_dirty_map b) @ concat (map (\<lambda>i. pg_live (bk_pages b ! i)) L)"
    using save_state_bytes [OF assms(3), folded L_def] by metis
  then have cs: "concat chunks = state_head b (bk_status_map b) (bk_dirty_map b) @ concat (map (\<lambda>i. pg_live (bk_pages b ! i)) L)"
    using sv by simp
  have "length (pg_live (bk_pages b ! i)) = MB_PAGESIZE" if "i \<in> set L" for i
    using block_invD(2) [OF block_wfD(1) [OF assms(2)], of i] that by (simp add: L_def page_ok_def snap_ok_def)
  then have "map length (map (\<lambda>i. pg_live (bk_pages b ! i)) L) = map (\<lambda>_. MB_PAGESIZE) L" by simp
  then have lc: "length (concat (map (\<lambda>i. pg_live (bk_pages b ! i)) L)) = length L * MB_PAGESIZE"
    by (simp only: length_concat map_map) (simp add: sum_list_triv)
  have size: "mb_block_state_size b = state_header_size b + length L * MB_PAGESIZE"
    using assms(3) state_pages_eq [OF block_wfD(2) [OF assms(2)], of 0] by (simp add: mb_block_state_size_def count_state_pages_def L_def)
  have lh: "length (state_head b (bk_status_map b) (bk_dirty_map b)) = state_header_size b"
    using assms(6) bits_b(6,7) [OF block_ok_lens [OF block_wfD(2) [OF assms(2)]]] by (simp add: state_head_def state_header_size_def range_bytes_def)
  have t: "bk_plan_data_at c = state_header_size b" "take (state_header_size b) (bk_plan_dest c) = take (state_header_size b) (bk_plan_dest p)"
      "drop (mb_block_state_size b) (bk_plan_dest c) = drop (mb_block_state_size b) (bk_plan_dest p)" "map (promised c) L = map (promised p) L"
    using k p(5) size by (simp_all add: plan_keeps_def plan_to_def plan_same_def)
  obtain c' where "mb_block_plan_finish E c = (c', Inr (state_head b (bk_status_map b) (bk_dirty_map b) @
      concat (map (\<lambda>i. pg_live (bk_pages b ! i)) L) @ drop (mb_block_state_size b) d))"
    using finish_buffer [OF r] unfolding t(1) size [symmetric] t(2-4) p(6-8) by blast
  moreover have "length (concat chunks) = mb_block_state_size b" using cs lh lc size by simp
  ultimately show ?thesis using p(1) cs by (simp add: put_at_def)
qed

text \<open>The plan of the demo machine's state, an epoch opened, a write and a fill before it ends.\<close>

definition demo_plan :: mb_block where
  "demo_plan = fst (mb_block_state_plan_within demo_env True demo_sealed (Some (replicate 9000 7)) 9000)"

definition demo_planned :: mb_block where
  "demo_planned = fst (mb_block_plan_fill (fst (guest_write demo_env (fst (mb_block_epoch_begin demo_env demo_plan)) 0 0 [42])) 0 1)"

lemma demo_state_size: "mb_block_state_size demo_sealed \<le> 9000"
proof -
  note bo = block_wfD(2) [OF demo_sealed_facts(1)]
  have "count_state_pages demo_sealed \<le> 2"
    using state_pages_eq [OF bo, of 0] length_filter_le [of "carried demo_sealed" "[0..<2]"] demo_sealed_facts(3)
    by (simp add: count_state_pages_def)
  then show ?thesis
    using demo_sealed_facts(3,4) by (simp add: mb_block_state_size_def state_header_size_def MB_MAGIC_def chars_def MB_PAGESIZE_def)
qed

lemma demo_plan_run: "(plan_step demo_env)\<^sup>*\<^sup>* demo_plan demo_planned"
proof -
  have n: "bk_npages demo_sealed \<le> 2 ^ 32" "9000 \<le> length (replicate 9000 (7 :: byte))" using demo_sealed_facts(3) by simp_all
  obtain L where r: "plan_ready L demo_env demo_plan" "bk_npages demo_plan = 2"
    by (rule plan_made [OF demo_env_ok demo_sealed_facts(1,4,5,2) demo_hash n(1) demo_state_size n(2)])
       (use demo_sealed_facts(3) in \<open>auto simp: demo_plan_def\<close>)
  have "bk_npages (fst (mb_block_epoch_begin demo_env demo_plan)) = 2"
    using epoch_begin_keeps [OF r(1)] r(2) plan_toD(2) by (auto simp: plan_keeps_def)
  then have "frame_step demo_env (fst (mb_block_epoch_begin demo_env demo_plan)) (fst (guest_write demo_env (fst (mb_block_epoch_begin demo_env demo_plan)) 0 0 [42]))"
    by (intro fr_write) (simp_all add: MB_PAGESIZE_def)
  then show ?thesis
    unfolding demo_planned_def by (meson pl_epoch pl_fill pl_guest r_into_rtranclp rtranclp.rtrancl_into_rtrancl)
qed

theorem planned_state_exact_witness:
  "\<exists>chunks c'. mb_block_save_state demo_sealed = Inr chunks \<and> (plan_step demo_env)\<^sup>*\<^sup>* demo_plan demo_planned \<and>
    mb_block_plan_finish demo_env demo_planned = (c', Inr (put_at (replicate 9000 7) 0 (concat chunks)))"
proof -
  obtain chunks where sv: "mb_block_save_state demo_sealed = Inr chunks" using save_state_bytes [OF demo_sealed_facts(4)] by metis
  have n: "bk_npages demo_sealed \<le> 2 ^ 32" "9000 \<le> length (replicate 9000 (7 :: byte))" using demo_sealed_facts(3) by simp_all
  from planned_state_exact [OF demo_env_ok demo_sealed_facts(1,4,5,2) demo_hash n(1) demo_state_size n(2)
      demo_plan_run [unfolded demo_plan_def] sv]
  show ?thesis using sv demo_plan_run by blast
qed

end
