(* ===== verification/Mb_Plan_Race.thy ===== *)
theory Mb_Plan_Race
  imports Mb_State
begin

text \<open>
  The race for a page a planned state still owes (\<open>plan_take\<close> of
  \<^verbatim>\<open>memblock.c\<close>): any number of background copiers and of writers (the fault
  handler, or host code about to change the page) reach for it at once. Each
  runs the loop one atomic step at a time, a copy moves one byte at a time, and
  a writer changes bytes as it likes once its call has returned. Elsewhere in
  the model \<open>plan_take\<close> is one step; this is what makes that sound.
\<close>

section \<open>The race\<close>

text \<open>Where a caller is, with its \<open>wait\<close>: before the exchange, copying with so many
  bytes moved, back with \<open>true\<close>, back with \<open>false\<close>.\<close>

datatype taker = Trying bool | Copying bool nat | Took bool | Left bool

record race =
  rc_hold :: nat
  rc_live :: bytes
  rc_slot :: bytes
  rc_takers :: "taker list"

inductive race_step :: "race \<Rightarrow> race \<Rightarrow> bool" where
  exchange: "i < length (rc_takers s) \<Longrightarrow> rc_takers s ! i = Trying w \<Longrightarrow> rc_hold s = 1 \<Longrightarrow>
    race_step s (s\<lparr>rc_hold := 2, rc_takers := (rc_takers s)[i := Copying w 0]\<rparr>)"
| nothing_owed: "i < length (rc_takers s) \<Longrightarrow> rc_takers s ! i = Trying w \<Longrightarrow> rc_hold s = 0 \<Longrightarrow>
    race_step s (s\<lparr>rc_takers := (rc_takers s)[i := Left w]\<rparr>)"
| theirs: "i < length (rc_takers s) \<Longrightarrow> rc_takers s ! i = Trying False \<Longrightarrow> rc_hold s = 2 \<Longrightarrow>
    race_step s (s\<lparr>rc_takers := (rc_takers s)[i := Left False]\<rparr>)"
| pause: "i < length (rc_takers s) \<Longrightarrow> rc_takers s ! i = Trying True \<Longrightarrow> rc_hold s = 2 \<Longrightarrow> race_step s s"
| copy_byte: "i < length (rc_takers s) \<Longrightarrow> rc_takers s ! i = Copying w k \<Longrightarrow> k < MB_PAGESIZE \<Longrightarrow>
    race_step s (s\<lparr>rc_slot := (rc_slot s)[k := rc_live s ! k], rc_takers := (rc_takers s)[i := Copying w (Suc k)]\<rparr>)"
| release: "i < length (rc_takers s) \<Longrightarrow> rc_takers s ! i = Copying w MB_PAGESIZE \<Longrightarrow>
    race_step s (s\<lparr>rc_hold := 0, rc_takers := (rc_takers s)[i := Took w]\<rparr>)"
| write_byte: "i < length (rc_takers s) \<Longrightarrow> rc_takers s ! i = Took True \<or> rc_takers s ! i = Left True \<Longrightarrow> j < MB_PAGESIZE \<Longrightarrow>
    race_step s (s\<lparr>rc_live := (rc_live s)[j := x]\<rparr>)"

inductive_cases race_stepE: "race_step s s'"

definition race_start :: "bytes \<Rightarrow> bytes \<Rightarrow> bool list \<Rightarrow> race" where
  "race_start page slot waits = \<lparr>rc_hold = 1, rc_live = page, rc_slot = slot, rc_takers = map Trying waits\<rparr>"

section \<open>The invariant\<close>

text \<open>What a caller may be while nobody has copied the page.\<close>

definition outside :: "taker \<Rightarrow> bool" where
  "outside p \<longleftrightarrow> (\<exists>w. p = Trying w) \<or> p = Left False"

definition race_inv :: "bytes \<Rightarrow> race \<Rightarrow> bool" where
  "race_inv page s \<longleftrightarrow> length page = MB_PAGESIZE \<and> length (rc_live s) = MB_PAGESIZE \<and> length (rc_slot s) = MB_PAGESIZE \<and>
    (rc_hold s = 1 \<and> rc_live s = page \<and> (\<forall>i < length (rc_takers s). outside (rc_takers s ! i))
   \<or> rc_hold s = 2 \<and> rc_live s = page \<and> (\<exists>c < length (rc_takers s). \<exists>w k. rc_takers s ! c = Copying w k \<and> k \<le> MB_PAGESIZE
        \<and> take k (rc_slot s) = take k page \<and> (\<forall>i < length (rc_takers s). i \<noteq> c \<longrightarrow> outside (rc_takers s ! i)))
   \<or> rc_hold s = 0 \<and> rc_slot s = page \<and> (\<exists>c < length (rc_takers s). (\<exists>w. rc_takers s ! c = Took w)
        \<and> (\<forall>i < length (rc_takers s). i \<noteq> c \<longrightarrow> (\<exists>w. rc_takers s ! i = Trying w \<or> rc_takers s ! i = Left w))))"

lemma outside_simps [simp]: "outside (Trying w)" "outside (Left w) = (\<not> w)" "\<not> outside (Copying w k)" "\<not> outside (Took w)"
  by (auto simp: outside_def)

lemma race_start_inv:
  "length page = MB_PAGESIZE \<Longrightarrow> length slot = MB_PAGESIZE \<Longrightarrow> race_inv page (race_start page slot waits)"
  by (simp add: race_inv_def race_start_def)

lemma race_inv_step:
  assumes st: "race_step s s'" and I: "race_inv page s"
  shows "race_inv page s'"
proof -
  have len: "length page = MB_PAGESIZE" "length (rc_live s) = MB_PAGESIZE" "length (rc_slot s) = MB_PAGESIZE"
    using I by (auto simp: race_inv_def)
  from I consider
      (owed) "rc_hold s = 1" "rc_live s = page" "\<And>i. i < length (rc_takers s) \<Longrightarrow> outside (rc_takers s ! i)"
    | (busy) c w k where "rc_hold s = 2" "rc_live s = page" "c < length (rc_takers s)" "rc_takers s ! c = Copying w k" "k \<le> MB_PAGESIZE"
        "take k (rc_slot s) = take k page" "\<And>i. i < length (rc_takers s) \<Longrightarrow> i \<noteq> c \<Longrightarrow> outside (rc_takers s ! i)"
    | (copied) c w where "rc_hold s = 0" "rc_slot s = page" "c < length (rc_takers s)" "rc_takers s ! c = Took w"
        "\<And>i. i < length (rc_takers s) \<Longrightarrow> i \<noteq> c \<Longrightarrow> \<exists>w. rc_takers s ! i = Trying w \<or> rc_takers s ! i = Left w"
    unfolding race_inv_def by blast
  then show ?thesis
  proof cases
    case owed
    from st show ?thesis
    proof (cases rule: race_step.cases)
      case (exchange i w)
      then show ?thesis using owed len by (auto simp: race_inv_def nth_list_update intro!: exI [of _ i])
    qed (use owed(1) in \<open>auto dest: owed(3)\<close>)
  next
    case busy
    from st show ?thesis
    proof (cases rule: race_step.cases)
      case (theirs i)
      have "i \<noteq> c" using theirs busy(4) by auto
      then show ?thesis using theirs busy len by (auto simp: race_inv_def nth_list_update intro!: exI [of _ c])
    next
      case (copy_byte i w' k')
      have [simp]: "i = c" using busy(7) [of i] copy_byte by auto
      have [simp]: "w' = w" "k' = k" using busy(4) copy_byte by auto
      have "take (Suc k) ((rc_slot s)[k := page ! k]) = take (Suc k) page"
        using copy_byte(4) busy(6) len by (simp add: take_Suc_conv_app_nth)
      then show ?thesis using copy_byte busy len by (auto simp: race_inv_def nth_list_update intro!: exI [of _ c])
    next
      case (release i w')
      have [simp]: "i = c" using busy(7) [of i] release by auto
      have "k = MB_PAGESIZE" using busy(4) release by auto
      then have "rc_slot s = page" using busy(6) len by simp
      moreover have "\<exists>w. rc_takers s ! j = Trying w \<or> rc_takers s ! j = Left w" if "j < length (rc_takers s)" "j \<noteq> c" for j
        using busy(7) [OF that] by (auto simp: outside_def)
      ultimately show ?thesis using release busy len by (auto simp: race_inv_def nth_list_update intro!: exI [of _ c])
    next
      case (write_byte i j x)
      then show ?thesis using busy(4) busy(7) [of i] by (cases "i = c") auto
    qed (use busy(1) I in auto)
  next
    case copied
    from st show ?thesis
    proof (cases rule: race_step.cases)
      case (nothing_owed i w')
      have "i \<noteq> c" using nothing_owed copied(4) by auto
      then show ?thesis using nothing_owed copied len by (auto simp: race_inv_def nth_list_update intro!: exI [of _ c])
    next
      case (copy_byte i w' k)
      then show ?thesis using copied(4) copied(5) [of i] by (cases "i = c") auto
    next
      case (release i w')
      then show ?thesis using copied(4) copied(5) [of i] by (cases "i = c") auto
    next
      case (write_byte i j x)
      then show ?thesis using copied len by (auto simp: race_inv_def intro!: exI [of _ c])
    qed (use copied(1) in auto)
  qed
qed

section \<open>No page is torn\<close>

text \<open>
  C8: However copiers and writers interleave, a planned state never keeps a torn
  page: while the page is owed or being copied nobody has changed it; once it is
  no longer owed its place in the state holds exactly the bytes it had when the
  plan was made, whatever the writers did since; exactly one caller is told it
  made the copy; and a writer that waits does so only while somebody is copying,
  so its wait ends.
\<close>

theorem plan_race_untorn:
  assumes "length page = MB_PAGESIZE" "length slot = MB_PAGESIZE" "race_step\<^sup>*\<^sup>* (race_start page slot waits) s"
  shows "(if rc_hold s = 0 then rc_slot s = page else rc_live s = page)
    \<and> card {i. i < length (rc_takers s) \<and> (\<exists>w. rc_takers s ! i = Took w)} = (if rc_hold s = 0 then 1 else 0)
    \<and> (rc_hold s = 2 \<longleftrightarrow> (\<exists>i < length (rc_takers s). \<exists>w k. rc_takers s ! i = Copying w k \<and> k \<le> MB_PAGESIZE))"
proof -
  have I: "race_inv page s"
    using assms(3)
  proof induction
    case base
    show ?case by (rule race_start_inv [OF assms(1,2)])
  next
    case (step t u)
    then show ?case using race_inv_step by blast
  qed
  let ?T = "{i. i < length (rc_takers s) \<and> (\<exists>w. rc_takers s ! i = Took w)}"
  from I consider
      (owed) "rc_hold s = 1" "rc_live s = page" "\<And>i. i < length (rc_takers s) \<Longrightarrow> outside (rc_takers s ! i)"
    | (busy) c w k where "rc_hold s = 2" "rc_live s = page" "c < length (rc_takers s)" "rc_takers s ! c = Copying w k" "k \<le> MB_PAGESIZE"
        "\<And>i. i < length (rc_takers s) \<Longrightarrow> i \<noteq> c \<Longrightarrow> outside (rc_takers s ! i)"
    | (copied) c w where "rc_hold s = 0" "rc_slot s = page" "c < length (rc_takers s)" "rc_takers s ! c = Took w"
        "\<And>i. i < length (rc_takers s) \<Longrightarrow> i \<noteq> c \<Longrightarrow> \<exists>w. rc_takers s ! i = Trying w \<or> rc_takers s ! i = Left w"
    unfolding race_inv_def by blast
  then show ?thesis
  proof cases
    case owed
    have "?T = {}" using owed(3) by fastforce
    moreover have "\<not> (\<exists>i < length (rc_takers s). \<exists>w k. rc_takers s ! i = Copying w k \<and> k \<le> MB_PAGESIZE)"
      using owed(3) by fastforce
    ultimately show ?thesis using owed(1,2) by simp
  next
    case busy
    have "\<not> (\<exists>w. rc_takers s ! i = Took w)" if "i < length (rc_takers s)" for i
      using busy(4) busy(6) [OF that] by (cases "i = c") auto
    then have "?T = {}" by blast
    then show ?thesis using busy by auto
  next
    case copied
    have "?T = {c}" using copied(3-5) by fastforce
    moreover have "\<not> (\<exists>i < length (rc_takers s). \<exists>w k. rc_takers s ! i = Copying w k \<and> k \<le> MB_PAGESIZE)"
      using copied(4,5) by (metis taker.distinct(1,7,9))
    ultimately show ?thesis using copied(1,2) by simp
  qed
qed

theorem plan_race_untorn_witness:
  "race_step\<^sup>*\<^sup>* (race_start zero_page zero_page [False, True]) ((race_start zero_page zero_page [False, True])
       \<lparr>rc_hold := 2, rc_takers := [Copying False 0, Trying True]\<rparr>) \<and>
   rc_live ((race_start zero_page zero_page [False, True])\<lparr>rc_hold := 2, rc_takers := [Copying False 0, Trying True]\<rparr>) = zero_page"
proof -
  let ?s = "race_start zero_page zero_page [False, True]"
  have "race_step ?s (?s\<lparr>rc_hold := 2, rc_takers := (rc_takers ?s)[0 := Copying False 0]\<rparr>)"
    by (rule exchange) (simp_all add: race_start_def)
  then have r: "race_step\<^sup>*\<^sup>* ?s (?s\<lparr>rc_hold := 2, rc_takers := [Copying False 0, Trying True]\<rparr>)"
    by (simp add: race_start_def)
  have "length zero_page = MB_PAGESIZE" by (simp add: zero_page_def)
  from plan_race_untorn [OF this this r] r show ?thesis by simp
qed

end
