(* ===== verification/Spec2Isabelle.thy ===== *)
theory Spec2Isabelle
  imports Mb_Sha256 Mb_Fs_Spec Mb_Threads_Spec Mb_Delta_Both Mb_State_Props Mb_Plain Mb_Host_Load Mb_Host_Deltas Mb_Plan Mb_Plan_Race
begin

text \<open>
  \<^bold>\<open>miniBox\<close> is a determinism sandbox: it runs a guest program (an ELF64 image) in a
  memory block of its own, answers its system calls itself, and can save, load and
  replay the whole machine. This development models the host side of the program,
  \<^verbatim>\<open>src/source/host\<close>, as it is built for Linux on x86-64, and proves what makes
  saving and replaying correct.

  \<^bold>\<open>The parts and how they work together.\<close> The host (\<^verbatim>\<open>host.c\<close>) owns one memory block,
  one loader, one thread set, one file system and one pool of call thunks. The
  loader (\<^verbatim>\<open>elf.c\<close>) checks the image and copies its segments into the block. The
  guest's system calls reach the host's dispatcher, which hands memory calls to the
  block (\<^verbatim>\<open>memblock.c\<close>), file calls to the file system (\<^verbatim>\<open>fs.c\<close>) and thread calls
  to the thread set (\<^verbatim>\<open>threading.c\<close>). A guest's store to a page the block has
  write-protected faults; the fault handler (\<open>trip\<close> of \<^verbatim>\<open>tripguard.c\<close>) notes the
  page as dirty, in the epoch, or owed to a planned state, and lets the store
  proceed. States and deltas are byte streams that the block, the thread set, the
  file system and the host write one behind the other.

  \<^bold>\<open>How code became definitions.\<close> Structs are records, enumerations datatypes, machine
  integers words of their width where they can wrap and \<open>nat\<close> where the code bounds
  them. An operation takes the state and answers the new state with a result; an
  error is \<open>Inl\<close> of an \<open>errno\<close> or \<open>None\<close>. A loop is a recursion with a termination
  proof, on the distance to its bound; the hashing loops and the scheduler's are partial
  functions that are shown to return. Nothing runs on fuel. A routine that writes through a
  callback answers the pieces it hands over, in order; a reader reads a byte string
  that may end early. What the operating system grants (protecting a range, memory
  for a copy) is the parameter \<open>os_env\<close>, and what the host gets from outside (allocations,
  the bytes of fresh memory, the thunk arena, the state a half-read thread set is left in) is \<open>host_env\<close>;
  \<open>env_ok\<close> names an operating system that grants what it is asked, with the page
  size of x86-64. Guest code is a parameter: every sequence of stores and memory
  calls is a run of \<open>frame_step\<close>.

  \<^bold>\<open>Theories.\<close>
    \<^item> Words, byte strings, ranges: \<^verbatim>\<open>Mb_Prelude\<close>, \<^verbatim>\<open>Mb_Ranges\<close>
      (\<^verbatim>\<open>minibox_internal.h\<close>), \<^verbatim>\<open>Mb_Stream\<close> (the read-all and write-all loops and the
      buffers in memory), \<^verbatim>\<open>Mb_Bits\<close> (the page bitmaps).
    \<^item> SHA-256 (\<^verbatim>\<open>sha256.c\<close>): \<^verbatim>\<open>Mb_Sha256\<close>.
    \<^item> Memory block, definitions (\<^verbatim>\<open>memblock.c\<close>): \<^verbatim>\<open>Mb_Page\<close> (one page),
      \<^verbatim>\<open>Mb_Block\<close> (the record and its bookkeeping, \<open>trip\<close>), \<^verbatim>\<open>Mb_Alloc\<close> (finding
      free pages), \<^verbatim>\<open>Mb_Mem\<close> (mapping, protecting, giving back, growing, moving,
      sealing, epochs), \<^verbatim>\<open>Mb_State\<close> (whole states, planned states, loading),
      \<^verbatim>\<open>Mb_Delta\<close> (deltas).
    \<^item> Memory block, proofs: \<^verbatim>\<open>Mb_Block_View\<close> and \<^verbatim>\<open>Mb_Block_Steps\<close> show the block one page
      at a time, so that every primitive is an operation on one page (locale
      \<open>page_op\<close>); \<^verbatim>\<open>Mb_Mem_Views\<close>, \<^verbatim>\<open>Mb_Epoch\<close>, \<^verbatim>\<open>Mb_State_Views\<close> and
      \<^verbatim>\<open>Mb_Delta_Views\<close> say what each operation does to each page; \<^verbatim>\<open>Mb_Mem_Inv\<close>
      and \<^verbatim>\<open>Mb_Mem_Ops\<close> hold the invariant \<open>block_wf\<close> and its preservation;
      \<^verbatim>\<open>Mb_Side\<close> what the bookkeeping leaves alone (locales \<open>blind_marks\<close> and
      \<open>blind_notes\<close>); \<^verbatim>\<open>Mb_Frame\<close> the guest's runs and
      the locale \<open>guest_memory\<close>, which lifts a relation kept by protecting, freeing and
      storing to all calls and runs; \<^verbatim>\<open>Mb_Demo\<close> a machine of two pages, made by the
      code's own operations.
    \<^item> Memory block, results: \<^verbatim>\<open>Mb_Plain\<close> (refinement of a plain row of pages),
      \<^verbatim>\<open>Mb_Since\<close>, \<^verbatim>\<open>Mb_Delta_Props\<close>, \<^verbatim>\<open>Mb_Delta_Trip\<close>, \<^verbatim>\<open>Mb_Delta_Compose\<close>,
      \<^verbatim>\<open>Mb_Delta_Both\<close> (epochs and deltas), \<^verbatim>\<open>Mb_State_Trip\<close>, \<^verbatim>\<open>Mb_State_Props\<close>
      (states and the seal), \<^verbatim>\<open>Mb_Plan\<close> (a planned state filled while the machine runs),
      \<^verbatim>\<open>Mb_Plan_Race\<close> (the copy of one owed page against a guest's write).
    \<^item> File system (\<^verbatim>\<open>fs.c\<close>): \<^verbatim>\<open>Mb_Fs\<close>; invariant and lemmas in \<^verbatim>\<open>Mb_Fs_Inv\<close>,
      \<^verbatim>\<open>Mb_Fs_Props\<close>; results in \<^verbatim>\<open>Mb_Fs_Spec\<close>.
    \<^item> Green threads (\<^verbatim>\<open>threading.c\<close>): \<^verbatim>\<open>Mb_Threads\<close>; \<^verbatim>\<open>Mb_Threads_Inv\<close>,
      \<^verbatim>\<open>Mb_Threads_Ops\<close>, \<^verbatim>\<open>Mb_Threads_Props\<close>, \<^verbatim>\<open>Mb_Threads_Steps\<close>; results in
      \<^verbatim>\<open>Mb_Threads_Spec\<close>.
    \<^item> Loader (\<^verbatim>\<open>elf.c\<close>): \<^verbatim>\<open>Mb_Elf\<close>, \<^verbatim>\<open>Mb_Elf_Props\<close>. Thunks (\<^verbatim>\<open>context.c\<close>):
      \<^verbatim>\<open>Mb_Thunks\<close>.
    \<^item> Host (\<^verbatim>\<open>host.c\<close>): \<^verbatim>\<open>Mb_Host\<close> (record, guest memory access, death and stop),
      \<^verbatim>\<open>Mb_Syscalls\<close> (\<open>dispatch_inner\<close>), \<^verbatim>\<open>Mb_Host_Life\<close> (layout, creation, activation,
      seal), \<^verbatim>\<open>Mb_Host_State\<close> (states and deltas of the machine); results in
      \<^verbatim>\<open>Mb_Host_Trip\<close>, \<^verbatim>\<open>Mb_Host_Deltas\<close> and \<^verbatim>\<open>Mb_Host_Load\<close>.

  \<^bold>\<open>What is shown.\<close>
    \<^item> Memory. Seen through its calls, the block is a plain row of pages with statuses and
      bytes: dirty marks, held and hot pages, epochs and faults change no answer. Free
      pages are found exactly when a long enough gap exists.
    \<^item> Epochs and deltas. After any run of the guest inside an epoch, the delta turns a
      machine that was the same when the epoch began into the same machine again. Two
      deltas composed do what the two do one after the other, and composing in memory
      writes the bytes that composing streams writes.
    \<^item> States. A state loads back into any machine of the same seal, whatever ran in
      between: for the block, for the thread set, for the open files and for the whole
      machine together. A state planned and filled while the machine runs on is, byte for
      byte, the state of the moment it was planned. A page owed to a planned state is copied whole, however the
      filling thread and a guest's write interleave. The seal's hash is the
      SHA-256 of the sealed layout and bytes.
    \<^item> The whole machine. A frame of the machine is rebuilt from its delta with threads,
      files and break; a load or a delta that fails either changed nothing or leaves the
      machine marked dead.
    \<^item> Threads. The invariant holds at every reachable thread set; scheduling is round
      robin, wake-up and requeue are first come first served, deadlines expire exactly
      when they are due, the clock saturates.
    \<^item> Files. The invariant holds at every reachable file system; descriptors are the
      lowest free ones; reads and writes act on byte strings; the output ring holds the
      newest bytes.
    \<^item> Loader and thunks. No read outside the image; no thunk is overwritten.
    \<^item> Where the code differs from its documentation, the difference is a theorem.

  \<^bold>\<open>Bounds.\<close> Theorems on the block are for any number of pages; addresses are 64-bit words,
  and the range operations are shown not to wrap for ranges inside the block. A
  host page is taken to be one machine page (4096 bytes), as on x86-64; the refresh of
  groups of pages is in the definitions. An operation on the block is one step; the
  one place where two threads meet without the lock, the hand-over of an owed page, is
  the step relation of \<^verbatim>\<open>Mb_Plan_Race\<close>.

  \<^bold>\<open>Not modelled.\<close> The platform layer (\<^verbatim>\<open>pal_*.c\<close>) and the signal plumbing around \<open>trip\<close>
  are calls into the operating system; the interop code, \<^verbatim>\<open>guarded.S\<close> and the
  wrapper of the dispatcher that swaps segment and floating-point registers are
  assembly or need a model of the processor. The diagnostic log, trace lines and the copy of
  guest output to a host file are output only. \<^verbatim>\<open>cinterface.c\<close> forwards each
  exported name in one line. Routines that only give memory back (\<open>mb_elf_free\<close>,
  \<open>mb_host_destroy\<close>, \<open>host_new_unwind\<close>) have no effect the model can see. The Windows,
  macOS and aarch64 branches are other programs than the one modelled. The
  graphics and cache bridges forward to drivers through generated code. The
  guest kit and the third-party sources run inside the sandbox, where the host treats
  them as any guest code.
\<close>

end
